(* ===== verification/MTC_Prelude.thy ===== *)
theory MTC_Prelude
  imports Main "HOL-Library.AList" "HOL-Library.Signed_Division"
begin

text \<open>
  Shared vocabulary of the development: Rust's fixed-width integers as bounded
  integers with checked and saturating arithmetic, results as sums with the sequencing
  of the \<open>?\<close> operator, and SQL tables as association lists with distinct keys together
  with the sums over their rows that the accounting invariants use.
\<close>

named_theorems res_simps "inversion of result-valued programs"
named_theorems tbl_simps "lookups, keys and sums of tables after an update"
named_theorems i64_simps "unfolding of the 64-bit arithmetic"

type_synonym uuid = string \<comment> \<open>the canonical text form the tables store\<close>
type_synonym byte = char \<comment> \<open>one octet; byte strings are char lists\<close>
type_synonym ('k, 'r) table = "('k \<times> 'r) list"

subsection \<open>Bounded integers\<close>

definition i64_max :: int where
  "i64_max = 9223372036854775807"

definition i64_min :: int where
  "i64_min = - 9223372036854775808"

definition in_i64 :: "int \<Rightarrow> bool" where
  "in_i64 x \<longleftrightarrow> i64_min \<le> x \<and> x \<le> i64_max"

text \<open>Rust's \<open>checked_add\<close>, \<open>checked_sub\<close>, \<open>checked_mul\<close> on \<open>i64\<close>: the exact result, or \<open>None\<close>.\<close>

definition checked :: "int \<Rightarrow> int option" where
  "checked x = (if in_i64 x then Some x else None)"

text \<open>Rust's \<open>saturating_*\<close> on \<open>i64\<close>: the exact result, clamped to the range.\<close>

definition sat :: "int \<Rightarrow> int" where
  "sat x = (if x < i64_min then i64_min else if i64_max < x then i64_max else x)"

lemmas i64_bounds = i64_max_def i64_min_def

lemma checked_Some_iff [simp]: "checked x = Some y \<longleftrightarrow> y = x \<and> in_i64 x"
  by (auto simp: checked_def)

lemma checked_None_iff [simp]: "checked x = None \<longleftrightarrow> \<not> in_i64 x"
  by (auto simp: checked_def)

lemma sat_in_range: "in_i64 x \<Longrightarrow> sat x = x"
  by (auto simp: sat_def in_i64_def)

lemma sat_mono: "x \<le> y \<Longrightarrow> sat x \<le> sat y"
  by (auto simp: sat_def i64_bounds)

lemma in_i64_sat [simp]: "in_i64 (sat x)"
  by (auto simp: sat_def in_i64_def i64_bounds)

lemma sat_le_self: "0 \<le> x \<Longrightarrow> sat x \<le> x"
  by (auto simp: sat_def i64_bounds)

lemma sat_nonneg: "0 \<le> x \<Longrightarrow> 0 \<le> sat x"
  by (auto simp: sat_def i64_bounds)

lemma sat_le_iff: "y < i64_max \<Longrightarrow> i64_min \<le> y \<Longrightarrow> sat x \<le> y \<longleftrightarrow> x \<le> y"
  by (auto simp: sat_def i64_bounds)

lemma sat_le_max: "sat x \<le> i64_max"
  by (auto simp: sat_def i64_bounds)

lemma in_i64_0 [simp]: "in_i64 0"
  by (simp add: in_i64_def i64_bounds)

subsection \<open>Results\<close>

text \<open>Sequencing of fallible steps: the first error ends the computation, as \<open>?\<close> does.\<close>

fun rbind :: "'e + 'a \<Rightarrow> ('a \<Rightarrow> 'e + 'b) \<Rightarrow> 'e + 'b" where
  "rbind (Inl e) f = Inl e"
| "rbind (Inr x) f = f x"

text \<open>An early return with an error unless the condition holds.\<close>

definition ensure :: "bool \<Rightarrow> 'e \<Rightarrow> 'e + unit" where
  "ensure c e = (if c then Inr () else Inl e)"

definition ok_or :: "'a option \<Rightarrow> 'e \<Rightarrow> 'e + 'a" where
  "ok_or x e = (case x of None \<Rightarrow> Inl e | Some y \<Rightarrow> Inr y)"

lemma rbind_Inr_iff [res_simps]: "rbind r f = Inr y \<longleftrightarrow> (\<exists>x. r = Inr x \<and> f x = Inr y)"
  by (cases r) auto

lemma rbind_Inl_iff: "rbind r f = Inl e \<longleftrightarrow> r = Inl e \<or> (\<exists>x. r = Inr x \<and> f x = Inl e)"
  by (cases r) auto

lemma ensure_Inr_iff [res_simps]: "ensure c e = Inr u \<longleftrightarrow> c"
  by (simp add: ensure_def)

lemma ensure_Inl_iff [res_simps]: "ensure c e = Inl e' \<longleftrightarrow> \<not> c \<and> e' = e"
  by (auto simp: ensure_def)

lemma ok_or_Inr_iff [res_simps]: "ok_or x e = Inr y \<longleftrightarrow> x = Some y"
  by (cases x) (auto simp: ok_or_def)

lemma ok_or_Inl_iff [res_simps]: "ok_or x e = Inl e' \<longleftrightarrow> x = None \<and> e' = e"
  by (cases x) (auto simp: ok_or_def)

text \<open>A loop whose body may return early with an error.\<close>

fun for_each :: "('a \<Rightarrow> 'e + unit) \<Rightarrow> 'a list \<Rightarrow> 'e + unit" where
  "for_each f [] = Inr ()"
| "for_each f (x # xs) = rbind (f x) (\<lambda>_. for_each f xs)"

lemma for_each_Inr_iff [res_simps]: "for_each f xs = Inr u \<longleftrightarrow> (\<forall>x \<in> set xs. f x = Inr ())"
  by (induction xs) (auto simp: res_simps)

subsection \<open>Tables\<close>

text \<open>
  A table keeps one row per primary key. \<open>tput\<close> stores a row under a key (in place when
  the key exists, at the end otherwise); \<open>tsum\<close> adds up a column over all rows, the way
  the \<open>SUM\<close> queries and the accounting invariants do.
\<close>

definition wf_table :: "('k, 'r) table \<Rightarrow> bool" where
  "wf_table t \<longleftrightarrow> distinct (map fst t)"

definition tget :: "('k, 'r) table \<Rightarrow> 'k \<Rightarrow> 'r option" where
  "tget t k = map_of t k"

definition tput :: "'k \<Rightarrow> 'r \<Rightarrow> ('k, 'r) table \<Rightarrow> ('k, 'r) table" where
  "tput k r t = AList.update k r t"

definition tdel :: "'k \<Rightarrow> ('k, 'r) table \<Rightarrow> ('k, 'r) table" where
  "tdel k t = filter (\<lambda>(k', r). k' \<noteq> k) t"

definition tsum :: "('k \<Rightarrow> 'r \<Rightarrow> int) \<Rightarrow> ('k, 'r) table \<Rightarrow> int" where
  "tsum f t = sum_list (map (\<lambda>(k, r). f k r) t)"

definition trows :: "('k, 'r) table \<Rightarrow> ('k \<times> 'r) set" where
  "trows t = set t"

lemma tget_tput [tbl_simps]: "tget (tput k r t) k' = (if k' = k then Some r else tget t k')"
  by (simp add: tget_def tput_def update_conv')

lemma tput_fresh: "tget t k = None \<Longrightarrow> tput k r t = t @ [(k, r)]"
  by (induction t) (auto simp: tget_def tput_def split: if_splits)

lemma tget_Nil [tbl_simps]: "tget [] k = None"
  by (simp add: tget_def)

lemma wf_table_Nil [simp]: "wf_table []"
  by (simp add: wf_table_def)

lemma wf_tput [simp, intro]: "wf_table t \<Longrightarrow> wf_table (tput k r t)"
  by (simp add: wf_table_def tput_def distinct_update)

lemma wf_tdel [simp, intro]: "wf_table t \<Longrightarrow> wf_table (tdel k t)"
  by (simp add: wf_table_def tdel_def distinct_map_filter)

lemma tget_tdel [tbl_simps]: "tget (tdel k t) k' = (if k' = k then None else tget t k')"
  by (induction t) (auto simp: tget_def tdel_def)

lemma tsum_Nil [simp]: "tsum f [] = 0"
  by (simp add: tsum_def)

lemma tsum_tput_fresh [tbl_simps]: "tget t k = None \<Longrightarrow> tsum f (tput k r t) = tsum f t + f k r"
  by (induction t) (auto simp: tsum_def tput_def tget_def)

lemma tsum_tput_old [tbl_simps]:
  "tget t k = Some r0 \<Longrightarrow> tsum f (tput k r t) = tsum f t - f k r0 + f k r"
  by (induction t) (auto simp: tsum_def tput_def tget_def split: if_splits)

lemma tsum_tdel [tbl_simps]:
  "wf_table t \<Longrightarrow> tget t k = Some r \<Longrightarrow> tsum f (tdel k t) = tsum f t - f k r"
proof (induction t)
  case (Cons x t)
  obtain k' r' where x: "x = (k', r')" by force
  have absent: "k' = k \<Longrightarrow> filter (\<lambda>(k', r). k' \<noteq> k) t = t"
    using Cons.prems x by (auto simp: wf_table_def filter_id_conv) (metis fst_conv image_eqI)
  show ?case
    using Cons x absent by (auto simp: wf_table_def tsum_def tget_def tdel_def split: if_splits)
qed (simp add: tget_def)

lemma find_None_append: "find P xs = None \<Longrightarrow> find P (xs @ ys) = find P ys"
  by (induction xs) (auto split: if_splits)

lemma find_Some_append: "find P xs = Some x \<Longrightarrow> find P (xs @ ys) = Some x"
  by (induction xs) (auto split: if_splits)

text \<open>
  \<open>UPDATE ... WHERE key = k AND P\<close> with its affected-rows test, and the same statement without
  a key, which changes every row that satisfies \<open>P\<close>.
\<close>

definition tupdate :: "'k \<Rightarrow> ('r \<Rightarrow> bool) \<Rightarrow> ('r \<Rightarrow> 'r) \<Rightarrow> ('k, 'r) table \<Rightarrow> ('k, 'r) table \<times> bool" where
  "tupdate k P f t = (case tget t k of
      None \<Rightarrow> (t, False)
    | Some r \<Rightarrow> if P r then (tput k (f r) t, True) else (t, False))"

definition tupdate_all :: "('r \<Rightarrow> bool) \<Rightarrow> ('r \<Rightarrow> 'r) \<Rightarrow> ('k, 'r) table \<Rightarrow> ('k, 'r) table" where
  "tupdate_all P f t = map (\<lambda>(k, r). (k, if P r then f r else r)) t"

lemma tupdate_iff:
  "tupdate k P f t = (t', b) \<longleftrightarrow>
     b \<and> (\<exists>r. tget t k = Some r \<and> P r \<and> t' = tput k (f r) t) \<or>
     \<not> b \<and> t' = t \<and> (\<forall>r. tget t k = Some r \<longrightarrow> \<not> P r)"
  by (auto simp: tupdate_def split: option.splits if_splits)

lemma tget_tupdate_all [tbl_simps]:
  "tget (tupdate_all P f t) k = map_option (\<lambda>r. if P r then f r else r) (tget t k)"
  by (induction t) (auto simp: tupdate_all_def tget_def)

lemma wf_tupdate_all [simp, intro]: "wf_table t \<Longrightarrow> wf_table (tupdate_all P f t)"
  by (simp add: tupdate_all_def wf_table_def comp_def case_prod_beta)

lemma tget_in_trows: "tget t k = Some r \<Longrightarrow> (k, r) \<in> trows t"
  by (simp add: tget_def trows_def map_of_SomeD)

lemma trows_tget: "wf_table t \<Longrightarrow> (k, r) \<in> trows t \<Longrightarrow> tget t k = Some r"
  by (simp add: tget_def trows_def wf_table_def)

lemma tsum_cong: "(\<And>k r. (k, r) \<in> trows t \<Longrightarrow> f k r = g k r) \<Longrightarrow> tsum f t = tsum g t"
  by (auto simp: tsum_def trows_def intro!: arg_cong [where f = sum_list])

lemma tsum_nonneg:
  "(\<And>k r. (k, r) \<in> trows t \<Longrightarrow> 0 \<le> f k r) \<Longrightarrow> 0 \<le> tsum f t"
  by (induction t) (auto simp: tsum_def trows_def)

lemma tsum_ge_member:
  assumes "\<And>k r. (k, r) \<in> trows t \<Longrightarrow> 0 \<le> f k r" and "tget t k = Some r"
  shows "f k r \<le> tsum f t"
  using assms
proof (induction t)
  case (Cons x t)
  obtain k' r' where x: "x = (k', r')" by force
  show ?case
  proof (cases "k' = k")
    case True
    have "0 \<le> tsum f t" using Cons.prems(1) by (intro tsum_nonneg) (auto simp: trows_def)
    with True x Cons.prems(2) show ?thesis by (simp add: tsum_def tget_def)
  next
    case False
    have "f k r \<le> tsum f t"
      using Cons.IH Cons.prems False x by (auto simp: trows_def tget_def)
    moreover have "0 \<le> f k' r'" using Cons.prems(1) x by (auto simp: trows_def)
    ultimately show ?thesis using x by (simp add: tsum_def)
  qed
qed (simp add: tget_def)

text \<open>
  Tables whose rows never vanish and change along a relation only (\<open>rows_evolve\<close>), and that
  also get no new rows (\<open>rows_change\<close>). The relation is a contract of the statements that
  write the table: it holds of a whole transaction when it holds of each assignment under
  its condition.
\<close>

definition rows_evolve :: "('r \<Rightarrow> 'r \<Rightarrow> bool) \<Rightarrow> ('k, 'r) table \<Rightarrow> ('k, 'r) table \<Rightarrow> bool" where
  "rows_evolve R t t' \<longleftrightarrow> (wf_table t \<longrightarrow> wf_table t') \<and>
     (\<forall>k r. tget t k = Some r \<longrightarrow> (\<exists>r'. tget t' k = Some r' \<and> R r r'))"

definition rows_change :: "('r \<Rightarrow> 'r \<Rightarrow> bool) \<Rightarrow> ('k, 'r) table \<Rightarrow> ('k, 'r) table \<Rightarrow> bool" where
  "rows_change R t t' \<longleftrightarrow> rows_evolve R t t' \<and> (\<forall>k. tget t k = None \<longrightarrow> tget t' k = None)"

locale row_evolution =
  fixes R :: "'r \<Rightarrow> 'r \<Rightarrow> bool"
  assumes evolves_refl: "R r r"
    and evolves_trans: "R r r' \<Longrightarrow> R r' r'' \<Longrightarrow> R r r''"
begin

lemma evolve_refl: "rows_evolve R t t"
  by (simp add: rows_evolve_def evolves_refl)

lemma evolve_trans: "rows_evolve R t t' \<Longrightarrow> rows_evolve R t' t'' \<Longrightarrow> rows_evolve R t t''"
  unfolding rows_evolve_def by (metis evolves_trans)

lemma evolve_insert: "tget t k = None \<Longrightarrow> rows_evolve R t (tput k r t)"
  by (auto simp: rows_evolve_def tget_tput evolves_refl)

lemma evolve_row: "rows_evolve R t t' \<Longrightarrow> tget t k = Some r \<Longrightarrow> \<exists>r'. tget t' k = Some r' \<and> R r r'"
  by (simp add: rows_evolve_def)

lemma change_evolve: "rows_change R t t' \<Longrightarrow> rows_evolve R t t'"
  by (simp add: rows_change_def)

lemma change_refl: "rows_change R t t"
  by (simp add: rows_change_def evolve_refl)

lemma change_trans: "rows_change R t t' \<Longrightarrow> rows_change R t' t'' \<Longrightarrow> rows_change R t t''"
  by (auto simp: rows_change_def intro: evolve_trans)

lemma change_tput: "tget t k = Some r \<Longrightarrow> R r r' \<Longrightarrow> rows_change R t (tput k r' t)"
  by (auto simp: rows_change_def rows_evolve_def tget_tput evolves_refl)

lemma change_tupdate:
  assumes "tupdate k P f t = (t', b)" and "\<And>r. P r \<Longrightarrow> R r (f r)"
  shows "rows_change R t t'"
  using assms by (auto simp: tupdate_iff intro: change_tput change_refl)

lemma change_fst_tupdate:
  assumes "\<And>r. P r \<Longrightarrow> R r (f r)"
  shows "rows_change R t (fst (tupdate k P f t))"
  using change_tupdate [of k P f t "fst (tupdate k P f t)" "snd (tupdate k P f t)"] assms by simp

lemma change_tupdate_all:
  assumes "\<And>r. P r \<Longrightarrow> R r (f r)"
  shows "rows_change R t (tupdate_all P f t)"
  using assms by (auto simp: rows_change_def rows_evolve_def tget_tupdate_all evolves_refl)

end

text \<open>
  The interface the accounting proofs rely on: what a lookup and a sum return after a
  row is stored. It is stated over an abstract table so that client arguments about a
  running total depend on these laws only.
\<close>

locale keyed_table =
  fixes get :: "'t \<Rightarrow> 'k \<Rightarrow> 'r option"
    and put :: "'k \<Rightarrow> 'r \<Rightarrow> 't \<Rightarrow> 't"
    and total :: "('k \<Rightarrow> 'r \<Rightarrow> int) \<Rightarrow> 't \<Rightarrow> int"
  assumes get_put: "get (put k r t) k' = (if k' = k then Some r else get t k')"
    and total_put_fresh: "get t k = None \<Longrightarrow> total f (put k r t) = total f t + f k r"
    and total_put_old: "get t k = Some r0 \<Longrightarrow> total f (put k r t) = total f t - f k r0 + f k r"
begin

text \<open>A row whose contribution does not change leaves the total alone.\<close>

lemma total_put_same:
  "get t k = Some r0 \<Longrightarrow> f k r = f k r0 \<Longrightarrow> total f (put k r t) = total f t"
  by (simp add: total_put_old)

text \<open>Storing a row under a key never disturbs a total that ignores this key.\<close>

lemma total_put_other:
  "(\<And>r. f k r = 0) \<Longrightarrow> total f (put k r t) = total f t"
  by (cases "get t k") (simp_all add: total_put_fresh total_put_old)

text \<open>Two totals that agreed before agree after, when the row adds the same to both.\<close>

lemma total_put_balanced:
  assumes "total f t = total g t"
    and "\<And>r0. get t k = Some r0 \<Longrightarrow> f k r - f k r0 = g k r - g k r0"
    and "get t k = None \<Longrightarrow> f k r = g k r"
  shows "total f (put k r t) = total g (put k r t)"
proof (cases "get t k")
  case None
  with assms show ?thesis by (simp add: total_put_fresh)
next
  case (Some r0)
  with assms(1) assms(2) [OF Some] show ?thesis by (simp add: total_put_old)
qed

end

interpretation alist_table: keyed_table tget tput tsum
  by unfold_locales (simp_all add: tbl_simps)

end
