(* ===== verification/App_Error.thy ===== *)
theory App_Error
  imports MTC_Prelude
begin

text \<open>
  The gateway's error type (\<open>src/src/error.rs\<close>): the reasons a usage limit rejects a
  request, the facts a failure may disclose, the error variants, and how a usage-limit
  error is rendered for a client. A failed SQL statement surfaces as the internal error
  \<open>database_operation_failed\<close>; \<open>Panicked\<close> stands for an unwinding Rust panic, which is no
  variant of the enum but an outcome callers observe.
\<close>

datatype limit_reason =
    BalanceExhausted
  | DailyBudgetExhausted
  | WeeklyBudgetExhausted
  | LifetimeBudgetExhausted
  | RpmExhausted
  | TpmExhausted
  | ConcurrencyExhausted

definition limit_reason_as_str :: "limit_reason \<Rightarrow> string" where
  "limit_reason_as_str r = (case r of
      BalanceExhausted \<Rightarrow> ''balance_exhausted''
    | DailyBudgetExhausted \<Rightarrow> ''daily_budget_exhausted''
    | WeeklyBudgetExhausted \<Rightarrow> ''weekly_budget_exhausted''
    | LifetimeBudgetExhausted \<Rightarrow> ''lifetime_budget_exhausted''
    | RpmExhausted \<Rightarrow> ''rpm_exhausted''
    | TpmExhausted \<Rightarrow> ''tpm_exhausted''
    | ConcurrencyExhausted \<Rightarrow> ''concurrency_exhausted'')"

definition is_quota :: "limit_reason \<Rightarrow> bool" where
  "is_quota r \<longleftrightarrow> r \<in> {BalanceExhausted, DailyBudgetExhausted, WeeklyBudgetExhausted,
                       LifetimeBudgetExhausted}"

definition retryable :: "limit_reason \<Rightarrow> bool" where
  "retryable r \<longleftrightarrow> \<not> (r \<in> {BalanceExhausted, LifetimeBudgetExhausted})"

record error_facts =
  ef_stage :: "string option"
  ef_phase :: "string option"
  ef_kind :: "string option"
  ef_status :: "nat option"
  ef_bytes :: "nat option"
  ef_limit :: "nat option"
  ef_lock :: "string option"

definition no_facts :: error_facts where
  "no_facts = \<lparr>ef_stage = None, ef_phase = None, ef_kind = None, ef_status = None,
               ef_bytes = None, ef_limit = None, ef_lock = None\<rparr>"

datatype app_error =
    Unauthorized
  | Forbidden
  | PluginInputTooLarge
  | UnpricedModel
  | QuotaExceeded
  | RateLimited
  | LimitExceeded limit_reason "nat option"
  | NotFound
  | Conflict string
  | ProxyGroupConflict string
  | BadRequest string
  | CompactionProducerUnavailable
  | SchemaSecretAnalysisTooComplex
  | PluginReleaseDownload string
  | Upstream string error_facts
  | OAuthRefresh string
  | Overloaded
  | Capacity string error_facts
  | NoAuthorizedUpstreamCandidate
  | Storage string error_facts
  | DatabaseUnavailable string
  | Internal string error_facts
  | Panicked string

abbreviation internal :: "string \<Rightarrow> app_error" where
  "internal code \<equiv> Internal code no_facts"

abbreviation upstream :: "string \<Rightarrow> app_error" where
  "upstream code \<equiv> Upstream code no_facts"

type_synonym 'a res = "app_error + 'a"

definition db_error :: "string \<Rightarrow> app_error" where
  "db_error kind = Internal ''database_operation_failed'' (no_facts\<lparr>ef_kind := Some kind\<rparr>)"

text \<open>A \<open>BIGINT\<close> expression inside a statement: an overflow aborts the statement.\<close>

definition sql_int :: "int \<Rightarrow> int res" where
  "sql_int x = (if in_i64 x then Inr x else Inl (db_error ''database''))"

lemma sql_int_Inr_iff [res_simps]: "sql_int x = Inr y \<longleftrightarrow> y = x \<and> in_i64 x"
  by (auto simp: sql_int_def)

text \<open>Storing a row under a primary key that is taken aborts the statement.\<close>

definition sql_insert :: "'k \<Rightarrow> 'r \<Rightarrow> ('k, 'r) table \<Rightarrow> ('k, 'r) table res" where
  "sql_insert k r t = (case tget t k of
      None \<Rightarrow> Inr (tput k r t)
    | Some _ \<Rightarrow> Inl (db_error ''database''))"

lemma sql_insert_Inr_iff [res_simps]:
  "sql_insert k r t = Inr t' \<longleftrightarrow> tget t k = None \<and> t' = tput k r t"
  by (auto simp: sql_insert_def split: option.splits)

end
