(* ===== verification/Rust_Strings.thy ===== *)
theory Rust_Strings
  imports App_Error
begin

text \<open>
  The string operations of Rust's standard library the validators use, on UTF-8 byte
  strings: \<open>trim\<close> over the Unicode white-space characters, ASCII case mapping, byte
  classes, decimal formatting, and the validators of \<open>src/src/db/validation.rs\<close>.
\<close>

subsection \<open>White space and case\<close>

text \<open>The UTF-8 encodings of the characters with the Unicode property \<open>White_Space\<close>.\<close>

definition white_space :: "string list" where
  "white_space =
     [[CHR 0x09], [CHR 0x0A], [CHR 0x0B], [CHR 0x0C], [CHR 0x0D], [CHR 0x20],
      [CHR 0xC2, CHR 0x85], [CHR 0xC2, CHR 0xA0], [CHR 0xE1, CHR 0x9A, CHR 0x80],
      [CHR 0xE2, CHR 0x80, CHR 0x80], [CHR 0xE2, CHR 0x80, CHR 0x81],
      [CHR 0xE2, CHR 0x80, CHR 0x82], [CHR 0xE2, CHR 0x80, CHR 0x83],
      [CHR 0xE2, CHR 0x80, CHR 0x84], [CHR 0xE2, CHR 0x80, CHR 0x85],
      [CHR 0xE2, CHR 0x80, CHR 0x86], [CHR 0xE2, CHR 0x80, CHR 0x87],
      [CHR 0xE2, CHR 0x80, CHR 0x88], [CHR 0xE2, CHR 0x80, CHR 0x89],
      [CHR 0xE2, CHR 0x80, CHR 0x8A], [CHR 0xE2, CHR 0x80, CHR 0xA8],
      [CHR 0xE2, CHR 0x80, CHR 0xA9], [CHR 0xE2, CHR 0x80, CHR 0xAF],
      [CHR 0xE2, CHR 0x81, CHR 0x9F], [CHR 0xE3, CHR 0x80, CHR 0x80]]"

fun strip_prefix :: "'a list \<Rightarrow> 'a list \<Rightarrow> 'a list option" where
  "strip_prefix [] s = Some s"
| "strip_prefix (p # ps) [] = None"
| "strip_prefix (p # ps) (c # s) = (if p = c then strip_prefix ps s else None)"

fun strip_any :: "'a list list \<Rightarrow> 'a list \<Rightarrow> 'a list option" where
  "strip_any [] s = None"
| "strip_any (w # ws) s = (case strip_prefix w s of Some r \<Rightarrow> Some r | None \<Rightarrow> strip_any ws s)"

lemma strip_prefix_Some: "strip_prefix p s = Some r \<Longrightarrow> s = p @ r"
  by (induction p s rule: strip_prefix.induct) (auto split: if_splits)

lemma strip_prefix_append [simp]: "strip_prefix p (p @ r) = Some r"
  by (induction p) auto

lemma strip_any_shorter:
  "strip_any ws s = Some r \<Longrightarrow> [] \<notin> set ws \<Longrightarrow> length r < length s"
  by (induction ws) (auto split: option.splits dest: strip_prefix_Some)

function trim_with :: "'a list list \<Rightarrow> 'a list \<Rightarrow> 'a list" where
  "trim_with ws s = (if [] \<in> set ws then s else
     case strip_any ws s of None \<Rightarrow> s | Some r \<Rightarrow> trim_with ws r)"
  by pat_completeness auto
termination
  by (relation "measure (\<lambda>(ws, s). length s)") (auto dest: strip_any_shorter)

declare trim_with.simps [simp del]

definition trim_start :: "string \<Rightarrow> string" where
  "trim_start s = trim_with white_space s"

definition trim_end :: "string \<Rightarrow> string" where
  "trim_end s = rev (trim_with (map rev white_space) (rev s))"

definition trim :: "string \<Rightarrow> string" where
  "trim s = trim_end (trim_start s)"

lemma trim_with_suffix: "\<exists>p. s = p @ trim_with ws s"
proof (induction ws s rule: trim_with.induct)
  case (1 ws s)
  show ?case
  proof (cases "[] \<in> set ws \<or> strip_any ws s = None")
    case True
    then show ?thesis by (auto simp: trim_with.simps [of ws s])
  next
    case False
    then obtain r where r: "strip_any ws s = Some r" and ne: "[] \<notin> set ws" by auto
    have "\<exists>q. s = q @ r" using r
      by (induction ws) (auto split: option.splits dest: strip_prefix_Some)
    then obtain q where q: "s = q @ r" by blast
    obtain p where p: "r = p @ trim_with ws r" using "1.IH" ne r by blast
    have step: "trim_with ws s = trim_with ws r" using ne r by (simp add: trim_with.simps [of ws s])
    have "s = (q @ p) @ trim_with ws s"
      using q p step by (metis append_assoc)
    then show ?thesis by blast
  qed
qed

lemma length_trim_with: "length (trim_with ws s) \<le> length s"
proof -
  obtain p where "s = p @ trim_with ws s" using trim_with_suffix by blast
  then have "length s = length (p @ trim_with ws s)" by simp
  then show ?thesis by simp
qed

lemma trim_with_stop: "[] \<in> set ws \<or> strip_any ws (trim_with ws s) = None"
proof (induction ws s rule: trim_with.induct)
  case (1 ws s)
  then show ?case by (auto simp: trim_with.simps [of ws s] split: option.splits)
qed

lemma trim_with_idem [simp]: "trim_with ws (trim_with ws s) = trim_with ws s"
  using trim_with_stop [of ws s] by (auto simp: trim_with.simps [of ws "trim_with ws s"])

definition ascii_upper :: "byte \<Rightarrow> byte" where
  "ascii_upper c = (if 97 \<le> (of_char c :: nat) \<and> (of_char c :: nat) \<le> 122
     then char_of ((of_char c :: nat) - 32) else c)"

definition ascii_lower :: "byte \<Rightarrow> byte" where
  "ascii_lower c = (if 65 \<le> (of_char c :: nat) \<and> (of_char c :: nat) \<le> 90
     then char_of ((of_char c :: nat) + 32) else c)"

definition to_ascii_uppercase :: "string \<Rightarrow> string" where
  "to_ascii_uppercase s = map ascii_upper s"

definition to_ascii_lowercase :: "string \<Rightarrow> string" where
  "to_ascii_lowercase s = map ascii_lower s"

definition eq_ignore_ascii_case :: "string \<Rightarrow> string \<Rightarrow> bool" where
  "eq_ignore_ascii_case a b \<longleftrightarrow> to_ascii_lowercase a = to_ascii_lowercase b"

definition is_ascii_digit :: "byte \<Rightarrow> bool" where
  "is_ascii_digit c \<longleftrightarrow> 48 \<le> (of_char c :: nat) \<and> (of_char c :: nat) \<le> 57"

definition is_lower_hex :: "char \<Rightarrow> bool" where
  "is_lower_hex c \<longleftrightarrow> is_ascii_digit c \<or> (97 \<le> (of_char c :: nat) \<and> (of_char c :: nat) \<le> 102)"

definition is_ascii_lower :: "byte \<Rightarrow> bool" where
  "is_ascii_lower c \<longleftrightarrow> 97 \<le> (of_char c :: nat) \<and> (of_char c :: nat) \<le> 122"

definition is_ascii_graphic :: "byte \<Rightarrow> bool" where
  "is_ascii_graphic c \<longleftrightarrow> 33 \<le> (of_char c :: nat) \<and> (of_char c :: nat) \<le> 126"

text \<open>
  \<open>to_uppercase\<close> maps one non-ASCII letter to an ASCII letter of a supported currency:
  the long s (\<open>C5 BF\<close>) becomes \<open>S\<close>. No other character outside ASCII can make the
  result equal \<open>USD\<close> or \<open>CNY\<close>.
\<close>

fun currency_uppercase :: "string \<Rightarrow> string" where
  "currency_uppercase [] = []"
| "currency_uppercase [c] = [ascii_upper c]"
| "currency_uppercase (c # d # s) =
     (if c = CHR 0xC5 \<and> d = CHR 0xBF then CHR ''S'' # currency_uppercase s
      else ascii_upper c # currency_uppercase (d # s))"

definition validate_currency :: "string \<Rightarrow> unit res" where
  "validate_currency currency =
     (if currency_uppercase currency \<in> {''USD'', ''CNY''} then Inr ()
      else Inl (BadRequest ''currency must be USD or CNY''))"

definition validate_idempotency_key :: "string \<Rightarrow> string \<Rightarrow> unit res" where
  "validate_idempotency_key value field =
     (let v = trim value in
      if v = [] \<or> 200 < length v \<or> \<not> list_all is_ascii_graphic v
      then Inl (BadRequest (field @ '' must contain at most 200 visible ASCII characters''))
      else Inr ())"

text \<open>\<open>char::is_control\<close> on UTF-8 text: C0 controls, delete, and the two-byte C1 controls.\<close>

fun has_control :: "string \<Rightarrow> bool" where
  "has_control [] = False"
| "has_control (c # s) = (of_char c < (32::nat) \<or> of_char c = (127::nat) \<or>
     (of_char c = (194::nat) \<and> (case s of [] \<Rightarrow> False | d # _ \<Rightarrow> 128 \<le> (of_char d :: nat) \<and> (of_char d :: nat) \<le> 159)) \<or>
     has_control s)"

definition validate_service_tier :: "string \<Rightarrow> unit res" where
  "validate_service_tier tier =
     (if tier \<in> {''default'', ''auto'', ''priority'', ''flex'', ''scale'', ''batch'',
                 ''standard_only''} then Inr ()
      else Inl (BadRequest
        ''service_tier must be default, auto, priority, flex, scale, batch, or standard_only''))"

subsection \<open>Decimal digits\<close>

definition digit_char :: "nat \<Rightarrow> char" where
  "digit_char d = char_of (48 + d)"

definition digit_value :: "char \<Rightarrow> nat" where
  "digit_value c = (of_char c :: nat) - 48"

fun nat_digits :: "nat \<Rightarrow> string" where
  "nat_digits n = (if n < 10 then [digit_char n] else nat_digits (n div 10) @ [digit_char (n mod 10)])"

declare nat_digits.simps [simp del]

text \<open>Fixed-width formatting with leading zeros, \<open>{:06}\<close>; \<open>w\<close> digits are produced from the right.\<close>

fun fixed_digits :: "nat \<Rightarrow> nat \<Rightarrow> string" where
  "fixed_digits 0 n = []"
| "fixed_digits (Suc w) n = fixed_digits w (n div 10) @ [digit_char (n mod 10)]"

definition digits_value :: "string \<Rightarrow> nat" where
  "digits_value s = foldl (\<lambda>a c. 10 * a + digit_value c) 0 s"

lemma digit_value_char [simp]: "d < 10 \<Longrightarrow> digit_value (digit_char d) = d"
  by (simp add: digit_value_def digit_char_def)

lemma digits_value_snoc [simp]: "digits_value (s @ [c]) = 10 * digits_value s + digit_value c"
  by (simp add: digits_value_def)

lemma digits_value_nat_digits [simp]: "digits_value (nat_digits n) = n"
proof (induction n rule: nat_digits.induct)
  case (1 n)
  then show ?case
    by (cases "n < 10") (simp_all add: nat_digits.simps [of n] digits_value_def [of "[_]"])
qed

lemma length_fixed_digits [simp]: "length (fixed_digits w n) = w"
  by (induction w arbitrary: n) auto

lemma digits_value_fixed: "n < 10 ^ w \<Longrightarrow> digits_value (fixed_digits w n) = n"
proof (induction w arbitrary: n)
  case 0
  then show ?case by (simp add: digits_value_def)
next
  case (Suc w)
  then have "n div 10 < 10 ^ w" by auto
  with Suc.IH show ?case by simp
qed

lemma is_ascii_digit_char: "d < 10 \<Longrightarrow> is_ascii_digit (digit_char d)"
  by (simp add: is_ascii_digit_def digit_char_def)

lemma nat_digits_ascii: "c \<in> set (nat_digits n) \<Longrightarrow> is_ascii_digit c"
proof (induction n rule: nat_digits.induct)
  case (1 n)
  then show ?case
    by (cases "n < 10") (auto simp: nat_digits.simps [of n] is_ascii_digit_char)
qed

lemma fixed_digits_ascii: "c \<in> set (fixed_digits w n) \<Longrightarrow> is_ascii_digit c"
  by (induction w arbitrary: n) (auto simp: is_ascii_digit_char)

end
