(* ===== verification/Money.thy ===== *)
theory Money
  imports Rust_Strings
begin

text \<open>
  Monetary amounts (\<open>src/src/model.rs\<close>, \<open>src/src/db/validation.rs\<close>,
  \<open>src/src/db/effective_cost.rs\<close>): money is an \<open>i64\<close> count of millionths. Conversion
  from decimals, printing, and the price of a token count.
\<close>

subsection \<open>Definitions\<close>

definition money_scale :: int where
  "money_scale = 1000000"

text \<open>
  A decimal of the \<open>rust_decimal\<close> crate denotes \<open>mantissa / 10 ^ scale\<close>, with a mantissa
  of at most 96 bits and a scale of at most 28.
\<close>

datatype decimal = Decimal (mantissa: int) (dscale: nat)

text \<open>
  Multiplying by \<open>10 ^ 6\<close> is exact: excess digits the crate drops to fit 96 bits are zeros.
  It overflows, and the operator panics, when the product without its fractional part
  needs more than 96 bits; \<open>None\<close> is that panic. The product is returned as a numerator
  over \<open>10 ^ scale\<close>.
\<close>

definition decimal_times_million :: "decimal \<Rightarrow> (int \<times> nat) option" where
  "decimal_times_million d =
     (if dscale d < 6 \<and> 2 ^ 96 \<le> \<bar>mantissa d\<bar> * 10 ^ (6 - dscale d) then None
      else Some (mantissa d * money_scale, dscale d))"

definition decimal_to_micros :: "decimal \<Rightarrow> int res" where
  "decimal_to_micros value =
     (case decimal_times_million value of
        None \<Rightarrow> Inl (Panicked ''Multiplication overflowed'')
      | Some (num, s) \<Rightarrow>
          if num mod 10 ^ s \<noteq> 0
          then Inl (BadRequest ''monetary values support at most 6 decimal places'')
          else ok_or (checked (num div 10 ^ s)) (BadRequest ''monetary value is out of range''))"

definition trim_end_zeros :: "string \<Rightarrow> string" where
  "trim_end_zeros s = rev (dropWhile (\<lambda>c. c = CHR ''0'') (rev s))"

definition micros_to_decimal_string :: "int \<Rightarrow> string" where
  "micros_to_decimal_string micros =
     (let sign = (if micros < 0 then ''-'' else '''');
          absolute = nat \<bar>micros\<bar>;
          whole = absolute div 1000000;
          fraction = absolute mod 1000000
      in if fraction = 0 then sign @ nat_digits whole
         else trim_end_zeros (sign @ nat_digits whole @ ''.'' @ fixed_digits 6 fraction))"

text \<open>Widened to \<open>i128\<close>, rounded up to the next millionth, saturated back to \<open>i64\<close>.\<close>

definition priced_tokens :: "int \<Rightarrow> int \<Rightarrow> int" where
  "priced_tokens tokens micros_per_million =
     (if tokens \<le> 0 \<or> micros_per_million \<le> 0 then 0
      else let v = (tokens * micros_per_million + 999999) div 1000000
           in if in_i64 v then v else i64_max)"

definition effective_displayed_cost_micros ::
  "int \<Rightarrow> int option \<Rightarrow> string option \<Rightarrow> string option \<Rightarrow> int" where
  "effective_displayed_cost_micros cost_micros status_code error_code usage_basis =
     (let terminal_failure = (case status_code of None \<Rightarrow> False
            | Some code \<Rightarrow> \<not> (200 \<le> code \<and> code < 400) \<or>
                (case error_code of None \<Rightarrow> False | Some value \<Rightarrow> value \<noteq> []))
      in if terminal_failure \<and> usage_basis \<noteq> Some ''provider_reported'' then 0 else cost_micros)"

subsection \<open>Prices of token counts\<close>

lemma priced_tokens_nonneg: "0 \<le> priced_tokens t p"
  by (auto simp: priced_tokens_def Let_def i64_bounds intro!: pos_imp_zdiv_nonneg_iff [THEN iffD2])

lemma priced_tokens_in_i64: "in_i64 (priced_tokens t p)"
  by (auto simp: priced_tokens_def Let_def in_i64_def i64_bounds)

lemma priced_tokens_alt:
  assumes "0 < t" and "0 < p"
  shows "priced_tokens t p = min i64_max ((t * p + 999999) div 1000000)"
proof -
  have "0 < t * p" using assms by (rule mult_pos_pos)
  then have "0 \<le> (t * p + 999999) div 1000000"
    by (simp add: pos_imp_zdiv_nonneg_iff)
  with assms show ?thesis
    by (auto simp: priced_tokens_def Let_def in_i64_def i64_bounds min_def)
qed

lemma priced_tokens_mono:
  assumes "t \<le> t'" and "p \<le> p'"
  shows "priced_tokens t p \<le> priced_tokens t' p'"
proof (cases "0 < t \<and> 0 < p")
  case True
  then have "t * p \<le> t' * p'" using assms by (intro mult_mono) auto
  then have "(t * p + 999999) div 1000000 \<le> (t' * p' + 999999) div 1000000"
    by (intro zdiv_mono1) auto
  with True assms show ?thesis by (auto simp: priced_tokens_alt)
next
  case False
  then have "priced_tokens t p = 0" by (auto simp: priced_tokens_def)
  then show ?thesis by (simp add: priced_tokens_nonneg)
qed

text \<open>The charge for a sum of counts is at most the sum of the charges: rounding up never favours splitting.\<close>

lemma priced_tokens_subadditive:
  assumes "0 \<le> s" and "0 \<le> t"
  shows "priced_tokens (s + t) p \<le> priced_tokens s p + priced_tokens t p"
proof (cases "0 < s \<and> 0 < t \<and> 0 < p")
  case True
  have ceil: "((s + t) * p + 999999) div 1000000
      \<le> (s * p + 999999) div 1000000 + (t * p + 999999) div 1000000"
    by (simp add: distrib_right)
  have nonneg: "0 \<le> (s * p + 999999) div 1000000" "0 \<le> (t * p + 999999) div 1000000"
    using True mult_pos_pos [of s p] mult_pos_pos [of t p]
    by (auto simp: pos_imp_zdiv_nonneg_iff)
  from True ceil nonneg show ?thesis by (auto simp: priced_tokens_alt min_def i64_bounds)
next
  case False
  then consider "p \<le> 0" | "s = 0" | "t = 0" using assms by linarith
  then show ?thesis by cases (auto simp: priced_tokens_def)
qed

text \<open>
  The price of a token count is the exact quotient rounded up to a millionth, so the
  charge covers the exact price and exceeds it by less than one millionth, whenever it
  fits the amount type; beyond that it saturates at the largest amount and never wraps.
\<close>

theorem priced_tokens_exact:
  assumes "0 < tokens" and "0 < price"
  shows "(if tokens * price \<le> i64_max * 1000000
          then tokens * price \<le> priced_tokens tokens price * 1000000 \<and>
               priced_tokens tokens price * 1000000 < tokens * price + 1000000
          else priced_tokens tokens price = i64_max)"
proof -
  define v where "v = (tokens * price + 999999) div 1000000"
  have lower: "tokens * price \<le> v * 1000000" and upper: "v * 1000000 < tokens * price + 1000000"
    using div_mult_mod_eq [of "tokens * price + 999999" 1000000]
      pos_mod_bound [of 1000000 "tokens * price + 999999"]
      pos_mod_sign [of 1000000 "tokens * price + 999999"]
    unfolding v_def by linarith+
  have p: "priced_tokens tokens price = min i64_max v"
    using assms by (simp add: priced_tokens_alt v_def)
  show ?thesis
  proof (cases "tokens * price \<le> i64_max * 1000000")
    case True
    then have "v * 1000000 < (i64_max + 1) * 1000000" using upper by (simp add: i64_bounds)
    then have "v \<le> i64_max" by simp
    with p True lower upper show ?thesis by (simp add: min_def)
  next
    case False
    then have "i64_max \<le> v" using lower by (simp add: i64_bounds)
    with p False show ?thesis by (simp add: min_def)
  qed
qed

theorem priced_tokens_exact_witness:
  "(0::int) < 1500 \<and> (0::int) < 2500001 \<and> priced_tokens 1500 2500001 = 3751"
proof -
  have "priced_tokens 1500 2500001 = 3751"
    using priced_tokens_exact [of 1500 2500001] by (simp add: i64_bounds)
  then show ?thesis by simp
qed

subsection \<open>Conversion from decimals\<close>

lemma decimal_to_micros_Inr:
  "decimal_to_micros d = Inr m \<Longrightarrow> m * 10 ^ dscale d = mantissa d * money_scale \<and> in_i64 m"
  by (auto simp: decimal_to_micros_def res_simps split: option.splits if_splits prod.splits)
     (auto simp: decimal_times_million_def split: if_splits)


subsection \<open>Printing\<close>

text \<open>The reading of a printed amount: sign, whole part and up to six decimals.\<close>

definition read_unsigned_micros :: "string \<Rightarrow> int" where
  "read_unsigned_micros s =
     (let w = takeWhile (\<lambda>c. c \<noteq> CHR ''.'') s;
          f = drop 1 (dropWhile (\<lambda>c. c \<noteq> CHR ''.'') s)
      in int (digits_value w) * 1000000 +
         int (digits_value (f @ replicate (6 - length f) (CHR ''0''))))"

definition read_micros :: "string \<Rightarrow> int" where
  "read_micros s = (case s of [] \<Rightarrow> 0
     | c # r \<Rightarrow> if c = CHR ''-'' then - read_unsigned_micros r else read_unsigned_micros s)"

lemma trim_end_zeros_append:
  "\<exists>c \<in> set b. c \<noteq> CHR ''0'' \<Longrightarrow> trim_end_zeros (a @ b) = a @ trim_end_zeros b"
  by (auto simp: trim_end_zeros_def dropWhile_append1)

lemma trim_end_zeros_pad:
  "s = trim_end_zeros s @ replicate (length s - length (trim_end_zeros s)) (CHR ''0'')"
proof -
  let ?t = "takeWhile (\<lambda>c. c = CHR ''0'') (rev s)"
  have split: "rev s = ?t @ rev (trim_end_zeros s)"
    by (simp add: trim_end_zeros_def takeWhile_dropWhile_id)
  have "?t = replicate (length ?t) (CHR ''0'')"
    by (metis (full_types) replicate_length_same set_takeWhileD)
  then have "s = trim_end_zeros s @ replicate (length ?t) (CHR ''0'')"
    using split by (metis rev_append rev_replicate rev_rev_ident)
  moreover have "length ?t = length s - length (trim_end_zeros s)"
    using arg_cong [OF split, of length] by simp
  ultimately show ?thesis by simp
qed

lemma digits_value_zeros: "set s \<subseteq> {CHR ''0''} \<Longrightarrow> digits_value s = 0"
proof (induction s rule: rev_induct)
  case (snoc c s)
  then show ?case by (simp add: digit_value_def)
qed (simp add: digits_value_def)

lemma digit_not_dot: "is_ascii_digit c \<Longrightarrow> c \<noteq> CHR ''.'' \<and> c \<noteq> CHR ''-''"
  by (auto simp: is_ascii_digit_def)

lemma read_unsigned_print:
  assumes f: "length f \<le> 6" and w: "\<And>c. c \<in> set w \<Longrightarrow> is_ascii_digit c"
  shows "read_unsigned_micros (w @ ''.'' @ f) =
    int (digits_value w) * 1000000 + int (digits_value (f @ replicate (6 - length f) (CHR ''0'')))"
    and "read_unsigned_micros w = int (digits_value w) * 1000000"
proof -
  have nd: "\<And>c. c \<in> set w \<Longrightarrow> c \<noteq> CHR ''.''" using w digit_not_dot by blast
  then have "takeWhile (\<lambda>c. c \<noteq> CHR ''.'') (w @ ''.'' @ f) = w"
    and "dropWhile (\<lambda>c. c \<noteq> CHR ''.'') (w @ ''.'' @ f) = ''.'' @ f"
    by (auto simp: takeWhile_append2 dropWhile_append2)
  then show "read_unsigned_micros (w @ ''.'' @ f) =
    int (digits_value w) * 1000000 + int (digits_value (f @ replicate (6 - length f) (CHR ''0'')))"
    by (simp add: read_unsigned_micros_def Let_def)
  from nd have t: "takeWhile (\<lambda>c. c \<noteq> CHR ''.'') w = w" and d: "dropWhile (\<lambda>c. c \<noteq> CHR ''.'') w = []"
    by (auto simp: takeWhile_eq_all_conv dropWhile_eq_Nil_conv)
  show "read_unsigned_micros w = int (digits_value w) * 1000000"
    unfolding read_unsigned_micros_def Let_def t d
    by (simp add: digits_value_zeros set_replicate_conv_if)
qed

lemma read_unsigned_fraction:
  assumes "0 < fr" and "fr < 1000000" and w: "\<And>c. c \<in> set w \<Longrightarrow> is_ascii_digit c"
  shows "trim_end_zeros (sg @ w @ ''.'' @ fixed_digits 6 fr) =
      sg @ w @ ''.'' @ trim_end_zeros (fixed_digits 6 fr)"
    and "read_unsigned_micros (w @ ''.'' @ trim_end_zeros (fixed_digits 6 fr)) =
      int (digits_value w) * 1000000 + int fr"
proof -
  let ?f = "fixed_digits 6 fr"
  have val: "digits_value ?f = fr" using assms(2) by (simp add: digits_value_fixed)
  then have "\<exists>c \<in> set ?f. c \<noteq> CHR ''0''" using digits_value_zeros [of ?f] assms(1) by fastforce
  then show "trim_end_zeros (sg @ w @ ''.'' @ ?f) = sg @ w @ ''.'' @ trim_end_zeros ?f"
    using trim_end_zeros_append [of ?f "sg @ w @ ''.''"] by simp
  have len: "length (trim_end_zeros ?f) \<le> 6"
    using length_dropWhile_le [of "\<lambda>c. c = CHR ''0''" "rev ?f"] by (simp add: trim_end_zeros_def)
  have "trim_end_zeros ?f @ replicate (6 - length (trim_end_zeros ?f)) (CHR ''0'') = ?f"
    using trim_end_zeros_pad [of ?f] by simp
  with read_unsigned_print(1) [OF len w] val show
    "read_unsigned_micros (w @ ''.'' @ trim_end_zeros ?f) = int (digits_value w) * 1000000 + int fr"
    by simp
qed

lemma read_micros_sign:
  assumes "s \<noteq> []" and "hd s \<noteq> CHR ''-''"
  shows "read_micros ((if neg then ''-'' else '''') @ s) =
    (if neg then - read_unsigned_micros s else read_unsigned_micros s)"
  using assms by (cases s) (auto simp: read_micros_def)

text \<open>
  Printing an amount loses nothing: reading the printed string back gives the same
  number of millionths, for every amount, negative and fractional ones included.
\<close>

theorem micros_string_roundtrip: "read_micros (micros_to_decimal_string m) = m"
proof -
  let ?a = "nat \<bar>m\<bar>" and ?sg = "if m < 0 then ''-'' else ''''"
  let ?w = "nat_digits (?a div 1000000)" and ?fr = "?a mod 1000000"
  have ne: "?w \<noteq> []" by (subst nat_digits.simps) simp
  have w: "c \<in> set ?w \<Longrightarrow> is_ascii_digit c" for c by (rule nat_digits_ascii)
  have hd: "hd (?w @ r) \<noteq> CHR ''-''" for r
    using ne w [OF hd_in_set [OF ne]] digit_not_dot by auto
  have abs: "int (?a div 1000000) * 1000000 + int ?fr = \<bar>m\<bar>"
    using div_mult_mod_eq [of ?a 1000000] by linarith
  show ?thesis
  proof (cases "?fr = 0")
    case True
    then have "micros_to_decimal_string m = ?sg @ ?w"
      by (simp add: micros_to_decimal_string_def Let_def)
    then show ?thesis
      using read_micros_sign [of ?w "m < 0"] ne hd [of "[]"] read_unsigned_print(2) [of "[]" ?w] w abs True
      by auto
  next
    case False
    then have pos: "0 < ?fr" and lt: "?fr < 1000000" by auto
    let ?t = "?w @ ''.'' @ trim_end_zeros (fixed_digits 6 ?fr)"
    have "micros_to_decimal_string m = trim_end_zeros (?sg @ ?w @ ''.'' @ fixed_digits 6 ?fr)"
      using False by (simp add: micros_to_decimal_string_def Let_def)
    also have "\<dots> = ?sg @ ?t" using pos lt w by (rule read_unsigned_fraction(1))
    finally show ?thesis
      using read_micros_sign [of ?t "m < 0"] ne hd read_unsigned_fraction(2) [OF pos lt w] abs
      by auto
  qed
qed

end
