(* ===== verification/Billing_Tables.thy ===== *)
theory Billing_Tables
  imports Money
begin

text \<open>
  The billing state: the rows of the accounting tables (\<open>src/migrations\<close>) as records, the
  tables as keyed lists, and the structures of \<open>src/src/model.rs\<close> that cross the billing
  interface. A transaction is a function from the tables to an error, which rolls
  everything back, or to the new tables and a result; transactions on one account are
  serialised by its row lock (PostgreSQL) or by \<open>BEGIN IMMEDIATE\<close> (SQLite).
\<close>

subsection \<open>Structures of the model\<close>

datatype enforcement_mode = Prepaid | MeteredUnlimited

definition enforces_prepaid_limits :: "enforcement_mode \<Rightarrow> bool" where
  "enforces_prepaid_limits m \<longleftrightarrow> m = Prepaid"

definition enforcement_as_str :: "enforcement_mode \<Rightarrow> string" where
  "enforcement_as_str m = (case m of Prepaid \<Rightarrow> ''prepaid'' | MeteredUnlimited \<Rightarrow> ''metered_unlimited'')"

definition enforcement_from_storage :: "string \<Rightarrow> enforcement_mode option" where
  "enforcement_from_storage v =
     (if v = ''prepaid'' then Some Prepaid
      else if v = ''metered_unlimited'' then Some MeteredUnlimited else None)"

record key_policy =
  allowed_models :: "string list"
  requests_per_minute :: "nat option" \<comment> \<open>\<open>u32\<close>\<close>
  tokens_per_minute :: "nat option" \<comment> \<open>\<open>u64\<close>\<close>
  max_concurrency :: "nat option" \<comment> \<open>\<open>u32\<close>\<close>
  policy_mode :: enforcement_mode
  daily_budget :: "string option"
  weekly_budget :: "string option"
  lifetime_budget :: "string option"

record authenticated_key =
  ak_key_id :: uuid
  ak_tenant_id :: uuid
  ak_principal_id :: uuid
  ak_account_id :: uuid
  ak_alias :: string
  ak_currency :: string
  ak_credential_generation :: int
  ak_policy :: key_policy

record model_price_tier =
  pt_service_tier :: string
  pt_input :: int
  pt_cached_input :: int
  pt_cache_write :: int
  pt_output :: int
  pt_source :: string

record model_price =
  mp_id :: uuid
  mp_input :: int
  mp_output :: int
  mp_tiers :: "model_price_tier list"

record generation_price =
  gp_id :: uuid
  gp_model :: string
  gp_currency :: string
  gp_billing_unit :: string
  gp_price_per_unit :: string
  gp_micros_per_unit :: int

record cache_usage_coverage =
  cc_read_tokens :: int
  cc_inclusive_input_tokens :: "int option"

record token_usage =
  tu_input :: int
  tu_cached_input :: int
  tu_cache_write :: int
  tu_output :: int
  tu_service_tier :: "string option"
  tu_cache_coverage :: "cache_usage_coverage option"

definition default_usage :: token_usage where
  "default_usage = \<lparr>tu_input = 0, tu_cached_input = 0, tu_cache_write = 0, tu_output = 0,
                    tu_service_tier = None, tu_cache_coverage = None\<rparr>"

definition total_input_tokens :: "token_usage \<Rightarrow> int" where
  "total_input_tokens u = sat (sat (tu_input u + tu_cached_input u) + tu_cache_write u)"

definition total_tokens :: "token_usage \<Rightarrow> int" where
  "total_tokens u = sat (total_input_tokens u + tu_output u)"

record usage_reservation =
  ur_id :: uuid
  ur_account_id :: uuid
  ur_key_id :: uuid
  ur_mode :: enforcement_mode
  ur_reserved_micros :: int
  ur_input :: int
  ur_output :: int
  ur_price_tiers :: "model_price_tier list"
  ur_rate_window_start :: int
  ur_reserved_tokens :: int

record metered_usage_reservation =
  mr_reservation :: usage_reservation
  mr_unit_ceiling :: int
  mr_billing_unit :: string
  mr_micros_per_unit :: int

subsection \<open>Rows\<close>

record credit_account =
  ca_tenant_id :: uuid
  ca_currency :: string
  ca_available :: int
  ca_reserved :: int
  ca_updated_at :: int

record key_record =
  kr_account_id :: uuid
  kr_policy :: "key_policy option" \<comment> \<open>\<open>policy_json\<close>; \<open>None\<close> when it does not parse\<close>

record key_budget =
  kb_settled_lifetime :: int
  kb_reserved :: int
  kb_updated_at :: int

record usage_event =
  ue_reservation_id :: uuid
  ue_key_id :: uuid
  ue_account_id :: uuid
  ue_amount :: int
  ue_settled_at :: int

record usage_state =
  us_settled_lifetime :: int
  us_updated_at :: int

record rate_window =
  rw_requests :: int
  rw_tokens :: int

datatype reservation_status = Reserved | Settled

record reservation_row =
  rr_account_id :: uuid
  rr_key_id :: uuid
  rr_price_id :: uuid
  rr_reserved_micros :: int
  rr_reserved_tokens :: int
  rr_reserved_units :: int
  rr_billing_unit :: string
  rr_micros_per_unit :: int
  rr_rate_window_start :: int
  rr_actual_micros :: "int option"
  rr_status :: reservation_status
  rr_created_at :: int
  rr_settled_at :: "int option"
  rr_price_snapshot :: string
  rr_mode :: enforcement_mode
  rr_tpm_window_applied :: bool

datatype ledger_kind =
    Grant | GrantReversal | Usage | SettlementAdjustment | EntitlementAdjustment

record ledger_entry =
  le_account_id :: uuid
  le_key_id :: "uuid option"
  le_kind :: ledger_kind
  le_amount :: int
  le_currency :: string
  le_source :: string
  le_idempotency_key :: "string option"
  le_reference_entry_id :: "uuid option"
  le_entitlement_cycle_id :: "uuid option"
  le_created_at :: int
  le_usage_snapshot :: "int option"

record outbox_row =
  ob_account_id :: uuid
  ob_key_id :: uuid
  ob_actual_micros :: int
  ob_created_at :: int
  ob_projected_at :: "int option"

text \<open>The values of the two status columns.\<close>

datatype subscription_status = SubActive | SubCancelled | SubReplaced

datatype cycle_status = CycleActive | CycleExpired | CycleCancelled | CycleReplaced

record entitlement =
  en_tenant_id :: uuid
  en_account_id :: uuid
  en_provider :: string
  en_external_subscription_id :: string
  en_status :: subscription_status
  en_version :: int
  en_current_cycle_id :: "uuid option"
  en_replaced_by :: "uuid option"
  en_created_at :: int
  en_updated_at :: int

record cycle =
  cy_entitlement_id :: uuid
  cy_external_cycle_id :: string
  cy_period_start :: int
  cy_period_end :: int
  cy_currency :: string
  cy_desired :: int
  cy_funded :: int
  cy_consumed :: int
  cy_status :: cycle_status
  cy_proration :: "string option"
  cy_created_at :: int
  cy_updated_at :: int

abbreviation en_active :: "entitlement \<Rightarrow> bool" where "en_active e \<equiv> en_status e = SubActive"
abbreviation cy_active :: "cycle \<Rightarrow> bool" where "cy_active c \<equiv> cy_status c = CycleActive"

record allocation =
  al_cycle_id :: uuid
  al_usage_entry_id :: uuid
  al_amount :: int
  al_created_at :: int

subsection \<open>The tables\<close>

record billing_db =
  credit_accounts :: "(uuid, credit_account) table"
  key_records :: "(uuid, key_record) table"
  key_budget_state :: "(uuid, key_budget) table"
  key_budget_daily_rollups :: "(uuid \<times> int, int) table"
  key_budget_usage_events :: "(uuid, usage_event) table"
  account_usage_state :: "(uuid, usage_state) table"
  rate_limit_windows :: "(uuid \<times> int, rate_window) table"
  usage_reservations :: "(uuid, reservation_row) table"
  ledger_entries :: "(uuid, ledger_entry) table"
  metered_outbox :: "(uuid, outbox_row) table"
  subscription_entitlements :: "(uuid, entitlement) table"
  entitlement_cycles :: "(uuid, cycle) table"
  usage_allocations :: "(uuid, allocation) table"
  pending_proxy_settlements :: "uuid list"

definition empty_db :: billing_db where
  "empty_db = \<lparr>credit_accounts = [], key_records = [], key_budget_state = [],
     key_budget_daily_rollups = [], key_budget_usage_events = [], account_usage_state = [],
     rate_limit_windows = [], usage_reservations = [], ledger_entries = [], metered_outbox = [],
     subscription_entitlements = [], entitlement_cycles = [], usage_allocations = [],
     pending_proxy_settlements = []\<rparr>"

text \<open>
  The unique index on \<open>(account_id, idempotency_key)\<close>, the partial one on the reference of
  a grant reversal, and the primary key: what makes \<open>INSERT ... ON CONFLICT DO NOTHING\<close>
  into the ledger insert no row.
\<close>

definition ledger_conflict :: "uuid \<Rightarrow> ledger_entry \<Rightarrow> (uuid, ledger_entry) table \<Rightarrow> bool" where
  "ledger_conflict i e t \<longleftrightarrow> tget t i \<noteq> None \<or>
     list_ex (\<lambda>(_, x).
        (le_idempotency_key e \<noteq> None \<and> le_account_id x = le_account_id e \<and>
         le_idempotency_key x = le_idempotency_key e) \<or>
        (le_kind e = GrantReversal \<and> le_kind x = GrantReversal \<and>
         le_reference_entry_id e \<noteq> None \<and> le_reference_entry_id x = le_reference_entry_id e)) t"

text \<open>The insert proper: a conflict aborts the statement unless the caller asked for \<open>DO NOTHING\<close>.\<close>

definition ledger_insert_or_ignore ::
  "uuid \<Rightarrow> ledger_entry \<Rightarrow> (uuid, ledger_entry) table \<Rightarrow> (uuid, ledger_entry) table \<times> nat" where
  "ledger_insert_or_ignore i e t =
     (if ledger_conflict i e t then (t, 0) else (tput i e t, 1))"

definition ledger_insert ::
  "uuid \<Rightarrow> ledger_entry \<Rightarrow> (uuid, ledger_entry) table \<Rightarrow> (uuid, ledger_entry) table res" where
  "ledger_insert i e t =
     (if ledger_conflict i e t then Inl (db_error ''database'') else Inr (tput i e t))"

lemma ledger_insert_Inr_iff [res_simps]:
  "ledger_insert i e t = Inr t' \<longleftrightarrow> \<not> ledger_conflict i e t \<and> t' = tput i e t"
  by (auto simp: ledger_insert_def)

lemma ledger_conflict_fresh: "\<not> ledger_conflict i e t \<Longrightarrow> tget t i = None"
  by (simp add: ledger_conflict_def)

subsection \<open>The accounting invariant\<close>

text \<open>
  What every transaction keeps true, per account and per key.

  \<^item> Holds: the amounts an account and a key have reserved are the sums of their open
    prepaid reservations.
  \<^item> Books: an account's available and reserved money together are the sum of its ledger
    entries; usage of an unlimited credential is recorded in the ledger under an
    idempotency key of its own and does not touch the balance.
  \<^item> Solvency: nothing is negative.
\<close>

definition amount_ok :: "int \<Rightarrow> bool" where
  "amount_ok m \<longleftrightarrow> 0 \<le> m \<and> m \<le> i64_max"

definition open_hold :: "(reservation_row \<Rightarrow> bool) \<Rightarrow> uuid \<Rightarrow> reservation_row \<Rightarrow> int" where
  "open_hold who i r = (if who r \<and> rr_status r = Reserved \<and> rr_mode r = Prepaid
     then rr_reserved_micros r else 0)"

definition account_holds :: "billing_db \<Rightarrow> uuid \<Rightarrow> int" where
  "account_holds db a = tsum (open_hold (\<lambda>r. rr_account_id r = a)) (usage_reservations db)"

definition key_holds :: "billing_db \<Rightarrow> uuid \<Rightarrow> int" where
  "key_holds db k = tsum (open_hold (\<lambda>r. rr_key_id r = k)) (usage_reservations db)"

definition touches_balance :: "ledger_entry \<Rightarrow> bool" where
  "touches_balance e \<longleftrightarrow> \<not> (le_kind e = Usage \<and> le_idempotency_key e \<noteq> None)"

definition book_value :: "uuid \<Rightarrow> uuid \<Rightarrow> ledger_entry \<Rightarrow> int" where
  "book_value a i e = (if le_account_id e = a \<and> touches_balance e then le_amount e else 0)"

definition account_books :: "billing_db \<Rightarrow> uuid \<Rightarrow> int" where
  "account_books db a = tsum (book_value a) (ledger_entries db)"

definition wf_tables :: "billing_db \<Rightarrow> bool" where
  "wf_tables db \<longleftrightarrow> wf_table (credit_accounts db) \<and> wf_table (key_budget_state db) \<and>
     wf_table (usage_reservations db) \<and> wf_table (ledger_entries db) \<and>
     wf_table (entitlement_cycles db) \<and> wf_table (usage_allocations db)"

definition holds_ok :: "billing_db \<Rightarrow> bool" where
  "holds_ok db \<longleftrightarrow>
     (\<forall>a acct. tget (credit_accounts db) a = Some acct \<longrightarrow> ca_reserved acct = account_holds db a) \<and>
     (\<forall>k kb. tget (key_budget_state db) k = Some kb \<longrightarrow> kb_reserved kb = key_holds db k) \<and>
     (\<forall>i r. tget (usage_reservations db) i = Some r \<longrightarrow> amount_ok (rr_reserved_micros r))"

definition books_ok :: "billing_db \<Rightarrow> bool" where
  "books_ok db \<longleftrightarrow>
     (\<forall>a acct. tget (credit_accounts db) a = Some acct \<longrightarrow>
        ca_available acct + ca_reserved acct = account_books db a \<and> amount_ok (ca_available acct))"

definition billing_inv :: "billing_db \<Rightarrow> bool" where
  "billing_inv db \<longleftrightarrow> wf_tables db \<and> holds_ok db \<and> books_ok db"

lemmas inv_defs = billing_inv_def wf_tables_def holds_ok_def books_ok_def
  account_holds_def key_holds_def account_books_def

lemma billing_inv_empty: "billing_inv empty_db"
  by (simp add: inv_defs empty_db_def tbl_simps)

lemma open_hold_nonneg:
  "holds_ok db \<Longrightarrow> wf_tables db \<Longrightarrow> (i, r) \<in> trows (usage_reservations db) \<Longrightarrow> 0 \<le> open_hold who i r"
  by (auto simp: open_hold_def holds_ok_def wf_tables_def amount_ok_def dest: trows_tget)

lemma inv_row_amount:
  "billing_inv db \<Longrightarrow> tget (usage_reservations db) i = Some row \<Longrightarrow> amount_ok (rr_reserved_micros row)"
  by (simp add: billing_inv_def holds_ok_def)

lemma balance_ok:
  "billing_inv db \<Longrightarrow> tget (credit_accounts db) a = Some acct \<Longrightarrow> amount_ok (ca_available acct)"
  by (simp add: billing_inv_def books_ok_def)

lemma reserved_nonneg:
  assumes "billing_inv db" and "tget (credit_accounts db) a = Some acct"
  shows "0 \<le> ca_reserved acct"
proof -
  have "ca_reserved acct = account_holds db a" using assms by (simp add: billing_inv_def holds_ok_def)
  moreover have "0 \<le> account_holds db a"
    using assms unfolding account_holds_def billing_inv_def
    by (intro tsum_nonneg) (auto intro: open_hold_nonneg)
  ultimately show ?thesis by simp
qed

subsection \<open>Postings\<close>

text \<open>
  The contract every accounting transaction meets: against one account and one key it moves
  \<open>hold\<close> into (or out of) the reserved amounts and writes \<open>book\<close> to the ledger, and what the
  account holds in total changes by exactly \<open>book\<close>; it opens and closes no account. Any transaction that posts keeps the
  accounting invariant.
\<close>

definition posts_account :: "billing_db \<Rightarrow> billing_db \<Rightarrow> uuid \<Rightarrow> int \<Rightarrow> int \<Rightarrow> bool" where
  "posts_account db db' a hold book \<longleftrightarrow>
     (\<forall>x. tget (credit_accounts db') x = None \<longleftrightarrow> tget (credit_accounts db) x = None) \<and>
     (\<forall>x acct'. tget (credit_accounts db') x = Some acct' \<longrightarrow>
        (\<exists>acct. tget (credit_accounts db) x = Some acct \<and> amount_ok (ca_available acct') \<and>
           ca_reserved acct' = ca_reserved acct + (if x = a then hold else 0) \<and>
           ca_available acct' = ca_available acct + (if x = a then book - hold else 0)))"

definition posts_key :: "billing_db \<Rightarrow> billing_db \<Rightarrow> uuid \<Rightarrow> int \<Rightarrow> bool" where
  "posts_key db db' k hold \<longleftrightarrow>
     (\<forall>x kb'. tget (key_budget_state db') x = Some kb' \<longrightarrow>
        (\<exists>kb. tget (key_budget_state db) x = Some kb \<and>
           kb_reserved kb' = kb_reserved kb + (if x = k then hold else 0)))"

definition posts_holds :: "billing_db \<Rightarrow> billing_db \<Rightarrow> uuid \<Rightarrow> uuid \<Rightarrow> int \<Rightarrow> bool" where
  "posts_holds db db' a k hold \<longleftrightarrow>
     (\<forall>x. account_holds db' x = account_holds db x + (if x = a then hold else 0)) \<and>
     (\<forall>x. key_holds db' x = key_holds db x + (if x = k then hold else 0)) \<and>
     (\<forall>i r. tget (usage_reservations db') i = Some r \<longrightarrow> amount_ok (rr_reserved_micros r))"

definition posts_books :: "billing_db \<Rightarrow> billing_db \<Rightarrow> uuid \<Rightarrow> int \<Rightarrow> bool" where
  "posts_books db db' a book \<longleftrightarrow>
     (\<forall>x. account_books db' x = account_books db x + (if x = a then book else 0))"

definition posts :: "billing_db \<Rightarrow> billing_db \<Rightarrow> uuid \<Rightarrow> uuid \<Rightarrow> int \<Rightarrow> int \<Rightarrow> bool" where
  "posts db db' a k hold book \<longleftrightarrow> wf_tables db' \<and> posts_account db db' a hold book \<and>
     posts_key db db' k hold \<and> posts_holds db db' a k hold \<and> posts_books db db' a book"

theorem posts_inv:
  assumes "billing_inv db" and "posts db db' a k hold book"
  shows "billing_inv db'"
proof -
  have "holds_ok db'"
    unfolding holds_ok_def
  proof (intro conjI allI impI)
    fix x acct' assume "tget (credit_accounts db') x = Some acct'"
    with assms(2) obtain acct where "tget (credit_accounts db) x = Some acct"
      "ca_reserved acct' = ca_reserved acct + (if x = a then hold else 0)"
      unfolding posts_def posts_account_def by blast
    with assms show "ca_reserved acct' = account_holds db' x"
      by (simp add: posts_def posts_holds_def billing_inv_def holds_ok_def)
  next
    fix x kb' assume "tget (key_budget_state db') x = Some kb'"
    with assms(2) obtain kb where "tget (key_budget_state db) x = Some kb"
      "kb_reserved kb' = kb_reserved kb + (if x = k then hold else 0)"
      by (auto simp: posts_def posts_key_def)
    with assms show "kb_reserved kb' = key_holds db' x"
      by (simp add: posts_def posts_holds_def billing_inv_def holds_ok_def)
  qed (use assms(2) in \<open>auto simp: posts_def posts_holds_def\<close>)
  moreover have "books_ok db'"
    unfolding books_ok_def
  proof (intro allI impI)
    fix x acct' assume "tget (credit_accounts db') x = Some acct'"
    with assms(2) obtain acct where "tget (credit_accounts db) x = Some acct" "amount_ok (ca_available acct')"
      "ca_reserved acct' = ca_reserved acct + (if x = a then hold else 0)"
      "ca_available acct' = ca_available acct + (if x = a then book - hold else 0)"
      unfolding posts_def posts_account_def by blast
    with assms show "ca_available acct' + ca_reserved acct' = account_books db' x \<and> amount_ok (ca_available acct')"
      by (simp add: posts_def posts_books_def billing_inv_def books_ok_def)
  qed
  ultimately show ?thesis using assms(2) by (simp add: billing_inv_def posts_def)
qed

lemma posts_account_put:
  assumes "billing_inv db" and "tget (credit_accounts db) a = Some acct"
    and "credit_accounts db' = tput a acct' (credit_accounts db)"
    and "ca_reserved acct' = ca_reserved acct + hold"
    and "ca_available acct' = ca_available acct + book - hold" and "amount_ok (ca_available acct')"
  shows "posts_account db db' a hold book"
  using assms by (auto simp: posts_account_def tbl_simps billing_inv_def books_ok_def)

lemma posts_account_same:
  "billing_inv db \<Longrightarrow> credit_accounts db' = credit_accounts db \<Longrightarrow> posts_account db db' a 0 0"
  by (auto simp: posts_account_def billing_inv_def books_ok_def)

lemma posts_key_same: "key_budget_state db' = key_budget_state db \<Longrightarrow> posts_key db db' k 0"
  by (auto simp: posts_key_def)

lemma posts_books_same: "ledger_entries db' = ledger_entries db \<Longrightarrow> posts_books db db' a 0"
  by (auto simp: posts_books_def account_books_def)

lemma posts_books_fresh:
  assumes "ledger_entries db' = tput i e (ledger_entries db)" and "tget (ledger_entries db) i = None"
  shows "posts_books db db' (le_account_id e) (if touches_balance e then le_amount e else 0)"
  using assms by (auto simp: posts_books_def account_books_def tbl_simps book_value_def)

text \<open>The hold a row represents: its amount while it is open and prepaid.\<close>

abbreviation row_hold :: "reservation_row \<Rightarrow> int" where
  "row_hold r \<equiv> open_hold (\<lambda>_. True) [] r"

lemma open_hold_who: "open_hold who i r = (if who r then row_hold r else 0)"
  by (simp add: open_hold_def)

lemma posts_holds_fresh:
  assumes "billing_inv db" and "usage_reservations db' = tput i row (usage_reservations db)"
    and "tget (usage_reservations db) i = None" and "amount_ok (rr_reserved_micros row)"
  shows "posts_holds db db' (rr_account_id row) (rr_key_id row) (row_hold row)"
  using assms
  by (auto simp: posts_holds_def account_holds_def key_holds_def tbl_simps open_hold_def
      billing_inv_def holds_ok_def split: if_splits)

lemma posts_holds_update:
  assumes "billing_inv db" and "usage_reservations db' = tput i row (usage_reservations db)"
    and "tget (usage_reservations db) i = Some row0" and "amount_ok (rr_reserved_micros row)"
    and "rr_account_id row = rr_account_id row0" and "rr_key_id row = rr_key_id row0"
  shows "posts_holds db db' (rr_account_id row) (rr_key_id row) (row_hold row - row_hold row0)"
  using assms
  by (auto simp: posts_holds_def account_holds_def key_holds_def tbl_simps open_hold_def
      billing_inv_def holds_ok_def split: if_splits)

lemma posts_holds_same:
  "billing_inv db \<Longrightarrow> usage_reservations db' = usage_reservations db \<Longrightarrow> posts_holds db db' a k 0"
  by (auto simp: posts_holds_def account_holds_def key_holds_def billing_inv_def holds_ok_def)

lemma posts_trans:
  assumes "posts db db1 a k h b" and "posts db1 db2 a k h' b'"
  shows "posts db db2 a k (h + h') (b + b')"
proof -
  have "posts_account db db2 a (h + h') (b + b')"
    unfolding posts_account_def
  proof (intro conjI allI impI)
    show "tget (credit_accounts db2) x = None \<longleftrightarrow> tget (credit_accounts db) x = None" for x
      using assms by (simp add: posts_def posts_account_def)
  next
    fix x acct2 assume "tget (credit_accounts db2) x = Some acct2"
    with assms(2) obtain acct1 where 1: "tget (credit_accounts db1) x = Some acct1" "amount_ok (ca_available acct2)"
      "ca_reserved acct2 = ca_reserved acct1 + (if x = a then h' else 0)"
      "ca_available acct2 = ca_available acct1 + (if x = a then b' - h' else 0)"
      unfolding posts_def posts_account_def by blast
    with assms(1) obtain acct where "tget (credit_accounts db) x = Some acct"
      "ca_reserved acct1 = ca_reserved acct + (if x = a then h else 0)"
      "ca_available acct1 = ca_available acct + (if x = a then b - h else 0)"
      unfolding posts_def posts_account_def by blast
    with 1 show "\<exists>acct. tget (credit_accounts db) x = Some acct \<and> amount_ok (ca_available acct2) \<and>
           ca_reserved acct2 = ca_reserved acct + (if x = a then h + h' else 0) \<and>
           ca_available acct2 = ca_available acct + (if x = a then b + b' - (h + h') else 0)" by auto
  qed
  moreover have "posts_key db db2 k (h + h')"
    unfolding posts_key_def
  proof (intro allI impI)
    fix x kb2 assume "tget (key_budget_state db2) x = Some kb2"
    with assms(2) obtain kb1 where 1: "tget (key_budget_state db1) x = Some kb1"
      "kb_reserved kb2 = kb_reserved kb1 + (if x = k then h' else 0)"
      unfolding posts_def posts_key_def by blast
    with assms(1) obtain kb where "tget (key_budget_state db) x = Some kb"
      "kb_reserved kb1 = kb_reserved kb + (if x = k then h else 0)"
      unfolding posts_def posts_key_def by blast
    with 1 show "\<exists>kb. tget (key_budget_state db) x = Some kb \<and>
      kb_reserved kb2 = kb_reserved kb + (if x = k then h + h' else 0)" by auto
  qed
  moreover have "posts_holds db db2 a k (h + h')" using assms by (auto simp: posts_def posts_holds_def)
  moreover have "posts_books db db2 a (b + b')" using assms by (auto simp: posts_def posts_books_def)
  ultimately show ?thesis using assms(2) by (simp add: posts_def)
qed

subsection \<open>A concrete account\<close>

text \<open>
  One account with one grant and one key, and the budget parser on the texts it uses: the
  inputs at which the properties are evaluated.
\<close>

definition sample_dp :: "string \<Rightarrow> decimal option" where
  "sample_dp s = (if s = ''1'' then Some (Decimal 1 0) else None)"

definition sample_policy :: key_policy where
  "sample_policy = \<lparr>allowed_models = [], requests_per_minute = Some 5, tokens_per_minute = Some 100,
     max_concurrency = Some 2, policy_mode = Prepaid, daily_budget = None,
     weekly_budget = Some ''1'', lifetime_budget = Some ''1''\<rparr>"

definition sample_key :: authenticated_key where
  "sample_key = \<lparr>ak_key_id = ''k'', ak_tenant_id = ''t'', ak_principal_id = ''p'', ak_account_id = ''a'',
     ak_alias = '''', ak_currency = ''USD'', ak_credential_generation = 1, ak_policy = sample_policy\<rparr>"

definition sample_grant :: ledger_entry where
  "sample_grant = \<lparr>le_account_id = ''a'', le_key_id = None, le_kind = Grant, le_amount = 1000,
     le_currency = ''USD'', le_source = ''purchase'', le_idempotency_key = Some ''order-1'',
     le_reference_entry_id = None, le_entitlement_cycle_id = None, le_created_at = 0,
     le_usage_snapshot = Some 0\<rparr>"

definition sample_db :: billing_db where
  "sample_db = empty_db\<lparr>
     credit_accounts := [(''a'', \<lparr>ca_tenant_id = ''t'', ca_currency = ''USD'', ca_available = 1000, ca_reserved = 0, ca_updated_at = 0\<rparr>)],
     key_records := [(''k'', \<lparr>kr_account_id = ''a'', kr_policy = Some sample_policy\<rparr>)],
     key_budget_state := [(''k'', \<lparr>kb_settled_lifetime = 0, kb_reserved = 0, kb_updated_at = 0\<rparr>)],
     ledger_entries := [(''g'', sample_grant)]\<rparr>"

lemma sample_db_inv: "billing_inv sample_db"
  by (simp add: inv_defs sample_db_def empty_db_def tget_def wf_table_def tsum_def book_value_def
      sample_grant_def touches_balance_def amount_ok_def i64_bounds)

lemma posts_refl: "billing_inv db \<Longrightarrow> posts db db a k 0 0"
  by (simp add: posts_def posts_account_same posts_key_same posts_holds_same posts_books_same billing_inv_def)

end
