(* ===== verification/Usage_Pricing.thy ===== *)
theory Usage_Pricing
  imports Billing_Tables
begin

text \<open>
  Pricing of token usage (\<open>src/src/db/requests/settlement.rs\<close>): validation and
  normalization of the usage a provider reports, the amount reserved before a request is
  dispatched and the amount charged when it ends.
\<close>

subsection \<open>Definitions\<close>

definition token_count_ok :: "int \<Rightarrow> bool" where
  "token_count_ok n \<longleftrightarrow> 0 \<le> n \<and> n \<le> 1000000000"

definition validate_token_usage :: "token_usage \<Rightarrow> unit res" where
  "validate_token_usage usage =
     (if \<not> list_all token_count_ok
           [tu_input usage, tu_cached_input usage, tu_cache_write usage, tu_output usage]
      then Inl (BadRequest ''upstream token usage is outside the supported range'')
      else case tu_service_tier usage of None \<Rightarrow> Inr ()
        | Some tier \<Rightarrow> validate_service_tier tier)"

text \<open>Whether the tier a provider reports honours the tier the request was admitted with.\<close>

definition tier_matches :: "string option \<Rightarrow> string option \<Rightarrow> bool" where
  "tier_matches requested reported \<longleftrightarrow>
     (if requested = None \<or> requested = Some ''default''
      then reported = None \<or> reported = Some ''default'' \<or> reported = Some ''auto''
      else if requested = Some ''auto'' then True
      else if requested = Some ''standard_only''
      then reported = None \<or> reported = Some ''default'' \<or> reported = Some ''standard_only''
      else reported = None \<or> reported = requested)"

definition normalize_proxy_usage_with_output_limit ::
  "token_usage \<Rightarrow> int \<Rightarrow> int option \<Rightarrow> string option \<Rightarrow> token_usage res" where
  "normalize_proxy_usage_with_output_limit usage input_token_ceiling output_token_limit
     requested_service_tier =
     (let unavailable = Upstream ''upstream_unavailable''
            (no_facts\<lparr>ef_stage := Some ''settlement_normalize_proxy_usage_with_output_limit''\<rparr>);
          reported = tu_service_tier usage
      in rbind (case validate_token_usage usage of
             Inl _ \<Rightarrow> Inl (upstream ''upstream_returned_invalid_token_usage'')
           | Inr _ \<Rightarrow> Inr ()) (\<lambda>_.
         rbind (ensure (\<not> (input_token_ceiling < 0 \<or>
             (case output_token_limit of None \<Rightarrow> False | Some l \<Rightarrow> l < 0)))
           (internal ''settlement_normalize_proxy_usage_with_output_limit_1'')) (\<lambda>_.
         rbind (ok_or (case checked (tu_input usage + tu_cached_input usage) of None \<Rightarrow> None
             | Some t \<Rightarrow> checked (t + tu_cache_write usage))
           (upstream ''upstream_returned_invalid_token_usage'')) (\<lambda>_.
         rbind (ensure (\<not> (case output_token_limit of None \<Rightarrow> False
             | Some l \<Rightarrow> l < tu_output usage)) unavailable) (\<lambda>_.
         rbind (case requested_service_tier of None \<Rightarrow> Inr ()
           | Some requested \<Rightarrow> (case validate_service_tier requested of
               Inl _ \<Rightarrow> Inl (internal ''settlement_normalize_proxy_usage_with_output_limit_1'')
             | Inr _ \<Rightarrow> Inr ())) (\<lambda>_.
         rbind (ensure (tier_matches requested_service_tier reported) unavailable) (\<lambda>_.
         Inr (if reported = None \<or>
                 (reported = Some ''auto'' \<and>
                  (requested_service_tier = None \<or> requested_service_tier = Some ''default''))
              then usage\<lparr>tu_service_tier := requested_service_tier\<rparr>
              else usage))))))))"

definition normalize_proxy_usage ::
  "token_usage \<Rightarrow> int \<Rightarrow> int \<Rightarrow> string option \<Rightarrow> token_usage res" where
  "normalize_proxy_usage usage input_token_ceiling output_token_ceiling requested_service_tier =
     normalize_proxy_usage_with_output_limit usage input_token_ceiling
       (Some output_token_ceiling) requested_service_tier"

text \<open>\<open>Iterator::max\<close> with a default for the empty iterator.\<close>

definition max_or :: "int \<Rightarrow> int list \<Rightarrow> int" where
  "max_or d xs = (case xs of [] \<Rightarrow> d | x # r \<Rightarrow> fold max r x)"

definition maximum_input_price :: "model_price \<Rightarrow> int" where
  "maximum_input_price price = max (max_or (mp_input price)
     (concat (map (\<lambda>t. [pt_input t, pt_cached_input t, pt_cache_write t]) (mp_tiers price))))
     (mp_input price)"

definition maximum_output_price :: "model_price \<Rightarrow> int" where
  "maximum_output_price price =
     max (max_or (mp_output price) (map pt_output (mp_tiers price))) (mp_output price)"

definition reservation_ceiling_amounts :: "model_price \<Rightarrow> int \<Rightarrow> int \<Rightarrow> (int \<times> int) res" where
  "reservation_ceiling_amounts price input_token_ceiling output_token_ceiling =
     (if input_token_ceiling < 0 \<or> output_token_ceiling < 0
      then Inl (internal ''settlement_reservation_ceiling_amounts_1'')
      else
        rbind (ok_or (checked (priced_tokens input_token_ceiling (maximum_input_price price) +
                               priced_tokens output_token_ceiling (maximum_output_price price)))
                (LimitExceeded BalanceExhausted None)) (\<lambda>reserved_micros.
        rbind (ok_or (checked (input_token_ceiling + output_token_ceiling))
                (LimitExceeded TpmExhausted (Some 60))) (\<lambda>reserved_tokens.
        Inr (reserved_micros, reserved_tokens))))"

definition usage_contract_amounts ::
  "enforcement_mode \<Rightarrow> model_price \<Rightarrow> int \<Rightarrow> int \<Rightarrow> (int \<times> int) res" where
  "usage_contract_amounts mode price input_token_ceiling output_token_ceiling =
     (if enforces_prepaid_limits mode
      then reservation_ceiling_amounts price input_token_ceiling output_token_ceiling
      else if input_token_ceiling < 0 \<or> output_token_ceiling < 0
      then Inl (internal ''settlement_usage_contract_amounts_1'')
      else rbind (ok_or (checked (input_token_ceiling + output_token_ceiling))
             (BadRequest ''token ceiling exceeds the supported range'')) (\<lambda>tokens.
           Inr (0, tokens)))"

definition fallback_tier :: "usage_reservation \<Rightarrow> model_price_tier" where
  "fallback_tier reservation =
     \<lparr>pt_service_tier = ''default'', pt_input = ur_input reservation,
      pt_cached_input = ur_input reservation, pt_cache_write = ur_input reservation,
      pt_output = ur_output reservation, pt_source = ''legacy-snapshot''\<rparr>"

definition conservative_tier :: "usage_reservation \<Rightarrow> string \<Rightarrow> model_price_tier" where
  "conservative_tier reservation requested =
     (let fallback = fallback_tier reservation; tiers = ur_price_tiers reservation in
      \<lparr>pt_service_tier = requested,
       pt_input = max_or (pt_input fallback) (map pt_input tiers),
       pt_cached_input = max_or (pt_cached_input fallback) (map pt_cached_input tiers),
       pt_cache_write = max_or (pt_cache_write fallback) (map pt_cache_write tiers),
       pt_output = max_or (pt_output fallback) (map pt_output tiers),
       pt_source = ''conservative-snapshot''\<rparr>)"

definition billed_tier :: "usage_reservation \<Rightarrow> token_usage \<Rightarrow> model_price_tier" where
  "billed_tier reservation usage =
     (let requested = (case tu_service_tier usage of None \<Rightarrow> ''default'' | Some t \<Rightarrow> t) in
      case List.find (\<lambda>tier. pt_service_tier tier = requested) (ur_price_tiers reservation) of
        Some exact \<Rightarrow> exact
      | None \<Rightarrow> if ur_price_tiers reservation = [] then fallback_tier reservation
                else conservative_tier reservation requested)"

fun try_sum :: "int \<Rightarrow> int list \<Rightarrow> int option" where
  "try_sum acc [] = Some acc"
| "try_sum acc (x # xs) = (case checked (acc + x) of None \<Rightarrow> None | Some acc' \<Rightarrow> try_sum acc' xs)"

definition price_token_usage :: "usage_reservation \<Rightarrow> token_usage \<Rightarrow> int res" where
  "price_token_usage reservation usage =
     (let tier = billed_tier reservation usage in
      ok_or (try_sum 0
        [priced_tokens (tu_input usage) (pt_input tier),
         priced_tokens (tu_cached_input usage) (pt_cached_input tier),
         priced_tokens (tu_cache_write usage) (pt_cache_write tier),
         priced_tokens (tu_output usage) (pt_output tier)])
        (internal ''settlement_price_token_usage_1''))"

subsection \<open>Lemmas\<close>

lemma fold_max_ge: "x \<in> set (y # ys) \<Longrightarrow> x \<le> fold max ys (y::int)"
  using Max.set_eq_fold [of y ys] Max_ge [of "set (y # ys)" x] by simp

lemma max_or_ge: "x \<in> set xs \<Longrightarrow> x \<le> max_or d xs"
  using fold_max_ge by (cases xs) (auto simp: max_or_def)

lemma fold_max_in: "fold max ys (y::int) \<in> set (y # ys)"
  using Max.set_eq_fold [of y ys] Max_in [of "set (y # ys)"] by simp

lemma max_or_in: "xs \<noteq> [] \<Longrightarrow> max_or d xs \<in> set xs"
  using fold_max_in by (cases xs) (auto simp: max_or_def)

lemma try_sum_Some: "try_sum acc xs = Some r \<Longrightarrow> r = acc + sum_list xs \<and> (xs \<noteq> [] \<longrightarrow> in_i64 r)"
proof (induction xs arbitrary: acc)
  case (Cons x xs)
  then have range: "in_i64 (acc + x)" and rest: "try_sum (acc + x) xs = Some r"
    by (auto split: option.splits)
  from Cons.IH [OF rest] have r: "r = acc + x + sum_list xs" and "xs \<noteq> [] \<longrightarrow> in_i64 r" by auto
  with range show ?case by (cases xs) auto
qed simp

lemma validate_token_usage_Inr:
  "validate_token_usage u = Inr x \<Longrightarrow> token_count_ok (tu_input u) \<and> token_count_ok (tu_cached_input u) \<and>
     token_count_ok (tu_cache_write u) \<and> token_count_ok (tu_output u)"
  by (auto simp: validate_token_usage_def split: if_splits)

lemma price_token_usage_Inr:
  assumes "price_token_usage r u = Inr m"
  shows "m = priced_tokens (tu_input u) (pt_input (billed_tier r u)) +
             priced_tokens (tu_cached_input u) (pt_cached_input (billed_tier r u)) +
             priced_tokens (tu_cache_write u) (pt_cache_write (billed_tier r u)) +
             priced_tokens (tu_output u) (pt_output (billed_tier r u))"
    and "0 \<le> m" and "in_i64 m"
proof -
  let ?xs = "[priced_tokens (tu_input u) (pt_input (billed_tier r u)),
    priced_tokens (tu_cached_input u) (pt_cached_input (billed_tier r u)),
    priced_tokens (tu_cache_write u) (pt_cache_write (billed_tier r u)),
    priced_tokens (tu_output u) (pt_output (billed_tier r u))]"
  from assms have s: "try_sum 0 ?xs = Some m" by (simp add: price_token_usage_def Let_def res_simps)
  from try_sum_Some [OF s] show eq: "m = priced_tokens (tu_input u) (pt_input (billed_tier r u)) +
             priced_tokens (tu_cached_input u) (pt_cached_input (billed_tier r u)) +
             priced_tokens (tu_cache_write u) (pt_cache_write (billed_tier r u)) +
             priced_tokens (tu_output u) (pt_output (billed_tier r u))" by simp
  show "0 \<le> m" by (simp add: eq priced_tokens_nonneg)
  show "in_i64 m" using try_sum_Some [OF s] by blast
qed

text \<open>The tier a reservation bills never costs more than the prices the reservation was sized with.\<close>

definition priced_like :: "usage_reservation \<Rightarrow> model_price \<Rightarrow> bool" where
  "priced_like r price \<longleftrightarrow> ur_input r = mp_input price \<and> ur_output r = mp_output price \<and>
     ur_price_tiers r = mp_tiers price"

lemma billed_tier_shape:
  "billed_tier r u \<in> set (ur_price_tiers r) \<or>
   ur_price_tiers r = [] \<and> billed_tier r u = fallback_tier r \<or>
   ur_price_tiers r \<noteq> [] \<and> (\<exists>q. billed_tier r u = conservative_tier r q)"
  by (auto simp: billed_tier_def Let_def find_Some_iff split: option.split)

lemma billed_tier_cases:
  assumes "priced_like r price"
  shows "pt_input (billed_tier r u) \<le> maximum_input_price price"
    and "pt_cached_input (billed_tier r u) \<le> maximum_input_price price"
    and "pt_cache_write (billed_tier r u) \<le> maximum_input_price price"
    and "pt_output (billed_tier r u) \<le> maximum_output_price price"
proof -
  let ?ts = "mp_tiers price" and ?b = "billed_tier r u"
  let ?ins = "concat (map (\<lambda>t. [pt_input t, pt_cached_input t, pt_cache_write t]) ?ts)"
  have tier_in: "p \<in> set ?ins \<Longrightarrow> p \<le> maximum_input_price price" for p
    using max_or_ge [of p ?ins] by (simp add: maximum_input_price_def le_max_iff_disj)
  have tier_out: "p \<in> set (map pt_output ?ts) \<Longrightarrow> p \<le> maximum_output_price price" for p
    using max_or_ge [of p "map pt_output ?ts"] by (simp add: maximum_output_price_def le_max_iff_disj)
  have base: "mp_input price \<le> maximum_input_price price" "mp_output price \<le> maximum_output_price price"
    by (simp_all add: maximum_input_price_def maximum_output_price_def)
  have member: "t \<in> set ?ts \<Longrightarrow> pt_input t \<in> set ?ins \<and> pt_cached_input t \<in> set ?ins \<and>
      pt_cache_write t \<in> set ?ins \<and> pt_output t \<in> set (map pt_output ?ts)" for t by auto
  have col: "?ts \<noteq> [] \<Longrightarrow> \<exists>t \<in> set ?ts. max_or d (map g ?ts) = g t" for d and g :: "model_price_tier \<Rightarrow> int"
    using max_or_in [of "map g ?ts" d] by auto
  consider t where "t \<in> set ?ts" "?b = t" | "?ts = []" "?b = fallback_tier r"
    | q where "?ts \<noteq> []" "?b = conservative_tier r q"
    using assms billed_tier_shape [of r u] unfolding priced_like_def by metis
  then have "pt_input ?b \<le> maximum_input_price price \<and> pt_cached_input ?b \<le> maximum_input_price price \<and>
    pt_cache_write ?b \<le> maximum_input_price price \<and> pt_output ?b \<le> maximum_output_price price"
  proof cases
    case (1 t)
    then show ?thesis using member [of t] tier_in tier_out by blast
  next
    case 2
    then show ?thesis using base assms by (simp add: fallback_tier_def priced_like_def)
  next
    case (3 q)
    then show ?thesis
      using assms member tier_in tier_out
        col [of "ur_input r" pt_input] col [of "ur_input r" pt_cached_input]
        col [of "ur_input r" pt_cache_write] col [of "ur_output r" pt_output]
      by (auto simp: conservative_tier_def Let_def fallback_tier_def priced_like_def)
  qed
  then show "pt_input ?b \<le> maximum_input_price price" "pt_cached_input ?b \<le> maximum_input_price price"
    "pt_cache_write ?b \<le> maximum_input_price price" "pt_output ?b \<le> maximum_output_price price"
    by simp_all
qed

text \<open>Charging three input classes separately rounds up twice more than charging their sum.\<close>

lemma priced_tokens_split:
  assumes "0 \<le> s" and "0 \<le> t" and "priced_tokens (s + t) p < i64_max"
  shows "priced_tokens s p + priced_tokens t p \<le> priced_tokens (s + t) p + 1"
proof (cases "0 < s \<and> 0 < t \<and> 0 < p")
  case True
  have "(s * p + 999999) div 1000000 + (t * p + 999999) div 1000000
      \<le> ((s + t) * p + 999999) div 1000000 + 1"
    by (simp add: distrib_right)
  moreover have "priced_tokens (s + t) p = ((s + t) * p + 999999) div 1000000"
    using True assms(3) priced_tokens_alt [of "s + t" p] by (simp add: min_def split: if_splits)
  moreover have "priced_tokens s p \<le> (s * p + 999999) div 1000000"
    "priced_tokens t p \<le> (t * p + 999999) div 1000000"
    using True by (simp_all add: priced_tokens_alt)
  ultimately show ?thesis by linarith
next
  case False
  then consider "p \<le> 0" | "s = 0" | "t = 0" using assms by linarith
  then show ?thesis by cases (auto simp: priced_tokens_def)
qed

lemma priced_tokens_split3:
  assumes "0 \<le> a" and "0 \<le> b" and "0 \<le> c" and "priced_tokens (a + b + c) p < i64_max"
  shows "priced_tokens a p + priced_tokens b p + priced_tokens c p \<le> priced_tokens (a + b + c) p + 2"
proof -
  have "priced_tokens (a + b) p \<le> priced_tokens (a + b + c) p"
    using assms by (intro priced_tokens_mono) auto
  then have "priced_tokens (a + b) p < i64_max" using assms by simp
  then show ?thesis
    using priced_tokens_split [of a b p] priced_tokens_split [of "a + b" c p] assms by simp
qed

subsection \<open>Properties\<close>

text \<open>
  C38. The amount reserved for a request covers its charge: when the provider reports no
  more input and output tokens than the admitted ceilings, in whatever split of cached and
  uncached input and on whatever service tier, the charge exceeds the reservation by at
  most two millionths, which only the separate rounding of the three input classes causes.
\<close>

theorem reservation_covers_charge:
  assumes "priced_like r price"
    and "reservation_ceiling_amounts price ic oc = Inr (micros, tokens)"
    and "validate_token_usage u = Inr ()"
    and "tu_input u + tu_cached_input u + tu_cache_write u \<le> ic" and "tu_output u \<le> oc"
    and "price_token_usage r u = Inr charge"
  shows "charge \<le> micros + 2"
proof -
  let ?b = "billed_tier r u" and ?P = "maximum_input_price price" and ?Q = "maximum_output_price price"
  let ?n = "tu_input u + tu_cached_input u + tu_cache_write u"
  have nonneg: "0 \<le> tu_input u" "0 \<le> tu_cached_input u" "0 \<le> tu_cache_write u"
    using validate_token_usage_Inr [OF assms(3)] by (auto simp: token_count_ok_def)
  have micros: "micros = priced_tokens ic ?P + priced_tokens oc ?Q" and range: "in_i64 micros"
    using assms(2) by (auto simp: reservation_ceiling_amounts_def res_simps split: if_splits)
  have out: "priced_tokens (tu_output u) (pt_output ?b) \<le> priced_tokens oc ?Q"
    using assms(5) billed_tier_cases(4) [OF assms(1)] by (intro priced_tokens_mono) auto
  have ins: "priced_tokens ?n ?P \<le> priced_tokens ic ?P"
    using assms(4) by (intro priced_tokens_mono) auto
  have cols: "priced_tokens (tu_input u) (pt_input ?b) \<le> priced_tokens (tu_input u) ?P"
    "priced_tokens (tu_cached_input u) (pt_cached_input ?b) \<le> priced_tokens (tu_cached_input u) ?P"
    "priced_tokens (tu_cache_write u) (pt_cache_write ?b) \<le> priced_tokens (tu_cache_write u) ?P"
    using billed_tier_cases(1,2,3) [OF assms(1)] by (auto intro: priced_tokens_mono)
  show ?thesis
  proof (cases "priced_tokens ?n ?P < i64_max")
    case True
    from priced_tokens_split3 [OF nonneg True] cols out ins micros price_token_usage_Inr(1) [OF assms(6)]
    show ?thesis by linarith
  next
    case False
    then have "i64_max \<le> micros" using ins micros priced_tokens_nonneg [of oc ?Q] by linarith
    then show ?thesis using price_token_usage_Inr(3) [OF assms(6)] by (simp add: in_i64_def)
  qed
qed

definition sample_price :: model_price where
  "sample_price = \<lparr>mp_id = ''p'', mp_input = 1, mp_output = 2, mp_tiers = []\<rparr>"

definition sample_priced :: usage_reservation where
  "sample_priced = \<lparr>ur_id = ''r'', ur_account_id = ''a'', ur_key_id = ''k'', ur_mode = Prepaid,
     ur_reserved_micros = 2, ur_input = 1, ur_output = 2, ur_price_tiers = [],
     ur_rate_window_start = 0, ur_reserved_tokens = 4\<rparr>"

definition sample_usage :: token_usage where
  "sample_usage = default_usage\<lparr>tu_input := 1, tu_cached_input := 1, tu_cache_write := 1, tu_output := 1\<rparr>"

lemmas sample_pricing = sample_price_def sample_priced_def sample_usage_def default_usage_def
  priced_like_def reservation_ceiling_amounts_def maximum_input_price_def maximum_output_price_def
  max_or_def priced_tokens_def in_i64_def i64_bounds ok_or_def checked_def validate_token_usage_def
  token_count_ok_def price_token_usage_def billed_tier_def fallback_tier_def Let_def

theorem reservation_covers_charge_witness:
  "reservation_ceiling_amounts sample_price 3 1 = Inr (2, 4) \<and>
   price_token_usage sample_priced sample_usage = Inr 4 \<and> (4::int) \<le> 2 + 2"
proof -
  have a: "priced_like sample_priced sample_price" by (simp add: sample_pricing)
  have b: "reservation_ceiling_amounts sample_price 3 1 = Inr (2, 4)" by (simp add: sample_pricing)
  have c: "validate_token_usage sample_usage = Inr ()" by (simp add: sample_pricing)
  have d: "tu_input sample_usage + tu_cached_input sample_usage + tu_cache_write sample_usage \<le> 3"
    "tu_output sample_usage \<le> 1" by (simp_all add: sample_pricing)
  have e: "price_token_usage sample_priced sample_usage = Inr 4" by (simp add: sample_pricing)
  from reservation_covers_charge [OF a b c d e] b e show ?thesis by simp
qed

text \<open>
  Normalization never changes what is billed in tokens, and the tier it settles on is one
  the request was admitted with: either the requested tier, the default tier under a
  request for standard service, or any reported tier under an explicit request for
  \<open>auto\<close>. An output beyond an explicit limit and out-of-range counts are rejected.
\<close>

theorem normalize_proxy_usage_sound:
  assumes "normalize_proxy_usage_with_output_limit usage ic limit requested = Inr n"
  shows "n = usage\<lparr>tu_service_tier := tu_service_tier n\<rparr> \<and>
    token_count_ok (tu_input n) \<and> token_count_ok (tu_cached_input n) \<and>
    token_count_ok (tu_cache_write n) \<and> token_count_ok (tu_output n) \<and>
    (\<forall>l. limit = Some l \<longrightarrow> 0 \<le> l \<and> tu_output n \<le> l) \<and>
    (tu_service_tier n = requested \<or> requested = Some ''auto'' \<or>
     (requested \<in> {None, Some ''standard_only''} \<and> tu_service_tier n = Some ''default''))"
proof -
  from assms have v: "validate_token_usage usage = Inr ()"
    by (auto simp: normalize_proxy_usage_with_output_limit_def Let_def res_simps split: sum.splits)
  have counts: "token_count_ok (tu_input usage) \<and> token_count_ok (tu_cached_input usage) \<and>
    token_count_ok (tu_cache_write usage) \<and> token_count_ok (tu_output usage)"
    by (rule validate_token_usage_Inr [OF v])
  from assms have lim: "\<forall>l. limit = Some l \<longrightarrow> 0 \<le> l \<and> tu_output usage \<le> l"
    by (auto simp: normalize_proxy_usage_with_output_limit_def Let_def res_simps split: option.splits)
  from assms have tm: "tier_matches requested (tu_service_tier usage)"
    by (auto simp: normalize_proxy_usage_with_output_limit_def Let_def res_simps)
  from assms have n: "n = (if tu_service_tier usage = None \<or>
      (tu_service_tier usage = Some ''auto'' \<and> (requested = None \<or> requested = Some ''default''))
      then usage\<lparr>tu_service_tier := requested\<rparr> else usage)"
    by (auto simp: normalize_proxy_usage_with_output_limit_def Let_def res_simps)
  from counts lim tm n show ?thesis
    by (auto simp: tier_matches_def split: if_splits)
qed

theorem normalize_proxy_usage_sound_witness:
  "normalize_proxy_usage_with_output_limit (sample_usage\<lparr>tu_service_tier := Some ''auto''\<rparr>) 10 (Some 5) None
     = Inr sample_usage \<and> token_count_ok (tu_output sample_usage) \<and> tu_output sample_usage \<le> 5"
proof -
  have h: "normalize_proxy_usage_with_output_limit (sample_usage\<lparr>tu_service_tier := Some ''auto''\<rparr>)
      10 (Some 5) None = Inr sample_usage"
    by (simp add: normalize_proxy_usage_with_output_limit_def sample_usage_def default_usage_def Let_def
        validate_token_usage_def token_count_ok_def validate_service_tier_def checked_def in_i64_def
        i64_bounds ok_or_def ensure_def tier_matches_def)
  from normalize_proxy_usage_sound [OF h] h show ?thesis by simp
qed

end
