(* ===== verification/Reserve_Usage.thy ===== *)
theory Reserve_Usage
  imports Usage_Pricing
begin

text \<open>
  Admission of a request (\<open>src/src/db/requests/settlement.rs\<close>): the checks of a key's
  budgets, concurrency and rate windows, the hold on the account's balance, and the
  resizing of the hold when a request switches to another upstream candidate.
  \<open>dp\<close> stands for \<open>Decimal::from_str_exact\<close>, \<open>ser\<close> for the JSON printer of a price.
\<close>

subsection \<open>Key policies\<close>

definition JSON_SAFE_INTEGER_MAX :: nat where
  "JSON_SAFE_INTEGER_MAX = 9007199254740991"

definition is_sign_negative :: "decimal \<Rightarrow> bool" where
  "is_sign_negative d \<longleftrightarrow> mantissa d < 0"

definition validate_budget :: "(string \<Rightarrow> decimal option) \<Rightarrow> string \<Rightarrow> unit res" where
  "validate_budget dp value =
     rbind (ok_or (dp value) (BadRequest ''key budgets must be decimal strings'')) (\<lambda>d.
     rbind (ensure (\<not> is_sign_negative d) (BadRequest ''key budgets cannot be negative'')) (\<lambda>_.
     rbind (decimal_to_micros d) (\<lambda>_. Inr ())))"

definition present :: "'a option list \<Rightarrow> 'a list" where
  "present xs = concat (map (\<lambda>x. case x of None \<Rightarrow> [] | Some y \<Rightarrow> [y]) xs)"

definition validate_key_policy :: "(string \<Rightarrow> decimal option) \<Rightarrow> key_policy \<Rightarrow> unit res" where
  "validate_key_policy dp p =
     rbind (ensure (\<not> (requests_per_minute p = Some 0 \<or> tokens_per_minute p = Some 0 \<or>
        max_concurrency p = Some 0))
        (BadRequest ''RPM, TPM, and maximum concurrency must be positive'')) (\<lambda>_.
     rbind (ensure (case tokens_per_minute p of None \<Rightarrow> True | Some l \<Rightarrow> l \<le> JSON_SAFE_INTEGER_MAX)
        (BadRequest ''TPM must not exceed the JSON safe integer maximum 9007199254740991'')) (\<lambda>_.
     for_each (validate_budget dp) (present [daily_budget p, weekly_budget p, lifetime_budget p])))"

subsection \<open>Budgets\<close>

text \<open>One day in milliseconds; the daily rollups are keyed by the day since the epoch.\<close>

definition day_ms :: int where
  "day_ms = 86400000"

definition retry_after_until :: "int \<Rightarrow> int \<Rightarrow> nat" where
  "retry_after_until reset_at now =
     (let q = sat (sat (reset_at - now) + 999) sdiv 1000
      in max 1 (if q < 0 then 1 else nat q))"

definition lock_key_budget_state ::
  "billing_db \<Rightarrow> uuid \<Rightarrow> int \<Rightarrow> (billing_db \<times> int \<times> int) res" where
  "lock_key_budget_state db k now = (case tget (key_budget_state db) k of
      None \<Rightarrow> Inl NotFound
    | Some kb \<Rightarrow> Inr (db\<lparr>key_budget_state := tput k (kb\<lparr>kb_updated_at := now\<rparr>) (key_budget_state db)\<rparr>,
                     kb_settled_lifetime kb, kb_reserved kb))"

definition key_budget_daily_settled :: "billing_db \<Rightarrow> uuid \<Rightarrow> int \<Rightarrow> int" where
  "key_budget_daily_settled db k now =
     (case tget (key_budget_daily_rollups db) (k, now sdiv day_ms) of None \<Rightarrow> 0 | Some m \<Rightarrow> m)"

definition weekly_cutoff :: "int \<Rightarrow> int" where
  "weekly_cutoff now = sat (now - 7 * day_ms)"

definition key_budget_rolling_weekly_settled :: "billing_db \<Rightarrow> uuid \<Rightarrow> int \<Rightarrow> int res" where
  "key_budget_rolling_weekly_settled db k now =
     (let cutoff = weekly_cutoff now;
          first_full_day = cutoff sdiv day_ms + 1;
          first_full_day_at = sat (first_full_day * day_ms)
      in sql_int
        (tsum (\<lambda>(k', d) m. if k' = k \<and> first_full_day \<le> d then m else 0) (key_budget_daily_rollups db) +
         tsum (\<lambda>_ e. if ue_key_id e = k \<and> cutoff \<le> ue_settled_at e \<and> ue_settled_at e < first_full_day_at
                     then ue_amount e else 0) (key_budget_usage_events db)))"

text \<open>\<open>SELECT MIN(settled_at)\<close> over the events of the rolling week.\<close>

definition oldest_weekly_event :: "billing_db \<Rightarrow> uuid \<Rightarrow> int \<Rightarrow> int option" where
  "oldest_weekly_event db k now =
     (case map (\<lambda>(_, e). ue_settled_at e)
        (filter (\<lambda>(_, e). ue_key_id e = k \<and> weekly_cutoff now \<le> ue_settled_at e) (key_budget_usage_events db)) of
        [] \<Rightarrow> None
      | t # ts \<Rightarrow> Some (fold min ts t))"

text \<open>Both settled amounts are read only when the policy has the budget.\<close>

definition daily_settled_for :: "billing_db \<Rightarrow> key_policy \<Rightarrow> uuid \<Rightarrow> int \<Rightarrow> int res" where
  "daily_settled_for db p k now =
     (if daily_budget p \<noteq> None then Inr (key_budget_daily_settled db k now) else Inr 0)"

definition weekly_settled_for :: "billing_db \<Rightarrow> key_policy \<Rightarrow> uuid \<Rightarrow> int \<Rightarrow> int res" where
  "weekly_settled_for db p k now =
     (if weekly_budget p \<noteq> None then key_budget_rolling_weekly_settled db k now else Inr 0)"

type_synonym budget_line = "string option \<times> int \<times> limit_reason \<times> nat option"

definition budget_lines :: "key_policy \<Rightarrow> int \<Rightarrow> int \<Rightarrow> int \<Rightarrow> int \<Rightarrow> budget_line list" where
  "budget_lines p daily weekly lifetime now =
     [(daily_budget p, daily, DailyBudgetExhausted,
         Some (retry_after_until ((now sdiv day_ms + 1) * day_ms) now)),
      (weekly_budget p, weekly, WeeklyBudgetExhausted, Some 1),
      (lifetime_budget p, lifetime, LifetimeBudgetExhausted, None)]"

text \<open>The configured budget in millionths; a stored budget that does not parse is an internal error.\<close>

definition budget_micros :: "(string \<Rightarrow> decimal option) \<Rightarrow> string \<Rightarrow> string \<Rightarrow> int res" where
  "budget_micros dp code text =
     rbind (ok_or (dp text) (internal code)) decimal_to_micros"

definition reserve_budget_check ::
  "(string \<Rightarrow> decimal option) \<Rightarrow> billing_db \<Rightarrow> uuid \<Rightarrow> int \<Rightarrow> int \<Rightarrow> int \<Rightarrow> budget_line \<Rightarrow> unit res" where
  "reserve_budget_check dp db k now active reserved line =
     (case line of (None, _) \<Rightarrow> Inr ()
      | (Some text, settled, reason, retry) \<Rightarrow>
          rbind (budget_micros dp ''settlement_reserve_usage_contract_with_id_in_transaction_1'' text) (\<lambda>b.
          ensure (sat (sat (settled + active) + reserved) \<le> b)
            (LimitExceeded reason
              (if reason = WeeklyBudgetExhausted
               then (case oldest_weekly_event db k now of
                       None \<Rightarrow> Some 1
                     | Some t \<Rightarrow> Some (retry_after_until (sat (t + 7 * day_ms)) now))
               else retry))))"

definition resize_budget_check ::
  "(string \<Rightarrow> decimal option) \<Rightarrow> int \<Rightarrow> budget_line \<Rightarrow> unit res" where
  "resize_budget_check dp active line =
     (case line of (None, _) \<Rightarrow> Inr ()
      | (Some text, settled, reason, retry) \<Rightarrow>
          rbind (budget_micros dp ''settlement_site_1'' text) (\<lambda>b.
          ensure (sat (settled + active) \<le> b) (LimitExceeded reason retry)))"

subsection \<open>Reserving\<close>

definition active_requests :: "billing_db \<Rightarrow> uuid \<Rightarrow> int" where
  "active_requests db k =
     tsum (\<lambda>_ r. if rr_key_id r = k \<and> rr_status r = Reserved then 1 else 0) (usage_reservations db)"

definition concurrency_check :: "billing_db \<Rightarrow> key_policy \<Rightarrow> uuid \<Rightarrow> unit res" where
  "concurrency_check db p k = (case max_concurrency p of
      None \<Rightarrow> Inr ()
    | Some l \<Rightarrow> ensure (active_requests db k < int l) (LimitExceeded ConcurrencyExhausted (Some 1)))"

text \<open>\<open>limit as i64\<close> on a \<open>u64\<close>: two's complement.\<close>

definition u64_as_i64 :: "nat \<Rightarrow> int" where
  "u64_as_i64 n = (if int n \<le> i64_max then int n else int n - 18446744073709551616)"

definition below_limit :: "int option \<Rightarrow> (int \<Rightarrow> bool) \<Rightarrow> bool" where
  "below_limit limit ok = (case limit of None \<Rightarrow> True | Some l \<Rightarrow> ok l)"

definition rate_window_rejection :: "int option \<Rightarrow> int \<Rightarrow> int \<Rightarrow> int \<Rightarrow> app_error" where
  "rate_window_rejection rpm requests window_start now =
     LimitExceeded (if \<not> below_limit rpm (\<lambda>l. requests < l) then RpmExhausted else TpmExhausted)
       (Some (retry_after_until (window_start + 60000) now))"

definition rate_window_upsert ::
  "billing_db \<Rightarrow> uuid \<Rightarrow> int \<Rightarrow> int \<Rightarrow> int \<Rightarrow> int option \<Rightarrow> int option \<Rightarrow> int \<Rightarrow> billing_db res" where
  "rate_window_upsert db k window_start requests tokens rpm tpm now =
     (case tget (rate_limit_windows db) (k, window_start) of
        None \<Rightarrow> Inr (db\<lparr>rate_limit_windows :=
          tput (k, window_start) \<lparr>rw_requests = requests, rw_tokens = tokens\<rparr> (rate_limit_windows db)\<rparr>)
      | Some w \<Rightarrow>
          rbind (sql_int (rw_tokens w + tokens)) (\<lambda>t.
          rbind (sql_int (rw_requests w + requests)) (\<lambda>q.
          rbind (ensure (below_limit rpm (\<lambda>l. rw_requests w < l) \<and> below_limit tpm (\<lambda>l. t \<le> l))
            (rate_window_rejection rpm (rw_requests w) window_start now)) (\<lambda>_.
          Inr (db\<lparr>rate_limit_windows :=
            tput (k, window_start) \<lparr>rw_requests = q, rw_tokens = t\<rparr> (rate_limit_windows db)\<rparr>)))))"

definition rate_window_admission ::
  "billing_db \<Rightarrow> uuid \<Rightarrow> int \<Rightarrow> int \<Rightarrow> int option \<Rightarrow> int option \<Rightarrow> int \<Rightarrow> billing_db res" where
  "rate_window_admission db k window_start reserved_tokens rpm tpm now =
     (if rpm \<noteq> None \<or> tpm \<noteq> None
      then rate_window_upsert db k window_start (if rpm \<noteq> None then 1 else 0)
             (if tpm \<noteq> None then reserved_tokens else 0) rpm tpm now
      else Inr db)"

text \<open>The guarded debit of the account: no row changes unless the balance covers the amount.\<close>

definition hold_balance :: "billing_db \<Rightarrow> uuid \<Rightarrow> string \<Rightarrow> int \<Rightarrow> int \<Rightarrow> billing_db res" where
  "hold_balance db a currency amount now =
     rbind (ok_or (case tget (credit_accounts db) a of
         None \<Rightarrow> None
       | Some acct \<Rightarrow> if ca_currency acct = currency \<and> amount \<le> ca_available acct then Some acct else None)
       (LimitExceeded BalanceExhausted None)) (\<lambda>acct.
     rbind (sql_int (ca_available acct - amount)) (\<lambda>available.
     rbind (sql_int (ca_reserved acct + amount)) (\<lambda>reserved.
     Inr (db\<lparr>credit_accounts := tput a (acct\<lparr>ca_available := available, ca_reserved := reserved,
                                           ca_updated_at := now\<rparr>) (credit_accounts db)\<rparr>))))"

text \<open>An update that finds no row is no error here: its result is not inspected.\<close>

definition hold_key_budget :: "billing_db \<Rightarrow> uuid \<Rightarrow> int \<Rightarrow> int \<Rightarrow> billing_db res" where
  "hold_key_budget db k amount now = (case tget (key_budget_state db) k of
      None \<Rightarrow> Inr db
    | Some kb \<Rightarrow> rbind (sql_int (kb_reserved kb + amount)) (\<lambda>reserved.
        Inr (db\<lparr>key_budget_state :=
          tput k (kb\<lparr>kb_reserved := reserved, kb_updated_at := now\<rparr>) (key_budget_state db)\<rparr>)))"

record reservation_contract =
  rc_price_id :: uuid
  rc_reserved_micros :: int
  rc_reserved_tokens :: int
  rc_enforce_tpm :: bool
  rc_reserved_units :: int
  rc_billing_unit :: string
  rc_micros_per_unit :: int
  rc_price_snapshot :: string
  rc_input :: int
  rc_output :: int
  rc_price_tiers :: "model_price_tier list"

definition minute_start :: "int \<Rightarrow> int" where
  "minute_start now = now sdiv 60000 * 60000"

definition contract_row ::
  "authenticated_key \<Rightarrow> reservation_contract \<Rightarrow> int \<Rightarrow> bool \<Rightarrow> reservation_row" where
  "contract_row key c now tpm_applied =
     \<lparr>rr_account_id = ak_account_id key, rr_key_id = ak_key_id key, rr_price_id = rc_price_id c,
      rr_reserved_micros = rc_reserved_micros c, rr_reserved_tokens = rc_reserved_tokens c,
      rr_reserved_units = rc_reserved_units c, rr_billing_unit = rc_billing_unit c,
      rr_micros_per_unit = rc_micros_per_unit c, rr_rate_window_start = minute_start now,
      rr_actual_micros = None, rr_status = Reserved, rr_created_at = now, rr_settled_at = None,
      rr_price_snapshot = rc_price_snapshot c, rr_mode = policy_mode (ak_policy key),
      rr_tpm_window_applied = tpm_applied\<rparr>"

definition contract_reservation ::
  "authenticated_key \<Rightarrow> reservation_contract \<Rightarrow> int \<Rightarrow> uuid \<Rightarrow> usage_reservation" where
  "contract_reservation key c now rid =
     \<lparr>ur_id = rid, ur_account_id = ak_account_id key, ur_key_id = ak_key_id key,
      ur_mode = policy_mode (ak_policy key), ur_reserved_micros = rc_reserved_micros c,
      ur_input = rc_input c, ur_output = rc_output c, ur_price_tiers = rc_price_tiers c,
      ur_rate_window_start = minute_start now, ur_reserved_tokens = rc_reserved_tokens c\<rparr>"

definition insert_reservation :: "billing_db \<Rightarrow> uuid \<Rightarrow> reservation_row \<Rightarrow> billing_db res" where
  "insert_reservation db rid row =
     rbind (sql_insert rid row (usage_reservations db)) (\<lambda>t. Inr (db\<lparr>usage_reservations := t\<rparr>))"

definition contract_tpm_limit :: "authenticated_key \<Rightarrow> reservation_contract \<Rightarrow> int option" where
  "contract_tpm_limit key c =
     (if rc_enforce_tpm c then map_option u64_as_i64 (tokens_per_minute (ak_policy key)) else None)"

text \<open>The checks that precede every change of the balance: budgets, then concurrency.\<close>

definition reserve_checks ::
  "(string \<Rightarrow> decimal option) \<Rightarrow> billing_db \<Rightarrow> authenticated_key \<Rightarrow> reservation_contract \<Rightarrow>
   int \<Rightarrow> int \<Rightarrow> int \<Rightarrow> unit res" where
  "reserve_checks dp db key c now lifetime active =
     (let p = ak_policy key; k = ak_key_id key in
      rbind (daily_settled_for db p k now) (\<lambda>daily.
      rbind (weekly_settled_for db p k now) (\<lambda>weekly.
      rbind (for_each (reserve_budget_check dp db k now active (rc_reserved_micros c))
               (budget_lines p daily weekly lifetime now)) (\<lambda>_.
      concurrency_check db p k))))"

definition reserve_usage_contract_with_id_in_transaction ::
  "(string \<Rightarrow> decimal option) \<Rightarrow> billing_db \<Rightarrow> authenticated_key \<Rightarrow> reservation_contract \<Rightarrow> int \<Rightarrow> uuid \<Rightarrow>
   (billing_db \<times> usage_reservation) res" where
  "reserve_usage_contract_with_id_in_transaction dp db key c now rid =
     (let p = ak_policy key; k = ak_key_id key; window_start = minute_start now;
          rpm = map_option int (requests_per_minute p); tpm = contract_tpm_limit key c in
      if \<not> enforces_prepaid_limits (policy_mode p)
      then rbind (insert_reservation db rid (contract_row key c now False)) (\<lambda>db.
           Inr (db, contract_reservation key c now rid))
      else
        rbind (ensure (below_limit tpm (\<lambda>l. rc_reserved_tokens c \<le> l))
          (LimitExceeded TpmExhausted (Some (retry_after_until (window_start + 60000) now)))) (\<lambda>_.
        rbind (lock_key_budget_state db k now) (\<lambda>(db, lifetime, active).
        rbind (reserve_checks dp db key c now lifetime active) (\<lambda>_.
        rbind (rate_window_admission db k window_start (rc_reserved_tokens c) rpm tpm now) (\<lambda>db.
        rbind (hold_balance db (ak_account_id key) (ak_currency key) (rc_reserved_micros c) now) (\<lambda>db.
        rbind (hold_key_budget db k (rc_reserved_micros c) now) (\<lambda>db.
        rbind (insert_reservation db rid (contract_row key c now (tpm \<noteq> None))) (\<lambda>db.
        Inr (db, contract_reservation key c now rid)))))))))"

definition token_contract :: "model_price \<Rightarrow> int \<Rightarrow> int \<Rightarrow> string \<Rightarrow> reservation_contract" where
  "token_contract price micros tokens snapshot =
     \<lparr>rc_price_id = mp_id price, rc_reserved_micros = micros, rc_reserved_tokens = tokens,
      rc_enforce_tpm = True, rc_reserved_units = 0, rc_billing_unit = '''', rc_micros_per_unit = 0,
      rc_price_snapshot = snapshot, rc_input = mp_input price, rc_output = mp_output price,
      rc_price_tiers = mp_tiers price\<rparr>"

definition reserve_usage_with_snapshot_in_transaction ::
  "(string \<Rightarrow> decimal option) \<Rightarrow> billing_db \<Rightarrow> authenticated_key \<Rightarrow> model_price \<Rightarrow> int \<Rightarrow> int \<Rightarrow> int \<Rightarrow>
   uuid \<Rightarrow> string \<Rightarrow> (billing_db \<times> usage_reservation) res" where
  "reserve_usage_with_snapshot_in_transaction dp db key price input_ceiling output_ceiling now rid snapshot =
     rbind (usage_contract_amounts (policy_mode (ak_policy key)) price input_ceiling output_ceiling)
       (\<lambda>(micros, tokens).
     reserve_usage_contract_with_id_in_transaction dp db key (token_contract price micros tokens snapshot) now rid)"

definition reserve_usage_with_id_in_transaction ::
  "(string \<Rightarrow> decimal option) \<Rightarrow> (model_price \<Rightarrow> string option) \<Rightarrow> billing_db \<Rightarrow> authenticated_key \<Rightarrow>
   model_price \<Rightarrow> int \<Rightarrow> int \<Rightarrow> int \<Rightarrow> uuid \<Rightarrow> (billing_db \<times> usage_reservation) res" where
  "reserve_usage_with_id_in_transaction dp ser db key price input_ceiling output_ceiling now rid =
     rbind (ok_or (ser price) (internal ''settlement_reserve_usage_with_id_in_transaction_1'')) (\<lambda>snapshot.
     reserve_usage_with_snapshot_in_transaction dp db key price input_ceiling output_ceiling now rid snapshot)"

definition metered_contract :: "generation_price \<Rightarrow> int \<Rightarrow> int \<Rightarrow> string \<Rightarrow> reservation_contract" where
  "metered_contract price micros units snapshot =
     \<lparr>rc_price_id = gp_id price, rc_reserved_micros = micros, rc_reserved_tokens = 0,
      rc_enforce_tpm = False, rc_reserved_units = units, rc_billing_unit = gp_billing_unit price,
      rc_micros_per_unit = gp_micros_per_unit price, rc_price_snapshot = snapshot,
      rc_input = 0, rc_output = 0, rc_price_tiers = []\<rparr>"

definition reserve_metered_usage_with_id_in_transaction ::
  "(string \<Rightarrow> decimal option) \<Rightarrow> (generation_price \<Rightarrow> string option) \<Rightarrow> billing_db \<Rightarrow> authenticated_key \<Rightarrow>
   generation_price \<Rightarrow> int \<Rightarrow> int \<Rightarrow> uuid \<Rightarrow> (billing_db \<times> metered_usage_reservation) res" where
  "reserve_metered_usage_with_id_in_transaction dp ser db key price unit_ceiling now rid =
     rbind (ensure (\<not> (unit_ceiling \<le> 0 \<or> trim (gp_billing_unit price) = [] \<or> gp_micros_per_unit price < 0))
       (BadRequest ''metered request requires a positive unit ceiling and billing unit'')) (\<lambda>_.
     rbind (if enforces_prepaid_limits (policy_mode (ak_policy key))
            then ok_or (checked (unit_ceiling * gp_micros_per_unit price)) (LimitExceeded BalanceExhausted None)
            else Inr 0) (\<lambda>micros.
     rbind (ok_or (ser price) (internal ''settlement_reserve_metered_usage_with_id_in_transaction_1'')) (\<lambda>snapshot.
     rbind (reserve_usage_contract_with_id_in_transaction dp db key
              (metered_contract price micros unit_ceiling snapshot) now rid) (\<lambda>(db, r).
     Inr (db, \<lparr>mr_reservation = r, mr_unit_ceiling = unit_ceiling,
               mr_billing_unit = gp_billing_unit price, mr_micros_per_unit = gp_micros_per_unit price\<rparr>)))))"

subsection \<open>Resizing\<close>

definition owns_open :: "usage_reservation \<Rightarrow> reservation_row \<Rightarrow> bool" where
  "owns_open r row \<longleftrightarrow> rr_account_id row = ur_account_id r \<and> rr_key_id row = ur_key_id r \<and>
     rr_status row = Reserved"

text \<open>The row a statement with the filter \<open>id, account_id, key_id, status = 'reserved'\<close> updates.\<close>

definition open_row :: "billing_db \<Rightarrow> usage_reservation \<Rightarrow> reservation_row option" where
  "open_row db r = (case tget (usage_reservations db) (ur_id r) of
      None \<Rightarrow> None
    | Some row \<Rightarrow> if owns_open r row then Some row else None)"

definition replace_reservation_price_in_transaction ::
  "(model_price \<Rightarrow> string option) \<Rightarrow> billing_db \<Rightarrow> usage_reservation \<Rightarrow> model_price \<Rightarrow>
   (billing_db \<times> usage_reservation) res" where
  "replace_reservation_price_in_transaction ser db r price =
     rbind (ok_or (ser price) (internal ''settlement_replace_reservation_price_in_transaction_1'')) (\<lambda>snapshot.
     rbind (ok_or (open_row db r)
       (Conflict ''proxy reservation changed before price snapshot update'')) (\<lambda>row.
     Inr (db\<lparr>usage_reservations := tput (ur_id r)
            (row\<lparr>rr_price_id := mp_id price, rr_price_snapshot := snapshot\<rparr>) (usage_reservations db)\<rparr>,
          r\<lparr>ur_input := mp_input price, ur_output := mp_output price, ur_price_tiers := mp_tiers price\<rparr>)))"

definition resize_row ::
  "billing_db \<Rightarrow> usage_reservation \<Rightarrow> int \<Rightarrow> int \<Rightarrow> int \<Rightarrow> int \<Rightarrow> billing_db res" where
  "resize_row db r old_micros old_tokens micros tokens =
     rbind (ok_or (case open_row db r of
         None \<Rightarrow> None
       | Some row \<Rightarrow> if rr_reserved_micros row = old_micros \<and> rr_reserved_tokens row = old_tokens
                    then Some row else None)
       (Conflict ''proxy reservation changed before candidate switch'')) (\<lambda>row.
     Inr (db\<lparr>usage_reservations := tput (ur_id r)
            (row\<lparr>rr_reserved_micros := micros, rr_reserved_tokens := tokens\<rparr>) (usage_reservations db)\<rparr>))"

definition resize_rate_window ::
  "billing_db \<Rightarrow> uuid \<Rightarrow> int \<Rightarrow> int \<Rightarrow> int option \<Rightarrow> int \<Rightarrow> billing_db res" where
  "resize_rate_window db k window_start delta tpm now =
     rbind (case tget (rate_limit_windows db) (k, window_start) of
        None \<Rightarrow> Inr None
      | Some w \<Rightarrow> rbind (sql_int (rw_tokens w + delta)) (\<lambda>t.
          Inr (if 0 \<le> t \<and> below_limit tpm (\<lambda>l. t \<le> l) then Some (w\<lparr>rw_tokens := t\<rparr>) else None))) (\<lambda>updated.
     rbind (ok_or updated
        (LimitExceeded TpmExhausted (Some (retry_after_until (window_start + 60000) now)))) (\<lambda>w.
     Inr (db\<lparr>rate_limit_windows := tput (k, window_start) w (rate_limit_windows db)\<rparr>)))"

definition resize_balance :: "billing_db \<Rightarrow> uuid \<Rightarrow> string \<Rightarrow> int \<Rightarrow> int \<Rightarrow> billing_db res" where
  "resize_balance db a currency delta now =
     rbind (ok_or (tget (credit_accounts db) a) (LimitExceeded BalanceExhausted None)) (\<lambda>acct.
     rbind (sql_int (ca_reserved acct + delta)) (\<lambda>reserved.
     rbind (ensure (ca_currency acct = currency \<and> max delta 0 \<le> ca_available acct \<and> 0 \<le> reserved)
        (LimitExceeded BalanceExhausted None)) (\<lambda>_.
     rbind (sql_int (ca_available acct - delta)) (\<lambda>available.
     Inr (db\<lparr>credit_accounts := tput a (acct\<lparr>ca_available := available, ca_reserved := reserved,
                                           ca_updated_at := now\<rparr>) (credit_accounts db)\<rparr>)))))"

definition resize_key_budget :: "billing_db \<Rightarrow> uuid \<Rightarrow> int \<Rightarrow> int \<Rightarrow> billing_db res" where
  "resize_key_budget db k delta now =
     rbind (ok_or (tget (key_budget_state db) k) (internal ''settlement_site_2'')) (\<lambda>kb.
     rbind (sql_int (kb_reserved kb + delta)) (\<lambda>reserved.
     rbind (ensure (0 \<le> reserved) (internal ''settlement_site_2'')) (\<lambda>_.
     Inr (db\<lparr>key_budget_state :=
       tput k (kb\<lparr>kb_reserved := reserved, kb_updated_at := now\<rparr>) (key_budget_state db)\<rparr>))))"

definition resize_checks ::
  "(string \<Rightarrow> decimal option) \<Rightarrow> billing_db \<Rightarrow> authenticated_key \<Rightarrow> int \<Rightarrow> int \<Rightarrow> int \<Rightarrow> int \<Rightarrow> int \<Rightarrow> int res" where
  "resize_checks dp db key old_micros micros now lifetime active =
     (let p = ak_policy key; k = ak_key_id key in
      rbind (ok_or (case checked (active - old_micros) of
          None \<Rightarrow> None
        | Some amount \<Rightarrow> if 0 \<le> amount then checked (amount + micros) else None)
        (internal ''settlement_resize_usage_reservation_in_transaction_2'')) (\<lambda>adjusted.
      rbind (daily_settled_for db p k now) (\<lambda>daily.
      rbind (weekly_settled_for db p k now) (\<lambda>weekly.
      rbind (for_each (resize_budget_check dp adjusted) (budget_lines p daily weekly lifetime now)) (\<lambda>_.
      Inr adjusted)))))"

text \<open>The part of a resize that moves money and window tokens, for a prepaid hold that changes.\<close>

definition resize_prepaid ::
  "(string \<Rightarrow> decimal option) \<Rightarrow> billing_db \<Rightarrow> authenticated_key \<Rightarrow> usage_reservation \<Rightarrow> reservation_row \<Rightarrow>
   int \<Rightarrow> int \<Rightarrow> int \<Rightarrow> (int \<times> int) option \<Rightarrow> billing_db res" where
  "resize_prepaid dp db key r current micros tokens now budget =
     (let k = ak_key_id key; old_micros = rr_reserved_micros current; old_tokens = rr_reserved_tokens current;
          window_start = rr_rate_window_start current; applied = rr_tpm_window_applied current;
          tpm = map_option u64_as_i64 (tokens_per_minute (ak_policy key)) in
      rbind (ensure (\<not> (applied \<and> \<not> below_limit tpm (\<lambda>l. tokens \<le> l)))
        (LimitExceeded TpmExhausted (Some (retry_after_until (window_start + 60000) now)))) (\<lambda>_.
      rbind (ok_or budget (internal ''settlement_resize_usage_reservation_in_transaction_1'')) (\<lambda>(lifetime, active).
      rbind (resize_checks dp db key old_micros micros now lifetime active) (\<lambda>_.
      rbind (if applied then
               rbind (ok_or (checked (tokens - old_tokens))
                 (internal ''settlement_resize_usage_reservation_in_transaction_3'')) (\<lambda>delta.
               resize_rate_window db k window_start delta tpm now)
             else Inr db) (\<lambda>db.
      rbind (ok_or (checked (micros - old_micros)) (internal ''settlement_site_1'')) (\<lambda>delta.
      rbind (resize_balance db (ak_account_id key) (ak_currency key) delta now) (\<lambda>db.
      rbind (resize_key_budget db k delta now) (\<lambda>db.
      resize_row db r old_micros old_tokens micros tokens))))))))"

definition resize_usage_reservation_in_transaction ::
  "(string \<Rightarrow> decimal option) \<Rightarrow> (model_price \<Rightarrow> string option) \<Rightarrow> billing_db \<Rightarrow> authenticated_key \<Rightarrow>
   model_price \<Rightarrow> usage_reservation \<Rightarrow> int \<Rightarrow> int \<Rightarrow> int \<Rightarrow> (billing_db \<times> usage_reservation) res" where
  "resize_usage_reservation_in_transaction dp ser db key price r input_ceiling output_ceiling now =
     (let mode = ur_mode r; prepaid = enforces_prepaid_limits mode in
      rbind (usage_contract_amounts mode price input_ceiling output_ceiling) (\<lambda>(micros, tokens).
      rbind (if prepaid \<and> (ur_reserved_micros r \<noteq> micros \<or> ur_reserved_tokens r \<noteq> tokens)
             then rbind (lock_key_budget_state db (ak_key_id key) now) (\<lambda>(db, lifetime, active).
                  Inr (db, Some (lifetime, active)))
             else Inr (db, None)) (\<lambda>(db, budget).
      rbind (ok_or (open_row db r) (Conflict ''proxy reservation is no longer active'')) (\<lambda>current.
      rbind (ensure (rr_mode current = mode \<and> ak_key_id key = ur_key_id r \<and> ak_account_id key = ur_account_id r \<and>
          rr_reserved_micros current = ur_reserved_micros r \<and> rr_reserved_tokens current = ur_reserved_tokens r \<and>
          rr_rate_window_start current = ur_rate_window_start r)
        (Conflict ''proxy reservation changed before candidate switch'')) (\<lambda>_.
      if rr_reserved_micros current = micros \<and> rr_reserved_tokens current = tokens
      then replace_reservation_price_in_transaction ser db r price
      else
        rbind (if \<not> prepaid
               then resize_row db r (rr_reserved_micros current) (rr_reserved_tokens current) micros tokens
               else resize_prepaid dp db key r current micros tokens now budget) (\<lambda>db.
        replace_reservation_price_in_transaction ser db
          (r\<lparr>ur_reserved_micros := micros, ur_reserved_tokens := tokens\<rparr>) price))))))"

subsection \<open>What the steps change\<close>

text \<open>A reservation handed to a caller and the row it stands for.\<close>

definition reservation_matches :: "billing_db \<Rightarrow> usage_reservation \<Rightarrow> bool" where
  "reservation_matches db r = (case tget (usage_reservations db) (ur_id r) of
      None \<Rightarrow> False
    | Some row \<Rightarrow> rr_account_id row = ur_account_id r \<and> rr_key_id row = ur_key_id r \<and>
        rr_mode row = ur_mode r \<and>
        (rr_status row = Reserved \<longrightarrow>
           rr_reserved_micros row = ur_reserved_micros r \<and> rr_reserved_tokens row = ur_reserved_tokens r \<and>
           rr_rate_window_start row = ur_rate_window_start r))"

lemma lock_key_budget_state_Inr [res_simps]:
  "lock_key_budget_state db k now = Inr x \<longleftrightarrow>
     (\<exists>kb. tget (key_budget_state db) k = Some kb \<and>
        x = (db\<lparr>key_budget_state := tput k (kb\<lparr>kb_updated_at := now\<rparr>) (key_budget_state db)\<rparr>,
             kb_settled_lifetime kb, kb_reserved kb))"
  by (auto simp: lock_key_budget_state_def split: option.splits)

lemma insert_reservation_Inr [res_simps]:
  "insert_reservation db i row = Inr db' \<longleftrightarrow> tget (usage_reservations db) i = None \<and>
     db' = db\<lparr>usage_reservations := tput i row (usage_reservations db)\<rparr>"
  by (auto simp: insert_reservation_def res_simps)

lemma hold_balance_Inr:
  "hold_balance db a cur amt now = Inr db' \<longleftrightarrow>
     (\<exists>acct. tget (credit_accounts db) a = Some acct \<and> ca_currency acct = cur \<and> amt \<le> ca_available acct \<and>
        in_i64 (ca_available acct - amt) \<and> in_i64 (ca_reserved acct + amt) \<and>
        db' = db\<lparr>credit_accounts := tput a (acct\<lparr>ca_available := ca_available acct - amt,
                ca_reserved := ca_reserved acct + amt, ca_updated_at := now\<rparr>) (credit_accounts db)\<rparr>)"
  by (auto simp: hold_balance_def res_simps split: option.splits if_splits)

lemma hold_key_budget_Some:
  "tget (key_budget_state db) k = Some kb \<Longrightarrow> hold_key_budget db k amt now = Inr db' \<longleftrightarrow>
     in_i64 (kb_reserved kb + amt) \<and>
     db' = db\<lparr>key_budget_state := tput k (kb\<lparr>kb_reserved := kb_reserved kb + amt, kb_updated_at := now\<rparr>)
                                   (key_budget_state db)\<rparr>"
  by (auto simp: hold_key_budget_def res_simps)

text \<open>The window row after an admission; nothing else changes.\<close>

lemma rate_window_admission_Inr:
  assumes "rate_window_admission db k ws toks rpm tpm now = Inr db'"
  shows "rpm = None \<and> tpm = None \<and> db' = db \<or>
      (\<exists>w'. db' = db\<lparr>rate_limit_windows := tput (k, ws) w' (rate_limit_windows db)\<rparr> \<and>
        (case tget (rate_limit_windows db) (k, ws) of
           None \<Rightarrow> w' = \<lparr>rw_requests = (if rpm \<noteq> None then 1 else 0),
                        rw_tokens = (if tpm \<noteq> None then toks else 0)\<rparr>
         | Some w \<Rightarrow> below_limit rpm (\<lambda>l. rw_requests w < l) \<and>
             rw_requests w' = rw_requests w + (if rpm \<noteq> None then 1 else 0) \<and>
             rw_tokens w' = rw_tokens w + (if tpm \<noteq> None then toks else 0) \<and>
             below_limit tpm (\<lambda>l. rw_tokens w' \<le> l)))"
proof (cases "rpm = None \<and> tpm = None")
  case True
  with assms show ?thesis by (simp add: rate_window_admission_def)
next
  case False
  show ?thesis
  proof (cases "tget (rate_limit_windows db) (k, ws)")
    case None
    with False assms show ?thesis by (auto simp: rate_window_admission_def rate_window_upsert_def)
  next
    case (Some w)
    let ?w' = "\<lparr>rw_requests = rw_requests w + (if rpm \<noteq> None then 1 else 0),
               rw_tokens = rw_tokens w + (if tpm \<noteq> None then toks else 0)\<rparr>"
    from False Some assms
    have "db' = db\<lparr>rate_limit_windows := tput (k, ws) ?w' (rate_limit_windows db)\<rparr> \<and>
        below_limit rpm (\<lambda>l. rw_requests w < l) \<and> below_limit tpm (\<lambda>l. rw_tokens ?w' \<le> l)"
      unfolding rate_window_admission_def rate_window_upsert_def
      by (simp only: res_simps option.case if_True if_False simp_thms) (auto simp: res_simps)
    with Some show ?thesis by (intro disjI2 exI [of _ ?w']) simp
  qed
qed

text \<open>Everything a successful prepaid admission has established and changed.\<close>

lemma reserve_prepaid_Inr:
  assumes ok: "reserve_usage_contract_with_id_in_transaction dp db key c now rid = Inr (db', r)"
    and mode: "policy_mode (ak_policy key) = Prepaid"
  obtains acct kb db1 windows where
    "tget (credit_accounts db) (ak_account_id key) = Some acct"
    "ca_currency acct = ak_currency key" "rc_reserved_micros c \<le> ca_available acct"
    "tget (key_budget_state db) (ak_key_id key) = Some kb"
    "tget (usage_reservations db) rid = None"
    "below_limit (contract_tpm_limit key c) (\<lambda>l. rc_reserved_tokens c \<le> l)"
    "db1 = db\<lparr>key_budget_state := tput (ak_key_id key) (kb\<lparr>kb_updated_at := now\<rparr>) (key_budget_state db)\<rparr>"
    "reserve_checks dp db1 key c now (kb_settled_lifetime kb) (kb_reserved kb) = Inr ()"
    "rate_window_admission db1 (ak_key_id key) (minute_start now) (rc_reserved_tokens c)
       (map_option int (requests_per_minute (ak_policy key))) (contract_tpm_limit key c) now
       = Inr (db1\<lparr>rate_limit_windows := windows\<rparr>)"
    "r = contract_reservation key c now rid"
    "db' = db\<lparr>rate_limit_windows := windows,
       credit_accounts := tput (ak_account_id key) (acct\<lparr>ca_available := ca_available acct - rc_reserved_micros c,
         ca_reserved := ca_reserved acct + rc_reserved_micros c, ca_updated_at := now\<rparr>) (credit_accounts db),
       key_budget_state := tput (ak_key_id key) (kb\<lparr>kb_reserved := kb_reserved kb + rc_reserved_micros c,
         kb_updated_at := now\<rparr>) (tput (ak_key_id key) (kb\<lparr>kb_updated_at := now\<rparr>) (key_budget_state db)),
       usage_reservations := tput rid (contract_row key c now (contract_tpm_limit key c \<noteq> None))
         (usage_reservations db)\<rparr>"
proof -
  let ?k = "ak_key_id key" and ?m = "rc_reserved_micros c"
  from ok mode obtain kb db1 db2 db3 db4 where
    tpm: "below_limit (contract_tpm_limit key c) (\<lambda>l. rc_reserved_tokens c \<le> l)"
    and kb: "tget (key_budget_state db) ?k = Some kb"
    and db1: "db1 = db\<lparr>key_budget_state := tput ?k (kb\<lparr>kb_updated_at := now\<rparr>) (key_budget_state db)\<rparr>"
    and chk: "reserve_checks dp db1 key c now (kb_settled_lifetime kb) (kb_reserved kb) = Inr ()"
    and rate: "rate_window_admission db1 ?k (minute_start now) (rc_reserved_tokens c)
       (map_option int (requests_per_minute (ak_policy key))) (contract_tpm_limit key c) now = Inr db2"
    and bal: "hold_balance db2 (ak_account_id key) (ak_currency key) ?m now = Inr db3"
    and key: "hold_key_budget db3 ?k ?m now = Inr db4"
    and fresh: "tget (usage_reservations db4) rid = None"
    and db': "db' = db4\<lparr>usage_reservations := tput rid (contract_row key c now (contract_tpm_limit key c \<noteq> None))
               (usage_reservations db4)\<rparr>"
    and r: "r = contract_reservation key c now rid"
    unfolding reserve_usage_contract_with_id_in_transaction_def Let_def enforces_prepaid_limits_def
    by (auto simp: res_simps)
  from rate_window_admission_Inr [OF rate] obtain t where db2: "db2 = db1\<lparr>rate_limit_windows := t\<rparr>"
  proof
    assume "map_option int (requests_per_minute (ak_policy key)) = None \<and>
      contract_tpm_limit key c = None \<and> db2 = db1"
    then have "db2 = db1\<lparr>rate_limit_windows := rate_limit_windows db1\<rparr>" by simp
    then show thesis by (rule that)
  qed (auto intro: that)
  from bal obtain acct where acct: "tget (credit_accounts db) (ak_account_id key) = Some acct"
    "ca_currency acct = ak_currency key" "?m \<le> ca_available acct"
    and db3: "db3 = db2\<lparr>credit_accounts := tput (ak_account_id key) (acct\<lparr>ca_available := ca_available acct - ?m,
         ca_reserved := ca_reserved acct + ?m, ca_updated_at := now\<rparr>) (credit_accounts db)\<rparr>"
    by (auto simp: hold_balance_Inr db2 db1)
  have kb3: "tget (key_budget_state db3) ?k = Some (kb\<lparr>kb_updated_at := now\<rparr>)"
    by (simp add: db3 db2 db1 tbl_simps)
  from key have db4: "db4 = db3\<lparr>key_budget_state := tput ?k (kb\<lparr>kb_reserved := kb_reserved kb + ?m,
         kb_updated_at := now\<rparr>) (key_budget_state db3)\<rparr>"
    by (simp add: hold_key_budget_Some [OF kb3])
  show ?thesis
  proof (rule that [OF acct kb _ tpm db1 chk _ r])
    show "tget (usage_reservations db) rid = None" using fresh by (simp add: db4 db3 db2 db1)
    show "rate_window_admission db1 ?k (minute_start now) (rc_reserved_tokens c)
       (map_option int (requests_per_minute (ak_policy key))) (contract_tpm_limit key c) now
       = Inr (db1\<lparr>rate_limit_windows := t\<rparr>)" using rate db2 by simp
  qed (simp add: db' db4 db3 db2 db1)
qed

lemmas frame_simps = billing_inv_def wf_tables_def

lemma usage_contract_amounts_nonneg:
  "usage_contract_amounts mode price ic oc = Inr (micros, tokens) \<Longrightarrow>
     amount_ok micros \<and> 0 \<le> tokens \<and> (mode = MeteredUnlimited \<longrightarrow> micros = 0)"
  by (auto simp: usage_contract_amounts_def reservation_ceiling_amounts_def enforces_prepaid_limits_def
      amount_ok_def in_i64_def i64_bounds res_simps priced_tokens_nonneg split: if_splits)

lemma contract_matches:
  "tget (usage_reservations db) rid = Some (contract_row key c now applied) \<Longrightarrow>
     reservation_matches db (contract_reservation key c now rid)"
  by (simp add: reservation_matches_def contract_reservation_def contract_row_def)

lemma reserve_contract_posts:
  assumes inv: "billing_inv db" and nonneg: "amount_ok (rc_reserved_micros c)"
    and free: "policy_mode (ak_policy key) = MeteredUnlimited \<longrightarrow> rc_reserved_micros c = 0"
    and ok: "reserve_usage_contract_with_id_in_transaction dp db key c now rid = Inr (db', r)"
  shows "posts db db' (ak_account_id key) (ak_key_id key) (rc_reserved_micros c) 0 \<and> reservation_matches db' r"
proof (cases "policy_mode (ak_policy key)")
  case Prepaid
  let ?row = "contract_row key c now (contract_tpm_limit key c \<noteq> None)"
  note facts = reserve_prepaid_Inr [OF ok Prepaid]
  show ?thesis
  proof (rule facts)
    fix acct kb db1 windows
    assume acct: "tget (credit_accounts db) (ak_account_id key) = Some acct"
      and enough: "rc_reserved_micros c \<le> ca_available acct"
      and kb: "tget (key_budget_state db) (ak_key_id key) = Some kb"
      and fresh: "tget (usage_reservations db) rid = None"
      and r: "r = contract_reservation key c now rid"
      and db': "db' = db\<lparr>rate_limit_windows := windows,
       credit_accounts := tput (ak_account_id key) (acct\<lparr>ca_available := ca_available acct - rc_reserved_micros c,
         ca_reserved := ca_reserved acct + rc_reserved_micros c, ca_updated_at := now\<rparr>) (credit_accounts db),
       key_budget_state := tput (ak_key_id key) (kb\<lparr>kb_reserved := kb_reserved kb + rc_reserved_micros c,
         kb_updated_at := now\<rparr>) (tput (ak_key_id key) (kb\<lparr>kb_updated_at := now\<rparr>) (key_budget_state db)),
       usage_reservations := tput rid ?row (usage_reservations db)\<rparr>"
    have "posts_account db db' (ak_account_id key) (rc_reserved_micros c) 0"
      using enough nonneg balance_ok [OF inv acct]
      by (intro posts_account_put [OF inv acct], simp add: db') (simp_all add: amount_ok_def)
    moreover have "posts_key db db' (ak_key_id key) (rc_reserved_micros c)"
      using kb by (auto simp: posts_key_def db' tbl_simps)
    moreover have "posts_holds db db' (ak_account_id key) (ak_key_id key) (rc_reserved_micros c)"
      using posts_holds_fresh [OF inv, of db' rid ?row] fresh nonneg Prepaid
      by (simp add: db' contract_row_def open_hold_def)
    moreover have "wf_tables db'" using inv by (simp add: frame_simps db')
    ultimately show ?thesis
      by (simp add: posts_def posts_books_same db') (simp add: r contract_matches tbl_simps)
  qed
next
  case MeteredUnlimited
  let ?row = "contract_row key c now False"
  from ok MeteredUnlimited have fresh: "tget (usage_reservations db) rid = None"
    and db': "db' = db\<lparr>usage_reservations := tput rid ?row (usage_reservations db)\<rparr>"
    and r: "r = contract_reservation key c now rid"
    by (auto simp: reserve_usage_contract_with_id_in_transaction_def Let_def enforces_prepaid_limits_def res_simps)
  have "posts_holds db db' (ak_account_id key) (ak_key_id key) 0"
    using posts_holds_fresh [OF inv, of db' rid ?row] fresh nonneg MeteredUnlimited
    by (simp add: db' contract_row_def open_hold_def)
  moreover have "wf_tables db'" using inv by (simp add: frame_simps db')
  ultimately show ?thesis using free MeteredUnlimited inv
    by (simp add: posts_def posts_account_same posts_key_same posts_books_same db' r contract_matches tbl_simps)
qed

lemma contract_row_fresh:
  assumes "reserve_usage_contract_with_id_in_transaction dp db key c now rid = Inr (db', r)"
  shows "tget (usage_reservations db) rid = None"
proof (cases "policy_mode (ak_policy key)")
  case Prepaid
  show ?thesis by (rule reserve_prepaid_Inr [OF assms Prepaid])
next
  case MeteredUnlimited
  with assms show ?thesis
    by (auto simp: reserve_usage_contract_with_id_in_transaction_def Let_def enforces_prepaid_limits_def res_simps)
qed

lemma contract_reservation_of:
  "reserve_usage_contract_with_id_in_transaction dp db key c now rid = Inr (db', r) \<Longrightarrow>
     r = contract_reservation key c now rid"
  by (auto simp: reserve_usage_contract_with_id_in_transaction_def Let_def res_simps split: if_splits)

text \<open>The contract a token reservation ends in, what it posts, and the reservation it returns.\<close>

lemma reserve_usage_effect:
  assumes inv: "billing_inv db"
    and "reserve_usage_with_id_in_transaction dp ser db key price ic oc now rid = Inr (db', r)"
  obtains snapshot micros tokens where
    "reserve_usage_contract_with_id_in_transaction dp db key
       (token_contract price micros tokens snapshot) now rid = Inr (db', r)"
    "0 \<le> micros" "policy_mode (ak_policy key) = MeteredUnlimited \<longrightarrow> micros = 0" "ur_reserved_micros r = micros"
    "posts db db' (ak_account_id key) (ak_key_id key) micros 0" "reservation_matches db' r"
proof -
  from assms(2) obtain snapshot micros tokens where
    amounts: "usage_contract_amounts (policy_mode (ak_policy key)) price ic oc = Inr (micros, tokens)"
    and ok: "reserve_usage_contract_with_id_in_transaction dp db key
        (token_contract price micros tokens snapshot) now rid = Inr (db', r)"
    by (auto simp: reserve_usage_with_id_in_transaction_def reserve_usage_with_snapshot_in_transaction_def res_simps)
  have n: "amount_ok micros" "policy_mode (ak_policy key) = MeteredUnlimited \<longrightarrow> micros = 0"
    using usage_contract_amounts_nonneg [OF amounts] by auto
  show ?thesis
    using reserve_contract_posts [OF inv _ _ ok] n contract_reservation_of [OF ok]
    by (intro that [OF ok]) (simp_all add: amount_ok_def token_contract_def contract_reservation_def)
qed

text \<open>The same for a reservation of metered units.\<close>

lemma reserve_metered_effect:
  assumes inv: "billing_inv db"
    and "reserve_metered_usage_with_id_in_transaction dp ser db key price ceiling now rid = Inr (db', mr)"
  obtains c where
    "reserve_usage_contract_with_id_in_transaction dp db key c now rid = Inr (db', mr_reservation mr)"
    "policy_mode (ak_policy key) = MeteredUnlimited \<longrightarrow> ur_reserved_micros (mr_reservation mr) = 0"
    "posts db db' (ak_account_id key) (ak_key_id key) (ur_reserved_micros (mr_reservation mr)) 0"
    "reservation_matches db' (mr_reservation mr)"
proof -
  from assms(2) obtain micros snapshot where pos: "\<not> gp_micros_per_unit price < 0" "\<not> ceiling \<le> 0"
    and m: "(if enforces_prepaid_limits (policy_mode (ak_policy key))
            then ok_or (checked (ceiling * gp_micros_per_unit price)) (LimitExceeded BalanceExhausted None)
            else Inr 0) = Inr micros"
    and ok: "reserve_usage_contract_with_id_in_transaction dp db key
        (metered_contract price micros ceiling snapshot) now rid = Inr (db', mr_reservation mr)"
    by (auto simp: reserve_metered_usage_with_id_in_transaction_def rbind_Inr_iff ensure_Inr_iff ok_or_Inr_iff)
  have n: "amount_ok micros" "policy_mode (ak_policy key) = MeteredUnlimited \<longrightarrow> micros = 0"
    using m pos by (auto simp: amount_ok_def enforces_prepaid_limits_def res_simps in_i64_def i64_bounds split: if_splits)
  have r: "ur_reserved_micros (mr_reservation mr) = micros"
    using contract_reservation_of [OF ok] by (simp add: metered_contract_def contract_reservation_def)
  show ?thesis
    using reserve_contract_posts [OF inv _ _ ok] n r
    by (intro that [OF ok]) (simp_all add: metered_contract_def)
qed

subsection \<open>Properties of admission\<close>

text \<open>
  C8. Reserving a token request keeps the accounting invariant, and the reservation it hands
  out is the one it stored. The amount moves from available to reserved, exactly once,
  on the key's account and on no other; an unlimited key moves nothing. A reservation the
  balance does not cover is refused.
\<close>

theorem reserve_usage_accounts:
  assumes "billing_inv db"
    and "reserve_usage_with_id_in_transaction dp ser db key price ic oc now rid = Inr (db', r)"
  shows "billing_inv db' \<and> reservation_matches db' r \<and> 0 \<le> ur_reserved_micros r \<and>
    posts db db' (ak_account_id key) (ak_key_id key) (ur_reserved_micros r) 0 \<and>
    (policy_mode (ak_policy key) = MeteredUnlimited \<longrightarrow> ur_reserved_micros r = 0) \<and>
    (policy_mode (ak_policy key) = Prepaid \<longrightarrow>
      (\<exists>acct acct'. tget (credit_accounts db) (ak_account_id key) = Some acct \<and>
         tget (credit_accounts db') (ak_account_id key) = Some acct' \<and>
         ca_currency acct = ak_currency key \<and> ur_reserved_micros r \<le> ca_available acct \<and>
         ca_available acct' = ca_available acct - ur_reserved_micros r \<and>
         ca_reserved acct' = ca_reserved acct + ur_reserved_micros r))"
proof -
  obtain snapshot micros tokens where
    ok: "reserve_usage_contract_with_id_in_transaction dp db key
        (token_contract price micros tokens snapshot) now rid = Inr (db', r)"
    and n: "0 \<le> micros" "policy_mode (ak_policy key) = MeteredUnlimited \<longrightarrow> micros = 0" "ur_reserved_micros r = micros"
    and p: "posts db db' (ak_account_id key) (ak_key_id key) micros 0" "reservation_matches db' r"
    by (rule reserve_usage_effect [OF assms])
  have "policy_mode (ak_policy key) = Prepaid \<Longrightarrow>
      \<exists>acct acct'. tget (credit_accounts db) (ak_account_id key) = Some acct \<and>
         tget (credit_accounts db') (ak_account_id key) = Some acct' \<and>
         ca_currency acct = ak_currency key \<and> micros \<le> ca_available acct \<and>
         ca_available acct' = ca_available acct - micros \<and> ca_reserved acct' = ca_reserved acct + micros"
    by (erule reserve_prepaid_Inr [OF ok]) (simp add: token_contract_def tbl_simps)
  with p n posts_inv [OF assms(1) p(1)] show ?thesis by simp
qed

text \<open>Saturation never hides an amount above a limit below the type's maximum.\<close>

lemma sat_sum_le:
  assumes "sat (sat (s + a) + m) \<le> b" and "b < i64_max" and "0 \<le> m"
  shows "s + a + m \<le> b"
proof -
  have "\<not> i64_max < sat (s + a) + m" and "sat (s + a) + m \<le> b"
    using assms by (auto simp: sat_def i64_bounds split: if_splits)
  with assms show ?thesis by (auto simp: sat_def i64_bounds split: if_splits)
qed

lemma budget_micros_Inr:
  "dp text = Some d \<Longrightarrow> decimal_to_micros d = Inr b \<Longrightarrow> budget_micros dp code text = Inr b"
  by (simp add: budget_micros_def ok_or_def)

lemma reserve_budget_check_Inr:
  assumes "reserve_budget_check dp db k now active m (Some text, settled, reason, retry) = Inr ()"
    and "dp text = Some d" and "decimal_to_micros d = Inr b" and "b < i64_max" and "0 \<le> m"
  shows "settled + (active + m) \<le> b"
  using assms sat_sum_le [of settled active m b]
  by (simp add: reserve_budget_check_def budget_micros_Inr ensure_def split: if_splits)

lemma settled_reads_cong:
  assumes "key_budget_daily_rollups db' = key_budget_daily_rollups db"
    and "key_budget_usage_events db' = key_budget_usage_events db"
  shows "key_budget_daily_settled db' k now = key_budget_daily_settled db k now"
    and "key_budget_rolling_weekly_settled db' k now = key_budget_rolling_weekly_settled db k now"
    and "daily_settled_for db' p k now = daily_settled_for db p k now"
    and "weekly_settled_for db' p k now = weekly_settled_for db p k now"
  using assms by (simp_all add: key_budget_daily_settled_def key_budget_rolling_weekly_settled_def Let_def
      daily_settled_for_def weekly_settled_for_def)

text \<open>A configured budget, its parsed amount, and the statement that a total respects it.\<close>

definition within_budget :: "(string \<Rightarrow> decimal option) \<Rightarrow> string option \<Rightarrow> int \<Rightarrow> bool" where
  "within_budget dp budget amount = (case budget of None \<Rightarrow> True
     | Some text \<Rightarrow> (case dp text of None \<Rightarrow> False
        | Some d \<Rightarrow> (case decimal_to_micros d of Inl _ \<Rightarrow> False
           | Inr b \<Rightarrow> amount \<le> b \<or> b = i64_max)))"

lemma within_budget_iff:
  "within_budget dp budget amount \<longleftrightarrow> (\<forall>text. budget = Some text \<longrightarrow>
     (\<exists>d b. dp text = Some d \<and> decimal_to_micros d = Inr b \<and> (amount \<le> b \<or> b = i64_max)))"
  by (auto simp: within_budget_def split: option.splits sum.splits)

lemma reserve_line_within:
  assumes "reserve_budget_check dp db k now active m (budget, settled, reason, retry) = Inr ()" and "0 \<le> m"
  shows "within_budget dp budget (settled + (active + m))"
  unfolding within_budget_iff
proof (intro allI impI)
  fix cfg assume cfg: "budget = Some cfg"
  with assms(1) obtain d b where d: "dp cfg = Some d" "decimal_to_micros d = Inr b"
    by (auto simp: reserve_budget_check_def budget_micros_def res_simps)
  moreover have "b \<le> i64_max" using decimal_to_micros_Inr [OF d(2)] by (simp add: in_i64_def)
  ultimately show "\<exists>d b. dp cfg = Some d \<and> decimal_to_micros d = Inr b \<and> (settled + (active + m) \<le> b \<or> b = i64_max)"
    using reserve_budget_check_Inr [of dp db k now active m cfg settled reason retry d b] assms cfg
    by force
qed

lemma reserve_checks_Inr:
  assumes "reserve_checks dp db key c now lifetime active = Inr ()" and "0 \<le> rc_reserved_micros c"
  shows "within_budget dp (lifetime_budget (ak_policy key)) (lifetime + (active + rc_reserved_micros c))"
    and "within_budget dp (daily_budget (ak_policy key))
           (key_budget_daily_settled db (ak_key_id key) now + (active + rc_reserved_micros c))"
    and "weekly_budget (ak_policy key) \<noteq> None \<Longrightarrow>
           \<exists>w. key_budget_rolling_weekly_settled db (ak_key_id key) now = Inr w \<and>
             within_budget dp (weekly_budget (ak_policy key)) (w + (active + rc_reserved_micros c))"
    and "max_concurrency (ak_policy key) = Some l \<Longrightarrow> active_requests db (ak_key_id key) < int l"
proof -
  let ?p = "ak_policy key" and ?k = "ak_key_id key"
  from assms(1) obtain daily weekly where dw: "daily_settled_for db ?p ?k now = Inr daily"
    "weekly_settled_for db ?p ?k now = Inr weekly"
    and lines: "\<forall>l \<in> set (budget_lines ?p daily weekly lifetime now).
        reserve_budget_check dp db ?k now active (rc_reserved_micros c) l = Inr ()"
    and conc: "concurrency_check db ?p ?k = Inr ()"
    by (auto simp: reserve_checks_def Let_def res_simps)
  note within = reserve_line_within [OF _ assms(2)]
  show "within_budget dp (lifetime_budget ?p) (lifetime + (active + rc_reserved_micros c))"
    using lines by (auto intro: within simp: budget_lines_def)
  show "within_budget dp (daily_budget ?p) (key_budget_daily_settled db ?k now + (active + rc_reserved_micros c))"
  proof (cases "daily_budget ?p")
    case (Some cfg)
    with dw have "daily = key_budget_daily_settled db ?k now" by (simp add: daily_settled_for_def)
    then show ?thesis using lines by (auto intro: within simp: budget_lines_def)
  qed (simp add: within_budget_def)
  show "\<exists>w. key_budget_rolling_weekly_settled db ?k now = Inr w \<and>
     within_budget dp (weekly_budget ?p) (w + (active + rc_reserved_micros c))" if "weekly_budget ?p \<noteq> None"
    using that dw lines by (auto intro: within simp: budget_lines_def weekly_settled_for_def)
  show "active_requests db ?k < int l" if "max_concurrency ?p = Some l"
    using that conc by (simp add: concurrency_check_def res_simps)
qed

text \<open>
  C12. An admitted prepaid request leaves its key within every configured budget: what the
  key has settled, today, over the rolling week and over its lifetime, plus everything it
  now has reserved, is at most the budget. (A budget of exactly the largest representable
  amount is no bound.) A budget that does not parse admits nothing.
\<close>

theorem reserve_within_budgets:
  assumes "reserve_usage_contract_with_id_in_transaction dp db key c now rid = Inr (db', r)"
    and "policy_mode (ak_policy key) = Prepaid" and "0 \<le> rc_reserved_micros c"
  shows "\<exists>kb'. tget (key_budget_state db') (ak_key_id key) = Some kb' \<and>
    within_budget dp (lifetime_budget (ak_policy key)) (kb_settled_lifetime kb' + kb_reserved kb') \<and>
    within_budget dp (daily_budget (ak_policy key))
      (key_budget_daily_settled db' (ak_key_id key) now + kb_reserved kb') \<and>
    (weekly_budget (ak_policy key) \<noteq> None \<longrightarrow>
      (\<exists>w. key_budget_rolling_weekly_settled db' (ak_key_id key) now = Inr w \<and>
        within_budget dp (weekly_budget (ak_policy key)) (w + kb_reserved kb')))"
proof (rule reserve_prepaid_Inr [OF assms(1,2)])
  fix acct kb db1 windows
  assume db1: "db1 = db\<lparr>key_budget_state := tput (ak_key_id key) (kb\<lparr>kb_updated_at := now\<rparr>) (key_budget_state db)\<rparr>"
    and chk: "reserve_checks dp db1 key c now (kb_settled_lifetime kb) (kb_reserved kb) = Inr ()"
    and db': "db' = db\<lparr>rate_limit_windows := windows,
       credit_accounts := tput (ak_account_id key) (acct\<lparr>ca_available := ca_available acct - rc_reserved_micros c,
         ca_reserved := ca_reserved acct + rc_reserved_micros c, ca_updated_at := now\<rparr>) (credit_accounts db),
       key_budget_state := tput (ak_key_id key) (kb\<lparr>kb_reserved := kb_reserved kb + rc_reserved_micros c,
         kb_updated_at := now\<rparr>) (tput (ak_key_id key) (kb\<lparr>kb_updated_at := now\<rparr>) (key_budget_state db)),
       usage_reservations := tput rid (contract_row key c now (contract_tpm_limit key c \<noteq> None))
         (usage_reservations db)\<rparr>"
  have same: "key_budget_daily_rollups db' = key_budget_daily_rollups db1"
    "key_budget_usage_events db' = key_budget_usage_events db1" by (simp_all add: db' db1)
  show ?thesis
    using reserve_checks_Inr(1-3) [OF chk assms(3)]
    unfolding settled_reads_cong(1,2) [OF same]
    by (simp add: db' tbl_simps)
qed

lemma validate_key_policy_Inr:
  assumes "validate_key_policy dp p = Inr ()"
  shows "requests_per_minute p = Some l \<Longrightarrow> 1 \<le> int l"
    and "tokens_per_minute p = Some t \<Longrightarrow> u64_as_i64 t = int t \<and> 1 \<le> int t"
  using assms
  by (auto simp: validate_key_policy_def res_simps u64_as_i64_def JSON_SAFE_INTEGER_MAX_def i64_bounds)

text \<open>What the window holds for the current minute: its count before the request.\<close>

definition window_count :: "(rate_window \<Rightarrow> int) \<Rightarrow> billing_db \<Rightarrow> uuid \<Rightarrow> int \<Rightarrow> int" where
  "window_count f db k ws = (case tget (rate_limit_windows db) (k, ws) of None \<Rightarrow> 0 | Some w \<Rightarrow> f w)"

lemma rate_window_admission_bounds:
  assumes "rate_window_admission db k ws toks rpm tpm now = Inr db'"
  shows "rpm = Some l \<Longrightarrow> 1 \<le> l \<Longrightarrow> window_count rw_requests db' k ws \<le> l \<and>
           window_count rw_requests db' k ws = window_count rw_requests db k ws + 1"
    and "tpm = Some t \<Longrightarrow> toks \<le> t \<Longrightarrow> window_count rw_tokens db' k ws \<le> t \<and>
           window_count rw_tokens db' k ws = window_count rw_tokens db k ws + toks"
  using rate_window_admission_Inr [OF assms]
  by (auto simp: window_count_def below_limit_def tbl_simps split: option.splits if_splits)

text \<open>
  C14. Under a policy the gateway accepts, an admitted prepaid request keeps its key within
  the request, token and concurrency limits: the window of the current minute counts the
  request once and stays at or below the limits, and the requests in flight, this one
  included, do not exceed the maximum concurrency.
\<close>

theorem reserve_within_rate_limits:
  assumes "reserve_usage_contract_with_id_in_transaction dp db key c now rid = Inr (db', r)"
    and "policy_mode (ak_policy key) = Prepaid" and "0 \<le> rc_reserved_micros c"
    and "validate_key_policy dp (ak_policy key) = Inr ()"
  shows "(\<forall>l. requests_per_minute (ak_policy key) = Some l \<longrightarrow>
      window_count rw_requests db' (ak_key_id key) (minute_start now) \<le> int l \<and>
      window_count rw_requests db' (ak_key_id key) (minute_start now) =
        window_count rw_requests db (ak_key_id key) (minute_start now) + 1) \<and>
    (\<forall>t. tokens_per_minute (ak_policy key) = Some t \<and> rc_enforce_tpm c \<longrightarrow>
      window_count rw_tokens db' (ak_key_id key) (minute_start now) \<le> int t \<and>
      window_count rw_tokens db' (ak_key_id key) (minute_start now) =
        window_count rw_tokens db (ak_key_id key) (minute_start now) + rc_reserved_tokens c) \<and>
    (\<forall>l. max_concurrency (ak_policy key) = Some l \<longrightarrow> active_requests db' (ak_key_id key) \<le> int l)"
proof (rule reserve_prepaid_Inr [OF assms(1,2)])
  fix acct kb db1 windows
  let ?k = "ak_key_id key" and ?ws = "minute_start now" and ?p = "ak_policy key"
  assume fresh: "tget (usage_reservations db) rid = None"
    and tpm: "below_limit (contract_tpm_limit key c) (\<lambda>l. rc_reserved_tokens c \<le> l)"
    and db1: "db1 = db\<lparr>key_budget_state := tput ?k (kb\<lparr>kb_updated_at := now\<rparr>) (key_budget_state db)\<rparr>"
    and chk: "reserve_checks dp db1 key c now (kb_settled_lifetime kb) (kb_reserved kb) = Inr ()"
    and rate: "rate_window_admission db1 ?k ?ws (rc_reserved_tokens c)
       (map_option int (requests_per_minute ?p)) (contract_tpm_limit key c) now
       = Inr (db1\<lparr>rate_limit_windows := windows\<rparr>)"
    and db': "db' = db\<lparr>rate_limit_windows := windows,
       credit_accounts := tput (ak_account_id key) (acct\<lparr>ca_available := ca_available acct - rc_reserved_micros c,
         ca_reserved := ca_reserved acct + rc_reserved_micros c, ca_updated_at := now\<rparr>) (credit_accounts db),
       key_budget_state := tput ?k (kb\<lparr>kb_reserved := kb_reserved kb + rc_reserved_micros c,
         kb_updated_at := now\<rparr>) (tput ?k (kb\<lparr>kb_updated_at := now\<rparr>) (key_budget_state db)),
       usage_reservations := tput rid (contract_row key c now (contract_tpm_limit key c \<noteq> None))
         (usage_reservations db)\<rparr>"
  have win: "window_count f db' ?k ?ws = window_count f (db1\<lparr>rate_limit_windows := windows\<rparr>) ?k ?ws"
    "window_count f db1 ?k ?ws = window_count f db ?k ?ws" for f
    by (simp_all add: window_count_def db' db1)
  have active: "active_requests db' ?k = active_requests db1 ?k + 1"
    using fresh by (simp add: active_requests_def db' db1 tbl_simps contract_row_def)
  note policy = validate_key_policy_Inr [OF assms(4)]
  note bounds = rate_window_admission_bounds [OF rate, unfolded win(1) [symmetric], unfolded win(2)]
  have limit: "rc_reserved_tokens c \<le> int t" if "tokens_per_minute ?p = Some t" "rc_enforce_tpm c" for t
    using that tpm policy(2) [of t] by (simp add: contract_tpm_limit_def below_limit_def)
  show ?thesis
  proof (intro conjI allI impI)
    fix l assume "requests_per_minute ?p = Some l"
    with bounds(1) [of "int l"] policy(1) [of l]
    show "window_count rw_requests db' ?k ?ws \<le> int l"
      "window_count rw_requests db' ?k ?ws = window_count rw_requests db ?k ?ws + 1" by auto
  next
    fix t assume "tokens_per_minute ?p = Some t \<and> rc_enforce_tpm c"
    with bounds(2) [of "int t"] policy(2) [of t] limit [of t]
    show "window_count rw_tokens db' ?k ?ws \<le> int t"
      "window_count rw_tokens db' ?k ?ws = window_count rw_tokens db ?k ?ws + rc_reserved_tokens c"
      by (auto simp: contract_tpm_limit_def)
  next
    fix l assume "max_concurrency ?p = Some l"
    with reserve_checks_Inr(4) [OF chk assms(3)] active show "active_requests db' ?k \<le> int l" by force
  qed
qed

subsection \<open>Properties of resizing\<close>

lemma open_row_Some [res_simps]:
  "open_row db r = Some row \<longleftrightarrow> tget (usage_reservations db) (ur_id r) = Some row \<and> owns_open r row"
  by (auto simp: open_row_def split: option.splits)

lemma resize_row_Inr [res_simps]:
  "resize_row db r om ot m t = Inr db' \<longleftrightarrow>
     (\<exists>row. open_row db r = Some row \<and> rr_reserved_micros row = om \<and> rr_reserved_tokens row = ot \<and>
        db' = db\<lparr>usage_reservations := tput (ur_id r) (row\<lparr>rr_reserved_micros := m, rr_reserved_tokens := t\<rparr>)
                  (usage_reservations db)\<rparr>)"
  by (cases "open_row db r") (auto simp: resize_row_def rbind_Inr_iff ok_or_Inr_iff split: if_splits)

lemma resize_balance_Inr:
  "resize_balance db a cur d now = Inr db' \<longleftrightarrow>
     (\<exists>acct. tget (credit_accounts db) a = Some acct \<and> ca_currency acct = cur \<and> max d 0 \<le> ca_available acct \<and>
        0 \<le> ca_reserved acct + d \<and> in_i64 (ca_reserved acct + d) \<and> in_i64 (ca_available acct - d) \<and>
        db' = db\<lparr>credit_accounts := tput a (acct\<lparr>ca_available := ca_available acct - d,
                ca_reserved := ca_reserved acct + d, ca_updated_at := now\<rparr>) (credit_accounts db)\<rparr>)"
  by (auto simp: resize_balance_def res_simps)

lemma resize_key_budget_Inr:
  "resize_key_budget db k d now = Inr db' \<longleftrightarrow>
     (\<exists>kb. tget (key_budget_state db) k = Some kb \<and> 0 \<le> kb_reserved kb + d \<and> in_i64 (kb_reserved kb + d) \<and>
        db' = db\<lparr>key_budget_state := tput k (kb\<lparr>kb_reserved := kb_reserved kb + d, kb_updated_at := now\<rparr>)
                                      (key_budget_state db)\<rparr>)"
  by (auto simp: resize_key_budget_def res_simps)

lemma resize_rate_window_Inr:
  "resize_rate_window db k ws d tpm now = Inr db' \<Longrightarrow> \<exists>t. db' = db\<lparr>rate_limit_windows := t\<rparr>"
  by (auto simp: resize_rate_window_def res_simps)

text \<open>Replacing the price of a reservation, and only that, posts nothing.\<close>

lemma replace_price_posts:
  assumes inv: "billing_inv db"
    and ok: "replace_reservation_price_in_transaction ser db r price = Inr (db', r')"
    and match: "reservation_matches db r"
  shows "posts db db' a k 0 0 \<and> reservation_matches db' r' \<and> ur_reserved_micros r' = ur_reserved_micros r \<and>
    priced_like r' price \<and> key_budget_state db' = key_budget_state db"
proof -
  from ok obtain row snapshot where row: "tget (usage_reservations db) (ur_id r) = Some row" "owns_open r row"
    and db': "db' = db\<lparr>usage_reservations := tput (ur_id r)
            (row\<lparr>rr_price_id := mp_id price, rr_price_snapshot := snapshot\<rparr>) (usage_reservations db)\<rparr>"
    and r': "r' = r\<lparr>ur_input := mp_input price, ur_output := mp_output price, ur_price_tiers := mp_tiers price\<rparr>"
    by (auto simp: replace_reservation_price_in_transaction_def res_simps)
  let ?row = "row\<lparr>rr_price_id := mp_id price, rr_price_snapshot := snapshot\<rparr>"
  have "amount_ok (rr_reserved_micros row)" using inv row by (auto simp: billing_inv_def holds_ok_def)
  then have "posts_holds db db' (rr_account_id row) (rr_key_id row) 0"
    using posts_holds_update [OF inv, of db' "ur_id r" ?row row] row
    by (simp add: db' open_hold_def split: if_splits)
  then have "posts_holds db db' a k 0" by (simp add: posts_holds_def)
  moreover have "wf_tables db'" using inv by (simp add: frame_simps db')
  moreover have "reservation_matches db' r'"
    using match row by (simp add: reservation_matches_def db' r' tbl_simps)
  ultimately show ?thesis using inv
    by (simp add: posts_def posts_account_same posts_key_same posts_books_same db' r' priced_like_def)
qed

lemma resize_prepaid_Inr:
  assumes ok: "resize_prepaid dp db key r current micros tokens now budget = Inr db'"
  obtains acct kb windows lifetime active adjusted row where
    "budget = Some (lifetime, active)"
    "resize_checks dp db key (rr_reserved_micros current) micros now lifetime active = Inr adjusted"
    "tget (credit_accounts db) (ak_account_id key) = Some acct"
    "max (micros - rr_reserved_micros current) 0 \<le> ca_available acct"
    "in_i64 (ca_available acct - (micros - rr_reserved_micros current))"
    "tget (key_budget_state db) (ak_key_id key) = Some kb"
    "tget (usage_reservations db) (ur_id r) = Some row" "owns_open r row"
    "rr_reserved_micros row = rr_reserved_micros current"
    "db' = db\<lparr>rate_limit_windows := windows,
       credit_accounts := tput (ak_account_id key)
         (acct\<lparr>ca_available := ca_available acct - (micros - rr_reserved_micros current),
               ca_reserved := ca_reserved acct + (micros - rr_reserved_micros current),
               ca_updated_at := now\<rparr>) (credit_accounts db),
       key_budget_state := tput (ak_key_id key)
         (kb\<lparr>kb_reserved := kb_reserved kb + (micros - rr_reserved_micros current), kb_updated_at := now\<rparr>)
         (key_budget_state db),
       usage_reservations := tput (ur_id r)
         (row\<lparr>rr_reserved_micros := micros, rr_reserved_tokens := tokens\<rparr>) (usage_reservations db)\<rparr>"
proof -
  let ?d = "micros - rr_reserved_micros current" and ?ws = "rr_rate_window_start current"
  let ?tpm = "map_option u64_as_i64 (tokens_per_minute (ak_policy key))"
  from ok obtain lifetime active adjusted db1 db2 db3 where budget: "budget = Some (lifetime, active)"
    and chk: "resize_checks dp db key (rr_reserved_micros current) micros now lifetime active = Inr adjusted"
    and rate: "(if rr_tpm_window_applied current then
               rbind (ok_or (checked (tokens - rr_reserved_tokens current))
                 (internal ''settlement_resize_usage_reservation_in_transaction_3'')) (\<lambda>delta.
               resize_rate_window db (ak_key_id key) ?ws delta ?tpm now)
             else Inr db) = Inr db1"
    and bal: "resize_balance db1 (ak_account_id key) (ak_currency key) ?d now = Inr db2"
    and key: "resize_key_budget db2 (ak_key_id key) ?d now = Inr db3"
    and row: "resize_row db3 r (rr_reserved_micros current) (rr_reserved_tokens current) micros tokens = Inr db'"
    unfolding resize_prepaid_def Let_def by (auto simp: rbind_Inr_iff ok_or_Inr_iff ensure_Inr_iff)
  have "\<exists>t. db1 = db\<lparr>rate_limit_windows := t\<rparr>"
  proof (cases "rr_tpm_window_applied current")
    case True
    with rate show ?thesis by (auto simp: rbind_Inr_iff intro: resize_rate_window_Inr)
  next
    case False
    with rate have "db1 = db\<lparr>rate_limit_windows := rate_limit_windows db\<rparr>" by simp
    then show ?thesis by blast
  qed
  then obtain t where db1: "db1 = db\<lparr>rate_limit_windows := t\<rparr>" ..
  from bal [unfolded resize_balance_Inr db1] obtain acct where
    acct: "tget (credit_accounts db) (ak_account_id key) = Some acct" "max ?d 0 \<le> ca_available acct"
      "in_i64 (ca_available acct - ?d)"
    and db2: "db2 = db1\<lparr>credit_accounts := tput (ak_account_id key) (acct\<lparr>ca_available := ca_available acct - ?d,
                ca_reserved := ca_reserved acct + ?d, ca_updated_at := now\<rparr>) (credit_accounts db)\<rparr>"
    by (auto simp: db1)
  from key [unfolded resize_key_budget_Inr db2 db1] obtain kb where
    kb: "tget (key_budget_state db) (ak_key_id key) = Some kb"
    and db3: "db3 = db2\<lparr>key_budget_state := tput (ak_key_id key) (kb\<lparr>kb_reserved := kb_reserved kb + ?d,
                kb_updated_at := now\<rparr>) (key_budget_state db)\<rparr>"
    by (auto simp: db2 db1)
  from row [unfolded resize_row_Inr open_row_Some db3 db2 db1] obtain rw where
    rw: "tget (usage_reservations db) (ur_id r) = Some rw" "owns_open r rw"
      "rr_reserved_micros rw = rr_reserved_micros current"
    and db': "db' = db3\<lparr>usage_reservations := tput (ur_id r) (rw\<lparr>rr_reserved_micros := micros,
                rr_reserved_tokens := tokens\<rparr>) (usage_reservations db)\<rparr>"
    by (auto simp: db3 db2 db1)
  show ?thesis
    by (rule that [OF budget chk acct kb rw]) (simp add: db' db3 db2 db1)
qed

lemma resize_prepaid_posts:
  assumes inv: "billing_inv db" and nonneg: "amount_ok micros"
    and ok: "resize_prepaid dp db key r current micros tokens now budget = Inr db'"
    and cur: "tget (usage_reservations db) (ur_id r) = Some current" "rr_mode current = Prepaid"
    and same: "ak_key_id key = ur_key_id r" "ak_account_id key = ur_account_id r"
  shows "posts db db' (ur_account_id r) (ur_key_id r) (micros - rr_reserved_micros current) 0"
proof (rule resize_prepaid_Inr [OF ok])
  fix acct kb windows and row :: reservation_row
  let ?d = "micros - rr_reserved_micros current"
  let ?row = "row\<lparr>rr_reserved_micros := micros, rr_reserved_tokens := tokens\<rparr>"
  assume acct: "tget (credit_accounts db) (ak_account_id key) = Some acct" "max ?d 0 \<le> ca_available acct"
      "in_i64 (ca_available acct - ?d)"
    and kb: "tget (key_budget_state db) (ak_key_id key) = Some kb"
    and row: "tget (usage_reservations db) (ur_id r) = Some row" "owns_open r row"
    and db': "db' = db\<lparr>rate_limit_windows := windows,
       credit_accounts := tput (ak_account_id key) (acct\<lparr>ca_available := ca_available acct - ?d,
               ca_reserved := ca_reserved acct + ?d, ca_updated_at := now\<rparr>) (credit_accounts db),
       key_budget_state := tput (ak_key_id key) (kb\<lparr>kb_reserved := kb_reserved kb + ?d, kb_updated_at := now\<rparr>)
         (key_budget_state db),
       usage_reservations := tput (ur_id r) ?row (usage_reservations db)\<rparr>"
  have "posts_account db db' (ur_account_id r) ?d 0"
    using acct same by (intro posts_account_put [OF inv], simp, simp add: db') (auto simp: amount_ok_def in_i64_def)
  moreover have "posts_key db db' (ur_key_id r) ?d"
    using kb same by (auto simp: posts_key_def db' tbl_simps)
  moreover have "posts_holds db db' (ur_account_id r) (ur_key_id r) ?d"
    using posts_holds_update [OF inv, of db' "ur_id r" ?row row] row cur nonneg
    by (simp add: db' open_hold_def owns_open_def)
  moreover have "wf_tables db'" using inv by (simp add: frame_simps db')
  ultimately show ?thesis by (simp add: posts_def posts_books_same db')
qed

lemma lock_key_budget_posts:
  assumes "billing_inv db" and "lock_key_budget_state db k now = Inr (db', x)"
  shows "posts db db' a k' 0 0"
proof -
  from assms(2) obtain kb where kb: "tget (key_budget_state db) k = Some kb"
    and db': "db' = db\<lparr>key_budget_state := tput k (kb\<lparr>kb_updated_at := now\<rparr>) (key_budget_state db)\<rparr>"
    by (auto simp: res_simps)
  have "posts_key db db' k' 0" using kb by (auto simp: posts_key_def db' tbl_simps)
  then show ?thesis using assms(1)
    by (simp add: posts_def posts_account_same posts_holds_same posts_books_same db' frame_simps)
qed

text \<open>The stages of a successful resize: amounts, lock, the row it found, the move, the new price.\<close>

lemma resize_stages:
  assumes ok: "resize_usage_reservation_in_transaction dp ser db key price r ic oc now = Inr (db', r')"
  obtains micros tokens db1 budget current db2 where
    "usage_contract_amounts (ur_mode r) price ic oc = Inr (micros, tokens)"
    "db1 = db \<and> budget = None \<or>
     (\<exists>lifetime active. lock_key_budget_state db (ak_key_id key) now = Inr (db1, lifetime, active) \<and>
        budget = Some (lifetime, active))"
    "tget (usage_reservations db1) (ur_id r) = Some current" "owns_open r current"
    "rr_mode current = ur_mode r" "ak_key_id key = ur_key_id r" "ak_account_id key = ur_account_id r"
    "rr_reserved_micros current = ur_reserved_micros r" "rr_reserved_tokens current = ur_reserved_tokens r"
    "rr_rate_window_start current = ur_rate_window_start r"
    "replace_reservation_price_in_transaction ser db2
       (r\<lparr>ur_reserved_micros := micros, ur_reserved_tokens := tokens\<rparr>) price = Inr (db', r')"
    "db2 = db1 \<and> micros = ur_reserved_micros r \<and> tokens = ur_reserved_tokens r \<or>
     ur_mode r = MeteredUnlimited \<and>
       resize_row db1 r (ur_reserved_micros r) (ur_reserved_tokens r) micros tokens = Inr db2 \<or>
     ur_mode r = Prepaid \<and> resize_prepaid dp db1 key r current micros tokens now budget = Inr db2"
proof -
  from ok obtain micros tokens db1 budget current where
    a: "usage_contract_amounts (ur_mode r) price ic oc = Inr (micros, tokens)"
    and l: "(if enforces_prepaid_limits (ur_mode r) \<and> (ur_reserved_micros r \<noteq> micros \<or> ur_reserved_tokens r \<noteq> tokens)
             then rbind (lock_key_budget_state db (ak_key_id key) now) (\<lambda>(db, lifetime, active).
                  Inr (db, Some (lifetime, active)))
             else Inr (db, None)) = Inr (db1, budget)"
    and c: "tget (usage_reservations db1) (ur_id r) = Some current" "owns_open r current"
      "rr_mode current = ur_mode r" "ak_key_id key = ur_key_id r" "ak_account_id key = ur_account_id r"
      "rr_reserved_micros current = ur_reserved_micros r" "rr_reserved_tokens current = ur_reserved_tokens r"
      "rr_rate_window_start current = ur_rate_window_start r"
    and rest: "(if ur_reserved_micros r = micros \<and> ur_reserved_tokens r = tokens
      then replace_reservation_price_in_transaction ser db1 r price
      else
        rbind (if \<not> enforces_prepaid_limits (ur_mode r)
               then resize_row db1 r (rr_reserved_micros current) (rr_reserved_tokens current) micros tokens
               else resize_prepaid dp db1 key r current micros tokens now budget) (\<lambda>db.
        replace_reservation_price_in_transaction ser db
          (r\<lparr>ur_reserved_micros := micros, ur_reserved_tokens := tokens\<rparr>) price)) = Inr (db', r')"
    unfolding resize_usage_reservation_in_transaction_def Let_def
    by (auto simp: rbind_Inr_iff ok_or_Inr_iff ensure_Inr_iff open_row_Some split_paired_all)
  from l have l': "db1 = db \<and> budget = None \<or>
     (\<exists>lifetime active. lock_key_budget_state db (ak_key_id key) now = Inr (db1, lifetime, active) \<and>
        budget = Some (lifetime, active))"
    by (auto simp: rbind_Inr_iff split: if_splits)
  show ?thesis
  proof (cases "ur_reserved_micros r = micros \<and> ur_reserved_tokens r = tokens")
    case True
    then have "r\<lparr>ur_reserved_micros := micros, ur_reserved_tokens := tokens\<rparr> = r" by simp
    with True rest show ?thesis by (intro that [OF a l' c, of db1]) auto
  next
    case False
    with rest obtain db2 where
      "(if \<not> enforces_prepaid_limits (ur_mode r)
        then resize_row db1 r (rr_reserved_micros current) (rr_reserved_tokens current) micros tokens
        else resize_prepaid dp db1 key r current micros tokens now budget) = Inr db2"
      "replace_reservation_price_in_transaction ser db2
          (r\<lparr>ur_reserved_micros := micros, ur_reserved_tokens := tokens\<rparr>) price = Inr (db', r')"
      by (auto simp: rbind_Inr_iff)
    then show ?thesis
      by (intro that [OF a l' c, of db2], simp, cases "ur_mode r") (simp_all add: enforces_prepaid_limits_def c)
  qed
qed

lemma resize_row_posts:
  assumes inv: "billing_inv db" and nonneg: "amount_ok micros"
    and row: "tget (usage_reservations db) (ur_id r) = Some row" "rr_mode row = MeteredUnlimited"
    and ok: "resize_row db r om ot micros tokens = Inr db'"
  shows "posts db db' a k 0 0"
proof -
  let ?row = "row\<lparr>rr_reserved_micros := micros, rr_reserved_tokens := tokens\<rparr>"
  from ok row have db': "db' = db\<lparr>usage_reservations := tput (ur_id r) ?row (usage_reservations db)\<rparr>"
    by (auto simp: resize_row_Inr open_row_Some)
  have "posts_holds db db' (rr_account_id row) (rr_key_id row) 0"
    using posts_holds_update [OF inv, of db' "ur_id r" ?row row] row nonneg by (simp add: db' open_hold_def)
  then have "posts_holds db db' a k 0" by (simp add: posts_holds_def)
  moreover have "wf_tables db'" using inv by (simp add: frame_simps db')
  ultimately show ?thesis using inv
    by (simp add: posts_def posts_account_same posts_key_same posts_books_same db')
qed

text \<open>Before the price is replaced, the row already carries the new amounts.\<close>

lemma resized_row_matches:
  assumes "resize_row db r (ur_reserved_micros r) (ur_reserved_tokens r) micros tokens = Inr db' \<or>
      resize_prepaid dp db key r current micros tokens now budget = Inr db' \<or>
      db' = db \<and> micros = ur_reserved_micros r \<and> tokens = ur_reserved_tokens r"
    and "tget (usage_reservations db) (ur_id r) = Some current" and "owns_open r current"
    and "rr_mode current = ur_mode r" and "rr_rate_window_start current = ur_rate_window_start r"
    and "rr_reserved_micros current = ur_reserved_micros r" "rr_reserved_tokens current = ur_reserved_tokens r"
  shows "reservation_matches db' (r\<lparr>ur_reserved_micros := micros, ur_reserved_tokens := tokens\<rparr>)"
  using assms(1)
proof (elim disjE)
  assume "resize_prepaid dp db key r current micros tokens now budget = Inr db'"
  then show ?thesis
    by (rule resize_prepaid_Inr)
       (use assms(2-) in \<open>auto simp: reservation_matches_def owns_open_def tbl_simps\<close>)
qed (use assms(2-) in \<open>auto simp: reservation_matches_def owns_open_def tbl_simps resize_row_Inr open_row_Some\<close>)

text \<open>What a successful resize moves, and the reservation it returns.\<close>

lemma resize_effect:
  assumes "billing_inv db"
    and "resize_usage_reservation_in_transaction dp ser db key price r ic oc now = Inr (db', r')"
  shows "reservation_matches db' r' \<and> priced_like r' price \<and>
    usage_contract_amounts (ur_mode r) price ic oc = Inr (ur_reserved_micros r', ur_reserved_tokens r') \<and>
    posts db db' (ur_account_id r) (ur_key_id r)
      (if ur_mode r = Prepaid then ur_reserved_micros r' - ur_reserved_micros r else 0) 0"
proof (rule resize_stages [OF assms(2)])
  fix micros tokens db1 budget current db2
  let ?d = "if ur_mode r = Prepaid then micros - ur_reserved_micros r else 0"
  let ?r = "r\<lparr>ur_reserved_micros := micros, ur_reserved_tokens := tokens\<rparr>"
  assume a: "usage_contract_amounts (ur_mode r) price ic oc = Inr (micros, tokens)"
    and l: "db1 = db \<and> budget = None \<or>
     (\<exists>lifetime active. lock_key_budget_state db (ak_key_id key) now = Inr (db1, lifetime, active) \<and>
        budget = Some (lifetime, active))"
    and c: "tget (usage_reservations db1) (ur_id r) = Some current" "owns_open r current"
      "rr_mode current = ur_mode r" "ak_key_id key = ur_key_id r" "ak_account_id key = ur_account_id r"
      "rr_reserved_micros current = ur_reserved_micros r" "rr_reserved_tokens current = ur_reserved_tokens r"
      "rr_rate_window_start current = ur_rate_window_start r"
    and rep: "replace_reservation_price_in_transaction ser db2 ?r price = Inr (db', r')"
    and m: "db2 = db1 \<and> micros = ur_reserved_micros r \<and> tokens = ur_reserved_tokens r \<or>
     ur_mode r = MeteredUnlimited \<and>
       resize_row db1 r (ur_reserved_micros r) (ur_reserved_tokens r) micros tokens = Inr db2 \<or>
     ur_mode r = Prepaid \<and> resize_prepaid dp db1 key r current micros tokens now budget = Inr db2"
  have nonneg: "amount_ok micros" using usage_contract_amounts_nonneg [OF a] by simp
  have p0: "posts db d a k 0 0" if "d = db" for d a k using assms(1) that
    by (simp add: posts_def posts_account_same posts_holds_same posts_books_same posts_key_same frame_simps)
  have p1: "posts db db1 (ur_account_id r) (ur_key_id r) 0 0"
    using l p0 lock_key_budget_posts [OF assms(1)] by blast
  then have inv1: "billing_inv db1" by (rule posts_inv [OF assms(1)])
  have p2: "posts db1 db2 (ur_account_id r) (ur_key_id r) ?d 0"
    using m
  proof (elim disjE conjE)
    assume "db2 = db1" "micros = ur_reserved_micros r"
    then show ?thesis using inv1
      by (simp add: posts_def posts_account_same posts_holds_same posts_books_same posts_key_same frame_simps)
  next
    assume "ur_mode r = MeteredUnlimited"
      "resize_row db1 r (ur_reserved_micros r) (ur_reserved_tokens r) micros tokens = Inr db2"
    then show ?thesis using resize_row_posts [OF inv1 nonneg c(1)] c by simp
  next
    assume "ur_mode r = Prepaid" "resize_prepaid dp db1 key r current micros tokens now budget = Inr db2"
    then show ?thesis using resize_prepaid_posts [OF inv1 nonneg _ c(1) _ c(4,5)] c by simp
  qed
  have inv2: "billing_inv db2" by (rule posts_inv [OF inv1 p2])
  have match: "reservation_matches db2 ?r"
    using resized_row_matches [OF _ c(1-3) c(8) c(6-7)] m by blast
  note p3 = replace_price_posts [OF inv2 rep match]
  have r': "ur_reserved_micros r' = micros" "ur_reserved_tokens r' = tokens"
    using rep by (auto simp: replace_reservation_price_in_transaction_def rbind_Inr_iff)
  have p: "posts db db' (ur_account_id r) (ur_key_id r) (0 + ?d + 0) (0 + 0 + 0)"
    using posts_trans [OF posts_trans [OF p1 p2]] p3 by blast
  show ?thesis using p p3 r' a by (simp split: if_splits)
qed

text \<open>
  C16. Resizing a reservation, when a request switches to another upstream candidate, keeps
  the accounting invariant: the account and the key move by exactly the difference of the
  two holds and the returned reservation is the stored one, sized and priced for the new
  candidate. An unlimited reservation moves nothing, whatever the key's policy is now.
\<close>

theorem resize_usage_accounts:
  assumes "billing_inv db"
    and "resize_usage_reservation_in_transaction dp ser db key price r ic oc now = Inr (db', r')"
  shows "billing_inv db' \<and> reservation_matches db' r' \<and> priced_like r' price \<and>
    usage_contract_amounts (ur_mode r) price ic oc = Inr (ur_reserved_micros r', ur_reserved_tokens r') \<and>
    posts db db' (ur_account_id r) (ur_key_id r)
      (if ur_mode r = Prepaid then ur_reserved_micros r' - ur_reserved_micros r else 0) 0"
  using resize_effect [OF assms] posts_inv [OF assms(1)] by blast

lemma resize_line_within:
  assumes "resize_budget_check dp active (budget, settled, reason, retry) = Inr ()"
  shows "within_budget dp budget (settled + active)"
  unfolding within_budget_iff
proof (intro allI impI)
  fix cfg assume cfg: "budget = Some cfg"
  with assms obtain d b where d: "dp cfg = Some d" "decimal_to_micros d = Inr b" "sat (settled + active) \<le> b"
    by (auto simp: resize_budget_check_def budget_micros_def res_simps)
  moreover have "b \<le> i64_max" "i64_min \<le> b" using decimal_to_micros_Inr [OF d(2)] by (simp_all add: in_i64_def)
  ultimately show "\<exists>d b. dp cfg = Some d \<and> decimal_to_micros d = Inr b \<and> (settled + active \<le> b \<or> b = i64_max)"
    using sat_le_iff [of b "settled + active"] by force
qed

lemma resize_checks_Inr:
  assumes "resize_checks dp db key om m now lifetime active = Inr adjusted"
  shows "adjusted = active - om + m"
    and "within_budget dp (lifetime_budget (ak_policy key)) (lifetime + adjusted)"
    and "within_budget dp (daily_budget (ak_policy key)) (key_budget_daily_settled db (ak_key_id key) now + adjusted)"
    and "weekly_budget (ak_policy key) \<noteq> None \<Longrightarrow>
           \<exists>w. key_budget_rolling_weekly_settled db (ak_key_id key) now = Inr w \<and>
             within_budget dp (weekly_budget (ak_policy key)) (w + adjusted)"
proof -
  let ?p = "ak_policy key" and ?k = "ak_key_id key"
  from assms obtain daily weekly where dw: "daily_settled_for db ?p ?k now = Inr daily"
    "weekly_settled_for db ?p ?k now = Inr weekly"
    and lines: "\<forall>l \<in> set (budget_lines ?p daily weekly lifetime now). resize_budget_check dp adjusted l = Inr ()"
    and adj: "adjusted = active - om + m"
    by (auto simp: resize_checks_def Let_def res_simps split: option.splits if_splits)
  show "adjusted = active - om + m" by (rule adj)
  show "within_budget dp (lifetime_budget ?p) (lifetime + adjusted)"
    using lines by (auto intro: resize_line_within simp: budget_lines_def)
  show "within_budget dp (daily_budget ?p) (key_budget_daily_settled db ?k now + adjusted)"
  proof (cases "daily_budget ?p")
    case (Some cfg)
    with dw have "daily = key_budget_daily_settled db ?k now" by (simp add: daily_settled_for_def)
    then show ?thesis using lines by (auto intro: resize_line_within simp: budget_lines_def)
  qed (simp add: within_budget_def)
  show "\<exists>w. key_budget_rolling_weekly_settled db ?k now = Inr w \<and>
     within_budget dp (weekly_budget ?p) (w + adjusted)" if "weekly_budget ?p \<noteq> None"
    using that dw lines by (auto intro: resize_line_within simp: budget_lines_def weekly_settled_for_def)
qed

text \<open>
  A prepaid reservation that changes its amount or its tokens stays within the key's
  budgets: after the switch, what the key has settled plus all its holds is at most every
  configured budget.
\<close>

theorem resize_within_budgets:
  assumes "resize_usage_reservation_in_transaction dp ser db key price r ic oc now = Inr (db', r')"
    and "ur_mode r = Prepaid" and "(ur_reserved_micros r', ur_reserved_tokens r') \<noteq> (ur_reserved_micros r, ur_reserved_tokens r)"
  shows "\<exists>kb'. tget (key_budget_state db') (ak_key_id key) = Some kb' \<and>
    within_budget dp (lifetime_budget (ak_policy key)) (kb_settled_lifetime kb' + kb_reserved kb') \<and>
    within_budget dp (daily_budget (ak_policy key))
      (key_budget_daily_settled db' (ak_key_id key) now + kb_reserved kb') \<and>
    (weekly_budget (ak_policy key) \<noteq> None \<longrightarrow>
      (\<exists>w. key_budget_rolling_weekly_settled db' (ak_key_id key) now = Inr w \<and>
        within_budget dp (weekly_budget (ak_policy key)) (w + kb_reserved kb')))"
proof (rule resize_stages [OF assms(1)])
  fix micros tokens db1 budget current db2
  let ?r = "r\<lparr>ur_reserved_micros := micros, ur_reserved_tokens := tokens\<rparr>"
  assume l: "db1 = db \<and> budget = None \<or>
     (\<exists>lifetime active. lock_key_budget_state db (ak_key_id key) now = Inr (db1, lifetime, active) \<and>
        budget = Some (lifetime, active))"
    and rep: "replace_reservation_price_in_transaction ser db2 ?r price = Inr (db', r')"
    and m: "db2 = db1 \<and> micros = ur_reserved_micros r \<and> tokens = ur_reserved_tokens r \<or>
     ur_mode r = MeteredUnlimited \<and>
       resize_row db1 r (ur_reserved_micros r) (ur_reserved_tokens r) micros tokens = Inr db2 \<or>
     ur_mode r = Prepaid \<and> resize_prepaid dp db1 key r current micros tokens now budget = Inr db2"
  from rep obtain t where db': "db' = db2\<lparr>usage_reservations := t\<rparr>"
    and r': "ur_reserved_micros r' = micros" "ur_reserved_tokens r' = tokens"
    by (auto simp: replace_reservation_price_in_transaction_def rbind_Inr_iff)
  from m assms(2,3) r' have "resize_prepaid dp db1 key r current micros tokens now budget = Inr db2" by auto
  then show ?thesis
  proof (rule resize_prepaid_Inr)
    fix acct kb windows lifetime active adjusted and row :: reservation_row
    let ?d = "micros - rr_reserved_micros current"
    assume b: "budget = Some (lifetime, active)"
      and chk: "resize_checks dp db1 key (rr_reserved_micros current) micros now lifetime active = Inr adjusted"
      and kb: "tget (key_budget_state db1) (ak_key_id key) = Some kb"
      and db2: "db2 = db1\<lparr>rate_limit_windows := windows,
         credit_accounts := tput (ak_account_id key) (acct\<lparr>ca_available := ca_available acct - ?d,
               ca_reserved := ca_reserved acct + ?d, ca_updated_at := now\<rparr>) (credit_accounts db1),
         key_budget_state := tput (ak_key_id key) (kb\<lparr>kb_reserved := kb_reserved kb + ?d, kb_updated_at := now\<rparr>)
           (key_budget_state db1),
         usage_reservations := tput (ur_id r)
           (row\<lparr>rr_reserved_micros := micros, rr_reserved_tokens := tokens\<rparr>) (usage_reservations db1)\<rparr>"
    from l b kb have la: "lifetime = kb_settled_lifetime kb" "active = kb_reserved kb"
      by (auto simp: lock_key_budget_state_Inr tbl_simps)
    have same: "key_budget_daily_rollups db' = key_budget_daily_rollups db1"
      "key_budget_usage_events db' = key_budget_usage_events db1" by (simp_all add: db' db2)
    show ?thesis
      using resize_checks_Inr(2-4) [OF chk, unfolded resize_checks_Inr(1) [OF chk] la]
      unfolding settled_reads_cong(1,2) [OF same]
      by (simp add: db' db2 tbl_simps algebra_simps)
  qed
qed

subsection \<open>Witnesses\<close>

definition sample_ser :: "model_price \<Rightarrow> string option" where
  "sample_ser p = Some (mp_id p)"

definition sample_reserved :: usage_reservation where
  "sample_reserved = \<lparr>ur_id = ''r1'', ur_account_id = ''a'', ur_key_id = ''k'', ur_mode = Prepaid,
     ur_reserved_micros = 2, ur_input = 1, ur_output = 2, ur_price_tiers = [],
     ur_rate_window_start = 120000, ur_reserved_tokens = 4\<rparr>"

definition sample_row :: reservation_row where
  "sample_row = \<lparr>rr_account_id = ''a'', rr_key_id = ''k'', rr_price_id = ''p'',
     rr_reserved_micros = 2, rr_reserved_tokens = 4, rr_reserved_units = 0, rr_billing_unit = [],
     rr_micros_per_unit = 0, rr_rate_window_start = 120000, rr_actual_micros = None, rr_status = Reserved,
     rr_created_at = 120001, rr_settled_at = None, rr_price_snapshot = ''p'', rr_mode = Prepaid,
     rr_tpm_window_applied = True\<rparr>"

definition sample_reserved_db :: billing_db where
  "sample_reserved_db = sample_db\<lparr>
     credit_accounts := [(''a'', \<lparr>ca_tenant_id = ''t'', ca_currency = ''USD'', ca_available = 998, ca_reserved = 2, ca_updated_at = 120001\<rparr>)],
     key_budget_state := [(''k'', \<lparr>kb_settled_lifetime = 0, kb_reserved = 2, kb_updated_at = 120001\<rparr>)],
     rate_limit_windows := [((''k'', 120000), \<lparr>rw_requests = 1, rw_tokens = 4\<rparr>)],
     usage_reservations := [(''r1'', sample_row)]\<rparr>"

lemmas sample_state_eval = sample_reserved_db_def sample_row_def sample_reserved_def sample_db_def empty_db_def
  sample_key_def sample_policy_def sample_dp_def sample_ser_def sample_price_def sample_grant_def

lemmas sample_eval = sample_state_eval tget_def tput_def
  tsum_def in_i64_def i64_bounds sat_def ok_or_def checked_def ensure_def sql_int_def sql_insert_def
  lock_key_budget_state_def daily_settled_for_def weekly_settled_for_def key_budget_daily_settled_def
  key_budget_rolling_weekly_settled_def weekly_cutoff_def day_ms_def budget_lines_def budget_micros_def
  decimal_to_micros_def decimal_times_million_def money_scale_def minute_start_def
  usage_contract_amounts_def reservation_ceiling_amounts_def maximum_input_price_def maximum_output_price_def
  max_or_def priced_tokens_def enforces_prepaid_limits_def Let_def signed_divide_int_def

lemma sample_reserve_amounts: "usage_contract_amounts Prepaid sample_price 3 1 = Inr (2, 4)"
  by (simp add: sample_eval)

lemma sample_reserve_contract:
  "reserve_usage_contract_with_id_in_transaction sample_dp sample_db sample_key
     (token_contract sample_price 2 4 ''p'') 120001 ''r1'' = Inr (sample_reserved_db, sample_reserved)"
  by (simp add: reserve_usage_contract_with_id_in_transaction_def reserve_checks_def reserve_budget_check_def
      concurrency_check_def active_requests_def rate_window_admission_def rate_window_upsert_def
      hold_balance_def hold_key_budget_def insert_reservation_def contract_row_def contract_reservation_def
      token_contract_def contract_tpm_limit_def below_limit_def u64_as_i64_def sample_eval)

lemma sample_reserve:
  "reserve_usage_with_id_in_transaction sample_dp sample_ser sample_db sample_key sample_price 3 1 120001 ''r1''
     = Inr (sample_reserved_db, sample_reserved)"
  using sample_reserve_contract sample_reserve_amounts
  by (simp add: reserve_usage_with_id_in_transaction_def reserve_usage_with_snapshot_in_transaction_def
      ok_or_def sample_ser_def sample_price_def sample_key_def sample_policy_def)

theorem reserve_usage_accounts_witness:
  "billing_inv sample_db \<and> billing_inv sample_reserved_db \<and> reservation_matches sample_reserved_db sample_reserved \<and>
   posts sample_db sample_reserved_db ''a'' ''k'' 2 0"
  using reserve_usage_accounts [OF sample_db_inv sample_reserve] sample_db_inv
  by (simp add: sample_key_def sample_reserved_def)

theorem reserve_within_budgets_witness:
  "\<exists>kb'. tget (key_budget_state sample_reserved_db) ''k'' = Some kb' \<and>
     within_budget sample_dp (Some ''1'') (kb_settled_lifetime kb' + kb_reserved kb')"
proof -
  have "policy_mode (ak_policy sample_key) = Prepaid" "0 \<le> rc_reserved_micros (token_contract sample_price 2 4 ''p'')"
    by (simp_all add: sample_key_def sample_policy_def token_contract_def)
  from reserve_within_budgets [OF sample_reserve_contract this] show ?thesis
    by (auto simp: sample_key_def sample_policy_def)
qed

lemma sample_policy_valid: "validate_key_policy sample_dp sample_policy = Inr ()"
  by (simp add: validate_key_policy_def validate_budget_def present_def is_sign_negative_def
      JSON_SAFE_INTEGER_MAX_def sample_eval)

theorem reserve_within_rate_limits_witness:
  "window_count rw_requests sample_reserved_db ''k'' 120000 \<le> 5 \<and>
   window_count rw_tokens sample_reserved_db ''k'' 120000 \<le> 100 \<and> active_requests sample_reserved_db ''k'' \<le> 2"
proof -
  have "policy_mode (ak_policy sample_key) = Prepaid" "0 \<le> rc_reserved_micros (token_contract sample_price 2 4 ''p'')"
    "validate_key_policy sample_dp (ak_policy sample_key) = Inr ()"
    using sample_policy_valid by (simp_all add: sample_key_def sample_policy_def token_contract_def)
  moreover have "minute_start 120001 = 120000" by (simp add: minute_start_def signed_divide_int_def)
  ultimately show ?thesis using reserve_within_rate_limits [OF sample_reserve_contract]
    by (simp add: sample_key_def sample_policy_def token_contract_def)
qed

text \<open>Switching the sample request to a candidate with twice the ceilings.\<close>

definition sample_resized_db :: billing_db where
  "sample_resized_db = sample_reserved_db\<lparr>
     credit_accounts := [(''a'', \<lparr>ca_tenant_id = ''t'', ca_currency = ''USD'', ca_available = 997, ca_reserved = 3, ca_updated_at = 120002\<rparr>)],
     key_budget_state := [(''k'', \<lparr>kb_settled_lifetime = 0, kb_reserved = 3, kb_updated_at = 120002\<rparr>)],
     rate_limit_windows := [((''k'', 120000), \<lparr>rw_requests = 1, rw_tokens = 80\<rparr>)],
     usage_reservations := [(''r1'', sample_row\<lparr>rr_reserved_micros := 3, rr_reserved_tokens := 80,
       rr_price_id := ''q'', rr_price_snapshot := ''q''\<rparr>)]\<rparr>"

definition sample_resized :: usage_reservation where
  "sample_resized = sample_reserved\<lparr>ur_reserved_micros := 3, ur_reserved_tokens := 80, ur_input := 20000, ur_output := 30000\<rparr>"

definition sample_price2 :: model_price where
  "sample_price2 = \<lparr>mp_id = ''q'', mp_input = 20000, mp_output = 30000, mp_tiers = []\<rparr>"

lemma sample_resize:
  "resize_usage_reservation_in_transaction sample_dp sample_ser sample_reserved_db sample_key sample_price2
     sample_reserved 51 29 120002 = Inr (sample_resized_db, sample_resized)"
  by (simp add: resize_usage_reservation_in_transaction_def open_row_def owns_open_def
      replace_reservation_price_in_transaction_def resize_prepaid_def resize_checks_def resize_budget_check_def
      resize_rate_window_def resize_balance_def resize_key_budget_def resize_row_def below_limit_def u64_as_i64_def
      sample_resized_db_def sample_resized_def sample_price2_def sample_eval)

theorem resize_usage_accounts_witness:
  "billing_inv sample_resized_db \<and> reservation_matches sample_resized_db sample_resized \<and>
   posts sample_reserved_db sample_resized_db ''a'' ''k'' 1 0"
proof -
  have inv: "billing_inv sample_reserved_db"
    by (simp add: inv_defs sample_eval wf_table_def open_hold_def book_value_def touches_balance_def amount_ok_def)
  from resize_usage_accounts [OF inv sample_resize] show ?thesis
    by (simp add: sample_reserved_def sample_resized_def)
qed

theorem resize_within_budgets_witness:
  "\<exists>kb'. tget (key_budget_state sample_resized_db) ''k'' = Some kb' \<and>
     within_budget sample_dp (Some ''1'') (kb_settled_lifetime kb' + kb_reserved kb')"
proof -
  have "ur_mode sample_reserved = Prepaid"
    "(ur_reserved_micros sample_resized, ur_reserved_tokens sample_resized) \<noteq>
     (ur_reserved_micros sample_reserved, ur_reserved_tokens sample_reserved)"
    by (simp_all add: sample_reserved_def sample_resized_def)
  from resize_within_budgets [OF sample_resize this] show ?thesis
    by (auto simp: sample_key_def sample_policy_def)
qed

end
