(* ===== verification/Settle_Usage.thy ===== *)
theory Settle_Usage
  imports Reserve_Usage "HOL-Library.Char_ord" "HOL-Library.List_Lexorder" "HOL-Library.Product_Lexorder"
    "HOL-Library.Multiset"
begin

text \<open>
  Settlement of a reservation (\<open>src/src/db/requests/settlement.rs\<close>): the charge and its
  cap, the claim that makes settling idempotent, the postings to the key's budget, the
  account and the ledger, and the allocation of the charge to subscription cycles. The
  identifiers \<open>Uuid::now_v7()\<close> draws are arguments: \<open>lid\<close> for the ledger entry, \<open>aid n\<close> for
  the \<open>n\<close>-th allocation.
\<close>

subsection \<open>The charge\<close>

definition calculated_charge :: "usage_reservation \<Rightarrow> token_usage \<Rightarrow> int option \<Rightarrow> int res" where
  "calculated_charge r usage forced = (case forced of
      Some f \<Rightarrow> if 0 \<le> f then Inr f else Inl (internal ''settlement_settle_token_usage_with_explicit_charge_1'')
    | None \<Rightarrow> price_token_usage r usage)"

text \<open>One round of the loop over the budgets: the charge is capped by what the budget has left.\<close>

definition cap_by_budget ::
  "(string \<Rightarrow> decimal option) \<Rightarrow> int \<Rightarrow> string option \<times> int \<Rightarrow> int \<Rightarrow> int res" where
  "cap_by_budget dp others line maximum = (case line of
      (None, _) \<Rightarrow> Inr maximum
    | (Some t, settled) \<Rightarrow> rbind (budget_micros dp ''settlement_site_2'' t) (\<lambda>b.
        Inr (min maximum (max (sat (sat (b - settled) - others)) 0))))"

fun cap_by_budgets ::
  "(string \<Rightarrow> decimal option) \<Rightarrow> int \<Rightarrow> (string option \<times> int) list \<Rightarrow> int \<Rightarrow> int res" where
  "cap_by_budgets dp others [] maximum = Inr maximum"
| "cap_by_budgets dp others (l # ls) maximum =
     rbind (cap_by_budget dp others l maximum) (cap_by_budgets dp others ls)"

definition maximum_charge ::
  "(string \<Rightarrow> decimal option) \<Rightarrow> billing_db \<Rightarrow> usage_reservation \<Rightarrow> int \<Rightarrow> int \<Rightarrow> int \<Rightarrow> int res" where
  "maximum_charge dp db r now lifetime reserved =
     rbind (ok_or (case (tget (credit_accounts db) (ur_account_id r), tget (key_records db) (ur_key_id r)) of
         (Some acct, Some kr) \<Rightarrow> if kr_account_id kr = ur_account_id r then Some (acct, kr) else None
       | _ \<Rightarrow> None) (db_error ''row_not_found'')) (\<lambda>(acct, kr).
     rbind (ok_or (kr_policy kr) (internal ''settlement_settle_token_usage_with_explicit_charge_1'')) (\<lambda>p.
     rbind (daily_settled_for db p (ur_key_id r) now) (\<lambda>daily.
     rbind (weekly_settled_for db p (ur_key_id r) now) (\<lambda>weekly.
     cap_by_budgets dp (max (sat (reserved - ur_reserved_micros r)) 0)
       [(daily_budget p, daily), (weekly_budget p, weekly), (lifetime_budget p, lifetime)]
       (sat (max (ca_available acct) 0 + ur_reserved_micros r))))))"

subsection \<open>Postings of a prepaid settlement\<close>

text \<open>\<open>INSERT ... ON CONFLICT DO UPDATE SET x = x + excluded.x\<close>.\<close>

definition add_daily_rollup :: "billing_db \<Rightarrow> uuid \<Rightarrow> int \<Rightarrow> int \<Rightarrow> billing_db res" where
  "add_daily_rollup db k day amount =
     rbind (case tget (key_budget_daily_rollups db) (k, day) of
         None \<Rightarrow> Inr amount | Some m \<Rightarrow> sql_int (m + amount)) (\<lambda>m.
     Inr (db\<lparr>key_budget_daily_rollups := tput (k, day) m (key_budget_daily_rollups db)\<rparr>))"

definition add_account_usage :: "billing_db \<Rightarrow> uuid \<Rightarrow> int \<Rightarrow> int \<Rightarrow> billing_db res" where
  "add_account_usage db a amount now =
     rbind (case tget (account_usage_state db) a of
         None \<Rightarrow> Inr amount | Some s \<Rightarrow> sql_int (us_settled_lifetime s + amount)) (\<lambda>m.
     Inr (db\<lparr>account_usage_state :=
       tput a \<lparr>us_settled_lifetime = m, us_updated_at = now\<rparr> (account_usage_state db)\<rparr>))"

definition settle_key_budget :: "billing_db \<Rightarrow> uuid \<Rightarrow> int \<Rightarrow> int \<Rightarrow> int \<Rightarrow> billing_db res" where
  "settle_key_budget db k actual reserved now =
     rbind (ok_or (case tget (key_budget_state db) k of
         None \<Rightarrow> None
       | Some kb \<Rightarrow> if reserved \<le> kb_reserved kb then Some kb else None) (internal ''settlement_site_3'')) (\<lambda>kb.
     rbind (sql_int (kb_settled_lifetime kb + actual)) (\<lambda>lifetime.
     rbind (sql_int (kb_reserved kb - reserved)) (\<lambda>left.
     Inr (db\<lparr>key_budget_state := tput k (kb\<lparr>kb_settled_lifetime := lifetime, kb_reserved := left,
                                          kb_updated_at := now\<rparr>) (key_budget_state db)\<rparr>))))"

text \<open>An update of an account that is absent changes no row and raises no error.\<close>

definition settle_account :: "billing_db \<Rightarrow> uuid \<Rightarrow> int \<Rightarrow> int \<Rightarrow> int \<Rightarrow> int \<Rightarrow> billing_db res" where
  "settle_account db a released overage reserved now = (case tget (credit_accounts db) a of
      None \<Rightarrow> Inr db
    | Some acct \<Rightarrow>
        rbind (sql_int (ca_available acct + released)) (\<lambda>plus.
        rbind (sql_int (plus - overage)) (\<lambda>available.
        rbind (sql_int (ca_reserved acct - reserved)) (\<lambda>left.
        Inr (db\<lparr>credit_accounts := tput a (acct\<lparr>ca_available := available, ca_reserved := left,
                                             ca_updated_at := now\<rparr>) (credit_accounts db)\<rparr>)))))"

definition settle_rate_window :: "billing_db \<Rightarrow> uuid \<Rightarrow> int \<Rightarrow> int \<Rightarrow> int \<Rightarrow> billing_db res" where
  "settle_rate_window db k window_start reserved actual =
     (case tget (rate_limit_windows db) (k, window_start) of
        None \<Rightarrow> Inr db
      | Some w \<Rightarrow>
          rbind (sql_int (rw_tokens w - reserved)) (\<lambda>less.
          rbind (sql_int (less + actual)) (\<lambda>tokens.
          Inr (db\<lparr>rate_limit_windows :=
            tput (k, window_start) (w\<lparr>rw_tokens := if tokens < 0 then 0 else tokens\<rparr>) (rate_limit_windows db)\<rparr>))))"

definition usage_entry :: "usage_reservation \<Rightarrow> string \<Rightarrow> int \<Rightarrow> string option \<Rightarrow> int \<Rightarrow> ledger_entry" where
  "usage_entry r currency amount key now =
     \<lparr>le_account_id = ur_account_id r, le_key_id = Some (ur_key_id r), le_kind = Usage, le_amount = - amount,
      le_currency = currency, le_source = ur_id r, le_idempotency_key = key, le_reference_entry_id = None,
      le_entitlement_cycle_id = None, le_created_at = now, le_usage_snapshot = None\<rparr>"

text \<open>\<open>INSERT ... SELECT ... FROM credit_accounts\<close>: no row when the account is absent.\<close>

definition insert_usage_entry :: "billing_db \<Rightarrow> usage_reservation \<Rightarrow> uuid \<Rightarrow> int \<Rightarrow> int \<Rightarrow> billing_db res" where
  "insert_usage_entry db r lid actual now =
     rbind (ok_or (tget (credit_accounts db) (ur_account_id r)) (internal ''settlement_site_4'')) (\<lambda>acct.
     rbind (ledger_insert lid (usage_entry r (ca_currency acct) actual None now) (ledger_entries db)) (\<lambda>t.
     Inr (db\<lparr>ledger_entries := t\<rparr>)))"

definition insert_usage_event :: "billing_db \<Rightarrow> usage_reservation \<Rightarrow> uuid \<Rightarrow> int \<Rightarrow> int \<Rightarrow> billing_db res" where
  "insert_usage_event db r lid actual now =
     rbind (sql_insert lid \<lparr>ue_reservation_id = ur_id r, ue_key_id = ur_key_id r, ue_account_id = ur_account_id r,
        ue_amount = actual, ue_settled_at = now\<rparr> (key_budget_usage_events db)) (\<lambda>t.
     Inr (db\<lparr>key_budget_usage_events := t\<rparr>))"

subsection \<open>Allocation to subscription cycles\<close>

definition cycle_usable :: "billing_db \<Rightarrow> uuid \<Rightarrow> int \<Rightarrow> uuid \<Rightarrow> cycle \<Rightarrow> bool" where
  "cycle_usable db a now cid c = (case tget (subscription_entitlements db) (cy_entitlement_id c) of
      None \<Rightarrow> False
    | Some e \<Rightarrow> en_account_id e = a \<and> en_active e \<and> en_current_cycle_id e = Some cid \<and> cy_active c \<and>
        cy_period_start c \<le> now \<and> now < cy_period_end c \<and> cy_consumed c < cy_funded c)"

text \<open>The usable cycles with what they have left, the one that ends first in front.\<close>

definition usable_cycles :: "billing_db \<Rightarrow> uuid \<Rightarrow> int \<Rightarrow> (uuid \<times> int) list" where
  "usable_cycles db a now =
     map (\<lambda>(cid, c). (cid, cy_funded c - cy_consumed c))
       (sort_key (\<lambda>(cid, c). (cy_period_end c, cid))
         (filter (\<lambda>(cid, c). cycle_usable db a now cid c) (entitlement_cycles db)))"

definition consume_cycle :: "billing_db \<Rightarrow> uuid \<Rightarrow> int \<Rightarrow> int \<Rightarrow> billing_db res" where
  "consume_cycle db cid amount now = (case tget (entitlement_cycles db) cid of
      None \<Rightarrow> Inr db
    | Some c \<Rightarrow> if amount \<le> cy_funded c - cy_consumed c
        then rbind (sql_int (cy_consumed c + amount)) (\<lambda>used.
             Inr (db\<lparr>entitlement_cycles :=
               tput cid (c\<lparr>cy_consumed := used, cy_updated_at := now\<rparr>) (entitlement_cycles db)\<rparr>))
        else Inr db)"

definition insert_allocation :: "billing_db \<Rightarrow> uuid \<Rightarrow> uuid \<Rightarrow> uuid \<Rightarrow> int \<Rightarrow> int \<Rightarrow> billing_db res" where
  "insert_allocation db i cid lid amount now =
     rbind (ensure (\<not> list_ex (\<lambda>(_, x). al_cycle_id x = cid \<and> al_usage_entry_id x = lid) (usage_allocations db))
       (db_error ''database'')) (\<lambda>_.
     rbind (sql_insert i \<lparr>al_cycle_id = cid, al_usage_entry_id = lid, al_amount = amount, al_created_at = now\<rparr>
       (usage_allocations db)) (\<lambda>t.
     Inr (db\<lparr>usage_allocations := t\<rparr>)))"

fun allocate_cycles ::
  "uuid \<Rightarrow> (nat \<Rightarrow> uuid) \<Rightarrow> int \<Rightarrow> nat \<Rightarrow> (uuid \<times> int) list \<Rightarrow> int \<Rightarrow> billing_db \<Rightarrow> billing_db res" where
  "allocate_cycles lid aid now n [] usage db = Inr db"
| "allocate_cycles lid aid now n ((cid, remaining) # cs) usage db =
     (if usage = 0 then Inr db
      else let allocated = min usage (max remaining 0) in
        if allocated = 0 then allocate_cycles lid aid now n cs usage db
        else rbind (consume_cycle db cid allocated now) (\<lambda>db.
             rbind (insert_allocation db (aid n) cid lid allocated now) (\<lambda>db.
             allocate_cycles lid aid now (Suc n) cs (sat (usage - allocated)) db)))"

definition allocate_usage ::
  "billing_db \<Rightarrow> usage_reservation \<Rightarrow> uuid \<Rightarrow> (nat \<Rightarrow> uuid) \<Rightarrow> int \<Rightarrow> int \<Rightarrow> billing_db res" where
  "allocate_usage db r lid aid actual now =
     (if 0 < actual then allocate_cycles lid aid now 0 (usable_cycles db (ur_account_id r) now) actual db
      else Inr db)"

subsection \<open>Settling\<close>

text \<open>
  \<open>UPDATE usage_reservations SET status = 'settled' ... WHERE status = 'reserved'\<close>: the claim
  only one settlement can win.
\<close>

definition claim_row :: "billing_db \<Rightarrow> uuid \<Rightarrow> reservation_row \<Rightarrow> int \<Rightarrow> int \<Rightarrow> billing_db" where
  "claim_row db rid row actual now = db\<lparr>usage_reservations := tput rid
     (row\<lparr>rr_actual_micros := Some actual, rr_status := Settled, rr_settled_at := Some now\<rparr>) (usage_reservations db)\<rparr>"

definition settled_amount :: "(reservation_row \<Rightarrow> bool) \<Rightarrow> billing_db \<Rightarrow> uuid \<Rightarrow> int res" where
  "settled_amount ok db rid =
     rbind (ok_or (case tget (usage_reservations db) rid of
         None \<Rightarrow> None
       | Some row \<Rightarrow> if rr_status row = Settled \<and> ok row then Some row else None) NotFound) (\<lambda>row.
     ok_or (rr_actual_micros row) (db_error ''column_decode''))"

definition unlimited_row :: "usage_reservation \<Rightarrow> reservation_row \<Rightarrow> bool" where
  "unlimited_row r row \<longleftrightarrow> rr_key_id row = ur_key_id r \<and> rr_account_id row = ur_account_id r \<and>
     rr_mode row = MeteredUnlimited"

definition metered_usage_key :: "usage_reservation \<Rightarrow> string" where
  "metered_usage_key r = ''metered-usage:'' @ ur_id r"

text \<open>An entry that is already there must be this usage: its owner, amount and source.\<close>

definition insert_metered_usage_entry ::
  "billing_db \<Rightarrow> usage_reservation \<Rightarrow> uuid \<Rightarrow> int \<Rightarrow> int \<Rightarrow> billing_db res" where
  "insert_metered_usage_entry db r lid charge now =
     (let (t, n) = (case tget (credit_accounts db) (ur_account_id r) of
         None \<Rightarrow> (ledger_entries db, 0)
       | Some acct \<Rightarrow> ledger_insert_or_ignore lid
           (usage_entry r (ca_currency acct) charge (Some (metered_usage_key r)) now) (ledger_entries db))
      in rbind (ensure (n = 1 \<or>
           length (filter (\<lambda>(_, e). le_idempotency_key e = Some (metered_usage_key r) \<and>
              le_account_id e = ur_account_id r \<and> le_key_id e = Some (ur_key_id r) \<and> le_kind e = Usage \<and>
              le_amount e = - charge \<and> le_source e = ur_id r) t) = 1)
           (Conflict ''metered usage ledger ownership mismatch'')) (\<lambda>_.
         Inr (db\<lparr>ledger_entries := t\<rparr>)))"

definition insert_outbox :: "billing_db \<Rightarrow> usage_reservation \<Rightarrow> int \<Rightarrow> int \<Rightarrow> billing_db" where
  "insert_outbox db r charge now = (case tget (metered_outbox db) (ur_id r) of
      Some _ \<Rightarrow> db
    | None \<Rightarrow> db\<lparr>metered_outbox := tput (ur_id r) \<lparr>ob_account_id = ur_account_id r, ob_key_id = ur_key_id r,
        ob_actual_micros = charge, ob_created_at = now, ob_projected_at = None\<rparr> (metered_outbox db)\<rparr>)"

definition settle_unlimited ::
  "billing_db \<Rightarrow> usage_reservation \<Rightarrow> int \<Rightarrow> int \<Rightarrow> uuid \<Rightarrow> (billing_db \<times> int) res" where
  "settle_unlimited db r charge now lid = (case tget (usage_reservations db) (ur_id r) of
      Some row \<Rightarrow> if unlimited_row r row \<and> rr_status row = Reserved
        then rbind (insert_metered_usage_entry (claim_row db (ur_id r) row charge now) r lid charge now) (\<lambda>db.
             Inr (insert_outbox db r charge now, charge))
        else rbind (settled_amount (unlimited_row r) db (ur_id r)) (\<lambda>m. Inr (db, m))
    | None \<Rightarrow> rbind (settled_amount (unlimited_row r) db (ur_id r)) (\<lambda>m. Inr (db, m)))"

definition post_settlement ::
  "billing_db \<Rightarrow> usage_reservation \<Rightarrow> token_usage \<Rightarrow> bool \<Rightarrow> int \<Rightarrow> int \<Rightarrow> uuid \<Rightarrow> (nat \<Rightarrow> uuid) \<Rightarrow> billing_db res" where
  "post_settlement db r usage applied actual now lid aid =
     (let released = max (sat (ur_reserved_micros r - actual)) 0;
          overage = max (sat (actual - ur_reserved_micros r)) 0 in
      rbind (settle_key_budget db (ur_key_id r) actual (ur_reserved_micros r) now) (\<lambda>db.
      rbind (add_daily_rollup db (ur_key_id r) (now sdiv day_ms) actual) (\<lambda>db.
      rbind (settle_account db (ur_account_id r) released overage (ur_reserved_micros r) now) (\<lambda>db.
      rbind (add_account_usage db (ur_account_id r) actual now) (\<lambda>db.
      rbind (if applied then settle_rate_window db (ur_key_id r) (ur_rate_window_start r)
               (ur_reserved_tokens r) (total_tokens usage) else Inr db) (\<lambda>db.
      rbind (insert_usage_entry db r lid actual now) (\<lambda>db.
      rbind (insert_usage_event db r lid actual now) (\<lambda>db.
      allocate_usage db r lid aid actual now))))))))"

definition settle_prepaid ::
  "(string \<Rightarrow> decimal option) \<Rightarrow> billing_db \<Rightarrow> usage_reservation \<Rightarrow> token_usage \<Rightarrow> int \<Rightarrow> int \<Rightarrow> uuid \<Rightarrow>
   (nat \<Rightarrow> uuid) \<Rightarrow> (billing_db \<times> int) res" where
  "settle_prepaid dp db r usage charge now lid aid =
     rbind (lock_key_budget_state db (ur_key_id r) now) (\<lambda>(db, lifetime, reserved).
     rbind (maximum_charge dp db r now lifetime reserved) (\<lambda>maximum.
     let actual = min charge maximum in
     case tget (usage_reservations db) (ur_id r) of
       Some row \<Rightarrow> if rr_status row = Reserved
         then rbind (post_settlement (claim_row db (ur_id r) row actual now) r usage (rr_tpm_window_applied row)
                       actual now lid aid) (\<lambda>db. Inr (db, actual))
         else rbind (settled_amount (\<lambda>_. True) db (ur_id r)) (\<lambda>m. Inr (db, m))
     | None \<Rightarrow> rbind (settled_amount (\<lambda>_. True) db (ur_id r)) (\<lambda>m. Inr (db, m))))"

definition settle_token_usage_with_explicit_charge ::
  "(string \<Rightarrow> decimal option) \<Rightarrow> billing_db \<Rightarrow> usage_reservation \<Rightarrow> token_usage \<Rightarrow> int \<Rightarrow> int option \<Rightarrow> uuid \<Rightarrow>
   (nat \<Rightarrow> uuid) \<Rightarrow> (billing_db \<times> int) res" where
  "settle_token_usage_with_explicit_charge dp db r usage now forced lid aid =
     rbind (validate_token_usage usage) (\<lambda>_.
     rbind (calculated_charge r usage forced) (\<lambda>charge.
     if \<not> enforces_prepaid_limits (ur_mode r) then settle_unlimited db r charge now lid
     else settle_prepaid dp db r usage charge now lid aid))"

definition settle_token_usage_in_transaction ::
  "(string \<Rightarrow> decimal option) \<Rightarrow> billing_db \<Rightarrow> usage_reservation \<Rightarrow> token_usage \<Rightarrow> int \<Rightarrow> uuid \<Rightarrow>
   (nat \<Rightarrow> uuid) \<Rightarrow> (billing_db \<times> int) res" where
  "settle_token_usage_in_transaction dp db r usage now lid aid =
     settle_token_usage_with_explicit_charge dp db r usage now None lid aid"

definition metered_charge :: "metered_usage_reservation \<Rightarrow> int \<Rightarrow> string \<Rightarrow> int res" where
  "metered_charge mr units code =
     rbind (ensure (\<not> (units < 0 \<or> mr_unit_ceiling mr < units))
       (BadRequest ''metered request usage exceeds its admitted unit ceiling'')) (\<lambda>_.
     ok_or (checked (units * mr_micros_per_unit mr)) (internal code))"

definition settle_terminal_usage_in_transaction ::
  "(string \<Rightarrow> decimal option) \<Rightarrow> billing_db \<Rightarrow> usage_reservation \<Rightarrow> token_usage \<Rightarrow>
   (metered_usage_reservation \<times> int) option \<Rightarrow> int \<Rightarrow> uuid \<Rightarrow> (nat \<Rightarrow> uuid) \<Rightarrow> (billing_db \<times> int) res" where
  "settle_terminal_usage_in_transaction dp db r usage metered now lid aid =
     rbind (case metered of
         Some (mr, units) \<Rightarrow> rbind (metered_charge mr units ''settlement_settle_terminal_usage_in_transaction_1'')
           (\<lambda>m. Inr (Some m))
       | None \<Rightarrow> Inr None) (\<lambda>forced.
     settle_token_usage_with_explicit_charge dp db r usage now forced lid aid)"

definition settle_metered_usage_in_transaction ::
  "(string \<Rightarrow> decimal option) \<Rightarrow> billing_db \<Rightarrow> metered_usage_reservation \<Rightarrow> int \<Rightarrow> int \<Rightarrow> uuid \<Rightarrow>
   (nat \<Rightarrow> uuid) \<Rightarrow> (billing_db \<times> int) res" where
  "settle_metered_usage_in_transaction dp db mr units now lid aid =
     rbind (metered_charge mr units ''settlement_settle_metered_usage_in_transaction_1'') (\<lambda>m.
     settle_token_usage_with_explicit_charge dp db (mr_reservation mr) default_usage now (Some m) lid aid)"

definition pending_metered :: "billing_db \<Rightarrow> uuid \<Rightarrow> int res" where
  "pending_metered db a = sql_int (tsum (\<lambda>_ x. if ob_account_id x = a \<and> ob_projected_at x = None
     then ob_actual_micros x else 0) (metered_outbox db))"

definition confirmed_overflow :: app_error where
  "confirmed_overflow = Conflict ''confirmed charge would overflow an accounting total''"

definition add_checked :: "int \<Rightarrow> int \<Rightarrow> int res" where
  "add_checked x y = ok_or (checked (x + y)) confirmed_overflow"

text \<open>The arithmetic guards of a charge that a provider has confirmed.\<close>

definition confirmed_guards :: "billing_db \<Rightarrow> usage_reservation \<Rightarrow> int \<Rightarrow> int \<Rightarrow> int \<Rightarrow> unit res" where
  "confirmed_guards db r now confirmed lifetime =
     rbind (add_checked lifetime confirmed) (\<lambda>_.
     rbind (add_checked (key_budget_daily_settled db (ur_key_id r) now) confirmed) (\<lambda>_.
     rbind (ok_or (tget (credit_accounts db) (ur_account_id r)) (db_error ''row_not_found'')) (\<lambda>acct.
     rbind (pending_metered db (ur_account_id r)) (\<lambda>pending.
     rbind (add_checked (case tget (account_usage_state db) (ur_account_id r) of
         None \<Rightarrow> 0 | Some s \<Rightarrow> us_settled_lifetime s) pending) (\<lambda>s.
     rbind (add_checked s confirmed) (\<lambda>_.
     if enforces_prepaid_limits (ur_mode r) then
       rbind (add_checked (ur_reserved_micros r) (- confirmed)) (\<lambda>released.
       rbind (add_checked confirmed (- ur_reserved_micros r)) (\<lambda>overage.
       rbind (add_checked (ca_available acct) (max released 0)) (\<lambda>balance.
       rbind (add_checked balance (- (max overage 0))) (\<lambda>_. Inr ()))))
     else Inr ()))))))"

definition settle_confirmed_image_charge_in_transaction ::
  "(string \<Rightarrow> decimal option) \<Rightarrow> billing_db \<Rightarrow> usage_reservation \<Rightarrow> int \<Rightarrow> int \<Rightarrow> uuid \<Rightarrow>
   (nat \<Rightarrow> uuid) \<Rightarrow> (billing_db \<times> int) res" where
  "settle_confirmed_image_charge_in_transaction dp db r now confirmed lid aid =
     rbind (ensure (0 \<le> confirmed \<and> confirmed \<le> 9007199254740991)
       (BadRequest ''confirmed cost must be a nonnegative JavaScript-safe integer'')) (\<lambda>_.
     rbind (lock_key_budget_state db (ur_key_id r) now) (\<lambda>(db, lifetime, _).
     rbind (confirmed_guards db r now confirmed lifetime) (\<lambda>_.
     rbind (settle_token_usage_with_explicit_charge dp db r default_usage now (Some confirmed) lid aid)
       (\<lambda>(db, charged).
     rbind (ensure (charged = confirmed)
       (Conflict ''confirmed charge exceeds the account's available balance or budget'')) (\<lambda>_.
     Inr (db, charged))))))"

text \<open>
  \<open>Database::settle_token_usage\<close>: a reservation with a registered pending settlement is left
  to the owner of its receipt.
\<close>

definition settle_token_usage ::
  "(string \<Rightarrow> decimal option) \<Rightarrow> billing_db \<Rightarrow> usage_reservation \<Rightarrow> token_usage \<Rightarrow> int \<Rightarrow> uuid \<Rightarrow>
   (nat \<Rightarrow> uuid) \<Rightarrow> (billing_db \<times> int) res" where
  "settle_token_usage dp db r usage now lid aid =
     rbind (ensure (ur_id r \<notin> set (pending_proxy_settlements db))
       (Conflict ''pending settlement requires its authoritative receipt'')) (\<lambda>_.
     settle_token_usage_in_transaction dp db r usage now lid aid)"

definition settle_usage ::
  "(string \<Rightarrow> decimal option) \<Rightarrow> billing_db \<Rightarrow> usage_reservation \<Rightarrow> int \<Rightarrow> int \<Rightarrow> int \<Rightarrow> uuid \<Rightarrow>
   (nat \<Rightarrow> uuid) \<Rightarrow> (billing_db \<times> int) res" where
  "settle_usage dp db r input_tokens output_tokens now lid aid =
     settle_token_usage dp db r (default_usage\<lparr>tu_input := input_tokens, tu_output := output_tokens\<rparr>) now lid aid"

subsection \<open>What the steps change\<close>

lemma cap_by_budget_bounds:
  assumes "cap_by_budget dp others l m = Inr m'" and "0 \<le> m"
  shows "0 \<le> m' \<and> m' \<le> m"
  using assms by (auto simp: cap_by_budget_def res_simps split: prod.splits option.splits)

lemma cap_by_budgets_bounds:
  "cap_by_budgets dp others ls m = Inr m' \<Longrightarrow> 0 \<le> m \<Longrightarrow> 0 \<le> m' \<and> m' \<le> m"
proof (induction ls arbitrary: m)
  case (Cons l ls)
  then obtain m1 where "cap_by_budget dp others l m = Inr m1" "cap_by_budgets dp others ls m1 = Inr m'"
    by (auto simp: res_simps)
  with cap_by_budget_bounds [of dp others l m m1] Cons show ?case by force
qed simp

text \<open>A line of the loop binds the final cap, wherever it stands.\<close>

lemma cap_by_budgets_line:
  assumes "cap_by_budgets dp others ls m = Inr m'" and "0 \<le> m" and "(Some t, settled) \<in> set ls"
  shows "\<exists>d b. dp t = Some d \<and> decimal_to_micros d = Inr b \<and> m' \<le> max (sat (sat (b - settled) - others)) 0"
  using assms
proof (induction ls arbitrary: m)
  case (Cons l ls)
  then obtain m1 where 1: "cap_by_budget dp others l m = Inr m1" "cap_by_budgets dp others ls m1 = Inr m'"
    by (auto simp: res_simps)
  note b1 = cap_by_budget_bounds [OF 1(1) Cons.prems(2)]
  show ?case
  proof (cases "l = (Some t, settled)")
    case True
    with 1(1) obtain d b where "dp t = Some d" "decimal_to_micros d = Inr b"
      "m1 \<le> max (sat (sat (b - settled) - others)) 0"
      by (auto simp: cap_by_budget_def budget_micros_def res_simps)
    moreover have "m' \<le> m1" using cap_by_budgets_bounds [OF 1(2)] b1 by simp
    ultimately show ?thesis by force
  next
    case False
    with Cons.prems(3) have "(Some t, settled) \<in> set ls" by auto
    with Cons.IH [OF 1(2)] b1 show ?thesis by blast
  qed
qed simp

lemma maximum_charge_Inr:
  assumes "maximum_charge dp db r now lifetime reserved = Inr maximum"
  obtains acct kr p daily weekly where
    "tget (credit_accounts db) (ur_account_id r) = Some acct"
    "tget (key_records db) (ur_key_id r) = Some kr" "kr_policy kr = Some p"
    "daily_settled_for db p (ur_key_id r) now = Inr daily"
    "weekly_settled_for db p (ur_key_id r) now = Inr weekly"
    "cap_by_budgets dp (max (sat (reserved - ur_reserved_micros r)) 0)
       [(daily_budget p, daily), (weekly_budget p, weekly), (lifetime_budget p, lifetime)]
       (sat (max (ca_available acct) 0 + ur_reserved_micros r)) = Inr maximum"
  using assms unfolding maximum_charge_def
  by (auto simp: rbind_Inr_iff ok_or_Inr_iff split: option.splits if_splits)

lemma maximum_charge_bounds:
  assumes "maximum_charge dp db r now lifetime reserved = Inr maximum"
    and "tget (credit_accounts db) (ur_account_id r) = Some acct"
    and "0 \<le> ca_available acct" and "amount_ok (ur_reserved_micros r)"
  shows "amount_ok maximum \<and> maximum \<le> ca_available acct + ur_reserved_micros r"
proof -
  let ?m = "sat (max (ca_available acct) 0 + ur_reserved_micros r)"
  have m: "0 \<le> ?m" "?m \<le> ca_available acct + ur_reserved_micros r" "?m \<le> i64_max"
    using assms(3,4) sat_le_self [of "ca_available acct + ur_reserved_micros r"] sat_le_max
      sat_nonneg [of "ca_available acct + ur_reserved_micros r"] by (auto simp: amount_ok_def max_def)
  from assms(1) obtain others ls where "cap_by_budgets dp others ls ?m = Inr maximum"
    by (rule maximum_charge_Inr) (use assms(2) in \<open>auto simp del: cap_by_budgets.simps\<close>)
  from cap_by_budgets_bounds [OF this m(1)] m show ?thesis by (simp add: amount_ok_def)
qed

lemma settle_key_budget_Inr:
  "settle_key_budget db k actual reserved now = Inr db' \<longleftrightarrow>
     (\<exists>kb. tget (key_budget_state db) k = Some kb \<and> reserved \<le> kb_reserved kb \<and>
        in_i64 (kb_settled_lifetime kb + actual) \<and> in_i64 (kb_reserved kb - reserved) \<and>
        db' = db\<lparr>key_budget_state := tput k (kb\<lparr>kb_settled_lifetime := kb_settled_lifetime kb + actual,
           kb_reserved := kb_reserved kb - reserved, kb_updated_at := now\<rparr>) (key_budget_state db)\<rparr>)"
  by (auto simp: settle_key_budget_def res_simps split: option.splits if_splits)

lemma settle_account_Some:
  "tget (credit_accounts db) a = Some acct \<Longrightarrow>
   settle_account db a released overage reserved now = Inr db' \<longleftrightarrow>
     in_i64 (ca_available acct + released) \<and> in_i64 (ca_available acct + released - overage) \<and>
     in_i64 (ca_reserved acct - reserved) \<and>
     db' = db\<lparr>credit_accounts := tput a (acct\<lparr>ca_available := ca_available acct + released - overage,
        ca_reserved := ca_reserved acct - reserved, ca_updated_at := now\<rparr>) (credit_accounts db)\<rparr>"
  by (auto simp: settle_account_def res_simps)

lemma add_daily_rollup_Inr:
  "add_daily_rollup db k day m = Inr db' \<Longrightarrow> \<exists>t. db' = db\<lparr>key_budget_daily_rollups := t\<rparr>"
  by (auto simp: add_daily_rollup_def res_simps)

lemma add_account_usage_Inr:
  "add_account_usage db a m now = Inr db' \<Longrightarrow> \<exists>t. db' = db\<lparr>account_usage_state := t\<rparr>"
  by (auto simp: add_account_usage_def res_simps)

lemma settle_rate_window_Inr:
  assumes "settle_rate_window db k ws reserved actual = Inr db'"
  shows "\<exists>t. db' = db\<lparr>rate_limit_windows := t\<rparr>"
proof (cases "tget (rate_limit_windows db) (k, ws)")
  case None
  with assms have "db' = db\<lparr>rate_limit_windows := rate_limit_windows db\<rparr>" by (simp add: settle_rate_window_def)
  then show ?thesis by blast
qed (use assms in \<open>auto simp: settle_rate_window_def res_simps\<close>)

lemma insert_usage_entry_Inr:
  "insert_usage_entry db r lid actual now = Inr db' \<longleftrightarrow>
     (\<exists>acct. tget (credit_accounts db) (ur_account_id r) = Some acct \<and>
        \<not> ledger_conflict lid (usage_entry r (ca_currency acct) actual None now) (ledger_entries db) \<and>
        db' = db\<lparr>ledger_entries := tput lid (usage_entry r (ca_currency acct) actual None now) (ledger_entries db)\<rparr>)"
  by (auto simp: insert_usage_entry_def res_simps)

lemma insert_usage_event_Inr:
  "insert_usage_event db r lid actual now = Inr db' \<Longrightarrow> \<exists>t. db' = db\<lparr>key_budget_usage_events := t\<rparr>"
  by (auto simp: insert_usage_event_def res_simps)

text \<open>Allocation touches the cycles and the allocation records only.\<close>

lemma consume_cycle_frame:
  assumes "consume_cycle db cid amount now = Inr db'" and "wf_table (entitlement_cycles db)"
  shows "\<exists>t. db' = db\<lparr>entitlement_cycles := t\<rparr> \<and> wf_table t"
proof (cases "db' = db")
  case True
  then have "db' = db\<lparr>entitlement_cycles := entitlement_cycles db\<rparr>" by simp
  with assms(2) show ?thesis by blast
qed (use assms in \<open>auto simp: consume_cycle_def res_simps split: option.splits if_splits\<close>)

lemma insert_allocation_Inr:
  "insert_allocation db i cid lid amount now = Inr db' \<longleftrightarrow>
     \<not> list_ex (\<lambda>(_, x). al_cycle_id x = cid \<and> al_usage_entry_id x = lid) (usage_allocations db) \<and>
     tget (usage_allocations db) i = None \<and>
     db' = db\<lparr>usage_allocations := tput i \<lparr>al_cycle_id = cid, al_usage_entry_id = lid, al_amount = amount,
                al_created_at = now\<rparr> (usage_allocations db)\<rparr>"
  by (auto simp: insert_allocation_def res_simps)

lemma allocate_cycles_frame:
  assumes "allocate_cycles lid aid now n cs usage db = Inr db'"
    and "wf_table (entitlement_cycles db)" and "wf_table (usage_allocations db)"
  shows "\<exists>ct at. db' = db\<lparr>entitlement_cycles := ct, usage_allocations := at\<rparr> \<and> wf_table ct \<and> wf_table at"
  using assms
proof (induction lid aid now n cs usage db rule: allocate_cycles.induct)
  case (1 lid aid now n usage db)
  then have "db' = db\<lparr>entitlement_cycles := entitlement_cycles db, usage_allocations := usage_allocations db\<rparr>"
    by simp
  with 1 show ?case by blast
next
  case (2 lid aid now n cid remaining cs usage db)
  let ?x = "min usage (max remaining 0)"
  consider "usage = 0" | "usage \<noteq> 0" "?x = 0" | "usage \<noteq> 0" "?x \<noteq> 0" by blast
  then show ?case
  proof cases
    case 1
    with 2 have "db' = db\<lparr>entitlement_cycles := entitlement_cycles db, usage_allocations := usage_allocations db\<rparr>"
      by simp
    with 2 show ?thesis by blast
  next
    case c: 2
    with "2.prems" have "allocate_cycles lid aid now n cs usage db = Inr db'" by (simp add: Let_def)
    with "2.IH"(1) [OF c(1) refl c(2)] "2.prems" show ?thesis by blast
  next
    case c: 3
    with "2.prems"(1) obtain db1 db2 where
      s: "consume_cycle db cid ?x now = Inr db1" "insert_allocation db1 (aid n) cid lid ?x now = Inr db2"
      "allocate_cycles lid aid now (Suc n) cs (sat (usage - ?x)) db2 = Inr db'"
      by (auto simp: Let_def rbind_Inr_iff)
    from consume_cycle_frame [OF s(1) "2.prems"(2)] obtain ct where
      db1: "db1 = db\<lparr>entitlement_cycles := ct\<rparr>" "wf_table ct" by blast
    from s(2) obtain at where db2: "db2 = db1\<lparr>usage_allocations := at\<rparr>" "wf_table at"
      using "2.prems"(3) by (auto simp: insert_allocation_Inr db1)
    from "2.IH"(2) [OF c(1) refl c(2) s(3)] db1 db2 obtain ct' at' where
      "db' = db2\<lparr>entitlement_cycles := ct', usage_allocations := at'\<rparr>" "wf_table ct'" "wf_table at'"
      by auto
    with db1 db2 show ?thesis by auto
  qed
qed

lemma allocate_usage_frame:
  assumes "allocate_usage db r lid aid actual now = Inr db'"
    and "wf_table (entitlement_cycles db)" and "wf_table (usage_allocations db)"
  shows "\<exists>ct at. db' = db\<lparr>entitlement_cycles := ct, usage_allocations := at\<rparr> \<and> wf_table ct \<and> wf_table at"
proof (cases "0 < actual")
  case True
  with assms show ?thesis using allocate_cycles_frame by (simp add: allocate_usage_def)
next
  case False
  with assms have "db' = db\<lparr>entitlement_cycles := entitlement_cycles db, usage_allocations := usage_allocations db\<rparr>"
    by (simp add: allocate_usage_def)
  with assms show ?thesis by blast
qed

text \<open>The tables after the postings of a settlement.\<close>

lemma post_settlement_Inr:
  assumes ok: "post_settlement db r usage applied actual now lid aid = Inr db'"
    and acct: "tget (credit_accounts db) (ur_account_id r) = Some acct"
    and wf: "wf_table (entitlement_cycles db)" "wf_table (usage_allocations db)"
  obtains kb currency rollups windows state events ct at where
    "tget (key_budget_state db) (ur_key_id r) = Some kb" "ur_reserved_micros r \<le> kb_reserved kb"
    "tget (ledger_entries db) lid = None"
    "in_i64 (ca_available acct + max (sat (ur_reserved_micros r - actual)) 0 - max (sat (actual - ur_reserved_micros r)) 0)"
    "wf_table ct" "wf_table at"
    "db' = db\<lparr>key_budget_state := tput (ur_key_id r)
         (kb\<lparr>kb_settled_lifetime := kb_settled_lifetime kb + actual,
             kb_reserved := kb_reserved kb - ur_reserved_micros r, kb_updated_at := now\<rparr>) (key_budget_state db),
       key_budget_daily_rollups := rollups,
       credit_accounts := tput (ur_account_id r)
         (acct\<lparr>ca_available := ca_available acct + max (sat (ur_reserved_micros r - actual)) 0
                 - max (sat (actual - ur_reserved_micros r)) 0,
               ca_reserved := ca_reserved acct - ur_reserved_micros r, ca_updated_at := now\<rparr>) (credit_accounts db),
       account_usage_state := state, rate_limit_windows := windows,
       ledger_entries := tput lid (usage_entry r currency actual None now) (ledger_entries db),
       key_budget_usage_events := events, entitlement_cycles := ct, usage_allocations := at\<rparr>"
proof -
  from ok obtain db1 db2 db3 db4 db5 db6 db7 where
    1: "settle_key_budget db (ur_key_id r) actual (ur_reserved_micros r) now = Inr db1"
    and 2: "add_daily_rollup db1 (ur_key_id r) (now sdiv day_ms) actual = Inr db2"
    and 3: "settle_account db2 (ur_account_id r) (max (sat (ur_reserved_micros r - actual)) 0)
       (max (sat (actual - ur_reserved_micros r)) 0) (ur_reserved_micros r) now = Inr db3"
    and 4: "add_account_usage db3 (ur_account_id r) actual now = Inr db4"
    and 5: "(if applied then settle_rate_window db4 (ur_key_id r) (ur_rate_window_start r)
               (ur_reserved_tokens r) (total_tokens usage) else Inr db4) = Inr db5"
    and 6: "insert_usage_entry db5 r lid actual now = Inr db6"
    and 7: "insert_usage_event db6 r lid actual now = Inr db7"
    and 8: "allocate_usage db7 r lid aid actual now = Inr db'"
    unfolding post_settlement_def Let_def rbind_Inr_iff by blast
  from 1 obtain kb where kb: "tget (key_budget_state db) (ur_key_id r) = Some kb" "ur_reserved_micros r \<le> kb_reserved kb"
    and db1: "db1 = db\<lparr>key_budget_state := tput (ur_key_id r)
       (kb\<lparr>kb_settled_lifetime := kb_settled_lifetime kb + actual,
           kb_reserved := kb_reserved kb - ur_reserved_micros r, kb_updated_at := now\<rparr>) (key_budget_state db)\<rparr>"
    unfolding settle_key_budget_Inr by blast
  obtain rollups where db2: "db2 = db1\<lparr>key_budget_daily_rollups := rollups\<rparr>"
    using add_daily_rollup_Inr [OF 2] by blast
  have acct2: "tget (credit_accounts db2) (ur_account_id r) = Some acct" using acct by (simp add: db2 db1)
  have db3: "db3 = db2\<lparr>credit_accounts := tput (ur_account_id r)
       (acct\<lparr>ca_available := ca_available acct + max (sat (ur_reserved_micros r - actual)) 0
               - max (sat (actual - ur_reserved_micros r)) 0,
             ca_reserved := ca_reserved acct - ur_reserved_micros r, ca_updated_at := now\<rparr>) (credit_accounts db2)\<rparr>"
    and fits: "in_i64 (ca_available acct + max (sat (ur_reserved_micros r - actual)) 0
       - max (sat (actual - ur_reserved_micros r)) 0)"
    using 3 unfolding settle_account_Some [OF acct2] by blast+
  obtain state where db4: "db4 = db3\<lparr>account_usage_state := state\<rparr>" using add_account_usage_Inr [OF 4] by blast
  have "\<exists>t. db5 = db4\<lparr>rate_limit_windows := t\<rparr>"
  proof (cases applied)
    case True
    with 5 show ?thesis by (auto intro: settle_rate_window_Inr)
  next
    case False
    with 5 have "db5 = db4\<lparr>rate_limit_windows := rate_limit_windows db4\<rparr>" by simp
    then show ?thesis by blast
  qed
  then obtain windows where db5: "db5 = db4\<lparr>rate_limit_windows := windows\<rparr>" by blast
  from 6 obtain currency where fresh: "tget (ledger_entries db5) lid = None"
    and db6: "db6 = db5\<lparr>ledger_entries := tput lid (usage_entry r currency actual None now) (ledger_entries db5)\<rparr>"
    unfolding insert_usage_entry_Inr using ledger_conflict_fresh by blast
  obtain events where db7: "db7 = db6\<lparr>key_budget_usage_events := events\<rparr>" using insert_usage_event_Inr [OF 7] by blast
  have "wf_table (entitlement_cycles db7)" "wf_table (usage_allocations db7)"
    using wf by (simp_all add: db7 db6 db5 db4 db3 db2 db1)
  from allocate_usage_frame [OF 8 this] obtain ct at where
    db': "db' = db7\<lparr>entitlement_cycles := ct, usage_allocations := at\<rparr>" "wf_table ct" "wf_table at" by blast
  show ?thesis
  proof (rule that [OF kb _ fits db'(2,3)])
    show "tget (ledger_entries db) lid = None" using fresh by (simp add: db5 db4 db3 db2 db1)
  qed (simp add: db'(1) db7 db6 db5 db4 db3 db2 db1)
qed

lemma post_settlement_posts:
  assumes inv: "billing_inv db" and row: "tget (usage_reservations db) (ur_id r) = Some row"
    and opn: "rr_status row = Reserved" "rr_mode row = Prepaid" "rr_reserved_micros row = ur_reserved_micros r"
    and own: "rr_account_id row = ur_account_id r" "rr_key_id row = ur_key_id r"
    and acct: "tget (credit_accounts db) (ur_account_id r) = Some acct"
    and actual: "amount_ok actual" "actual \<le> ca_available acct + ur_reserved_micros r"
    and ok: "post_settlement (claim_row db (ur_id r) row actual now) r usage applied actual now lid aid = Inr db'"
  shows "posts db db' (ur_account_id r) (ur_key_id r) (- ur_reserved_micros r) (- actual)"
proof (rule post_settlement_Inr [OF ok])
  let ?row = "row\<lparr>rr_actual_micros := Some actual, rr_status := Settled, rr_settled_at := Some now\<rparr>"
  show "tget (credit_accounts (claim_row db (ur_id r) row actual now)) (ur_account_id r) = Some acct"
    using acct by (simp add: claim_row_def)
  show "wf_table (entitlement_cycles (claim_row db (ur_id r) row actual now))"
    "wf_table (usage_allocations (claim_row db (ur_id r) row actual now))"
    using inv by (simp_all add: frame_simps claim_row_def)
  fix kb currency rollups windows state events ct at
  let ?e = "usage_entry r currency actual None now"
  assume kb: "tget (key_budget_state (claim_row db (ur_id r) row actual now)) (ur_key_id r) = Some kb"
    and fresh: "tget (ledger_entries (claim_row db (ur_id r) row actual now)) lid = None"
    and fits: "in_i64 (ca_available acct + max (sat (ur_reserved_micros r - actual)) 0
       - max (sat (actual - ur_reserved_micros r)) 0)"
    and wf: "wf_table ct" "wf_table at"
    and d: "db' = claim_row db (ur_id r) row actual now
      \<lparr>key_budget_state := tput (ur_key_id r) (kb\<lparr>kb_settled_lifetime := kb_settled_lifetime kb + actual,
          kb_reserved := kb_reserved kb - ur_reserved_micros r, kb_updated_at := now\<rparr>)
          (key_budget_state (claim_row db (ur_id r) row actual now)),
       key_budget_daily_rollups := rollups,
       credit_accounts := tput (ur_account_id r)
         (acct\<lparr>ca_available := ca_available acct + max (sat (ur_reserved_micros r - actual)) 0
                 - max (sat (actual - ur_reserved_micros r)) 0,
               ca_reserved := ca_reserved acct - ur_reserved_micros r, ca_updated_at := now\<rparr>)
         (credit_accounts (claim_row db (ur_id r) row actual now)),
       account_usage_state := state, rate_limit_windows := windows,
       ledger_entries := tput lid ?e (ledger_entries (claim_row db (ur_id r) row actual now)),
       key_budget_usage_events := events, entitlement_cycles := ct, usage_allocations := at\<rparr>"
  note db' = d [unfolded claim_row_def]
  have held: "amount_ok (ur_reserved_micros r)"
    using inv_row_amount [OF inv row] opn by simp
  have diff: "in_i64 (ur_reserved_micros r - actual)" "in_i64 (actual - ur_reserved_micros r)"
    using held actual(1) by (simp_all add: amount_ok_def in_i64_def i64_bounds)
  have "posts_account db db' (ur_account_id r) (- ur_reserved_micros r) (- actual)"
    by (rule posts_account_put [OF inv acct], simp add: db')
       (use actual diff fits in \<open>simp_all add: sat_in_range max_def amount_ok_def in_i64_def split: if_splits\<close>)
  moreover have "posts_key db db' (ur_key_id r) (- ur_reserved_micros r)"
    using kb by (auto simp: posts_key_def db' tbl_simps claim_row_def)
  moreover have "posts_holds db db' (ur_account_id r) (ur_key_id r) (- ur_reserved_micros r)"
    using posts_holds_update [OF inv, of db' "ur_id r" ?row row] row opn own held
    by (simp add: db' open_hold_def)
  moreover have "posts_books db db' (ur_account_id r) (- actual)"
    using posts_books_fresh [of db' lid ?e db] fresh
    by (simp add: db' usage_entry_def touches_balance_def claim_row_def)
  moreover have "wf_tables db'" using inv wf by (simp add: frame_simps db')
  ultimately show ?thesis by (simp add: posts_def)
qed

lemma calculated_charge_nonneg: "calculated_charge r usage forced = Inr c \<Longrightarrow> 0 \<le> c"
  by (auto simp: calculated_charge_def intro: price_token_usage_Inr(2) split: option.splits if_splits)

lemma claimed_matches:
  assumes "reservation_matches db r" and "tget (usage_reservations db) (ur_id r) = Some row"
    and "usage_reservations db' = usage_reservations (claim_row db (ur_id r) row actual now)"
  shows "reservation_matches db' r"
  using assms by (simp add: reservation_matches_def claim_row_def tbl_simps)

text \<open>What one settlement does to the reservation's row and to the books.\<close>

lemma settle_prepaid_effect:
  assumes inv: "billing_inv db" and match: "reservation_matches db r" and mode: "ur_mode r = Prepaid"
    and charge: "0 \<le> charge"
    and ok: "settle_prepaid dp db r usage charge now lid aid = Inr (db', m)"
  obtains row where "tget (usage_reservations db) (ur_id r) = Some row"
    "rr_status row = Reserved \<Longrightarrow>
       amount_ok m \<and> m \<le> charge \<and>
       usage_reservations db' = usage_reservations (claim_row db (ur_id r) row m now) \<and>
       posts db db' (ur_account_id r) (ur_key_id r) (- ur_reserved_micros r) (- m)"
    "rr_status row = Settled \<Longrightarrow>
       rr_actual_micros row = Some m \<and> (\<exists>t. db' = db\<lparr>key_budget_state := t\<rparr>) \<and>
       posts db db' (ur_account_id r) (ur_key_id r) 0 0"
proof -
  from match obtain row where row: "tget (usage_reservations db) (ur_id r) = Some row"
    and own: "rr_account_id row = ur_account_id r" "rr_key_id row = ur_key_id r" "rr_mode row = Prepaid"
    and amt: "rr_status row = Reserved \<Longrightarrow> rr_reserved_micros row = ur_reserved_micros r"
    using mode by (auto simp: reservation_matches_def split: option.splits)
  from ok obtain db1 lifetime reserved maximum where lock: "lock_key_budget_state db (ur_key_id r) now = Inr (db1, lifetime, reserved)"
    and cap: "maximum_charge dp db1 r now lifetime reserved = Inr maximum"
    and rest: "(if rr_status row = Reserved
         then rbind (post_settlement (claim_row db1 (ur_id r) row (min charge maximum) now) r usage
                (rr_tpm_window_applied row) (min charge maximum) now lid aid) (\<lambda>db. Inr (db, min charge maximum))
         else rbind (settled_amount (\<lambda>_. True) db1 (ur_id r)) (\<lambda>m. Inr (db1, m))) = Inr (db', m)"
    using row unfolding settle_prepaid_def
    by (auto simp: rbind_Inr_iff Let_def lock_key_budget_state_Inr)
  have p1: "posts db db1 (ur_account_id r) (ur_key_id r) 0 0" by (rule lock_key_budget_posts [OF inv lock])
  have inv1: "billing_inv db1" by (rule posts_inv [OF inv p1])
  obtain t where db1: "db1 = db\<lparr>key_budget_state := t\<rparr>" using lock by (auto simp: lock_key_budget_state_Inr)
  have row1: "tget (usage_reservations db1) (ur_id r) = Some row" using row by (simp add: db1)
  show ?thesis
  proof (rule that [OF row])
    assume st: "rr_status row = Reserved"
    note held = amt [OF st]
    from st rest have m: "m = min charge maximum" and
      post: "post_settlement (claim_row db1 (ur_id r) row m now) r usage (rr_tpm_window_applied row) m now lid aid = Inr db'"
      by (auto simp: rbind_Inr_iff)
    from cap obtain acct where acct: "tget (credit_accounts db1) (ur_account_id r) = Some acct"
      by (rule maximum_charge_Inr)
    have "0 \<le> ca_available acct" using balance_ok [OF inv1 acct] by (simp add: amount_ok_def)
    moreover have "amount_ok (ur_reserved_micros r)" using inv_row_amount [OF inv1 row1] held by simp
    ultimately have b: "amount_ok maximum" "maximum \<le> ca_available acct + ur_reserved_micros r"
      using maximum_charge_bounds [OF cap acct] by auto
    have b': "amount_ok m" "m \<le> ca_available acct + ur_reserved_micros r" "m \<le> charge"
      using b charge by (auto simp: m amount_ok_def)
    have p2: "posts db1 db' (ur_account_id r) (ur_key_id r) (- ur_reserved_micros r) (- m)"
      by (rule post_settlement_posts [OF inv1 row1 st own(3) held own(1,2) acct b'(1,2) post])
    have res: "usage_reservations db' = usage_reservations (claim_row db (ur_id r) row m now)"
    proof (rule post_settlement_Inr [OF post])
      show "tget (credit_accounts (claim_row db1 (ur_id r) row m now)) (ur_account_id r) = Some acct"
        using acct by (simp add: claim_row_def)
      show "wf_table (entitlement_cycles (claim_row db1 (ur_id r) row m now))"
        "wf_table (usage_allocations (claim_row db1 (ur_id r) row m now))"
        using inv1 by (simp_all add: frame_simps claim_row_def)
    qed (simp add: claim_row_def db1)
    show "amount_ok m \<and> m \<le> charge \<and>
       usage_reservations db' = usage_reservations (claim_row db (ur_id r) row m now) \<and>
       posts db db' (ur_account_id r) (ur_key_id r) (- ur_reserved_micros r) (- m)"
      using posts_trans [OF p1 p2] b' res by simp
  next
    assume "rr_status row = Settled"
    then show "rr_actual_micros row = Some m \<and> (\<exists>t. db' = db\<lparr>key_budget_state := t\<rparr>) \<and>
       posts db db' (ur_account_id r) (ur_key_id r) 0 0"
      using rest row1 p1 by (auto simp: settled_amount_def res_simps db1)
  qed
qed

lemma insert_metered_usage_entry_Inr:
  assumes "insert_metered_usage_entry db r lid charge now = Inr db'"
  shows "db' = db \<or> (\<exists>currency. tget (ledger_entries db) lid = None \<and> db' = db\<lparr>ledger_entries :=
      tput lid (usage_entry r currency charge (Some (metered_usage_key r)) now) (ledger_entries db)\<rparr>)"
  using assms ledger_conflict_fresh
  by (auto simp: insert_metered_usage_entry_def ledger_insert_or_ignore_def rbind_Inr_iff
      split: option.splits if_splits)

lemma settle_unlimited_effect:
  assumes inv: "billing_inv db" and match: "reservation_matches db r" and mode: "ur_mode r = MeteredUnlimited"
    and ok: "settle_unlimited db r charge now lid = Inr (db', m)"
  obtains row where "tget (usage_reservations db) (ur_id r) = Some row"
    "rr_status row = Reserved \<Longrightarrow> m = charge \<and>
       usage_reservations db' = usage_reservations (claim_row db (ur_id r) row m now) \<and>
       posts db db' (ur_account_id r) (ur_key_id r) 0 0"
    "rr_status row = Settled \<Longrightarrow> rr_actual_micros row = Some m \<and> db' = db"
proof -
  from match mode obtain row where row: "tget (usage_reservations db) (ur_id r) = Some row"
    and own: "unlimited_row r row"
    by (auto simp: reservation_matches_def unlimited_row_def split: option.splits)
  show ?thesis
  proof (rule that [OF row])
    let ?row = "row\<lparr>rr_actual_micros := Some charge, rr_status := Settled, rr_settled_at := Some now\<rparr>"
    assume st: "rr_status row = Reserved"
    from ok row own st obtain db1 where
      e: "insert_metered_usage_entry (claim_row db (ur_id r) row charge now) r lid charge now = Inr db1"
      and db': "db' = insert_outbox db1 r charge now" and m: "m = charge"
      by (auto simp: settle_unlimited_def rbind_Inr_iff)
    let ?db0 = "claim_row db (ur_id r) row charge now"
    have same: "usage_reservations db1 = usage_reservations ?db0" "credit_accounts db1 = credit_accounts db"
      "key_budget_state db1 = key_budget_state db" "entitlement_cycles db1 = entitlement_cycles db"
      "usage_allocations db1 = usage_allocations db"
      and books: "posts_books db db1 (ur_account_id r) 0" and wfl: "wf_table (ledger_entries db1)"
      using insert_metered_usage_entry_Inr [OF e] inv
        posts_books_fresh [of db1 lid "usage_entry r c charge (Some (metered_usage_key r)) now" db for c]
      by (auto simp: claim_row_def posts_books_same usage_entry_def touches_balance_def frame_simps)
    have out: "usage_reservations db' = usage_reservations db1" "credit_accounts db' = credit_accounts db1"
      "key_budget_state db' = key_budget_state db1" "ledger_entries db' = ledger_entries db1"
      "entitlement_cycles db' = entitlement_cycles db1" "usage_allocations db' = usage_allocations db1"
      by (auto simp: db' insert_outbox_def split: option.splits)
    have "posts_holds db db' (rr_account_id row) (rr_key_id row) 0"
      using posts_holds_update [OF inv, of db' "ur_id r" ?row row] inv_row_amount [OF inv row] row own
      by (simp add: out same claim_row_def open_hold_def unlimited_row_def)
    moreover have "wf_tables db'" using inv wfl by (simp add: frame_simps out same claim_row_def)
    moreover have "posts_books db db' (ur_account_id r) 0"
      using books by (simp add: posts_books_def account_books_def out)
    ultimately show "m = charge \<and> usage_reservations db' = usage_reservations (claim_row db (ur_id r) row m now) \<and>
       posts db db' (ur_account_id r) (ur_key_id r) 0 0"
      using inv m by (simp add: posts_def posts_account_same posts_key_same out same posts_holds_def)
  next
    assume "rr_status row = Settled"
    then show "rr_actual_micros row = Some m \<and> db' = db"
      using ok row own by (auto simp: settle_unlimited_def settled_amount_def res_simps)
  qed
qed

lemma settle_cases:
  assumes "settle_token_usage_with_explicit_charge dp db r usage now forced lid aid = Inr (db', m)"
  obtains charge where "validate_token_usage usage = Inr ()" "calculated_charge r usage forced = Inr charge"
    "ur_mode r = MeteredUnlimited \<Longrightarrow> settle_unlimited db r charge now lid = Inr (db', m)"
    "ur_mode r = Prepaid \<Longrightarrow> settle_prepaid dp db r usage charge now lid aid = Inr (db', m)"
  using assms unfolding settle_token_usage_with_explicit_charge_def enforces_prepaid_limits_def
  by (auto simp: rbind_Inr_iff split: if_splits)

lemma settle_effect:
  assumes "billing_inv db" and "reservation_matches db r"
    and "settle_token_usage_with_explicit_charge dp db r usage now forced lid aid = Inr (db', m)"
  shows "billing_inv db' \<and> reservation_matches db' r \<and>
    (\<exists>row charge. tget (usage_reservations db) (ur_id r) = Some row \<and>
      calculated_charge r usage forced = Inr charge \<and>
      (if rr_status row = Reserved
       then 0 \<le> m \<and> m \<le> charge \<and> (ur_mode r = MeteredUnlimited \<longrightarrow> m = charge) \<and>
         map_option rr_status (tget (usage_reservations db') (ur_id r)) = Some Settled \<and>
         posts db db' (ur_account_id r) (ur_key_id r)
           (if ur_mode r = Prepaid then - ur_reserved_micros r else 0) (if ur_mode r = Prepaid then - m else 0)
       else rr_actual_micros row = Some m \<and> posts db db' (ur_account_id r) (ur_key_id r) 0 0))"
proof (rule settle_cases [OF assms(3)])
  fix charge
  assume c: "calculated_charge r usage forced = Inr charge"
    and u: "ur_mode r = MeteredUnlimited \<Longrightarrow> settle_unlimited db r charge now lid = Inr (db', m)"
    and p: "ur_mode r = Prepaid \<Longrightarrow> settle_prepaid dp db r usage charge now lid aid = Inr (db', m)"
  have nonneg: "0 \<le> charge" by (rule calculated_charge_nonneg [OF c])
  have idle: "posts db db (ur_account_id r) (ur_key_id r) 0 0" using assms(1)
    by (simp add: posts_def posts_account_same posts_holds_same posts_books_same posts_key_same frame_simps)
  obtain row where row: "tget (usage_reservations db) (ur_id r) = Some row"
    and first: "rr_status row = Reserved \<Longrightarrow> 0 \<le> m \<and> m \<le> charge \<and> (ur_mode r = MeteredUnlimited \<longrightarrow> m = charge) \<and>
       usage_reservations db' = usage_reservations (claim_row db (ur_id r) row m now) \<and>
       posts db db' (ur_account_id r) (ur_key_id r)
         (if ur_mode r = Prepaid then - ur_reserved_micros r else 0) (if ur_mode r = Prepaid then - m else 0)"
    and again: "rr_status row = Settled \<Longrightarrow> rr_actual_micros row = Some m \<and>
       usage_reservations db' = usage_reservations db \<and> posts db db' (ur_account_id r) (ur_key_id r) 0 0"
  proof (cases "ur_mode r")
    case Prepaid
    show thesis
      by (rule settle_prepaid_effect [OF assms(1,2) Prepaid nonneg p [OF Prepaid]], rule that)
         (auto simp: Prepaid amount_ok_def)
  next
    case MeteredUnlimited
    show thesis
      by (rule settle_unlimited_effect [OF assms(1,2) MeteredUnlimited u [OF MeteredUnlimited]], rule that)
         (use nonneg idle in \<open>auto simp: MeteredUnlimited\<close>)
  qed
  show ?thesis
  proof (cases "rr_status row")
    case Reserved
    note f = first [OF Reserved]
    have st: "map_option rr_status (tget (usage_reservations db') (ur_id r)) = Some Settled"
      using f by (simp add: claim_row_def tbl_simps)
    have "reservation_matches db' r" using f by (intro claimed_matches [OF assms(2) row]) blast
    moreover have "billing_inv db'" using f posts_inv [OF assms(1)] by blast
    ultimately show ?thesis using row c f st Reserved by auto
  next
    case Settled
    note g = again [OF Settled]
    have "reservation_matches db' r" using assms(2) g by (simp add: reservation_matches_def)
    moreover have "billing_inv db'" using g posts_inv [OF assms(1)] by blast
    ultimately show ?thesis using row c g Settled by auto
  qed
qed

subsection \<open>Properties of settlement\<close>

text \<open>
  C1. Settling a reservation keeps the accounting invariant. The first settlement of a
  prepaid reservation gives back exactly its hold, charges no more than was calculated and
  writes exactly the charge to the ledger, so no money is created or lost and the balance
  never becomes negative; an unlimited reservation leaves the balance alone and charges what
  was calculated. A settlement of a reservation that is already settled moves nothing and
  reports the stored charge.
\<close>

theorem settle_accounts:
  assumes "billing_inv db" and "reservation_matches db r"
    and "settle_token_usage_with_explicit_charge dp db r usage now forced lid aid = Inr (db', m)"
  shows "billing_inv db' \<and> reservation_matches db' r \<and>
    (\<exists>row charge. tget (usage_reservations db) (ur_id r) = Some row \<and>
      calculated_charge r usage forced = Inr charge \<and>
      (if rr_status row = Reserved
       then 0 \<le> m \<and> m \<le> charge \<and> (ur_mode r = MeteredUnlimited \<longrightarrow> m = charge) \<and>
         map_option rr_status (tget (usage_reservations db') (ur_id r)) = Some Settled \<and>
         posts db db' (ur_account_id r) (ur_key_id r)
           (if ur_mode r = Prepaid then - ur_reserved_micros r else 0) (if ur_mode r = Prepaid then - m else 0)
       else rr_actual_micros row = Some m \<and> posts db db' (ur_account_id r) (ur_key_id r) 0 0))"
  by (rule settle_effect [OF assms])

text \<open>After a settlement the row is settled with the reported charge, for every later caller.\<close>

lemma settled_row:
  assumes "billing_inv db" and "reservation_matches db r"
    and "settle_token_usage_with_explicit_charge dp db r usage now forced lid aid = Inr (db', m)"
  obtains row' where "tget (usage_reservations db') (ur_id r) = Some row'" "rr_status row' = Settled"
    "rr_actual_micros row' = Some m" "rr_key_id row' = ur_key_id r" "rr_account_id row' = ur_account_id r"
    "rr_mode row' = ur_mode r"
proof (rule settle_cases [OF assms(3)])
  fix charge
  assume c: "calculated_charge r usage forced = Inr charge"
    and u: "ur_mode r = MeteredUnlimited \<Longrightarrow> settle_unlimited db r charge now lid = Inr (db', m)"
    and p: "ur_mode r = Prepaid \<Longrightarrow> settle_prepaid dp db r usage charge now lid aid = Inr (db', m)"
  have own: "rr_key_id row = ur_key_id r \<and> rr_account_id row = ur_account_id r \<and> rr_mode row = ur_mode r"
    if "tget (usage_reservations db) (ur_id r) = Some row" for row
    using assms(2) that by (simp add: reservation_matches_def)
  have "\<exists>row'. tget (usage_reservations db') (ur_id r) = Some row' \<and> rr_status row' = Settled \<and>
    rr_actual_micros row' = Some m \<and> rr_key_id row' = ur_key_id r \<and> rr_account_id row' = ur_account_id r \<and>
    rr_mode row' = ur_mode r"
  proof (cases "ur_mode r")
    case Prepaid
    show ?thesis
    proof (rule settle_prepaid_effect [OF assms(1,2) Prepaid calculated_charge_nonneg [OF c] p [OF Prepaid]])
      fix row assume "tget (usage_reservations db) (ur_id r) = Some row"
        "rr_status row = Reserved \<Longrightarrow> amount_ok m \<and> m \<le> charge \<and>
           usage_reservations db' = usage_reservations (claim_row db (ur_id r) row m now) \<and>
           posts db db' (ur_account_id r) (ur_key_id r) (- ur_reserved_micros r) (- m)"
        "rr_status row = Settled \<Longrightarrow> rr_actual_micros row = Some m \<and>
           (\<exists>t. db' = db\<lparr>key_budget_state := t\<rparr>) \<and> posts db db' (ur_account_id r) (ur_key_id r) 0 0"
      then show ?thesis using own by (cases "rr_status row") (auto simp: claim_row_def tbl_simps)
    qed
  next
    case MeteredUnlimited
    show ?thesis
    proof (rule settle_unlimited_effect [OF assms(1,2) MeteredUnlimited u [OF MeteredUnlimited]])
      fix row assume "tget (usage_reservations db) (ur_id r) = Some row"
        "rr_status row = Reserved \<Longrightarrow> m = charge \<and>
           usage_reservations db' = usage_reservations (claim_row db (ur_id r) row m now) \<and>
           posts db db' (ur_account_id r) (ur_key_id r) 0 0"
        "rr_status row = Settled \<Longrightarrow> rr_actual_micros row = Some m \<and> db' = db"
      then show ?thesis using own by (cases "rr_status row") (auto simp: claim_row_def tbl_simps)
    qed
  qed
  then show thesis using that by blast
qed


lemma capped_by_line:
  assumes "m \<le> max (sat (sat (b - s) - others)) 0" and "0 \<le> others" and "0 \<le> m"
  shows "m = 0 \<or> s + m + others \<le> b"
  using assms by (auto simp: sat_def i64_bounds max_def split: if_splits)

lemma holds_of_key:
  assumes inv: "billing_inv db" and kb: "tget (key_budget_state db) k = Some kb"
    and row: "tget (usage_reservations db) i = Some row" "rr_status row = Reserved" "rr_mode row = Prepaid"
      "rr_key_id row = k"
  shows "rr_reserved_micros row \<le> kb_reserved kb"
proof -
  have "open_hold (\<lambda>r. rr_key_id r = k) i row \<le> key_holds db k"
    unfolding key_holds_def using inv open_hold_nonneg [of db] row
    by (intro tsum_ge_member) (auto simp: billing_inv_def)
  then show ?thesis using inv kb row by (simp add: open_hold_def billing_inv_def holds_ok_def)
qed

text \<open>
  C13. A prepaid charge respects the key's budgets: it is at most the hold plus what the
  account has available, and, for every configured budget, unless the charge is zero, what
  was settled before plus the charge plus the holds of the key's other requests is at most
  the budget.
\<close>

theorem settle_within_budgets:
  assumes "billing_inv db" and "reservation_matches db r" and "ur_mode r = Prepaid"
    and "map_option rr_status (tget (usage_reservations db) (ur_id r)) = Some Reserved"
    and "tget (key_budget_state db) (ur_key_id r) = Some kb" and "in_i64 (kb_reserved kb)"
    and "settle_token_usage_with_explicit_charge dp db r usage now forced lid aid = Inr (db', m)"
  shows "\<exists>acct kr p daily weekly. tget (credit_accounts db) (ur_account_id r) = Some acct \<and>
    m \<le> ca_available acct + ur_reserved_micros r \<and>
    tget (key_records db) (ur_key_id r) = Some kr \<and> kr_policy kr = Some p \<and>
    daily_settled_for db p (ur_key_id r) now = Inr daily \<and> weekly_settled_for db p (ur_key_id r) now = Inr weekly \<and>
    (\<forall>(budget, settled) \<in> {(daily_budget p, daily), (weekly_budget p, weekly),
                           (lifetime_budget p, kb_settled_lifetime kb)}.
       \<forall>t. budget = Some t \<longrightarrow> (\<exists>d b. dp t = Some d \<and> decimal_to_micros d = Inr b \<and>
         (m = 0 \<or> settled + m + (kb_reserved kb - ur_reserved_micros r) \<le> b)))"
proof (rule settle_cases [OF assms(7)])
  fix charge
  assume c: "calculated_charge r usage forced = Inr charge"
    and p: "ur_mode r = Prepaid \<Longrightarrow> settle_prepaid dp db r usage charge now lid aid = Inr (db', m)"
  from assms(2-4) obtain row where row: "tget (usage_reservations db) (ur_id r) = Some row" "rr_status row = Reserved"
    and own: "rr_key_id row = ur_key_id r" "rr_mode row = Prepaid" "rr_reserved_micros row = ur_reserved_micros r"
    by (auto simp: reservation_matches_def)
  from p [OF assms(3)] assms(5) row obtain db1 maximum where
    db1: "db1 = db\<lparr>key_budget_state := tput (ur_key_id r) (kb\<lparr>kb_updated_at := now\<rparr>) (key_budget_state db)\<rparr>"
    and cap: "maximum_charge dp db1 r now (kb_settled_lifetime kb) (kb_reserved kb) = Inr maximum"
    and m: "m = min charge maximum"
    by (auto simp: settle_prepaid_def rbind_Inr_iff lock_key_budget_state_Inr Let_def)
  let ?others = "kb_reserved kb - ur_reserved_micros r"
  have held: "amount_ok (ur_reserved_micros r)" using inv_row_amount [OF assms(1) row(1)] own by simp
  have "ur_reserved_micros r \<le> kb_reserved kb" using holds_of_key [OF assms(1,5) row own(2,1)] own by simp
  then have others: "max (sat ?others) 0 = ?others" "0 \<le> ?others"
    using held assms(6) by (auto simp: sat_def amount_ok_def in_i64_def i64_bounds)
  from cap show ?thesis
  proof (rule maximum_charge_Inr)
    fix acct kr daily weekly and pol :: key_policy
    let ?ls = "[(daily_budget pol, daily), (weekly_budget pol, weekly), (lifetime_budget pol, kb_settled_lifetime kb)]"
    assume acct: "tget (credit_accounts db1) (ur_account_id r) = Some acct"
      and kr: "tget (key_records db1) (ur_key_id r) = Some kr" "kr_policy kr = Some pol"
      and dw: "daily_settled_for db1 pol (ur_key_id r) now = Inr daily"
        "weekly_settled_for db1 pol (ur_key_id r) now = Inr weekly"
      and caps: "cap_by_budgets dp (max (sat ?others) 0) ?ls
         (sat (max (ca_available acct) 0 + ur_reserved_micros r)) = Inr maximum"
    have av: "0 \<le> ca_available acct" using balance_ok [OF assms(1)] acct by (simp add: db1 amount_ok_def)
    have mx: "amount_ok maximum" "maximum \<le> ca_available acct + ur_reserved_micros r"
      using maximum_charge_bounds [OF cap acct av held] by auto
    have "0 \<le> sat (max (ca_available acct) 0 + ur_reserved_micros r)"
      using held av by (intro sat_nonneg) (simp add: amount_ok_def)
    then have line: "\<exists>d b. dp t = Some d \<and> decimal_to_micros d = Inr b \<and> (m = 0 \<or> s + m + ?others \<le> b)"
      if "(Some t, s) \<in> set ?ls" for t s
      using cap_by_budgets_line [OF caps _ that] others capped_by_line [of m _ s ?others] m
        calculated_charge_nonneg [OF c] mx(1) by (fastforce simp: amount_ok_def)
    have reads: "daily_settled_for db pol (ur_key_id r) now = Inr daily"
      "weekly_settled_for db pol (ur_key_id r) now = Inr weekly"
      using dw settled_reads_cong(3,4) [of db1 db] by (simp_all add: db1)
    have ml: "m \<le> ca_available acct + ur_reserved_micros r" using mx(2) m by simp
    show ?thesis
      using acct kr ml reads line
      by (intro exI [of _ acct] exI [of _ kr] exI [of _ pol] exI [of _ daily] exI [of _ weekly]) (auto simp: db1)
  qed
qed

subsection \<open>Properties of the allocation\<close>

definition cycle_allocated :: "billing_db \<Rightarrow> uuid \<Rightarrow> int" where
  "cycle_allocated db cid = tsum (\<lambda>_ x. if al_cycle_id x = cid then al_amount x else 0) (usage_allocations db)"

definition entry_allocated :: "billing_db \<Rightarrow> uuid \<Rightarrow> int" where
  "entry_allocated db lid = tsum (\<lambda>_ x. if al_usage_entry_id x = lid then al_amount x else 0) (usage_allocations db)"

text \<open>Cycles move forward: what a cycle consumes is what is recorded against it, within its funding.\<close>

definition cycles_advance :: "billing_db \<Rightarrow> billing_db \<Rightarrow> bool" where
  "cycles_advance db db' \<longleftrightarrow> (\<forall>x. case tget (entitlement_cycles db) x of
      None \<Rightarrow> tget (entitlement_cycles db') x = None
    | Some c \<Rightarrow> (\<exists>c'. tget (entitlement_cycles db') x = Some c' \<and> cy_funded c' = cy_funded c \<and>
        cy_consumed c \<le> cy_consumed c' \<and>
        (cy_consumed c \<le> cy_funded c \<longrightarrow> cy_consumed c' \<le> cy_funded c') \<and>
        cy_consumed c' - cy_consumed c = cycle_allocated db' x - cycle_allocated db x))"

lemma cycles_advance_refl: "cycles_advance db db"
  by (simp add: cycles_advance_def split: option.splits)

lemma cycles_advance_trans:
  assumes a: "cycles_advance db db1" and b: "cycles_advance db1 db2"
  shows "cycles_advance db db2"
  unfolding cycles_advance_def
proof
  fix x
  note ax = a [unfolded cycles_advance_def, rule_format, of x]
  note bx = b [unfolded cycles_advance_def, rule_format, of x]
  show "case tget (entitlement_cycles db) x of
      None \<Rightarrow> tget (entitlement_cycles db2) x = None
    | Some c \<Rightarrow> (\<exists>c'. tget (entitlement_cycles db2) x = Some c' \<and> cy_funded c' = cy_funded c \<and>
        cy_consumed c \<le> cy_consumed c' \<and>
        (cy_consumed c \<le> cy_funded c \<longrightarrow> cy_consumed c' \<le> cy_funded c') \<and>
        cy_consumed c' - cy_consumed c = cycle_allocated db2 x - cycle_allocated db x)"
  proof (cases "tget (entitlement_cycles db) x")
    case (Some c)
    with ax obtain c1 where c1: "tget (entitlement_cycles db1) x = Some c1" "cy_funded c1 = cy_funded c"
      "cy_consumed c \<le> cy_consumed c1" "cy_consumed c \<le> cy_funded c \<longrightarrow> cy_consumed c1 \<le> cy_funded c1"
      "cy_consumed c1 - cy_consumed c = cycle_allocated db1 x - cycle_allocated db x" by auto
    with bx obtain c2 where "tget (entitlement_cycles db2) x = Some c2" "cy_funded c2 = cy_funded c1"
      "cy_consumed c1 \<le> cy_consumed c2" "cy_consumed c1 \<le> cy_funded c1 \<longrightarrow> cy_consumed c2 \<le> cy_funded c2"
      "cy_consumed c2 - cy_consumed c1 = cycle_allocated db2 x - cycle_allocated db1 x" by auto
    with Some c1 show ?thesis by auto
  qed (use ax bx in simp)
qed

lemma allocate_one:
  assumes "consume_cycle db cid x now = Inr db1" and "insert_allocation db1 i cid lid x now = Inr db2"
    and "tget (entitlement_cycles db) cid = Some c" and "0 \<le> x" and "x \<le> cy_funded c - cy_consumed c"
  shows "cycles_advance db db2" and "entry_allocated db2 lid = entry_allocated db lid + x"
    and "cid' \<noteq> cid \<Longrightarrow> tget (entitlement_cycles db2) cid' = tget (entitlement_cycles db) cid'"
proof -
  from assms have db1: "db1 = db\<lparr>entitlement_cycles :=
      tput cid (c\<lparr>cy_consumed := cy_consumed c + x, cy_updated_at := now\<rparr>) (entitlement_cycles db)\<rparr>"
    by (auto simp: consume_cycle_def res_simps)
  from assms(2) have db2: "db2 = db1\<lparr>usage_allocations := tput i \<lparr>al_cycle_id = cid, al_usage_entry_id = lid,
      al_amount = x, al_created_at = now\<rparr> (usage_allocations db1)\<rparr>"
    and fresh: "tget (usage_allocations db) i = None"
    by (auto simp: insert_allocation_Inr db1)
  show "entry_allocated db2 lid = entry_allocated db lid + x"
    using fresh by (simp add: entry_allocated_def db2 db1 tbl_simps)
  show "cid' \<noteq> cid \<Longrightarrow> tget (entitlement_cycles db2) cid' = tget (entitlement_cycles db) cid'"
    by (simp add: db2 db1 tbl_simps)
  have "cycle_allocated db2 y = cycle_allocated db y + (if y = cid then x else 0)" for y
    using fresh by (simp add: cycle_allocated_def db2 db1 tbl_simps)
  then show "cycles_advance db db2"
    using assms(3-5) by (auto simp: cycles_advance_def db2 db1 tbl_simps split: option.splits)
qed

lemma allocate_cycles_spec:
  assumes "allocate_cycles lid aid now n cs usage db = Inr db'" and "distinct (map fst cs)"
    and "\<forall>(cid, rem) \<in> set cs. 0 \<le> rem \<and>
      (\<exists>c. tget (entitlement_cycles db) cid = Some c \<and> cy_funded c - cy_consumed c = rem)"
    and "amount_ok usage"
  shows "cycles_advance db db' \<and>
    entry_allocated db' lid = entry_allocated db lid + min usage (sum_list (map snd cs))"
  using assms
proof (induction lid aid now n cs usage db rule: allocate_cycles.induct)
  case (1 lid aid now n usage db)
  then show ?case by (simp add: cycles_advance_refl amount_ok_def)
next
  case (2 lid aid now n cid rem cs usage db)
  have rest: "0 \<le> sum_list (map snd cs)" using "2.prems"(3) by (intro sum_list_nonneg) auto
  from "2.prems"(3) obtain c where c: "tget (entitlement_cycles db) cid = Some c" "cy_funded c - cy_consumed c = rem"
    and rem: "0 \<le> rem" by auto
  let ?x = "min usage (max rem 0)"
  consider "usage = 0" | "usage \<noteq> 0" "?x = 0" | "usage \<noteq> 0" "?x \<noteq> 0" by blast
  then show ?case
  proof cases
    case 1
    with "2.prems" rest rem show ?thesis by (simp add: cycles_advance_refl)
  next
    case k: 2
    with "2.prems"(4) rem have "rem = 0" by (auto simp: amount_ok_def min_def split: if_splits)
    moreover from k "2.prems"(1) have "allocate_cycles lid aid now n cs usage db = Inr db'" by (simp add: Let_def)
    ultimately show ?thesis using "2.IH"(1) [OF k(1) refl k(2)] "2.prems" by simp
  next
    case k: 3
    with "2.prems"(1) obtain db1 db2 where
      s: "consume_cycle db cid ?x now = Inr db1" "insert_allocation db1 (aid n) cid lid ?x now = Inr db2"
      "allocate_cycles lid aid now (Suc n) cs (sat (usage - ?x)) db2 = Inr db'"
      by (auto simp: Let_def rbind_Inr_iff)
    have x: "0 \<le> ?x" "?x \<le> cy_funded c - cy_consumed c" "?x \<le> usage"
      using rem c "2.prems"(4) by (auto simp: amount_ok_def)
    note one = allocate_one [OF s(1,2) c(1) x(1,2)]
    have left: "sat (usage - ?x) = usage - ?x" "amount_ok (usage - ?x)"
      using x "2.prems"(4) by (auto simp: amount_ok_def in_i64_def i64_bounds intro!: sat_in_range)
    have open': "\<forall>(cid', rem) \<in> set cs. 0 \<le> rem \<and>
      (\<exists>c. tget (entitlement_cycles db2) cid' = Some c \<and> cy_funded c - cy_consumed c = rem)"
    proof (intro ballI case_prodI2)
      fix p cid' rem' assume "p \<in> set cs" "p = (cid', rem')"
      then have "(cid', rem') \<in> set cs" "cid' \<noteq> cid" using "2.prems"(2) by force+
      then show "0 \<le> rem' \<and> (\<exists>c. tget (entitlement_cycles db2) cid' = Some c \<and> cy_funded c - cy_consumed c = rem')"
        using "2.prems"(3) one(3) [of cid'] by auto
    qed
    have "cycles_advance db2 db' \<and>
      entry_allocated db' lid = entry_allocated db2 lid + min (sat (usage - ?x)) (sum_list (map snd cs))"
      by (rule "2.IH"(2) [OF k(1) refl k(2) s(3) _ open']) (use "2.prems"(2) left in simp_all)
    with one(1,2) cycles_advance_trans [of db db2 db'] rem rest x left(1) show ?thesis by auto
  qed
qed

lemma usable_cycles_spec:
  assumes "wf_table (entitlement_cycles db)"
  shows "distinct (map fst (usable_cycles db a now))"
    and "\<forall>(cid, rem) \<in> set (usable_cycles db a now). 0 \<le> rem \<and>
      (\<exists>c. tget (entitlement_cycles db) cid = Some c \<and> cy_funded c - cy_consumed c = rem)"
proof -
  let ?f = "filter (\<lambda>(cid, c). cycle_usable db a now cid c) (entitlement_cycles db)"
  let ?s = "sort_key (\<lambda>(cid, c). (cy_period_end c, cid)) ?f"
  have "mset (map fst ?s) = mset (map fst ?f)" by simp
  moreover have "distinct (map fst ?f)" using assms by (simp add: wf_table_def distinct_map_filter)
  ultimately have "distinct (map fst ?s)" using mset_eq_imp_distinct_iff by blast
  moreover have "map fst (usable_cycles db a now) = map fst ?s"
    by (simp add: usable_cycles_def comp_def case_prod_unfold)
  ultimately show "distinct (map fst (usable_cycles db a now))" by simp
  show "\<forall>(cid, rem) \<in> set (usable_cycles db a now). 0 \<le> rem \<and>
      (\<exists>c. tget (entitlement_cycles db) cid = Some c \<and> cy_funded c - cy_consumed c = rem)"
    using assms by (auto simp: usable_cycles_def cycle_usable_def wf_table_def tget_def split: option.splits)
qed

lemma allocate_usage_spec:
  assumes "allocate_usage db r lid aid actual now = Inr db'" and "wf_table (entitlement_cycles db)"
    and "amount_ok actual"
  shows "cycles_advance db db' \<and> entry_allocated db' lid =
    entry_allocated db lid + min actual (sum_list (map snd (usable_cycles db (ur_account_id r) now)))"
proof (cases "0 < actual")
  case True
  with assms usable_cycles_spec [OF assms(2)] allocate_cycles_spec show ?thesis
    by (auto simp: allocate_usage_def)
next
  case False
  have "0 \<le> sum_list (map snd (usable_cycles db (ur_account_id r) now))"
    using usable_cycles_spec(2) [OF assms(2), of "ur_account_id r" now] by (intro sum_list_nonneg) auto
  with False assms show ?thesis by (auto simp: allocate_usage_def cycles_advance_refl amount_ok_def)
qed

lemma cycles_advance_cong:
  assumes "entitlement_cycles db1 = entitlement_cycles db" and "usage_allocations db1 = usage_allocations db"
  shows "cycles_advance db1 db' = cycles_advance db db'" and "entry_allocated db1 lid = entry_allocated db lid"
proof -
  have eq: "cycle_allocated db1 = cycle_allocated db" using assms by (simp add: cycle_allocated_def fun_eq_iff)
  show "cycles_advance db1 db' = cycles_advance db db'" unfolding cycles_advance_def assms eq ..
  show "entry_allocated db1 lid = entry_allocated db lid" unfolding entry_allocated_def assms ..
qed

lemma post_settlement_allocates:
  assumes ok: "post_settlement db r usage applied actual now lid aid = Inr db'"
    and acct: "tget (credit_accounts db) (ur_account_id r) = Some acct"
  obtains db7 where "allocate_usage db7 r lid aid actual now = Inr db'"
    "entitlement_cycles db7 = entitlement_cycles db" "usage_allocations db7 = usage_allocations db"
    "subscription_entitlements db7 = subscription_entitlements db"
proof -
  from ok obtain db1 db2 db3 db4 db5 db6 db7 where
    s: "settle_key_budget db (ur_key_id r) actual (ur_reserved_micros r) now = Inr db1"
     "add_daily_rollup db1 (ur_key_id r) (now sdiv day_ms) actual = Inr db2"
     "settle_account db2 (ur_account_id r) (max (sat (ur_reserved_micros r - actual)) 0)
       (max (sat (actual - ur_reserved_micros r)) 0) (ur_reserved_micros r) now = Inr db3"
     "add_account_usage db3 (ur_account_id r) actual now = Inr db4"
     "(if applied then settle_rate_window db4 (ur_key_id r) (ur_rate_window_start r)
               (ur_reserved_tokens r) (total_tokens usage) else Inr db4) = Inr db5"
     "insert_usage_entry db5 r lid actual now = Inr db6"
     "insert_usage_event db6 r lid actual now = Inr db7"
    and last: "allocate_usage db7 r lid aid actual now = Inr db'"
    unfolding post_settlement_def Let_def rbind_Inr_iff by blast
  have acct2: "tget (credit_accounts db2) (ur_account_id r) = Some acct"
    using s(1,2) acct by (auto simp: settle_key_budget_Inr dest!: add_daily_rollup_Inr)
  have "entitlement_cycles db7 = entitlement_cycles db \<and> usage_allocations db7 = usage_allocations db \<and>
      subscription_entitlements db7 = subscription_entitlements db"
    using s(1,2,4-7) s(3) [unfolded settle_account_Some [OF acct2]]
    by (auto simp: settle_key_budget_Inr insert_usage_entry_Inr split: if_splits
        dest!: add_daily_rollup_Inr add_account_usage_Inr settle_rate_window_Inr insert_usage_event_Inr)
  with last that show thesis by blast
qed

text \<open>
  C15. A prepaid charge is allocated to the account's current subscription cycles, the one
  that ends first in front: the allocations recorded for the new ledger entry add up to the
  charge or to all that the cycles have left, whichever is less, every cycle consumes
  exactly what is recorded against it, and none consumes more than its funding.
\<close>

theorem settle_allocates_cycles:
  assumes "billing_inv db" and "reservation_matches db r" and "ur_mode r = Prepaid"
    and "map_option rr_status (tget (usage_reservations db) (ur_id r)) = Some Reserved"
    and "settle_token_usage_with_explicit_charge dp db r usage now forced lid aid = Inr (db', m)"
  shows "cycles_advance db db' \<and> entry_allocated db' lid =
    entry_allocated db lid + min m (sum_list (map snd (usable_cycles db (ur_account_id r) now)))"
proof (rule settle_cases [OF assms(5)])
  fix charge
  assume c: "calculated_charge r usage forced = Inr charge"
    and p: "ur_mode r = Prepaid \<Longrightarrow> settle_prepaid dp db r usage charge now lid aid = Inr (db', m)"
  from assms(4) obtain row where row: "tget (usage_reservations db) (ur_id r) = Some row" "rr_status row = Reserved"
    by auto
  have m_ok: "amount_ok m"
    by (rule settle_prepaid_effect [OF assms(1-3) calculated_charge_nonneg [OF c] p [OF assms(3)]]) (use row in auto)
  from p [OF assms(3)] row obtain t lifetime reserved maximum where
    cap: "maximum_charge dp (db\<lparr>key_budget_state := t\<rparr>) r now lifetime reserved = Inr maximum"
    and post: "post_settlement (claim_row (db\<lparr>key_budget_state := t\<rparr>) (ur_id r) row m now) r usage
      (rr_tpm_window_applied row) m now lid aid = Inr db'"
    by (auto simp: settle_prepaid_def rbind_Inr_iff lock_key_budget_state_Inr Let_def)
  obtain acct where "tget (credit_accounts db) (ur_account_id r) = Some acct"
    using cap by (rule maximum_charge_Inr) simp
  note acct = this
  show ?thesis
  proof (rule post_settlement_allocates [OF post])
    show "tget (credit_accounts (claim_row (db\<lparr>key_budget_state := t\<rparr>) (ur_id r) row m now)) (ur_account_id r)
      = Some acct" using acct by (simp add: claim_row_def)
  next
    fix db7 assume a: "allocate_usage db7 r lid aid m now = Inr db'"
      and same: "entitlement_cycles db7 = entitlement_cycles (claim_row (db\<lparr>key_budget_state := t\<rparr>) (ur_id r) row m now)"
        "usage_allocations db7 = usage_allocations (claim_row (db\<lparr>key_budget_state := t\<rparr>) (ur_id r) row m now)"
        "subscription_entitlements db7 =
         subscription_entitlements (claim_row (db\<lparr>key_budget_state := t\<rparr>) (ur_id r) row m now)"
    note same' = same [unfolded claim_row_def, simplified]
    have "usable_cycles db7 (ur_account_id r) now = usable_cycles db (ur_account_id r) now"
      by (simp add: usable_cycles_def cycle_usable_def same')
    moreover have "wf_table (entitlement_cycles db7)" using assms(1) by (simp add: frame_simps same')
    ultimately show ?thesis
      using allocate_usage_spec [OF a _ m_ok] cycles_advance_cong [OF same'(1,2)] by simp
  qed
qed

text \<open>A confirmed charge: the lock, then a settlement of the confirmed amount.\<close>

lemma confirmed_stages:
  assumes "billing_inv db" and "reservation_matches db r"
    and "settle_confirmed_image_charge_in_transaction dp db r now confirmed lid aid = Inr (db', charged)"
  obtains db1 where "posts db db1 (ur_account_id r) (ur_key_id r) 0 0" "billing_inv db1"
    "usage_reservations db1 = usage_reservations db" "reservation_matches db1 r"
    "settle_token_usage_with_explicit_charge dp db1 r default_usage now (Some confirmed) lid aid = Inr (db', charged)"
    "charged = confirmed" "0 \<le> confirmed"
proof -
  from assms(3) obtain db1 x where lock: "lock_key_budget_state db (ur_key_id r) now = Inr (db1, x)"
    and s: "settle_token_usage_with_explicit_charge dp db1 r default_usage now (Some confirmed) lid aid = Inr (db', charged)"
    and eq: "charged = confirmed" "0 \<le> confirmed"
    by (auto simp: settle_confirmed_image_charge_in_transaction_def rbind_Inr_iff ensure_Inr_iff)
  have p: "posts db db1 (ur_account_id r) (ur_key_id r) 0 0" by (rule lock_key_budget_posts [OF assms(1) lock])
  have res: "usage_reservations db1 = usage_reservations db" using lock by (auto simp: lock_key_budget_state_Inr)
  show ?thesis
    using assms(2) by (intro that [OF p posts_inv [OF assms(1) p] res _ s eq]) (simp add: reservation_matches_def res)
qed

text \<open>
  C17. A charge the provider has confirmed is settled in full or not at all: on success the
  reported charge is the confirmed amount, which is what a first settlement of a prepaid
  reservation writes to the ledger while giving back its hold, and the accounting
  invariant holds. A charge that a balance or budget would cut short is refused.
\<close>

theorem confirmed_charge_exact:
  assumes "billing_inv db" and "reservation_matches db r"
    and "settle_confirmed_image_charge_in_transaction dp db r now confirmed lid aid = Inr (db', charged)"
  shows "charged = confirmed \<and> 0 \<le> confirmed \<and> billing_inv db' \<and> reservation_matches db' r \<and>
    (ur_mode r = Prepaid \<longrightarrow>
     map_option rr_status (tget (usage_reservations db) (ur_id r)) = Some Reserved \<longrightarrow>
     posts db db' (ur_account_id r) (ur_key_id r) (- ur_reserved_micros r) (- confirmed))"
proof (rule confirmed_stages [OF assms])
  fix db1
  assume p: "posts db db1 (ur_account_id r) (ur_key_id r) 0 0" and inv: "billing_inv db1"
    and res: "usage_reservations db1 = usage_reservations db" and match: "reservation_matches db1 r"
    and s: "settle_token_usage_with_explicit_charge dp db1 r default_usage now (Some confirmed) lid aid = Inr (db', charged)"
    and eq: "charged = confirmed" "0 \<le> confirmed"
  note q = settle_effect [OF inv match s]
  then have "posts db1 db' (ur_account_id r) (ur_key_id r) (- ur_reserved_micros r) (- charged)"
    if "ur_mode r = Prepaid" "map_option rr_status (tget (usage_reservations db) (ur_id r)) = Some Reserved"
    using that by (auto simp: res)
  with posts_trans [OF p] have "posts db db' (ur_account_id r) (ur_key_id r) (0 + - ur_reserved_micros r) (0 + - charged)"
    if "ur_mode r = Prepaid" "map_option rr_status (tget (usage_reservations db) (ur_id r)) = Some Reserved"
    using that by blast
  with q eq show ?thesis by simp
qed

subsection \<open>Witnesses\<close>

text \<open>The sample request with a subscription cycle that covers part of its charge.\<close>

definition sample_cycle :: cycle where
  "sample_cycle = \<lparr>cy_entitlement_id = ''e'', cy_external_cycle_id = ''m1'', cy_period_start = 0, cy_period_end = 1000000, cy_currency = ''USD'',
     cy_desired = 3, cy_funded = 3, cy_consumed = 0, 
     cy_status = CycleActive, cy_proration = None, cy_created_at = 0, cy_updated_at = 0\<rparr>"

definition sample_open_db :: billing_db where
  "sample_open_db = sample_reserved_db\<lparr>
     subscription_entitlements := [(''e'', \<lparr>en_tenant_id = ''t'', en_account_id = ''a'',
        en_provider = ''p'', en_external_subscription_id = ''s'', en_status = SubActive, en_version = 1,
        en_current_cycle_id = Some ''c'', en_replaced_by = None, en_created_at = 0, en_updated_at = 0\<rparr>)],
     entitlement_cycles := [(''c'', sample_cycle)]\<rparr>"

definition sample_settled_db :: billing_db where
  "sample_settled_db = sample_open_db\<lparr>
     credit_accounts := [(''a'', \<lparr>ca_tenant_id = ''t'', ca_currency = ''USD'', ca_available = 996, ca_reserved = 0, ca_updated_at = 130000\<rparr>)],
     key_budget_state := [(''k'', \<lparr>kb_settled_lifetime = 4, kb_reserved = 0, kb_updated_at = 130000\<rparr>)],
     key_budget_daily_rollups := [((''k'', 0), 4)],
     key_budget_usage_events := [(''u1'', \<lparr>ue_reservation_id = ''r1'', ue_key_id = ''k'', ue_account_id = ''a'',
        ue_amount = 4, ue_settled_at = 130000\<rparr>)],
     account_usage_state := [(''a'', \<lparr>us_settled_lifetime = 4, us_updated_at = 130000\<rparr>)],
     usage_reservations := [(''r1'', sample_row\<lparr>rr_actual_micros := Some 4, rr_status := Settled,
        rr_settled_at := Some 130000\<rparr>)],
     ledger_entries := [(''g'', sample_grant), (''u1'', usage_entry sample_reserved ''USD'' 4 None 130000)],
     entitlement_cycles := [(''c'', sample_cycle\<lparr>cy_consumed := 3, cy_updated_at := 130000\<rparr>)],
     usage_allocations := [(''x0'', \<lparr>al_cycle_id = ''c'', al_usage_entry_id = ''u1'', al_amount = 3,
        al_created_at = 130000\<rparr>)]\<rparr>"

definition sample_aid :: "nat \<Rightarrow> uuid" where
  "sample_aid n = (if n = 0 then ''x0'' else ''x1'')"

lemma sample_open_inv: "billing_inv sample_open_db"
  by (simp add: inv_defs sample_open_db_def sample_cycle_def sample_eval wf_table_def open_hold_def book_value_def
      touches_balance_def amount_ok_def)

lemma sample_open_matches: "reservation_matches sample_open_db sample_reserved"
  by (simp add: reservation_matches_def sample_open_db_def sample_eval)

lemma sample_charge: "calculated_charge sample_reserved sample_usage None = Inr 4"
  "validate_token_usage sample_usage = Inr ()" "price_token_usage sample_reserved sample_usage = Inr 4"
  by (simp_all add: calculated_charge_def sample_pricing sample_reserved_def)

lemma sample_cap: "maximum_charge sample_dp (sample_open_db\<lparr>key_budget_state := t\<rparr>) sample_reserved 130000 0 2 = Inr 1000"
proof -
  have week: "key_budget_rolling_weekly_settled (sample_open_db\<lparr>key_budget_state := t\<rparr>) ''k'' 130000 = Inr 0"
    by (simp add: key_budget_rolling_weekly_settled_def Let_def sample_open_db_def sample_state_eval tsum_def
        sql_int_def in_i64_def i64_bounds)
  have budget: "budget_micros sample_dp code ''1'' = Inr 1000000" for code
    by (simp add: budget_micros_def sample_eval)
  have "maximum_charge sample_dp (sample_open_db\<lparr>key_budget_state := t\<rparr>) sample_reserved 130000 0 2 =
    Inr (min (min (sat (max 998 0 + 2)) (max (sat (sat (1000000 - 0) - max (sat (2 - 2)) 0)) 0))
      (max (sat (sat (1000000 - 0) - max (sat (2 - 2)) 0)) 0))"
    using week by (simp add: maximum_charge_def cap_by_budget_def budget sample_open_db_def sample_state_eval tget_def
        ok_or_def daily_settled_for_def weekly_settled_for_def)
  then show ?thesis by (simp add: sat_def i64_bounds)
qed

lemma sample_post:
  "post_settlement (claim_row (sample_open_db\<lparr>key_budget_state :=
      [(''k'', \<lparr>kb_settled_lifetime = 0, kb_reserved = 2, kb_updated_at = 130000\<rparr>)]\<rparr>) ''r1'' sample_row 4 130000)
     sample_reserved sample_usage True 4 130000 ''u1'' sample_aid = Inr sample_settled_db"
  by (simp add: post_settlement_def settle_key_budget_def add_daily_rollup_def settle_account_def
      add_account_usage_def settle_rate_window_def insert_usage_entry_def insert_usage_event_def allocate_usage_def
      usable_cycles_def cycle_usable_def consume_cycle_def insert_allocation_def sample_aid_def ledger_insert_def
      ledger_conflict_def usage_entry_def claim_row_def sample_settled_db_def sample_open_db_def sample_cycle_def
      sample_usage_def default_usage_def total_tokens_def total_input_tokens_def sample_eval)

lemma sample_settle:
  "settle_token_usage_with_explicit_charge sample_dp sample_open_db sample_reserved sample_usage 130000 None ''u1''
     sample_aid = Inr (sample_settled_db, 4)"
proof -
  have lock: "lock_key_budget_state sample_open_db ''k'' 130000 = Inr (sample_open_db\<lparr>key_budget_state :=
      [(''k'', \<lparr>kb_settled_lifetime = 0, kb_reserved = 2, kb_updated_at = 130000\<rparr>)]\<rparr>, 0, 2)"
    by (simp add: lock_key_budget_state_def sample_open_db_def sample_eval)
  have row: "tget (usage_reservations sample_open_db) ''r1'' = Some sample_row" "rr_status sample_row = Reserved"
    "rr_tpm_window_applied sample_row"
    by (simp_all add: sample_open_db_def sample_eval)
  have ids: "ur_key_id sample_reserved = ''k''" "ur_id sample_reserved = ''r1''" "ur_mode sample_reserved = Prepaid"
    by (simp_all add: sample_reserved_def)
  show ?thesis
    using sample_cap sample_post row ids lock sample_charge
    by (simp add: settle_token_usage_with_explicit_charge_def settle_prepaid_def enforces_prepaid_limits_def Let_def)
qed

lemma sample_open_row:
  "map_option rr_status (tget (usage_reservations sample_open_db) (ur_id sample_reserved)) = Some Reserved"
  "ur_mode sample_reserved = Prepaid"
  by (simp_all add: sample_open_db_def sample_eval)

theorem settle_accounts_witness:
  "billing_inv sample_settled_db \<and> posts sample_open_db sample_settled_db ''a'' ''k'' (- 2) (- 4)"
  using settle_accounts [OF sample_open_inv sample_open_matches sample_settle] sample_open_row
  by (auto simp: sample_reserved_def)


theorem settle_within_budgets_witness:
  "\<exists>acct. tget (credit_accounts sample_open_db) ''a'' = Some acct \<and> (4::int) \<le> ca_available acct + 2"
proof -
  have "tget (key_budget_state sample_open_db) (ur_key_id sample_reserved) =
      Some \<lparr>kb_settled_lifetime = 0, kb_reserved = 2, kb_updated_at = 120001\<rparr>"
    by (simp add: sample_open_db_def sample_eval)
  moreover have "in_i64 (kb_reserved \<lparr>kb_settled_lifetime = 0, kb_reserved = 2, kb_updated_at = 120001\<rparr>)"
    by (simp add: in_i64_def i64_bounds)
  ultimately have "\<exists>acct. tget (credit_accounts sample_open_db) (ur_account_id sample_reserved) = Some acct \<and>
      4 \<le> ca_available acct + ur_reserved_micros sample_reserved"
    using settle_within_budgets [OF sample_open_inv sample_open_matches sample_open_row(2,1) _ _ sample_settle] by blast
  then show ?thesis by (simp add: sample_reserved_def)
qed

theorem settle_allocates_cycles_witness:
  "cycles_advance sample_open_db sample_settled_db \<and> entry_allocated sample_settled_db ''u1'' = 3"
proof -
  have "usable_cycles sample_open_db (ur_account_id sample_reserved) 130000 = [(''c'', 3)]"
    by (simp add: usable_cycles_def cycle_usable_def sample_open_db_def sample_cycle_def sample_eval)
  moreover have "entry_allocated sample_open_db ''u1'' = 0"
    by (simp add: entry_allocated_def sample_open_db_def sample_eval)
  ultimately show ?thesis
    using settle_allocates_cycles [OF sample_open_inv sample_open_matches sample_open_row(2,1) sample_settle] by simp
qed

definition sample_confirmed_db :: billing_db where
  "sample_confirmed_db = sample_settled_db\<lparr>rate_limit_windows :=
     [((''k'', 120000), \<lparr>rw_requests = 1, rw_tokens = 0\<rparr>)]\<rparr>"

abbreviation sample_locked_db :: billing_db where
  "sample_locked_db \<equiv> sample_open_db\<lparr>key_budget_state :=
      [(''k'', \<lparr>kb_settled_lifetime = 0, kb_reserved = 2, kb_updated_at = 130000\<rparr>)]\<rparr>"

lemma sample_confirm_post:
  "post_settlement (claim_row sample_locked_db ''r1'' sample_row 4 130000)
     sample_reserved default_usage True 4 130000 ''u1'' sample_aid = Inr sample_confirmed_db"
  by (simp add: post_settlement_def settle_key_budget_def add_daily_rollup_def settle_account_def
      add_account_usage_def settle_rate_window_def insert_usage_entry_def insert_usage_event_def allocate_usage_def
      usable_cycles_def cycle_usable_def consume_cycle_def insert_allocation_def sample_aid_def ledger_insert_def
      ledger_conflict_def usage_entry_def claim_row_def sample_confirmed_db_def sample_settled_db_def
      sample_open_db_def sample_cycle_def default_usage_def total_tokens_def total_input_tokens_def sample_eval)

lemma sample_confirm:
  "settle_confirmed_image_charge_in_transaction sample_dp sample_open_db sample_reserved 130000 4 ''u1'' sample_aid
     = Inr (sample_confirmed_db, 4)"
proof -
  have lock: "lock_key_budget_state sample_open_db ''k'' 130000 = Inr (sample_locked_db, 0, 2)"
    "lock_key_budget_state sample_locked_db ''k'' 130000 = Inr (sample_locked_db, 0, 2)"
    by (simp_all add: lock_key_budget_state_def sample_open_db_def sample_eval)
  have row: "tget (usage_reservations sample_locked_db) ''r1'' = Some sample_row" "rr_status sample_row = Reserved"
    "rr_tpm_window_applied sample_row"
    by (simp_all add: sample_open_db_def sample_eval)
  have ids: "ur_key_id sample_reserved = ''k''" "ur_id sample_reserved = ''r1''" "ur_mode sample_reserved = Prepaid"
    by (simp_all add: sample_reserved_def)
  have guards: "confirmed_guards sample_locked_db sample_reserved 130000 4 0 = Inr ()"
    by (simp add: confirmed_guards_def add_checked_def pending_metered_def key_budget_daily_settled_def
        sample_open_db_def sample_state_eval tget_def tsum_def ok_or_def checked_def in_i64_def i64_bounds sql_int_def
        enforces_prepaid_limits_def)
  have "validate_token_usage default_usage = Inr ()" "calculated_charge sample_reserved default_usage (Some 4) = Inr 4"
    by (simp_all add: validate_token_usage_def token_count_ok_def default_usage_def calculated_charge_def)
  then have "settle_token_usage_with_explicit_charge sample_dp sample_locked_db sample_reserved default_usage 130000
     (Some 4) ''u1'' sample_aid = Inr (sample_confirmed_db, 4)"
    using sample_cap sample_confirm_post row ids lock
    by (simp add: settle_token_usage_with_explicit_charge_def settle_prepaid_def enforces_prepaid_limits_def Let_def)
  then show ?thesis using lock guards ids
    by (simp add: settle_confirmed_image_charge_in_transaction_def ensure_def)
qed

theorem confirmed_charge_exact_witness:
  "billing_inv sample_confirmed_db \<and> posts sample_open_db sample_confirmed_db ''a'' ''k'' (- 2) (- 4)"
  using confirmed_charge_exact [OF sample_open_inv sample_open_matches sample_confirm] sample_open_row
  by (auto simp: sample_reserved_def)

end
