(* ===== verification/Ledger_Grants.thy ===== *)
theory Ledger_Grants
  imports Settle_Usage
begin

text \<open>
  Granting credit and reversing a grant (\<open>src/src/db/billing/ledger.rs\<close>): the lifetime usage of
  an account, the idempotent grant, the reversal that is allowed only while no usage has
  happened since, and the projection of metered usage. \<open>lid\<close> is the identifier
  \<open>Uuid::now_v7()\<close> draws for the new ledger entry.
\<close>

subsection \<open>Lifetime usage\<close>

definition unprojected :: "billing_db \<Rightarrow> uuid \<Rightarrow> uuid \<Rightarrow> bool" where
  "unprojected db a rid = (case tget (metered_outbox db) rid of
      None \<Rightarrow> False | Some x \<Rightarrow> ob_account_id x = a \<and> ob_projected_at x = None)"

definition ledger_usage :: "billing_db \<Rightarrow> uuid \<Rightarrow> int" where
  "ledger_usage db a = tsum (\<lambda>_ l. if le_account_id l = a \<and> le_kind l = Usage \<and> \<not> unprojected db a (le_source l)
     then (if le_amount l < 0 then - le_amount l else 0) else 0) (ledger_entries db)"

definition ensure_account_usage_state :: "billing_db \<Rightarrow> uuid \<Rightarrow> int \<Rightarrow> billing_db res" where
  "ensure_account_usage_state db a now =
     (if tget (credit_accounts db) a = None \<or> tget (account_usage_state db) a \<noteq> None then Inr db
      else rbind (sql_int (ledger_usage db a)) (\<lambda>m.
           Inr (db\<lparr>account_usage_state :=
             tput a \<lparr>us_settled_lifetime = m, us_updated_at = now\<rparr> (account_usage_state db)\<rparr>)))"

definition account_usage_snapshot :: "billing_db \<Rightarrow> uuid \<Rightarrow> int \<Rightarrow> (billing_db \<times> int) res" where
  "account_usage_snapshot db a now =
     rbind (ensure_account_usage_state db a now) (\<lambda>db.
     rbind (ok_or (tget (account_usage_state db) a) NotFound) (\<lambda>s.
     rbind (pending_metered db a) (\<lambda>pending.
     rbind (sql_int (us_settled_lifetime s + pending)) (\<lambda>m. Inr (db, m)))))"

definition project_account_usage_in_transaction :: "billing_db \<Rightarrow> uuid \<Rightarrow> int \<Rightarrow> int \<Rightarrow> billing_db res" where
  "project_account_usage_in_transaction db a actual now =
     rbind (ensure (tget (credit_accounts db) a \<noteq> None)
       (Conflict ''metered usage projection account no longer exists'')) (\<lambda>_.
     rbind (ensure (0 \<le> actual) (Conflict ''metered usage projection amount must be non-negative'')) (\<lambda>_.
     rbind (ok_or (checked (i64_max - actual))
       (Conflict ''metered usage projection would overflow account lifetime usage'')) (\<lambda>limit.
     rbind (ensure_account_usage_state db a now) (\<lambda>db.
     rbind (ok_or (case tget (account_usage_state db) a of
         None \<Rightarrow> None | Some s \<Rightarrow> if us_settled_lifetime s \<le> limit then Some s else None)
       (Conflict ''metered usage projection would overflow account lifetime usage'')) (\<lambda>s.
     Inr (db\<lparr>account_usage_state := tput a \<lparr>us_settled_lifetime = us_settled_lifetime s + actual,
        us_updated_at = now\<rparr> (account_usage_state db)\<rparr>))))))"

subsection \<open>Grants\<close>

definition validate_source :: "string \<Rightarrow> unit res" where
  "validate_source source = ensure (\<not> (source = [] \<or> 200 < length source))
     (BadRequest ''source must contain 1 to 200 characters'')"

text \<open>The first row a \<open>SELECT\<close> on the account, the kind and the idempotency key returns.\<close>

definition find_entry ::
  "(uuid, ledger_entry) table \<Rightarrow> uuid \<Rightarrow> (ledger_kind \<Rightarrow> bool) \<Rightarrow> string \<Rightarrow> (uuid \<times> ledger_entry) option" where
  "find_entry t a kind key = find (\<lambda>(_, e). le_account_id e = a \<and> kind (le_kind e) \<and> le_idempotency_key e = Some key) t"

definition grant_entry :: "uuid \<Rightarrow> int \<Rightarrow> string \<Rightarrow> string \<Rightarrow> string \<Rightarrow> int \<Rightarrow> int \<Rightarrow> ledger_entry" where
  "grant_entry a amount currency source key now snapshot =
     \<lparr>le_account_id = a, le_key_id = None, le_kind = Grant, le_amount = amount, le_currency = currency,
      le_source = source, le_idempotency_key = Some key, le_reference_entry_id = None,
      le_entitlement_cycle_id = None, le_created_at = now, le_usage_snapshot = Some snapshot\<rparr>"

definition credit_account_by :: "billing_db \<Rightarrow> uuid \<Rightarrow> int \<Rightarrow> int \<Rightarrow> billing_db res" where
  "credit_account_by db a amount now = (case tget (credit_accounts db) a of
      None \<Rightarrow> Inr db
    | Some acct \<Rightarrow> rbind (sql_int (ca_available acct + amount)) (\<lambda>available.
        Inr (db\<lparr>credit_accounts :=
          tput a (acct\<lparr>ca_available := available, ca_updated_at := now\<rparr>) (credit_accounts db)\<rparr>)))"

definition grant_replay :: "billing_db \<Rightarrow> uuid \<Rightarrow> int \<Rightarrow> string \<Rightarrow> string \<Rightarrow> (billing_db \<times> string) res" where
  "grant_replay db a amount source key =
     rbind (ok_or (find_entry (ledger_entries db) a (\<lambda>k. k = Grant) key) Forbidden) (\<lambda>(_, e).
     rbind (ensure (le_amount e = amount \<and> le_source e = source)
       (BadRequest ''Idempotency-Key was already used for a different grant'')) (\<lambda>_.
     Inr (db, micros_to_decimal_string (le_amount e))))"

text \<open>The insertion under the idempotency key, and the credit that only a new entry brings.\<close>

definition grant_post ::
  "billing_db \<Rightarrow> uuid \<Rightarrow> int \<Rightarrow> string \<Rightarrow> string \<Rightarrow> string \<Rightarrow> int \<Rightarrow> int \<Rightarrow> uuid \<Rightarrow> (billing_db \<times> string) res" where
  "grant_post db a micros currency source key now snapshot lid =
     (let (t, n) = ledger_insert_or_ignore lid (grant_entry a micros currency source key now snapshot)
           (ledger_entries db) in
      if n = 0 then grant_replay db a micros source key
      else rbind (credit_account_by (db\<lparr>ledger_entries := t\<rparr>) a micros now) (\<lambda>db.
           Inr (db, micros_to_decimal_string micros)))"

definition grant ::
  "billing_db \<Rightarrow> uuid \<Rightarrow> decimal \<Rightarrow> string \<Rightarrow> string \<Rightarrow> int \<Rightarrow> uuid \<Rightarrow> (billing_db \<times> string) res" where
  "grant db a amount source0 key now lid =
     rbind (validate_idempotency_key key ''Idempotency-Key'') (\<lambda>_.
     let source = trim source0 in
     rbind (validate_source source) (\<lambda>_.
     rbind (decimal_to_micros amount) (\<lambda>micros.
     rbind (ensure (0 < micros) (BadRequest ''grant amount must be positive'')) (\<lambda>_.
     rbind (ok_or (tget (credit_accounts db) a) NotFound) (\<lambda>acct.
     rbind (account_usage_snapshot db a now) (\<lambda>(db, snapshot).
     grant_post db a micros (ca_currency acct) source key now snapshot lid))))))"

subsection \<open>Reversals\<close>

definition reversal_entry :: "uuid \<Rightarrow> int \<Rightarrow> string \<Rightarrow> string \<Rightarrow> string \<Rightarrow> uuid \<Rightarrow> int \<Rightarrow> ledger_entry" where
  "reversal_entry a amount currency source key original now =
     \<lparr>le_account_id = a, le_key_id = None, le_kind = GrantReversal, le_amount = - amount, le_currency = currency,
      le_source = source, le_idempotency_key = Some key, le_reference_entry_id = Some original,
      le_entitlement_cycle_id = None, le_created_at = now, le_usage_snapshot = None\<rparr>"

definition reversal_replay :: "billing_db \<Rightarrow> uuid \<Rightarrow> uuid \<Rightarrow> string \<Rightarrow> (billing_db \<times> string) res" where
  "reversal_replay db a original key =
     (case find_entry (ledger_entries db) a (\<lambda>k. k = GrantReversal) key of
        Some (_, e) \<Rightarrow> rbind (ensure (le_reference_entry_id e = Some original)
            (BadRequest ''Idempotency-Key was already used for a different grant reversal'')) (\<lambda>_.
          Inr (db, micros_to_decimal_string (sat \<bar>le_amount e\<bar>)))
      | None \<Rightarrow> (case find_entry (ledger_entries db) a (\<lambda>_. True) key of
          Some _ \<Rightarrow> Inl (BadRequest ''Idempotency-Key was already used for a different ledger operation'')
        | None \<Rightarrow> Inl (BadRequest ''grant was already reversed'')))"

definition debit_account_by :: "billing_db \<Rightarrow> uuid \<Rightarrow> string \<Rightarrow> int \<Rightarrow> int \<Rightarrow> billing_db res" where
  "debit_account_by db a currency amount now = (case tget (credit_accounts db) a of
      None \<Rightarrow> Inl NotFound
    | Some acct \<Rightarrow> rbind (ensure (ca_currency acct = currency \<and> amount \<le> ca_available acct) QuotaExceeded) (\<lambda>_.
        rbind (sql_int (ca_available acct - amount)) (\<lambda>available.
        Inr (db\<lparr>credit_accounts :=
          tput a (acct\<lparr>ca_available := available, ca_updated_at := now\<rparr>) (credit_accounts db)\<rparr>))))"

definition reversal_post ::
  "billing_db \<Rightarrow> uuid \<Rightarrow> uuid \<Rightarrow> int \<Rightarrow> string \<Rightarrow> string \<Rightarrow> string \<Rightarrow> int \<Rightarrow> uuid \<Rightarrow> (billing_db \<times> string) res" where
  "reversal_post db a original micros currency source key now lid =
     (let (t, n) = ledger_insert_or_ignore lid (reversal_entry a micros currency source key original now)
           (ledger_entries db) in
      if n = 0 then reversal_replay db a original key
      else rbind (debit_account_by (db\<lparr>ledger_entries := t\<rparr>) a currency micros now) (\<lambda>db.
           Inr (db, micros_to_decimal_string micros)))"

definition reverse_grant ::
  "billing_db \<Rightarrow> uuid \<Rightarrow> string \<Rightarrow> string \<Rightarrow> string \<Rightarrow> int \<Rightarrow> uuid \<Rightarrow> (billing_db \<times> string) res" where
  "reverse_grant db a grant_key source0 key now lid =
     rbind (validate_idempotency_key grant_key ''grant_idempotency_key'') (\<lambda>_.
     rbind (validate_idempotency_key key ''Idempotency-Key'') (\<lambda>_.
     let source = trim source0 in
     rbind (validate_source source) (\<lambda>_.
     rbind (ensure (tget (credit_accounts db) a \<noteq> None) NotFound) (\<lambda>_.
     rbind (ok_or (find_entry (ledger_entries db) a (\<lambda>k. k = Grant) grant_key) NotFound) (\<lambda>(original, e).
     rbind (ok_or (le_usage_snapshot e) (db_error ''column_decode'')) (\<lambda>snapshot.
     rbind (account_usage_snapshot db a now) (\<lambda>(db, current).
     rbind (ensure (current = snapshot)
       (BadRequest ''grant cannot be automatically reversed after account usage'')) (\<lambda>_.
     reversal_post db a original (le_amount e) (le_currency e) source key now lid))))))))"

subsection \<open>Lemmas\<close>

lemma ensure_account_usage_state_Inr:
  assumes "ensure_account_usage_state db a now = Inr db'"
  shows "\<exists>t. db' = db\<lparr>account_usage_state := t\<rparr>"
proof (cases "db' = db")
  case True
  then have "db' = db\<lparr>account_usage_state := account_usage_state db\<rparr>" by simp
  then show ?thesis by blast
qed (use assms in \<open>auto simp: ensure_account_usage_state_def res_simps split: if_splits\<close>)

lemma account_usage_snapshot_frame:
  assumes "account_usage_snapshot db a now = Inr (db', m)"
  shows "\<exists>t. db' = db\<lparr>account_usage_state := t\<rparr>"
  using assms ensure_account_usage_state_Inr by (auto simp: account_usage_snapshot_def rbind_Inr_iff)

text \<open>Once the state row exists a snapshot reads it and changes nothing.\<close>

lemma account_usage_snapshot_again:
  assumes "account_usage_snapshot db a now = Inr (db', m)"
    and "account_usage_state db2 = account_usage_state db'" and "metered_outbox db2 = metered_outbox db'"
  shows "account_usage_snapshot db2 a now2 = Inr (db2, m)"
proof -
  have "pending_metered db2 a = pending_metered db' a" using assms(3) by (simp add: pending_metered_def)
  with assms show ?thesis
    by (auto simp: account_usage_snapshot_def ensure_account_usage_state_def rbind_Inr_iff ok_or_def sql_int_def
        split: option.splits if_splits)
qed

lemma ledger_insert_or_ignore_cases:
  assumes "ledger_insert_or_ignore i e t = (t', n)"
  obtains "ledger_conflict i e t" "t' = t" "n = 0" | "\<not> ledger_conflict i e t" "t' = tput i e t" "n = 1"
  using assms by (auto simp: ledger_insert_or_ignore_def split: if_splits)

lemma find_entry_fresh:
  assumes "\<not> ledger_conflict i e t" and "le_idempotency_key e = Some key" and "kind (le_kind e)"
  shows "find_entry (tput i e t) (le_account_id e) kind key = Some (i, e)"
proof -
  have none: "find (\<lambda>(_, x). le_account_id x = le_account_id e \<and> kind (le_kind x) \<and> le_idempotency_key x = Some key) t = None"
    using assms(1,2) by (auto simp: ledger_conflict_def find_None_iff list_ex_iff)
  show ?thesis
    using none assms(2,3) ledger_conflict_fresh [OF assms(1)]
    by (simp add: find_entry_def tput_fresh find_None_append)
qed

lemma find_entry_Some:
  "find_entry t a kind key = Some (i, e) \<Longrightarrow>
     (i, e) \<in> set t \<and> le_account_id e = a \<and> kind (le_kind e) \<and> le_idempotency_key e = Some key"
  unfolding find_entry_def find_Some_iff by (auto intro: nth_mem) (metis nth_mem)

text \<open>A key an account has used conflicts with every further insertion under it.\<close>

lemma used_key_conflicts:
  assumes "(i, x) \<in> set t" and "le_account_id x = le_account_id e" and "le_idempotency_key x = le_idempotency_key e"
    and "le_idempotency_key e \<noteq> None"
  shows "ledger_conflict lid e t"
  using assms by (auto simp: ledger_conflict_def list_ex_iff)

lemma idle_posts:
  assumes "billing_inv db" and "db' = db\<lparr>account_usage_state := t\<rparr>"
  shows "posts db db' a k 0 0"
  using assms by (simp add: posts_def posts_account_same posts_holds_same posts_books_same posts_key_same frame_simps)

lemma grant_post_Inr:
  assumes "grant_post db a micros currency source key now snapshot lid = Inr (db', s)"
  shows "if ledger_conflict lid (grant_entry a micros currency source key now snapshot) (ledger_entries db)
    then grant_replay db a micros source key = Inr (db', s)
    else credit_account_by (db\<lparr>ledger_entries := tput lid (grant_entry a micros currency source key now snapshot)
           (ledger_entries db)\<rparr>) a micros now = Inr db' \<and> s = micros_to_decimal_string micros"
  using assms by (auto simp: grant_post_def ledger_insert_or_ignore_def rbind_Inr_iff split: if_splits)

lemma grant_stages:
  assumes "grant db a amount source0 key now lid = Inr (db', s)"
  obtains micros acct db1 snapshot where
    "validate_idempotency_key key ''Idempotency-Key'' = Inr ()" "validate_source (trim source0) = Inr ()"
    "decimal_to_micros amount = Inr micros" "0 < micros" "tget (credit_accounts db) a = Some acct"
    "account_usage_snapshot db a now = Inr (db1, snapshot)"
    "grant_post db1 a micros (ca_currency acct) (trim source0) key now snapshot lid = Inr (db', s)"
  using assms unfolding grant_def Let_def
  by (auto simp: rbind_Inr_iff ensure_Inr_iff ok_or_Inr_iff)

lemma credit_account_by_Some:
  "tget (credit_accounts db) a = Some acct \<Longrightarrow> credit_account_by db a m now = Inr db' \<longleftrightarrow>
     in_i64 (ca_available acct + m) \<and> db' = db\<lparr>credit_accounts :=
       tput a (acct\<lparr>ca_available := ca_available acct + m, ca_updated_at := now\<rparr>) (credit_accounts db)\<rparr>"
  by (auto simp: credit_account_by_def res_simps)

lemma grant_replay_Inr:
  "grant_replay db a m source key = Inr (db', s) \<longleftrightarrow>
     (\<exists>i e. find_entry (ledger_entries db) a (\<lambda>k. k = Grant) key = Some (i, e) \<and> le_amount e = m \<and>
        le_source e = source \<and> db' = db \<and> s = micros_to_decimal_string m)"
  by (auto simp: grant_replay_def rbind_Inr_iff ok_or_Inr_iff ensure_Inr_iff)

text \<open>A new grant: the entry, the credit, and nothing else.\<close>

lemma grant_new_posts:
  assumes inv: "billing_inv db" and acct: "tget (credit_accounts db) a = Some acct" and pos: "0 < micros"
    and fresh: "\<not> ledger_conflict lid e (ledger_entries db)"
    and e: "e = grant_entry a micros currency source key now snapshot"
    and ok: "credit_account_by (db1\<lparr>ledger_entries := tput lid e (ledger_entries db)\<rparr>) a micros now = Inr db'"
    and db1: "db1 = db\<lparr>account_usage_state := t\<rparr>"
  shows "posts db db' a k 0 micros"
proof -
  have acct1: "tget (credit_accounts (db1\<lparr>ledger_entries := tput lid e (ledger_entries db)\<rparr>)) a = Some acct"
    using acct by (simp add: db1)
  have db': "db' = db\<lparr>account_usage_state := t, ledger_entries := tput lid e (ledger_entries db),
      credit_accounts := tput a (acct\<lparr>ca_available := ca_available acct + micros, ca_updated_at := now\<rparr>)
        (credit_accounts db)\<rparr>"
    and fits: "in_i64 (ca_available acct + micros)"
    using ok [unfolded credit_account_by_Some [OF acct1]] by (simp_all add: db1)
  have "posts_account db db' a 0 micros"
    using pos fits balance_ok [OF inv acct]
    by (intro posts_account_put [OF inv acct], simp add: db') (simp_all add: amount_ok_def in_i64_def)
  moreover have "posts_books db db' a micros"
    using posts_books_fresh [of db' lid e db] ledger_conflict_fresh [OF fresh]
    by (simp add: db' e grant_entry_def touches_balance_def)
  moreover have "wf_tables db'" using inv by (simp add: frame_simps db')
  ultimately show ?thesis using inv by (simp add: posts_def posts_key_same posts_holds_same db')
qed

text \<open>Either way of a grant leaves an entry that a repetition finds.\<close>

lemma grant_outcome:
  assumes inv: "billing_inv db" and acct: "tget (credit_accounts db) a = Some acct" and pos: "0 < micros"
    and snap: "account_usage_snapshot db a now = Inr (db1, snapshot)"
    and post: "grant_post db1 a micros (ca_currency acct) source key now snapshot lid = Inr (db', s)"
  shows "(\<exists>i e. find_entry (ledger_entries db') a (\<lambda>k. k = Grant) key = Some (i, e) \<and> le_amount e = micros \<and>
      le_source e = source) \<and> s = micros_to_decimal_string micros \<and>
    (posts db db' a k 0 micros \<or> ledger_entries db' = ledger_entries db \<and> posts db db' a k 0 0) \<and>
    account_usage_state db' = account_usage_state db1 \<and> metered_outbox db' = metered_outbox db1 \<and>
    (\<exists>acct'. tget (credit_accounts db') a = Some acct')"
proof -
  let ?e = "grant_entry a micros (ca_currency acct) source key now snapshot"
  obtain t where db1: "db1 = db\<lparr>account_usage_state := t\<rparr>" using account_usage_snapshot_frame [OF snap] ..
  have same: "ledger_entries db1 = ledger_entries db" by (simp add: db1)
  have c: "if ledger_conflict lid ?e (ledger_entries db) then grant_replay db1 a micros source key = Inr (db', s)
    else credit_account_by (db1\<lparr>ledger_entries := tput lid ?e (ledger_entries db)\<rparr>) a micros now = Inr db' \<and>
      s = micros_to_decimal_string micros"
    using grant_post_Inr [OF post, unfolded same] .
  show ?thesis
  proof (cases "ledger_conflict lid ?e (ledger_entries db)")
    case True
    with c show ?thesis using idle_posts [OF inv db1] acct by (auto simp: grant_replay_Inr db1)
  next
    case False
    with c have ok: "credit_account_by (db1\<lparr>ledger_entries := tput lid ?e (ledger_entries db)\<rparr>) a micros now = Inr db'"
      and s: "s = micros_to_decimal_string micros" by auto
    have acct1: "tget (credit_accounts (db1\<lparr>ledger_entries := tput lid ?e (ledger_entries db)\<rparr>)) a = Some acct"
      using acct by (simp add: db1)
    show ?thesis
      using grant_new_posts [OF inv acct pos False refl ok db1, of k] s
        ok [unfolded credit_account_by_Some [OF acct1]] find_entry_fresh [OF False, of key "\<lambda>k. k = Grant"]
      by (simp add: grant_entry_def db1 tbl_simps)
  qed
qed

subsection \<open>Properties\<close>


lemma reversal_post_Inr:
  assumes "reversal_post db a original micros currency source key now lid = Inr (db', s)"
  shows "if ledger_conflict lid (reversal_entry a micros currency source key original now) (ledger_entries db)
    then reversal_replay db a original key = Inr (db', s)
    else debit_account_by (db\<lparr>ledger_entries := tput lid (reversal_entry a micros currency source key original now)
           (ledger_entries db)\<rparr>) a currency micros now = Inr db' \<and> s = micros_to_decimal_string micros"
  using assms by (auto simp: reversal_post_def ledger_insert_or_ignore_def rbind_Inr_iff split: if_splits)

lemma reversal_replay_Inr:
  assumes "reversal_replay db a original key = Inr (db', s)"
  shows "db' = db \<and> (\<exists>i x. (i, x) \<in> set (ledger_entries db) \<and> le_kind x = GrantReversal \<and>
    le_reference_entry_id x = Some original)"
  using assms find_entry_Some
  by (fastforce simp: reversal_replay_def rbind_Inr_iff ensure_Inr_iff split: option.splits prod.splits)

lemma debit_account_by_Inr:
  "debit_account_by db a currency m now = Inr db' \<longleftrightarrow>
     (\<exists>acct. tget (credit_accounts db) a = Some acct \<and> ca_currency acct = currency \<and> m \<le> ca_available acct \<and>
        in_i64 (ca_available acct - m) \<and> db' = db\<lparr>credit_accounts :=
       tput a (acct\<lparr>ca_available := ca_available acct - m, ca_updated_at := now\<rparr>) (credit_accounts db)\<rparr>)"
  by (auto simp: debit_account_by_def res_simps split: option.splits)

lemma reverse_stages:
  assumes "reverse_grant db a grant_key source0 key now lid = Inr (db', s)"
  obtains original e snapshot db1 where
    "validate_idempotency_key grant_key ''grant_idempotency_key'' = Inr ()"
    "validate_idempotency_key key ''Idempotency-Key'' = Inr ()" "validate_source (trim source0) = Inr ()"
    "tget (credit_accounts db) a \<noteq> None"
    "find_entry (ledger_entries db) a (\<lambda>k. k = Grant) grant_key = Some (original, e)"
    "le_usage_snapshot e = Some snapshot" "account_usage_snapshot db a now = Inr (db1, snapshot)"
    "reversal_post db1 a original (le_amount e) (le_currency e) (trim source0) key now lid = Inr (db', s)"
  using assms unfolding reverse_grant_def Let_def
  by (auto simp: rbind_Inr_iff ensure_Inr_iff ok_or_Inr_iff)

text \<open>Every successful reversal leaves a reversal entry that refers to the grant.\<close>

lemma reverse_outcome:
  assumes inv: "billing_inv db" and ok: "reverse_grant db a grant_key source0 key now lid = Inr (db', s)"
  obtains original e where "find_entry (ledger_entries db) a (\<lambda>k. k = Grant) grant_key = Some (original, e)"
    "find_entry (ledger_entries db') a (\<lambda>k. k = Grant) grant_key = Some (original, e)"
    "\<exists>i x. (i, x) \<in> set (ledger_entries db') \<and> le_kind x = GrantReversal \<and> le_reference_entry_id x = Some original"
    "posts db db' a k 0 (- le_amount e) \<and> s = micros_to_decimal_string (le_amount e) \<or>
     ledger_entries db' = ledger_entries db \<and> credit_accounts db' = credit_accounts db \<and> posts db db' a k 0 0"
proof (rule reverse_stages [OF ok])
  fix original snapshot db1 and e :: ledger_entry
  let ?x = "reversal_entry a (le_amount e) (le_currency e) (trim source0) key original now"
  assume f: "find_entry (ledger_entries db) a (\<lambda>k. k = Grant) grant_key = Some (original, e)"
    and snap: "account_usage_snapshot db a now = Inr (db1, snapshot)"
    and post: "reversal_post db1 a original (le_amount e) (le_currency e) (trim source0) key now lid = Inr (db', s)"
  obtain t where db1: "db1 = db\<lparr>account_usage_state := t\<rparr>" using account_usage_snapshot_frame [OF snap] ..
  have same: "ledger_entries db1 = ledger_entries db" by (simp add: db1)
  note c = reversal_post_Inr [OF post, unfolded same]
  show thesis
  proof (cases "ledger_conflict lid ?x (ledger_entries db)")
    case True
    with c have "reversal_replay db1 a original key = Inr (db', s)" by simp
    from reversal_replay_Inr [OF this] show thesis
      using f idle_posts [OF inv db1] by (intro that [OF f]) (auto simp: db1)
  next
    case False
    note fresh = ledger_conflict_fresh [OF False]
    from False c have s: "s = micros_to_decimal_string (le_amount e)" by simp
    from False c obtain acct where acct: "tget (credit_accounts db) a = Some acct" "le_amount e \<le> ca_available acct"
        "in_i64 (ca_available acct - le_amount e)"
      and db': "db' = db1\<lparr>ledger_entries := tput lid ?x (ledger_entries db), credit_accounts := tput a
        (acct\<lparr>ca_available := ca_available acct - le_amount e, ca_updated_at := now\<rparr>) (credit_accounts db)\<rparr>"
      by (auto simp: debit_account_by_Inr db1)
    have kept: "find_entry (ledger_entries db') a (\<lambda>k. k = Grant) grant_key = Some (original, e)"
      using f fresh by (simp add: db' tput_fresh find_entry_def find_Some_append)
    have "(lid, ?x) \<in> set (ledger_entries db')" using fresh by (simp add: db' tput_fresh)
    then have mark: "\<exists>i x. (i, x) \<in> set (ledger_entries db') \<and> le_kind x = GrantReversal \<and>
        le_reference_entry_id x = Some original"
      by (intro exI [of _ lid] exI [of _ ?x]) (simp add: reversal_entry_def)
    have "posts_account db db' a 0 (- le_amount e)"
      using acct by (intro posts_account_put [OF inv acct(1)], simp add: db' db1) (simp_all add: amount_ok_def in_i64_def)
    moreover have "posts_books db db' a (- le_amount e)"
      using posts_books_fresh [of db' lid ?x db] fresh by (simp add: db' reversal_entry_def touches_balance_def)
    moreover have "wf_tables db'" using inv by (simp add: frame_simps db' db1)
    ultimately have "posts db db' a k 0 (- le_amount e)"
      using inv by (simp add: posts_def posts_key_same posts_holds_same db' db1)
    then show thesis using s by (intro that [OF f kept mark] disjI1 conjI)
  qed
qed

text \<open>
  C37. A grant is reversed at most once. A reversal keeps the accounting invariant and takes
  back exactly the granted amount, which the balance must cover; whatever key, source and
  time a later reversal of the same grant uses, it moves no money and writes nothing.
\<close>

theorem reverse_grant_at_most_once:
  assumes "billing_inv db" and "reverse_grant db a grant_key source key now lid = Inr (db', s)"
  shows "billing_inv db' \<and>
    (\<exists>original e. find_entry (ledger_entries db) a (\<lambda>k. k = Grant) grant_key = Some (original, e) \<and>
      (posts db db' a k 0 (- le_amount e) \<or>
       ledger_entries db' = ledger_entries db \<and> credit_accounts db' = credit_accounts db)) \<and>
    (\<forall>source2 key2 now2 lid2 db2 s2. reverse_grant db' a grant_key source2 key2 now2 lid2 = Inr (db2, s2) \<longrightarrow>
      ledger_entries db2 = ledger_entries db' \<and> credit_accounts db2 = credit_accounts db')"
proof (rule reverse_outcome [OF assms, where k = k])
  fix original and e :: ledger_entry
  assume f: "find_entry (ledger_entries db) a (\<lambda>k. k = Grant) grant_key = Some (original, e)"
    "find_entry (ledger_entries db') a (\<lambda>k. k = Grant) grant_key = Some (original, e)"
    and x: "\<exists>i x. (i, x) \<in> set (ledger_entries db') \<and> le_kind x = GrantReversal \<and> le_reference_entry_id x = Some original"
    and p: "posts db db' a k 0 (- le_amount e) \<and> s = micros_to_decimal_string (le_amount e) \<or>
      ledger_entries db' = ledger_entries db \<and> credit_accounts db' = credit_accounts db \<and> posts db db' a k 0 0"
  have "ledger_entries db2 = ledger_entries db' \<and> credit_accounts db2 = credit_accounts db'"
    if again: "reverse_grant db' a grant_key source2 key2 now2 lid2 = Inr (db2, s2)" for source2 key2 now2 lid2 db2 s2
  proof (rule reverse_stages [OF again])
    fix original2 snapshot db1 and e2 :: ledger_entry
    assume f2: "find_entry (ledger_entries db') a (\<lambda>k. k = Grant) grant_key = Some (original2, e2)"
      and snap: "account_usage_snapshot db' a now2 = Inr (db1, snapshot)"
      and post: "reversal_post db1 a original2 (le_amount e2) (le_currency e2) (trim source2) key2 now2 lid2 = Inr (db2, s2)"
    obtain t where db1: "db1 = db'\<lparr>account_usage_state := t\<rparr>" using account_usage_snapshot_frame [OF snap] ..
    have "ledger_conflict lid2 (reversal_entry a (le_amount e2) (le_currency e2) (trim source2) key2 original2 now2)
        (ledger_entries db1)"
      using x f f2 by (auto simp: ledger_conflict_def list_ex_iff reversal_entry_def db1)
    with reversal_post_Inr [OF post] have "reversal_replay db1 a original2 key2 = Inr (db2, s2)" by simp
    from reversal_replay_Inr [OF this] show ?thesis by (simp add: db1)
  qed
  moreover have "billing_inv db'" using p posts_inv [OF assms(1)] by blast
  ultimately show ?thesis using f p by blast
qed

text \<open>
  A new grant can be taken back: right after a grant under an unused key, a reversal with
  an unused key of its own succeeds, reports the granted amount, and leaves every account
  with the money it had before.
\<close>

theorem grant_reverse_roundtrip:
  assumes inv: "billing_inv db" and granted: "grant db a amount source key now lid = Inr (db1, s)"
    and unused: "find_entry (ledger_entries db) a (\<lambda>_. True) key = None"
      "find_entry (ledger_entries db) a (\<lambda>_. True) key2 = None" "key2 \<noteq> key"
    and fresh: "tget (ledger_entries db) lid = None" "tget (ledger_entries db) lid2 = None" "lid2 \<noteq> lid"
      "\<forall>(i, x) \<in> set (ledger_entries db). le_reference_entry_id x \<noteq> Some lid"
    and valid: "validate_idempotency_key key ''grant_idempotency_key'' = Inr ()"
      "validate_idempotency_key key2 ''Idempotency-Key'' = Inr ()" "validate_source (trim source2) = Inr ()"
    and range: "\<forall>acct. tget (credit_accounts db) a = Some acct \<longrightarrow> in_i64 (ca_available acct)"
  shows "\<exists>db2. reverse_grant db1 a key source2 key2 now2 lid2 = Inr (db2, s) \<and>
    (\<forall>x. map_option (\<lambda>c. (ca_available c, ca_reserved c)) (tget (credit_accounts db2) x) =
         map_option (\<lambda>c. (ca_available c, ca_reserved c)) (tget (credit_accounts db) x))"
proof (rule grant_stages [OF granted])
  fix micros db0 snapshot and acct :: credit_account
  let ?e = "grant_entry a micros (ca_currency acct) (trim source) key now snapshot"
  let ?x = "reversal_entry a micros (ca_currency acct) (trim source2) key2 lid now2"
  assume acct: "tget (credit_accounts db) a = Some acct"
    and snap: "account_usage_snapshot db a now = Inr (db0, snapshot)"
    and post: "grant_post db0 a micros (ca_currency acct) (trim source) key now snapshot lid = Inr (db1, s)"
  obtain t where db0: "db0 = db\<lparr>account_usage_state := t\<rparr>" using account_usage_snapshot_frame [OF snap] ..
  have none: "\<forall>(i, x) \<in> set (ledger_entries db). \<not> (le_account_id x = a \<and> le_idempotency_key x \<in> {Some key, Some key2})"
    using unused(1,2) by (auto simp: find_entry_def find_None_iff)
  have nc: "\<not> ledger_conflict lid ?e (ledger_entries db)"
    using none fresh(1) by (auto simp: ledger_conflict_def list_ex_iff grant_entry_def)
  have acct0: "tget (credit_accounts (db0\<lparr>ledger_entries := tput lid ?e (ledger_entries db)\<rparr>)) a = Some acct"
    using acct by (simp add: db0)
  have same0: "ledger_entries db0 = ledger_entries db" by (simp add: db0)
  have db1: "db1 = db0\<lparr>ledger_entries := tput lid ?e (ledger_entries db), credit_accounts := tput a
      (acct\<lparr>ca_available := ca_available acct + micros, ca_updated_at := now\<rparr>) (credit_accounts db)\<rparr>"
    and s: "s = micros_to_decimal_string micros"
    using grant_post_Inr [OF post, unfolded same0] nc by (simp_all add: credit_account_by_Some [OF acct0]) (simp add: db0)
  have found: "find_entry (ledger_entries db1) a (\<lambda>k. k = Grant) key = Some (lid, ?e)"
    using find_entry_fresh [OF nc, of key "\<lambda>k. k = Grant"] by (simp add: db1 grant_entry_def)
  have nc2: "\<not> ledger_conflict lid2 ?x (ledger_entries db1)"
    using none fresh unused(3)
    by (auto simp: ledger_conflict_def list_ex_iff reversal_entry_def grant_entry_def db1 tput_fresh tget_def
        map_add_def split: option.splits)
  let ?db2 = "db1\<lparr>ledger_entries := tput lid2 ?x (ledger_entries db1), credit_accounts := tput a
      (acct\<lparr>ca_available := ca_available acct, ca_updated_at := now2\<rparr>) (credit_accounts db1)\<rparr>"
  have "0 \<le> ca_available acct" using balance_ok [OF inv acct] by (simp add: amount_ok_def)
  then have "reversal_post db1 a lid micros (ca_currency acct) (trim source2) key2 now2 lid2 = Inr (?db2, s)"
    using nc2 range acct s
    by (simp add: reversal_post_def ledger_insert_or_ignore_def debit_account_by_def ensure_def sql_int_def db1 tbl_simps)
  moreover have "account_usage_snapshot db1 a now2 = Inr (db1, snapshot)"
    by (rule account_usage_snapshot_again [OF snap]) (simp_all add: db1)
  ultimately have "reverse_grant db1 a key source2 key2 now2 lid2 = Inr (?db2, s)"
    using valid found
    by (simp add: reverse_grant_def Let_def ensure_def ok_or_def grant_entry_def) (simp add: db1 tbl_simps)
  moreover have "map_option (\<lambda>c. (ca_available c, ca_reserved c)) (tget (credit_accounts ?db2) x) =
      map_option (\<lambda>c. (ca_available c, ca_reserved c)) (tget (credit_accounts db) x)" for x
    using acct by (simp add: db1 db0 tbl_simps)
  ultimately show ?thesis by blast
qed

subsection \<open>Witnesses\<close>

lemma sample_texts:
  "validate_idempotency_key ''o2'' f = Inr ()" "validate_idempotency_key ''o3'' f = Inr ()"
  "trim ''buy'' = ''buy''" "validate_source ''buy'' = Inr ()"
  by (simp_all add: validate_idempotency_key_def validate_source_def trim_def trim_start_def trim_end_def
      white_space_def trim_with.simps is_ascii_graphic_def ensure_def Let_def)

definition sample_granted_db :: billing_db where
  "sample_granted_db = sample_db\<lparr>
     credit_accounts := [(''a'', \<lparr>ca_tenant_id = ''t'', ca_currency = ''USD'', ca_available = 5001000, ca_reserved = 0, ca_updated_at = 7\<rparr>)],
     account_usage_state := [(''a'', \<lparr>us_settled_lifetime = 0, us_updated_at = 7\<rparr>)],
     ledger_entries := [(''g'', sample_grant), (''h'', grant_entry ''a'' 5000000 ''USD'' ''buy'' ''o2'' 7 0)]\<rparr>"

lemma sample_grant_ok:
  "grant sample_db ''a'' (Decimal 5 0) ''buy'' ''o2'' 7 ''h'' = Inr (sample_granted_db, micros_to_decimal_string 5000000)"
  by (simp add: grant_def grant_post_def sample_texts account_usage_snapshot_def ensure_account_usage_state_def
      ledger_usage_def pending_metered_def ledger_insert_or_ignore_def ledger_conflict_def grant_entry_def
      credit_account_by_def sample_granted_db_def decimal_to_micros_def decimal_times_million_def sample_eval)


theorem grant_reverse_roundtrip_witness:
  "\<exists>db2. reverse_grant sample_granted_db ''a'' ''o2'' ''buy'' ''o3'' 9 ''i'' =
     Inr (db2, micros_to_decimal_string 5000000) \<and>
     map_option ca_available (tget (credit_accounts db2) ''a'') = Some 1000"
proof -
  have l: "ledger_entries sample_db = [(''g'', sample_grant)]" "le_idempotency_key sample_grant = Some ''order-1''"
    "le_reference_entry_id sample_grant = None" by (simp_all add: sample_db_def sample_grant_def)
  have u: "find_entry (ledger_entries sample_db) ''a'' (\<lambda>_. True) ''o2'' = None"
    "find_entry (ledger_entries sample_db) ''a'' (\<lambda>_. True) ''o3'' = None" "''o3'' \<noteq> ''o2''"
    "tget (ledger_entries sample_db) ''h'' = None" "tget (ledger_entries sample_db) ''i'' = None" "''i'' \<noteq> ''h''"
    "\<forall>(i, x) \<in> set (ledger_entries sample_db). le_reference_entry_id x \<noteq> Some ''h''"
    by (simp_all add: l find_entry_def tget_def)
  have a: "tget (credit_accounts sample_db) ''a'' =
      Some \<lparr>ca_tenant_id = ''t'', ca_currency = ''USD'', ca_available = 1000, ca_reserved = 0, ca_updated_at = 0\<rparr>"
    by (simp add: sample_db_def tget_def)
  then have "\<forall>acct. tget (credit_accounts sample_db) ''a'' = Some acct \<longrightarrow> in_i64 (ca_available acct)"
    by (simp add: in_i64_def i64_bounds)
  from grant_reverse_roundtrip [OF sample_db_inv sample_grant_ok u sample_texts(1,2) _ this, of "''buy''" 9] sample_texts(3,4)
  obtain db2 where r: "reverse_grant sample_granted_db ''a'' ''o2'' ''buy'' ''o3'' 9 ''i'' =
      Inr (db2, micros_to_decimal_string 5000000)"
    and all: "\<forall>x. map_option (\<lambda>c. (ca_available c, ca_reserved c)) (tget (credit_accounts db2) x) =
      map_option (\<lambda>c. (ca_available c, ca_reserved c)) (tget (credit_accounts sample_db) x)"
    by auto
  have "map_option (\<lambda>c. (ca_available c, ca_reserved c)) (tget (credit_accounts db2) ''a'') = Some (1000, 0)"
    using all [rule_format, of "''a''"] a by simp
  then have "map_option ca_available (tget (credit_accounts db2) ''a'') = Some 1000" by auto
  with r show ?thesis by blast
qed

theorem reverse_grant_at_most_once_witness:
  "\<exists>db2. reverse_grant sample_granted_db ''a'' ''o2'' ''buy'' ''o3'' 9 ''i'' =
     Inr (db2, micros_to_decimal_string 5000000) \<and> billing_inv db2"
proof -
  let ?x = "reversal_entry ''a'' 5000000 ''USD'' ''buy'' ''o3'' ''h'' 9"
  let ?db2 = "sample_granted_db\<lparr>ledger_entries := ledger_entries sample_granted_db @ [(''i'', ?x)],
    credit_accounts := [(''a'', \<lparr>ca_tenant_id = ''t'', ca_currency = ''USD'', ca_available = 1000, ca_reserved = 0, ca_updated_at = 9\<rparr>)]\<rparr>"
  have inv: "billing_inv sample_granted_db"
    by (simp add: inv_defs sample_granted_db_def sample_eval wf_table_def book_value_def touches_balance_def
        grant_entry_def amount_ok_def)
  have "reverse_grant sample_granted_db ''a'' ''o2'' ''buy'' ''o3'' 9 ''i'' =
     Inr (?db2, micros_to_decimal_string 5000000)"
    by (simp add: reverse_grant_def reversal_post_def sample_texts account_usage_snapshot_def
        ensure_account_usage_state_def find_entry_def pending_metered_def ledger_insert_or_ignore_def
        ledger_conflict_def grant_entry_def reversal_entry_def debit_account_by_def sample_granted_db_def sample_eval)
  with reverse_grant_at_most_once [OF inv this] show ?thesis by blast
qed

end
