(* ===== verification/Usage_Maintenance.thy ===== *)
theory Usage_Maintenance
  imports Settle_Usage
begin

text \<open>
  The retention jobs over the admission tables (\<open>src/src/db/requests/settlement.rs\<close>): they
  delete expired rate windows, daily rollups and usage events in bounded batches. The
  property is that no admission or settlement can observe a deletion.
\<close>

subsection \<open>Definitions\<close>

definition clamp_limit :: "int \<Rightarrow> nat" where
  "clamp_limit limit = nat (max 1 (min limit 100000))"

text \<open>\<open>DELETE ... WHERE key IN (SELECT key ... WHERE expired ORDER BY ... LIMIT n)\<close>, and the rows it removed.\<close>

definition delete_batch ::
  "('k \<Rightarrow> 'r \<Rightarrow> bool) \<Rightarrow> ('k \<Rightarrow> 'r \<Rightarrow> 'o::linorder) \<Rightarrow> nat \<Rightarrow> ('k, 'r) table \<Rightarrow> ('k, 'r) table \<times> nat" where
  "delete_batch expired ord n t =
     (let victims = map fst (take n (sort_key (\<lambda>(k, r). ord k r) (filter (\<lambda>(k, r). expired k r) t)));
          kept = filter (\<lambda>(k, r). \<not> (k \<in> set victims)) t
      in (kept, length t - length kept))"

definition delete_expired_rate_windows :: "billing_db \<Rightarrow> int \<Rightarrow> int \<Rightarrow> billing_db \<times> nat" where
  "delete_expired_rate_windows db now limit =
     (let cutoff = sat (now - 2 * day_ms);
          (t, n) = delete_batch (\<lambda>(k, start) _. start < cutoff) (\<lambda>(k, start) _. (start, k))
                     (clamp_limit limit) (rate_limit_windows db)
      in (db\<lparr>rate_limit_windows := t\<rparr>, n))"

definition delete_expired_budget_rollups :: "billing_db \<Rightarrow> int \<Rightarrow> int \<Rightarrow> billing_db \<times> nat" where
  "delete_expired_budget_rollups db now limit =
     (let cutoff_day = sat (now - 7 * day_ms) sdiv day_ms;
          cutoff_at = sat (cutoff_day * day_ms);
          (events, n) = delete_batch (\<lambda>_ e. ue_settled_at e < cutoff_at) (\<lambda>i e. (ue_settled_at e, i))
                          (clamp_limit limit) (key_budget_usage_events db);
          (daily, m) = delete_batch (\<lambda>(k, day) _. day < cutoff_day) (\<lambda>(k, day) _. (day, k))
                          (clamp_limit limit) (key_budget_daily_rollups db)
      in (db\<lparr>key_budget_usage_events := events, key_budget_daily_rollups := daily\<rparr>, n + m))"

subsection \<open>Lemmas\<close>

lemma delete_batch_filter:
  assumes "wf_table t"
  shows "\<exists>P. fst (delete_batch expired ord n t) = filter P t \<and> (\<forall>(k, r) \<in> set t. \<not> expired k r \<longrightarrow> P (k, r))"
proof -
  let ?v = "map fst (take n (sort_key (\<lambda>(k, r). ord k r) (filter (\<lambda>(k, r). expired k r) t)))"
  have "expired k r" if "(k, r) \<in> set t" "k \<in> set ?v" for k r
  proof -
    from that(2) obtain r' where "(k, r') \<in> set t" "expired k r'"
      using set_take_subset [of n "sort_key (\<lambda>(k, r). ord k r) (filter (\<lambda>(k, r). expired k r) t)"] by auto
    with that(1) assms show ?thesis by (auto simp: wf_table_def dest: eq_key_imp_eq_value)
  qed
  then show ?thesis
    by (intro exI [of _ "\<lambda>(k, r). \<not> (k \<in> set ?v)"]) (auto simp: delete_batch_def Let_def)
qed

lemma tsum_filter_zero:
  "(\<And>k r. (k, r) \<in> set t \<Longrightarrow> \<not> P (k, r) \<Longrightarrow> f k r = 0) \<Longrightarrow> tsum f (filter P t) = tsum f t"
  by (induction t) (auto simp: tsum_def)

lemma tsum_delete_batch:
  assumes "wf_table t" and "\<And>k r. (k, r) \<in> set t \<Longrightarrow> expired k r \<Longrightarrow> f k r = 0"
  shows "tsum f (fst (delete_batch expired ord n t)) = tsum f t"
proof -
  from delete_batch_filter [OF assms(1), of expired ord n] obtain P where
    P: "fst (delete_batch expired ord n t) = filter P t" "\<forall>(k, r) \<in> set t. \<not> expired k r \<longrightarrow> P (k, r)" by blast
  show ?thesis unfolding P(1) by (rule tsum_filter_zero) (use P(2) assms(2) in blast)
qed

lemma tget_delete_batch:
  assumes "wf_table t" and "\<And>r. \<not> expired k r"
  shows "tget (fst (delete_batch expired ord n t)) k = tget t k"
proof -
  from delete_batch_filter [OF assms(1), of expired ord n] obtain P where
    P: "fst (delete_batch expired ord n t) = filter P t" "\<forall>(k, r) \<in> set t. \<not> expired k r \<longrightarrow> P (k, r)" by blast
  have "map_of (filter P t) k = map_of t k" using P(2) assms(2) by (induction t) auto
  then show ?thesis by (simp add: P(1) tget_def)
qed

lemma sdiv_day: "0 \<le> x \<Longrightarrow> x sdiv day_ms = x div day_ms"
  by (simp add: signed_divide_int_def day_ms_def sgn_if)

lemma sat_minus_week: "7 * day_ms \<le> now \<Longrightarrow> now \<le> i64_max \<Longrightarrow> sat (now - 7 * day_ms) = now - 7 * day_ms"
  by (rule sat_in_range) (simp add: in_i64_def i64_bounds day_ms_def)

subsection \<open>Property\<close>

text \<open>
  Deleting expired rows is invisible to admission and settlement: whatever batch a
  retention job deletes at some time, every later reading of a key's daily total and of
  its rolling weekly total is the same as without the deletion.
\<close>

theorem expired_rollups_unobservable:
  assumes "wf_table (key_budget_usage_events db)" and "wf_table (key_budget_daily_rollups db)"
    and "7 * day_ms \<le> now" and "now \<le> later" and "later \<le> i64_max"
  shows "key_budget_daily_settled (fst (delete_expired_budget_rollups db now limit)) k later =
      key_budget_daily_settled db k later \<and>
    key_budget_rolling_weekly_settled (fst (delete_expired_budget_rollups db now limit)) k later =
      key_budget_rolling_weekly_settled db k later"
proof -
  let ?db = "fst (delete_expired_budget_rollups db now limit)"
  let ?cut = "(now - 7 * day_ms) div day_ms" and ?cut2 = "(later - 7 * day_ms) div day_ms"
  have week: "7 * day_ms \<le> later" "now \<le> i64_max" "0 \<le> later"
    using assms by (simp_all add: day_ms_def)
  have days: "sat (now - 7 * day_ms) sdiv day_ms = ?cut" "weekly_cutoff later = later - 7 * day_ms"
    "(later - 7 * day_ms) sdiv day_ms = ?cut2" "later sdiv day_ms = later div day_ms"
    using assms week by (simp_all add: sat_minus_week sdiv_day weekly_cutoff_def)
  have order: "?cut \<le> ?cut2" "?cut2 \<le> later div day_ms" "?cut * day_ms \<le> now - 7 * day_ms"
    using assms(4) by (auto simp: day_ms_def intro!: zdiv_mono1)
  have at: "sat (?cut * day_ms) = ?cut * day_ms"
    by (rule sat_in_range) (use order(3) assms(3) week in \<open>auto simp: in_i64_def i64_bounds day_ms_def\<close>)
  let ?E = "\<lambda>_ e. ue_settled_at e < ?cut * day_ms" and ?D = "\<lambda>(k, day) _. day < ?cut"
  have tables: "key_budget_usage_events ?db =
      fst (delete_batch ?E (\<lambda>i e. (ue_settled_at e, i)) (clamp_limit limit) (key_budget_usage_events db))"
    "key_budget_daily_rollups ?db =
      fst (delete_batch ?D (\<lambda>(k, day) _. (day, k)) (clamp_limit limit) (key_budget_daily_rollups db))"
    by (simp_all add: delete_expired_budget_rollups_def Let_def days at case_prod_unfold)
  have "tget (key_budget_daily_rollups ?db) (k, later div day_ms) =
      tget (key_budget_daily_rollups db) (k, later div day_ms)"
    unfolding tables using order by (intro tget_delete_batch assms) simp
  moreover have "tsum (\<lambda>(k', d) m. if k' = k \<and> ?cut2 + 1 \<le> d then m else 0) (key_budget_daily_rollups ?db) =
      tsum (\<lambda>(k', d) m. if k' = k \<and> ?cut2 + 1 \<le> d then m else 0) (key_budget_daily_rollups db)"
    unfolding tables using order by (intro tsum_delete_batch assms) auto
  moreover have "tsum (\<lambda>_ e. if ue_key_id e = k \<and> later - 7 * day_ms \<le> ue_settled_at e \<and> ue_settled_at e < x
        then ue_amount e else 0) (key_budget_usage_events ?db) =
      tsum (\<lambda>_ e. if ue_key_id e = k \<and> later - 7 * day_ms \<le> ue_settled_at e \<and> ue_settled_at e < x
        then ue_amount e else 0) (key_budget_usage_events db)" for x
    unfolding tables using order assms(4) by (intro tsum_delete_batch assms) auto
  ultimately show ?thesis
    by (simp add: key_budget_daily_settled_def key_budget_rolling_weekly_settled_def Let_def days)
qed

theorem expired_rollups_unobservable_witness:
  "key_budget_daily_settled (fst (delete_expired_budget_rollups (sample_settled_db\<lparr>key_budget_daily_rollups :=
      [((''k'', 0), 4), ((''k'', 20), 6)]\<rparr>) 1728000000 10)) ''k'' 1728000001 = 6"
proof -
  let ?db = "sample_settled_db\<lparr>key_budget_daily_rollups := [((''k'', 0), 4), ((''k'', 20), 6)]\<rparr>"
  have wf: "wf_table (key_budget_usage_events ?db)" "wf_table (key_budget_daily_rollups ?db)"
    by (simp_all add: wf_table_def sample_settled_db_def)
  have time: "7 * day_ms \<le> 1728000000" "(1728000000::int) \<le> 1728000001" "1728000001 \<le> i64_max"
    by (simp_all add: day_ms_def i64_bounds)
  have "key_budget_daily_settled ?db ''k'' 1728000001 = 6"
    by (simp add: key_budget_daily_settled_def tget_def day_ms_def signed_divide_int_def)
  with expired_rollups_unobservable [OF wf time, of 10 "''k''"] show ?thesis by simp
qed

end
