(* ===== verification/Billing_System.thy ===== *)
theory Billing_System
  imports Ledger_Grants Usage_Maintenance
begin

text \<open>
  The accounting transactions as one system: the calls a process makes (admission, resizing,
  settlement, grants, reversals, projection, retention), interleaved in any order on one
  database, the reservations that callers hold in between, and the abstract bank the whole
  system refines.
\<close>

subsection \<open>The abstract bank\<close>

text \<open>
  Per account what is available and what is held, and the open holds by reservation. An
  operation of the bank either opens, changes or closes one hold, or books an amount;
  closing a hold that is not open does nothing.
\<close>

record bank =
  bk_accounts :: "uuid \<Rightarrow> (int \<times> int) option"
  bk_open :: "uuid \<Rightarrow> (uuid \<times> int) option"

datatype bank_op = Open uuid uuid int | Reopen uuid int | Close uuid int | Book uuid int | Idle

definition bank_move :: "uuid \<Rightarrow> int \<Rightarrow> int \<Rightarrow> bank \<Rightarrow> bank" where
  "bank_move a hold book b = b\<lparr>bk_accounts := (bk_accounts b)(a :=
     map_option (\<lambda>(available, reserved). (available + book - hold, reserved + hold)) (bk_accounts b a))\<rparr>"

fun bank_apply :: "bank_op \<Rightarrow> bank \<Rightarrow> bank" where
  "bank_apply (Open i a m) b = (bank_move a m 0 b)\<lparr>bk_open := (bk_open b)(i \<mapsto> (a, m))\<rparr>"
| "bank_apply (Reopen i m) b = (case bk_open b i of
      None \<Rightarrow> b
    | Some (a, held) \<Rightarrow> (bank_move a (m - held) 0 b)\<lparr>bk_open := (bk_open b)(i \<mapsto> (a, m))\<rparr>)"
| "bank_apply (Close i charge) b = (case bk_open b i of
      None \<Rightarrow> b
    | Some (a, held) \<Rightarrow> (bank_move a (- held) (- charge) b)\<lparr>bk_open := (bk_open b)(i := None)\<rparr>)"
| "bank_apply (Book a m) b = bank_move a 0 m b"
| "bank_apply Idle b = b"

definition row_open :: "reservation_row \<Rightarrow> (uuid \<times> int) option" where
  "row_open row = (if rr_status row = Reserved \<and> rr_mode row = Prepaid
     then Some (rr_account_id row, rr_reserved_micros row) else None)"

definition bank_of :: "billing_db \<Rightarrow> bank" where
  "bank_of db = \<lparr>bk_accounts = (\<lambda>a. map_option (\<lambda>c. (ca_available c, ca_reserved c)) (tget (credit_accounts db) a)),
     bk_open = (\<lambda>i. Option.bind (tget (usage_reservations db) i) row_open)\<rparr>"

lemma bank_move_open [simp]: "bk_open (bank_move a hold book b) = bk_open b"
  by (simp add: bank_move_def)

lemma bank_move_nothing [simp]: "bank_move a 0 0 b = b"
proof -
  have "(\<lambda>(x, y). (x, y)) = (id :: int \<times> int \<Rightarrow> int \<times> int)" by auto
  then show ?thesis by (simp add: bank_move_def option.map_id)
qed

lemma posts_bank_accounts:
  assumes "posts db db' a k hold book"
  shows "bk_accounts (bank_of db') = bk_accounts (bank_move a hold book (bank_of db))"
proof
  fix x
  from assms have p: "tget (credit_accounts db') x = None \<longleftrightarrow> tget (credit_accounts db) x = None"
    and q: "tget (credit_accounts db') x = Some c' \<Longrightarrow> \<exists>c. tget (credit_accounts db) x = Some c \<and>
      ca_reserved c' = ca_reserved c + (if x = a then hold else 0) \<and>
      ca_available c' = ca_available c + (if x = a then book - hold else 0)" for c'
    unfolding posts_def posts_account_def by blast+
  show "bk_accounts (bank_of db') x = bk_accounts (bank_move a hold book (bank_of db)) x"
    using p q by (cases "tget (credit_accounts db') x") (force simp: bank_of_def bank_move_def)+
qed

lemma bank_eqI: "bk_accounts b = bk_accounts c \<Longrightarrow> bk_open b = bk_open c \<Longrightarrow> b = (c :: bank)"
  by simp

lemma posts_bank:
  assumes "posts db db' a k hold book"
    and "\<And>i. Option.bind (tget (usage_reservations db') i) row_open = f i"
  shows "bank_of db' = (bank_move a hold book (bank_of db))\<lparr>bk_open := f\<rparr>"
  using posts_bank_accounts [OF assms(1)] assms(2) by (intro bank_eqI) (auto simp: bank_of_def)

lemma posts_bank_same_rows:
  assumes "posts db db' a k hold book" and "usage_reservations db' = usage_reservations db"
  shows "bank_of db' = bank_move a hold book (bank_of db)"
  using posts_bank_accounts [OF assms(1)] assms(2) by (intro bank_eqI) (auto simp: bank_of_def)

subsection \<open>The rows an operation writes\<close>

lemma reserve_contract_rows:
  assumes "reserve_usage_contract_with_id_in_transaction dp db key c now rid = Inr (db', r)"
  shows "\<exists>applied. usage_reservations db' = tput rid (contract_row key c now applied) (usage_reservations db)"
proof (cases "policy_mode (ak_policy key)")
  case Prepaid
  show ?thesis by (rule reserve_prepaid_Inr [OF assms Prepaid]) auto
next
  case MeteredUnlimited
  with assms show ?thesis
    by (auto simp: reserve_usage_contract_with_id_in_transaction_def Let_def enforces_prepaid_limits_def res_simps)
qed

text \<open>One row of the reservations changes, and every other row stays.\<close>

definition only_row :: "uuid \<Rightarrow> billing_db \<Rightarrow> billing_db \<Rightarrow> bool" where
  "only_row i db db' \<longleftrightarrow> (\<forall>j. j \<noteq> i \<longrightarrow> tget (usage_reservations db') j = tget (usage_reservations db) j)"

lemma only_row_trans: "only_row i db db1 \<Longrightarrow> only_row i db1 db2 \<Longrightarrow> only_row i db db2"
  by (simp add: only_row_def)

lemma only_row_same: "usage_reservations db' = usage_reservations db \<Longrightarrow> only_row i db db'"
  by (simp add: only_row_def)

lemma only_row_tput: "usage_reservations db' = tput i row (usage_reservations db) \<Longrightarrow> only_row i db db'"
  by (simp add: only_row_def tbl_simps)

lemma only_row_bank:
  assumes "only_row i db db'"
  shows "bk_open (bank_of db') = (bk_open (bank_of db))(i := Option.bind (tget (usage_reservations db') i) row_open)"
  using assms by (auto simp: bank_of_def only_row_def)

lemma resize_rows:
  assumes "resize_usage_reservation_in_transaction dp ser db key price r ic oc now = Inr (db', r')"
  shows "only_row (ur_id r) db db' \<and> ur_id r' = ur_id r \<and> ur_account_id r' = ur_account_id r \<and>
    (\<exists>row row'. tget (usage_reservations db) (ur_id r) = Some row \<and> owns_open r row \<and> rr_mode row = ur_mode r \<and>
       rr_reserved_micros row = ur_reserved_micros r \<and>
       tget (usage_reservations db') (ur_id r) = Some row' \<and> owns_open r row' \<and> rr_mode row' = ur_mode r \<and>
       rr_reserved_micros row' = ur_reserved_micros r')"
proof (rule resize_stages [OF assms])
  fix micros tokens db1 budget current db2
  let ?r = "r\<lparr>ur_reserved_micros := micros, ur_reserved_tokens := tokens\<rparr>"
  assume l: "db1 = db \<and> budget = None \<or>
     (\<exists>lifetime active. lock_key_budget_state db (ak_key_id key) now = Inr (db1, lifetime, active) \<and>
        budget = Some (lifetime, active))"
    and c: "tget (usage_reservations db1) (ur_id r) = Some current" "owns_open r current"
      "rr_mode current = ur_mode r" "rr_reserved_micros current = ur_reserved_micros r"
    and rep: "replace_reservation_price_in_transaction ser db2 ?r price = Inr (db', r')"
    and m: "db2 = db1 \<and> micros = ur_reserved_micros r \<and> tokens = ur_reserved_tokens r \<or>
     ur_mode r = MeteredUnlimited \<and>
       resize_row db1 r (ur_reserved_micros r) (ur_reserved_tokens r) micros tokens = Inr db2 \<or>
     ur_mode r = Prepaid \<and> resize_prepaid dp db1 key r current micros tokens now budget = Inr db2"
  have same: "usage_reservations db1 = usage_reservations db" using l by (auto simp: lock_key_budget_state_Inr)
  have two: "\<exists>row2. tget (usage_reservations db2) (ur_id r) = Some row2 \<and> owns_open r row2 \<and> rr_mode row2 = ur_mode r \<and>
      rr_reserved_micros row2 = micros \<and> only_row (ur_id r) db1 db2"
    using m
  proof (elim disjE conjE)
    assume "resize_prepaid dp db1 key r current micros tokens now budget = Inr db2"
    then show ?thesis
      by (rule resize_prepaid_Inr) (use c in \<open>auto simp: tbl_simps owns_open_def only_row_def\<close>)
  qed (use c in \<open>auto simp: tbl_simps owns_open_def only_row_def resize_row_Inr open_row_Some\<close>)
  then show ?thesis using rep c same
    by (auto simp: replace_reservation_price_in_transaction_def rbind_Inr_iff ok_or_Inr_iff open_row_Some
        tbl_simps owns_open_def only_row_def)
qed

lemma settle_rows:
  assumes "billing_inv db" and "reservation_matches db r"
    and "settle_token_usage_with_explicit_charge dp db r usage now forced lid aid = Inr (db', m)"
  shows "only_row (ur_id r) db db'"
proof (rule settle_cases [OF assms(3)])
  fix charge
  assume c: "calculated_charge r usage forced = Inr charge"
    and u: "ur_mode r = MeteredUnlimited \<Longrightarrow> settle_unlimited db r charge now lid = Inr (db', m)"
    and p: "ur_mode r = Prepaid \<Longrightarrow> settle_prepaid dp db r usage charge now lid aid = Inr (db', m)"
  have claimed: "only_row (ur_id r) db db'"
    if "usage_reservations db' = usage_reservations (claim_row db (ur_id r) row m now)" for row
    using that by (simp add: claim_row_def only_row_tput)
  show ?thesis
  proof (cases "ur_mode r")
    case Prepaid
    show ?thesis
    proof (rule settle_prepaid_effect [OF assms(1,2) Prepaid calculated_charge_nonneg [OF c] p [OF Prepaid]])
      fix row assume "rr_status row = Reserved \<Longrightarrow> amount_ok m \<and> m \<le> charge \<and>
           usage_reservations db' = usage_reservations (claim_row db (ur_id r) row m now) \<and>
           posts db db' (ur_account_id r) (ur_key_id r) (- ur_reserved_micros r) (- m)"
        "rr_status row = Settled \<Longrightarrow> rr_actual_micros row = Some m \<and>
           (\<exists>t. db' = db\<lparr>key_budget_state := t\<rparr>) \<and> posts db db' (ur_account_id r) (ur_key_id r) 0 0"
      then show ?thesis using claimed by (cases "rr_status row") (auto simp: only_row_def)
    qed
  next
    case MeteredUnlimited
    show ?thesis
    proof (rule settle_unlimited_effect [OF assms(1,2) MeteredUnlimited u [OF MeteredUnlimited]])
      fix row assume "rr_status row = Reserved \<Longrightarrow> m = charge \<and>
           usage_reservations db' = usage_reservations (claim_row db (ur_id r) row m now) \<and>
           posts db db' (ur_account_id r) (ur_key_id r) 0 0"
        "rr_status row = Settled \<Longrightarrow> rr_actual_micros row = Some m \<and> db' = db"
      then show ?thesis using claimed by (cases "rr_status row") (auto simp: only_row_def)
    qed
  qed
qed

subsection \<open>The contract of an accounting transaction\<close>

text \<open>
  What every transaction promises to the rest of the system: it posts to one account, it
  carries out one operation of the bank that its result allows, and it changes no
  reservation but the one it names.
\<close>

locale ledger_tx =
  fixes tx :: "billing_db \<Rightarrow> (billing_db \<times> 'r) res"
    and pre :: "billing_db \<Rightarrow> bool"
    and spec :: "'r \<Rightarrow> bank_op set"
    and touched :: "'r \<Rightarrow> uuid option"
  assumes posting: "billing_inv db \<Longrightarrow> pre db \<Longrightarrow> tx db = Inr (db', x) \<Longrightarrow> \<exists>a k hold book. posts db db' a k hold book"
    and refines: "billing_inv db \<Longrightarrow> pre db \<Longrightarrow> tx db = Inr (db', x) \<Longrightarrow>
      \<exists>op \<in> spec x. bank_of db' = bank_apply op (bank_of db)"
    and rows: "billing_inv db \<Longrightarrow> pre db \<Longrightarrow> tx db = Inr (db', x) \<Longrightarrow> touched x \<noteq> Some i \<Longrightarrow>
      tget (usage_reservations db') i = tget (usage_reservations db) i"
begin

lemma keeps_inv: "billing_inv db \<Longrightarrow> pre db \<Longrightarrow> tx db = Inr (db', x) \<Longrightarrow> billing_inv db'"
  using posting posts_inv by blast

lemma keeps_handle:
  "billing_inv db \<Longrightarrow> pre db \<Longrightarrow> tx db = Inr (db', x) \<Longrightarrow> reservation_matches db r \<Longrightarrow> touched x \<noteq> Some (ur_id r) \<Longrightarrow>
     reservation_matches db' r"
  by (simp add: reservation_matches_def rows)

end

text \<open>
  A grant books its amount or, as a repetition, nothing; a reversal likewise takes back the
  amount it reports.
\<close>

definition grant_ops :: "uuid \<Rightarrow> decimal \<Rightarrow> bank_op set" where
  "grant_ops a amount = {Idle} \<union> (case decimal_to_micros amount of Inr m \<Rightarrow> {Book a m} | Inl _ \<Rightarrow> {})"

definition reverse_ops :: "uuid \<Rightarrow> string \<Rightarrow> bank_op set" where
  "reverse_ops a s = {Idle} \<union> {Book a (- m) | m. s = micros_to_decimal_string m}"

text \<open>The operation of the bank that a reservation stands for.\<close>

definition open_op :: "usage_reservation \<Rightarrow> bank_op" where
  "open_op r = (if ur_mode r = Prepaid then Open (ur_id r) (ur_account_id r) (ur_reserved_micros r) else Idle)"

lemma contract_refines:
  assumes "posts db db' (ak_account_id key) k (ur_reserved_micros r) 0"
    and ok: "reserve_usage_contract_with_id_in_transaction dp db key c now rid = Inr (db', r)"
    and free: "policy_mode (ak_policy key) = MeteredUnlimited \<longrightarrow> ur_reserved_micros r = 0"
  shows "bank_of db' = bank_apply (open_op r) (bank_of db)"
proof -
  obtain applied where rows: "usage_reservations db' = tput rid (contract_row key c now applied) (usage_reservations db)"
    using reserve_contract_rows [OF ok] ..
  have r: "r = contract_reservation key c now rid" by (rule contract_reservation_of [OF ok])
  have none: "bk_open (bank_of db) rid = None" using contract_row_fresh [OF ok] by (simp add: bank_of_def)
  have opened: "bk_open (bank_of db') = (bk_open (bank_of db))(rid := row_open (contract_row key c now applied))"
    using only_row_bank [OF only_row_tput [OF rows]] by (simp add: rows tbl_simps)
  show ?thesis
  proof (cases "policy_mode (ak_policy key)")
    case Prepaid
    then show ?thesis using posts_bank_accounts [OF assms(1)] opened
      by (intro bank_eqI) (simp_all add: open_op_def r contract_reservation_def contract_row_def row_open_def)
  next
    case MeteredUnlimited
    then show ?thesis using posts_bank_accounts [OF assms(1)] opened free none
      by (intro bank_eqI) (simp_all add: open_op_def r contract_reservation_def contract_row_def row_open_def fun_upd_idem)
  qed
qed

interpretation reserving: ledger_tx
  "\<lambda>db. reserve_usage_with_id_in_transaction dp ser db key price ic oc now rid" "\<lambda>_. True"
  "\<lambda>r. {open_op r}" "\<lambda>_. Some rid" for dp ser key price ic oc now rid
proof unfold_locales
  fix db db' r
  assume inv: "billing_inv db" and ok: "reserve_usage_with_id_in_transaction dp ser db key price ic oc now rid = Inr (db', r)"
  obtain snapshot micros tokens where
    c: "reserve_usage_contract_with_id_in_transaction dp db key (token_contract price micros tokens snapshot) now rid = Inr (db', r)"
    and f: "policy_mode (ak_policy key) = MeteredUnlimited \<longrightarrow> micros = 0" and m: "ur_reserved_micros r = micros"
    and p: "posts db db' (ak_account_id key) (ak_key_id key) micros 0"
    by (rule reserve_usage_effect [OF inv ok])
  show "\<exists>a k hold book. posts db db' a k hold book" using p by blast
  show "\<exists>op \<in> {open_op r}. bank_of db' = bank_apply op (bank_of db)"
    using contract_refines [OF _ c] p f m by simp
  show "tget (usage_reservations db') i = tget (usage_reservations db) i" if "Some rid \<noteq> Some i" for i
    using reserve_contract_rows [OF c] that by (auto simp: tbl_simps)
qed

interpretation reserving_units: ledger_tx
  "\<lambda>db. reserve_metered_usage_with_id_in_transaction dp ser db key price ceiling now rid" "\<lambda>_. True"
  "\<lambda>mr. {open_op (mr_reservation mr)}" "\<lambda>_. Some rid" for dp ser key price ceiling now rid
proof unfold_locales
  fix db db' mr
  assume inv: "billing_inv db"
    and ok: "reserve_metered_usage_with_id_in_transaction dp ser db key price ceiling now rid = Inr (db', mr)"
  obtain c where c: "reserve_usage_contract_with_id_in_transaction dp db key c now rid = Inr (db', mr_reservation mr)"
    and f: "policy_mode (ak_policy key) = MeteredUnlimited \<longrightarrow> ur_reserved_micros (mr_reservation mr) = 0"
    and p: "posts db db' (ak_account_id key) (ak_key_id key) (ur_reserved_micros (mr_reservation mr)) 0"
    by (rule reserve_metered_effect [OF inv ok])
  show "\<exists>a k hold book. posts db db' a k hold book" using p by blast
  show "\<exists>op \<in> {open_op (mr_reservation mr)}. bank_of db' = bank_apply op (bank_of db)"
    using contract_refines [OF p c f] by simp
  show "tget (usage_reservations db') i = tget (usage_reservations db) i" if "Some rid \<noteq> Some i" for i
    using reserve_contract_rows [OF c] that by (auto simp: tbl_simps)
qed

interpretation resizing: ledger_tx
  "\<lambda>db. resize_usage_reservation_in_transaction dp ser db key price r ic oc now" "\<lambda>_. True"
  "\<lambda>r'. {Reopen (ur_id r) (ur_reserved_micros r')}" "\<lambda>_. Some (ur_id r)" for dp ser key price r ic oc now
proof unfold_locales
  fix db db' r'
  assume inv: "billing_inv db"
    and ok: "resize_usage_reservation_in_transaction dp ser db key price r ic oc now = Inr (db', r')"
  let ?d = "if ur_mode r = Prepaid then ur_reserved_micros r' - ur_reserved_micros r else 0"
  have p: "posts db db' (ur_account_id r) (ur_key_id r) ?d 0" using resize_effect [OF inv ok] by blast
  then show "\<exists>a k hold book. posts db db' a k hold book" by blast
  note rows = resize_rows [OF ok]
  then show "tget (usage_reservations db') i = tget (usage_reservations db) i" if "Some (ur_id r) \<noteq> Some i" for i
    using that by (simp add: only_row_def)
  from rows obtain row row' where row: "tget (usage_reservations db) (ur_id r) = Some row" "owns_open r row"
      "rr_mode row = ur_mode r" "rr_reserved_micros row = ur_reserved_micros r"
    and row': "tget (usage_reservations db') (ur_id r) = Some row'" "owns_open r row'" "rr_mode row' = ur_mode r"
      "rr_reserved_micros row' = ur_reserved_micros r'" by blast
  have opened: "bk_open (bank_of db') = (bk_open (bank_of db))(ur_id r := row_open row')"
    using only_row_bank [of "ur_id r" db db'] rows row'(1) by simp
  have found: "bk_open (bank_of db) (ur_id r) = row_open row" using row(1) by (simp add: bank_of_def)
  have "bank_of db' = bank_apply (Reopen (ur_id r) (ur_reserved_micros r')) (bank_of db)"
    using posts_bank_accounts [OF p] opened found row row'
    by (intro bank_eqI; cases "ur_mode r") (simp_all add: row_open_def owns_open_def fun_upd_idem)
  then show "\<exists>op \<in> {Reopen (ur_id r) (ur_reserved_micros r')}. bank_of db' = bank_apply op (bank_of db)" by simp
qed

lemma settle_refines:
  assumes "billing_inv db" and "reservation_matches db r"
    and "settle_token_usage_with_explicit_charge dp db r usage now forced lid aid = Inr (db', m)"
  shows "(\<exists>a k hold book. posts db db' a k hold book) \<and> bank_of db' = bank_apply (Close (ur_id r) m) (bank_of db)"
proof -
  note e = settle_effect [OF assms]
  then obtain row where row: "tget (usage_reservations db) (ur_id r) = Some row"
    and first: "rr_status row = Reserved \<Longrightarrow> posts db db' (ur_account_id r) (ur_key_id r)
           (if ur_mode r = Prepaid then - ur_reserved_micros r else 0) (if ur_mode r = Prepaid then - m else 0)"
    and again: "rr_status row = Settled \<Longrightarrow> posts db db' (ur_account_id r) (ur_key_id r) 0 0"
    by (auto split: if_splits)
  have own: "rr_account_id row = ur_account_id r" "rr_mode row = ur_mode r"
    "rr_status row = Reserved \<Longrightarrow> rr_reserved_micros row = ur_reserved_micros r"
    using assms(2) row by (simp_all add: reservation_matches_def)
  have closed: "bk_open (bank_of db') = (bk_open (bank_of db))(ur_id r := None)"
    by (rule settled_row [OF assms])
       (simp add: only_row_bank [OF settle_rows [OF assms]] row_open_def)
  have found: "bk_open (bank_of db) (ur_id r) = row_open row" using row by (simp add: bank_of_def)
  show ?thesis
  proof (cases "rr_status row")
    case Reserved
    note p = first [OF Reserved]
    have "bank_of db' = bank_apply (Close (ur_id r) m) (bank_of db)"
      using posts_bank_accounts [OF p] closed found own Reserved
      by (intro bank_eqI; cases "ur_mode r") (simp_all add: row_open_def fun_upd_idem)
    then show ?thesis using p by blast
  next
    case Settled
    note p = again [OF Settled]
    have "bank_of db' = bank_apply (Close (ur_id r) m) (bank_of db)"
      using posts_bank_accounts [OF p] closed found Settled
      by (intro bank_eqI) (simp_all add: row_open_def fun_upd_idem)
    then show ?thesis using p by blast
  qed
qed

interpretation settling: ledger_tx
  "\<lambda>db. settle_token_usage_with_explicit_charge dp db r usage now forced lid aid" "\<lambda>db. reservation_matches db r"
  "\<lambda>m. {Close (ur_id r) m}" "\<lambda>_. Some (ur_id r)" for dp r usage now forced lid aid
  using settle_refines settle_rows by unfold_locales (fast, simp, simp add: only_row_def)

text \<open>The entry points of settlement compute the charge they force and settle.\<close>

interpretation settling_terminal: ledger_tx
  "\<lambda>db. settle_terminal_usage_in_transaction dp db r usage metered now lid aid" "\<lambda>db. reservation_matches db r"
  "\<lambda>m. {Close (ur_id r) m}" "\<lambda>_. Some (ur_id r)" for dp r usage metered now lid aid
  by unfold_locales
     (auto simp: settle_terminal_usage_in_transaction_def rbind_Inr_iff
       intro: settling.posting dest: settling.refines settling.rows)

interpretation settling_units: ledger_tx
  "\<lambda>db. settle_metered_usage_in_transaction dp db mr units now lid aid"
  "\<lambda>db. reservation_matches db (mr_reservation mr)"
  "\<lambda>m. {Close (ur_id (mr_reservation mr)) m}" "\<lambda>_. Some (ur_id (mr_reservation mr))" for dp mr units now lid aid
  by unfold_locales
     (auto simp: settle_metered_usage_in_transaction_def rbind_Inr_iff
       intro: settling.posting dest: settling.refines settling.rows)

interpretation settling_direct: ledger_tx
  "\<lambda>db. settle_token_usage dp db r usage now lid aid" "\<lambda>db. reservation_matches db r"
  "\<lambda>m. {Close (ur_id r) m}" "\<lambda>_. Some (ur_id r)" for dp r usage now lid aid
  by unfold_locales
     (auto simp: settle_token_usage_def settle_token_usage_in_transaction_def rbind_Inr_iff ensure_Inr_iff
       intro: settling.posting dest: settling.refines settling.rows)

interpretation confirming: ledger_tx
  "\<lambda>db. settle_confirmed_image_charge_in_transaction dp db r now confirmed lid aid" "\<lambda>db. reservation_matches db r"
  "\<lambda>m. {Close (ur_id r) m}" "\<lambda>_. Some (ur_id r)" for dp r now confirmed lid aid
proof unfold_locales
  fix db db' m
  assume inv: "billing_inv db" and match: "reservation_matches db r"
    and ok: "settle_confirmed_image_charge_in_transaction dp db r now confirmed lid aid = Inr (db', m)"
  obtain db1 where p: "posts db db1 (ur_account_id r) (ur_key_id r) 0 0" and inv1: "billing_inv db1"
    and res: "usage_reservations db1 = usage_reservations db" and match1: "reservation_matches db1 r"
    and s: "settle_token_usage_with_explicit_charge dp db1 r default_usage now (Some confirmed) lid aid = Inr (db', m)"
    by (rule confirmed_stages [OF inv match ok])
  have same: "bank_of db1 = bank_of db" using posts_bank_same_rows [OF p res] by simp
  show "\<exists>op \<in> {Close (ur_id r) m}. bank_of db' = bank_apply op (bank_of db)"
    using settling.refines [OF inv1 match1 s] by (simp add: same)
  show "tget (usage_reservations db') i = tget (usage_reservations db) i" if "Some (ur_id r) \<noteq> Some i" for i
    using settling.rows [OF inv1 match1 s that] by (simp add: res)
  obtain hold book where "posts db1 db' (ur_account_id r) (ur_key_id r) hold book"
    using settle_effect [OF inv1 match1 s] by (auto split: if_splits)
  then show "\<exists>a k hold book. posts db db' a k hold book" using posts_trans [OF p] by blast
qed

lemma grant_rows:
  assumes "billing_inv db" and "grant db a amount source0 key now lid = Inr (db', s)"
  shows "usage_reservations db' = usage_reservations db \<and> (\<exists>micros. decimal_to_micros amount = Inr micros \<and>
    (posts db db' a k 0 micros \<or> posts db db' a k 0 0))"
proof (rule grant_stages [OF assms(2)])
  fix micros db1 snapshot and acct :: credit_account
  assume m: "decimal_to_micros amount = Inr micros" "0 < micros" and acct: "tget (credit_accounts db) a = Some acct"
    and snap: "account_usage_snapshot db a now = Inr (db1, snapshot)"
    and post: "grant_post db1 a micros (ca_currency acct) (trim source0) key now snapshot lid = Inr (db', s)"
  obtain t where "db1 = db\<lparr>account_usage_state := t\<rparr>" using account_usage_snapshot_frame [OF snap] ..
  then have "usage_reservations db' = usage_reservations db"
    using grant_post_Inr [OF post] acct by (auto simp: grant_replay_Inr credit_account_by_Some split: if_splits)
  then show ?thesis using grant_outcome [OF assms(1) acct m(2) snap post] m(1) by blast
qed

interpretation granting: ledger_tx
  "\<lambda>db. grant db a amount source key now lid" "\<lambda>_. True"
  "\<lambda>_. grant_ops a amount" "\<lambda>_. None"
  for a amount source key now lid
proof unfold_locales
  fix db db' s
  assume inv: "billing_inv db" and ok: "grant db a amount source key now lid = Inr (db', s)"
  note g = grant_rows [OF inv ok, where k = "[]"]
  show "\<exists>a k hold book. posts db db' a k hold book" using g by blast
  show "\<exists>op \<in> grant_ops a amount. bank_of db' = bank_apply op (bank_of db)"
    using g posts_bank_same_rows [of db db' a] unfolding grant_ops_def by fastforce
  show "tget (usage_reservations db') i = tget (usage_reservations db) i" for i using g by simp
qed

lemma reverse_rows:
  assumes "reverse_grant db a grant_key source0 key now lid = Inr (db', s)"
  shows "usage_reservations db' = usage_reservations db"
proof (rule reverse_stages [OF assms])
  fix original snapshot db1 and e :: ledger_entry
  assume snap: "account_usage_snapshot db a now = Inr (db1, snapshot)"
    and post: "reversal_post db1 a original (le_amount e) (le_currency e) (trim source0) key now lid = Inr (db', s)"
  obtain t where "db1 = db\<lparr>account_usage_state := t\<rparr>" using account_usage_snapshot_frame [OF snap] ..
  then show ?thesis
    using reversal_post_Inr [OF post] reversal_replay_Inr [of db1 a original key db' s]
    by (auto simp: debit_account_by_Inr split: if_splits)
qed

interpretation reversing: ledger_tx
  "\<lambda>db. reverse_grant db a grant_key source key now lid" "\<lambda>_. True"
  "reverse_ops a" "\<lambda>_. None"
  for a grant_key source key now lid
proof unfold_locales
  fix db db' s
  assume inv: "billing_inv db" and ok: "reverse_grant db a grant_key source key now lid = Inr (db', s)"
  obtain b where p: "posts db db' a [] 0 (- b)" "b = 0 \<or> s = micros_to_decimal_string b"
    by (rule reverse_outcome [OF inv ok, where k = "[]"]) (metis minus_zero)
  then show "\<exists>a k hold book. posts db db' a k hold book" by blast
  show "\<exists>op \<in> reverse_ops a s. bank_of db' = bank_apply op (bank_of db)"
    using posts_bank_same_rows [OF p(1) reverse_rows [OF ok]] p(2) unfolding reverse_ops_def by force
  show "tget (usage_reservations db') i = tget (usage_reservations db) i" for i by (simp add: reverse_rows [OF ok])
qed

text \<open>The jobs beside the requests leave balances, holds and books alone.\<close>

lemma tables_alone:
  assumes "billing_inv db" and "credit_accounts db' = credit_accounts db" and "key_budget_state db' = key_budget_state db"
    and "usage_reservations db' = usage_reservations db" and "ledger_entries db' = ledger_entries db" and "wf_tables db'"
  shows "posts db db' a k 0 0 \<and> bank_of db' = bank_of db"
  using assms by (simp add: posts_def posts_account_same posts_holds_same posts_books_same posts_key_same bank_of_def)

lemma project_frame:
  "project_account_usage_in_transaction db a actual now = Inr db' \<Longrightarrow> \<exists>t. db' = db\<lparr>account_usage_state := t\<rparr>"
  by (auto simp: project_account_usage_in_transaction_def rbind_Inr_iff ensure_Inr_iff ok_or_Inr_iff
      dest!: ensure_account_usage_state_Inr)

lemma project_alone:
  assumes "billing_inv db" and "project_account_usage_in_transaction db a actual now = Inr db'"
  shows "posts db db' x k 0 0 \<and> bank_of db' = bank_of db \<and> usage_reservations db' = usage_reservations db"
proof -
  obtain t where "db' = db\<lparr>account_usage_state := t\<rparr>" using project_frame [OF assms(2)] ..
  then show ?thesis using tables_alone [OF assms(1), of db'] assms(1) by (simp add: frame_simps)
qed

lemma retention_alone:
  assumes "billing_inv db"
    and "db' = fst (delete_expired_rate_windows db now limit) \<or> db' = fst (delete_expired_budget_rollups db now limit)"
  shows "posts db db' x k 0 0 \<and> bank_of db' = bank_of db \<and> usage_reservations db' = usage_reservations db"
  using assms tables_alone [OF assms(1), of db']
  by (auto simp: delete_expired_rate_windows_def delete_expired_budget_rollups_def Let_def case_prod_unfold frame_simps)

subsection \<open>The system\<close>

datatype billing_call =
    Reserve authenticated_key model_price int int uuid
  | ReserveUnits authenticated_key generation_price int uuid
  | Resize authenticated_key model_price usage_reservation int int
  | Settle usage_reservation token_usage "(metered_usage_reservation \<times> int) option" uuid "nat \<Rightarrow> uuid"
  | SettleUnits metered_usage_reservation int uuid "nat \<Rightarrow> uuid"
  | SettleDirect usage_reservation token_usage uuid "nat \<Rightarrow> uuid"
  | Confirm usage_reservation int uuid "nat \<Rightarrow> uuid"
  | GrantCredit uuid decimal string string uuid
  | ReverseCredit uuid string string string uuid
  | ProjectUsage uuid int
  | ExpireWindows int
  | ExpireRollups int

datatype billing_reply = Admitted usage_reservation | Charged int | Amount string | Done

definition replying :: "('x \<Rightarrow> billing_reply) \<Rightarrow> (billing_db \<times> 'x) res \<Rightarrow> (billing_db \<times> billing_reply) res" where
  "replying f r = rbind r (\<lambda>(db, x). Inr (db, f x))"

lemma replying_Inr:
  "replying f r = Inr (db, y) \<longleftrightarrow> (\<exists>x. r = Inr (db, x) \<and> y = f x)"
  by (auto simp: replying_def rbind_Inr_iff)

text \<open>The collaborators outside of the sources: the decimal parser and the two JSON printers.\<close>

record codecs =
  cd_decimal :: "string \<Rightarrow> decimal option"
  cd_price :: "model_price \<Rightarrow> string option"
  cd_units :: "generation_price \<Rightarrow> string option"

fun exec_billing :: "codecs \<Rightarrow> int \<Rightarrow> billing_call \<Rightarrow> billing_db \<Rightarrow> (billing_db \<times> billing_reply) res" where
  "exec_billing e now (Reserve key price ic oc rid) db =
     replying Admitted (reserve_usage_with_id_in_transaction (cd_decimal e) (cd_price e) db key price ic oc now rid)"
| "exec_billing e now (ReserveUnits key price ceiling rid) db =
     replying (\<lambda>mr. Admitted (mr_reservation mr))
       (reserve_metered_usage_with_id_in_transaction (cd_decimal e) (cd_units e) db key price ceiling now rid)"
| "exec_billing e now (Resize key price r ic oc) db =
     replying Admitted (resize_usage_reservation_in_transaction (cd_decimal e) (cd_price e) db key price r ic oc now)"
| "exec_billing e now (Settle r usage metered lid aid) db =
     replying Charged (settle_terminal_usage_in_transaction (cd_decimal e) db r usage metered now lid aid)"
| "exec_billing e now (SettleUnits mr units lid aid) db =
     replying Charged (settle_metered_usage_in_transaction (cd_decimal e) db mr units now lid aid)"
| "exec_billing e now (SettleDirect r usage lid aid) db =
     replying Charged (settle_token_usage (cd_decimal e) db r usage now lid aid)"
| "exec_billing e now (Confirm r confirmed lid aid) db =
     replying Charged (settle_confirmed_image_charge_in_transaction (cd_decimal e) db r now confirmed lid aid)"
| "exec_billing e now (GrantCredit a amount source key lid) db = replying Amount (grant db a amount source key now lid)"
| "exec_billing e now (ReverseCredit a grant_key source key lid) db =
     replying Amount (reverse_grant db a grant_key source key now lid)"
| "exec_billing e now (ProjectUsage a actual) db =
     rbind (project_account_usage_in_transaction db a actual now) (\<lambda>db. Inr (db, Done))"
| "exec_billing e now (ExpireWindows limit) db = Inr (fst (delete_expired_rate_windows db now limit), Done)"
| "exec_billing e now (ExpireRollups limit) db = Inr (fst (delete_expired_budget_rollups db now limit), Done)"

text \<open>The reservation a call uses, which its caller must have been given.\<close>

fun handle_of :: "billing_call \<Rightarrow> usage_reservation option" where
  "handle_of (Resize key price r ic oc) = Some r"
| "handle_of (Settle r usage metered lid aid) = Some r"
| "handle_of (SettleUnits mr units lid aid) = Some (mr_reservation mr)"
| "handle_of (SettleDirect r usage lid aid) = Some r"
| "handle_of (Confirm r confirmed lid aid) = Some r"
| "handle_of _ = None"

fun touched_row :: "billing_call \<Rightarrow> uuid option" where
  "touched_row (Reserve key price ic oc rid) = Some rid"
| "touched_row (ReserveUnits key price ceiling rid) = Some rid"
| "touched_row c = map_option ur_id (handle_of c)"

fun bank_ops :: "billing_call \<Rightarrow> billing_reply \<Rightarrow> bank_op set" where
  "bank_ops (Reserve key price ic oc rid) (Admitted r) = {open_op r}"
| "bank_ops (ReserveUnits key price ceiling rid) (Admitted r) = {open_op r}"
| "bank_ops (Resize key price r ic oc) (Admitted r') = {Reopen (ur_id r) (ur_reserved_micros r')}"
| "bank_ops (GrantCredit a amount source key lid) (Amount s) = grant_ops a amount"
| "bank_ops (ReverseCredit a grant_key source key lid) (Amount s) = reverse_ops a s"
| "bank_ops c (Charged m) = (case handle_of c of Some r \<Rightarrow> {Close (ur_id r) m} | None \<Rightarrow> {})"
| "bank_ops c Done = {Idle}"
| "bank_ops c _ = {}"

definition holds_handle :: "billing_call \<Rightarrow> billing_db \<Rightarrow> bool" where
  "holds_handle c db = (case handle_of c of None \<Rightarrow> True | Some r \<Rightarrow> reservation_matches db r)"

definition is_job :: "billing_call \<Rightarrow> bool" where
  "is_job c = (case c of ProjectUsage _ _ \<Rightarrow> True | ExpireWindows _ \<Rightarrow> True | ExpireRollups _ \<Rightarrow> True | _ \<Rightarrow> False)"

lemma is_job_simps [simp]:
  "is_job (ProjectUsage a m)" "is_job (ExpireWindows limit)" "is_job (ExpireRollups limit)"
  by (simp_all add: is_job_def)

lemma job_alone:
  assumes "billing_inv db" and "exec_billing e now c db = Inr (db', x)" and "is_job c"
  shows "posts db db' a k 0 0 \<and> bank_of db' = bank_of db \<and> usage_reservations db' = usage_reservations db"
proof (cases c)
  case (ProjectUsage b m)
  then show ?thesis using assms(2) project_alone [OF assms(1), of b m now db'] by (simp add: rbind_Inr_iff)
next
  case (ExpireWindows limit)
  then show ?thesis using assms(2) retention_alone [OF assms(1), of db' now limit] by simp
next
  case (ExpireRollups limit)
  then show ?thesis using assms(2) retention_alone [OF assms(1), of db' now limit] by simp
qed (use assms(3) in \<open>simp_all add: is_job_def\<close>)

interpretation call: ledger_tx "exec_billing e now c" "holds_handle c" "bank_ops c" "\<lambda>_. touched_row c" for e now c
proof unfold_locales
  fix db db' x
  assume inv: "billing_inv db" and pre: "holds_handle c db" and ok: "exec_billing e now c db = Inr (db', x)"
  note simps = replying_Inr rbind_Inr_iff holds_handle_def
  have job: "posts db db' [] [] 0 0 \<and> bank_of db' = bank_of db \<and> usage_reservations db' = usage_reservations db"
    if "is_job c" using job_alone [OF inv ok that] by simp
  show "\<exists>a k hold book. posts db db' a k hold book"
    using ok pre job
    by (cases c)
       (auto simp: simps
         dest: reserving.posting [OF inv TrueI] reserving_units.posting [OF inv TrueI] resizing.posting [OF inv TrueI]
          settling_terminal.posting [OF inv] settling_units.posting [OF inv] settling_direct.posting [OF inv]
          confirming.posting [OF inv] granting.posting [OF inv TrueI] reversing.posting [OF inv TrueI])
  show "\<exists>op \<in> bank_ops c x. bank_of db' = bank_apply op (bank_of db)"
    using ok pre job
    by (cases c)
       (auto simp: simps
         dest: reserving.refines [OF inv TrueI] reserving_units.refines [OF inv TrueI] resizing.refines [OF inv TrueI]
          settling_terminal.refines [OF inv] settling_units.refines [OF inv] settling_direct.refines [OF inv]
          confirming.refines [OF inv] granting.refines [OF inv TrueI] reversing.refines [OF inv TrueI])
  show "tget (usage_reservations db') i = tget (usage_reservations db) i" if "touched_row c \<noteq> Some i" for i
    using ok pre that job
    by (cases c)
       (auto simp: simps
         dest: reserving.rows [OF inv TrueI] reserving_units.rows [OF inv TrueI] resizing.rows [OF inv TrueI]
          settling_terminal.rows [OF inv] settling_units.rows [OF inv] settling_direct.rows [OF inv]
          confirming.rows [OF inv] granting.rows [OF inv TrueI] reversing.rows [OF inv TrueI])
qed

text \<open>
  The database and the reservations its callers hold. A call that fails rolls back and
  changes neither, so a run lists the calls that succeeded, in the order of their commits.
\<close>

record billing_system =
  sys_db :: billing_db
  sys_handles :: "usage_reservation list"

fun next_handles :: "billing_call \<Rightarrow> billing_reply \<Rightarrow> usage_reservation list \<Rightarrow> usage_reservation list" where
  "next_handles (Resize key price r ic oc) (Admitted r') hs = r' # filter (\<lambda>h. ur_id h \<noteq> ur_id r) hs"
| "next_handles c (Admitted r) hs = r # hs"
| "next_handles c _ hs = hs"

inductive billing_run :: "codecs \<Rightarrow> billing_system \<Rightarrow> (billing_call \<times> billing_reply) list \<Rightarrow> billing_system \<Rightarrow> bool"
  for e and s0 where
  start: "billing_run e s0 [] s0"
| commit: "billing_run e s0 cs s \<Longrightarrow> set_option (handle_of c) \<subseteq> set (sys_handles s) \<Longrightarrow>
    exec_billing e now c (sys_db s) = Inr (db', reply) \<Longrightarrow>
    billing_run e s0 (cs @ [(c, reply)]) \<lparr>sys_db = db', sys_handles = next_handles c reply (sys_handles s)\<rparr>"

inductive_cases billing_runE [elim]: "billing_run e s0 cs s"

definition system_inv :: "billing_system \<Rightarrow> bool" where
  "system_inv s \<longleftrightarrow> billing_inv (sys_db s) \<and> (\<forall>r \<in> set (sys_handles s). reservation_matches (sys_db s) r)"

lemma matches_row: "reservation_matches db r \<Longrightarrow> tget (usage_reservations db) (ur_id r) \<noteq> None"
  by (auto simp: reservation_matches_def split: option.splits)

text \<open>A handle stays good across a call: either the call leaves its row alone, or it settles it.\<close>

lemma settle_keeps_handle:
  assumes "billing_inv db" and "reservation_matches db r" and "reservation_matches db h"
    and ok: "settle_token_usage_with_explicit_charge dp db r usage now forced lid aid = Inr (db', m)"
  shows "reservation_matches db' h"
proof (cases "ur_id h = ur_id r")
  case True
  then have own: "ur_account_id h = ur_account_id r" "ur_key_id h = ur_key_id r" "ur_mode h = ur_mode r"
    using assms(2,3) by (auto simp: reservation_matches_def split: option.splits)
  show ?thesis by (rule settled_row [OF assms(1,2) ok]) (simp add: reservation_matches_def own True)
next
  case False
  then show ?thesis using settling.keeps_handle [OF assms(1,2) ok assms(3)] by simp
qed

lemma charge_keeps_handle:
  assumes "billing_inv db" and "holds_handle c db" and "reservation_matches db h"
    and "exec_billing e now c db = Inr (db', Charged m)"
  shows "reservation_matches db' h"
proof (cases c)
  case (Confirm r confirmed lid aid)
  then have match: "reservation_matches db r" using assms(2) by (simp add: holds_handle_def)
  have ok: "settle_confirmed_image_charge_in_transaction (cd_decimal e) db r now confirmed lid aid = Inr (db', m)"
    using Confirm assms(4) by (auto simp: replying_Inr)
  show ?thesis
  proof (rule confirmed_stages [OF assms(1) match ok])
    fix db1 assume inv1: "billing_inv db1" and res: "usage_reservations db1 = usage_reservations db"
      and match1: "reservation_matches db1 r"
      and s: "settle_token_usage_with_explicit_charge (cd_decimal e) db1 r default_usage now (Some confirmed) lid aid = Inr (db', m)"
    have "reservation_matches db1 h" using assms(3) by (simp add: reservation_matches_def res)
    then show ?thesis by (rule settle_keeps_handle [OF inv1 match1 _ s])
  qed
qed (use assms in \<open>auto simp: replying_Inr rbind_Inr_iff holds_handle_def settle_terminal_usage_in_transaction_def
      settle_metered_usage_in_transaction_def settle_token_usage_def settle_token_usage_in_transaction_def
      ensure_Inr_iff intro: settle_keeps_handle\<close>)

lemma admitted_handle:
  assumes inv: "billing_inv db" and "exec_billing e now c db = Inr (db', Admitted r)"
  shows "reservation_matches db' r \<and>
    ((\<exists>i. touched_row c = Some i \<and> tget (usage_reservations db) i = None) \<or> (\<exists>key price r0 ic oc. c = Resize key price r0 ic oc))"
proof (cases c)
  case (Reserve key price ic oc rid)
  then have "reserve_usage_with_id_in_transaction (cd_decimal e) (cd_price e) db key price ic oc now rid = Inr (db', r)"
    using assms(2) by (auto simp: replying_Inr)
  from reserve_usage_effect [OF inv this] show ?thesis using contract_row_fresh Reserve by (metis touched_row.simps(1))
next
  case (ReserveUnits key price ceiling rid)
  then obtain mr where "r = mr_reservation mr"
    "reserve_metered_usage_with_id_in_transaction (cd_decimal e) (cd_units e) db key price ceiling now rid = Inr (db', mr)"
    using assms(2) by (auto simp: replying_Inr)
  with reserve_metered_effect [OF inv this(2)] show ?thesis
    using contract_row_fresh ReserveUnits by (metis touched_row.simps(2))
next
  case (Resize key price r0 ic oc)
  then show ?thesis using assms(2) resize_effect [OF inv] by (auto simp: replying_Inr)
qed (use assms(2) in \<open>auto simp: replying_Inr rbind_Inr_iff\<close>)

lemma system_inv_commit:
  assumes "system_inv s" and held: "set_option (handle_of c) \<subseteq> set (sys_handles s)"
    and ok: "exec_billing e now c (sys_db s) = Inr (db', reply)"
  shows "system_inv \<lparr>sys_db = db', sys_handles = next_handles c reply (sys_handles s)\<rparr>"
proof -
  have inv: "billing_inv (sys_db s)" and old: "\<And>h. h \<in> set (sys_handles s) \<Longrightarrow> reservation_matches (sys_db s) h"
    using assms(1) by (auto simp: system_inv_def)
  have pre: "holds_handle c (sys_db s)" using held old by (auto simp: holds_handle_def split: option.splits)
  have keep: "reservation_matches db' h" if "h \<in> set (sys_handles s)" "touched_row c \<noteq> Some (ur_id h)" for h
    using call.keeps_handle [OF inv pre ok old] that by blast
  have "reservation_matches db' h" if h: "h \<in> set (next_handles c reply (sys_handles s))" for h
  proof (cases reply)
    case (Admitted r)
    note a = admitted_handle [OF inv ok [unfolded Admitted]]
    show ?thesis
    proof (cases "h = r")
      case False
      then have "h \<in> set (sys_handles s)" "touched_row c \<noteq> Some (ur_id h)"
        using h Admitted a matches_row [OF old, of h] by (cases c; auto)+
      then show ?thesis by (rule keep)
    qed (use a in simp)
  next
    case (Charged m)
    then show ?thesis using charge_keeps_handle [OF inv pre _ ok [unfolded Charged]] h old by auto
  next
    case (Amount x)
    then have "touched_row c = None" using ok by (cases c) (auto simp: replying_Inr rbind_Inr_iff)
    then show ?thesis using keep h Amount by auto
  next
    case Done
    then have "touched_row c = None" using ok by (cases c) (auto simp: replying_Inr rbind_Inr_iff)
    then show ?thesis using keep h Done by auto
  qed
  then show ?thesis using call.keeps_inv [OF inv pre ok] by (simp add: system_inv_def)
qed

text \<open>A settled row keeps its charge, and a settlement reports it.\<close>

definition settled_with :: "billing_db \<Rightarrow> uuid \<Rightarrow> int \<Rightarrow> bool" where
  "settled_with db i m = (case tget (usage_reservations db) i of
      None \<Rightarrow> False | Some row \<Rightarrow> rr_status row = Settled \<and> rr_actual_micros row = Some m)"

lemma settle_settles:
  assumes "billing_inv db" and "reservation_matches db r"
    and ok: "settle_token_usage_with_explicit_charge dp db r usage now forced lid aid = Inr (db', m)"
  shows "settled_with db' (ur_id r) m \<and> (settled_with db (ur_id r) m0 \<longrightarrow> m = m0)"
proof
  show "settled_with db' (ur_id r) m" by (rule settled_row [OF assms]) (simp add: settled_with_def)
  show "settled_with db (ur_id r) m0 \<longrightarrow> m = m0"
    using settle_effect [OF assms] by (auto simp: settled_with_def split: option.splits if_splits)
qed

lemma charge_settles:
  assumes "billing_inv db" and "holds_handle c db" and "exec_billing e now c db = Inr (db', Charged m)"
  obtains r where "handle_of c = Some r" "settled_with db' (ur_id r) m" "\<And>m0. settled_with db (ur_id r) m0 \<Longrightarrow> m = m0"
proof (cases c)
  case (Confirm r confirmed lid aid)
  then have match: "reservation_matches db r" using assms(2) by (simp add: holds_handle_def)
  have ok: "settle_confirmed_image_charge_in_transaction (cd_decimal e) db r now confirmed lid aid = Inr (db', m)"
    using Confirm assms(3) by (auto simp: replying_Inr)
  show thesis
  proof (rule confirmed_stages [OF assms(1) match ok])
    fix db1 assume inv1: "billing_inv db1" and res: "usage_reservations db1 = usage_reservations db"
      and match1: "reservation_matches db1 r"
      and s: "settle_token_usage_with_explicit_charge (cd_decimal e) db1 r default_usage now (Some confirmed) lid aid = Inr (db', m)"
    have "settled_with db1 = settled_with db" by (intro ext) (simp add: settled_with_def res)
    then show thesis using settle_settles [OF inv1 match1 s] Confirm by (intro that) auto
  qed
qed (use assms that in \<open>auto simp: replying_Inr rbind_Inr_iff holds_handle_def settle_terminal_usage_in_transaction_def
      settle_metered_usage_in_transaction_def settle_token_usage_def settle_token_usage_in_transaction_def
      ensure_Inr_iff dest: settle_settles\<close>)

lemma call_keeps_settled:
  assumes inv: "billing_inv db" and pre: "holds_handle c db" and ok: "exec_billing e now c db = Inr (db', reply)"
    and st: "settled_with db i m"
  shows "settled_with db' i m"
proof (cases "touched_row c = Some i")
  case False
  then show ?thesis using call.rows [OF inv pre ok] st by (simp add: settled_with_def)
next
  case True
  show ?thesis
  proof (cases reply)
    case (Charged m')
    show ?thesis
      by (rule charge_settles [OF inv pre ok [unfolded Charged]]) (use True st in \<open>cases c; auto\<close>)
  next
    case (Admitted r)
    have False
    proof -
      consider "tget (usage_reservations db) i = None" | key price r0 ic oc where "c = Resize key price r0 ic oc"
        using admitted_handle [OF inv ok [unfolded Admitted]] True by auto
      then show False
      proof cases
        case 1
        then show False using st by (simp add: settled_with_def)
      next
        case 2
        then have "resize_usage_reservation_in_transaction (cd_decimal e) (cd_price e) db key price r0 ic oc now = Inr (db', r)"
          using ok Admitted by (auto simp: replying_Inr)
        from resize_rows [OF this] show False using 2 True st by (auto simp: settled_with_def owns_open_def)
      qed
    qed
    then show ?thesis ..
  qed (use ok True in \<open>cases c; auto simp: replying_Inr rbind_Inr_iff\<close>)+
qed

text \<open>Every run from a sound database stays sound, and every charge it reported is on record.\<close>

lemma billing_run_inv:
  assumes "billing_run e s0 cs s" and "system_inv s0"
  shows "system_inv s"
  using assms by (induction rule: billing_run.induct) (auto intro: system_inv_commit)

lemma system_pre:
  "system_inv s \<Longrightarrow> set_option (handle_of c) \<subseteq> set (sys_handles s) \<Longrightarrow> holds_handle c (sys_db s)"
  by (auto simp: system_inv_def holds_handle_def split: option.splits)

definition charges :: "(billing_call \<times> billing_reply) list \<Rightarrow> (uuid \<times> int) set" where
  "charges cs = {(ur_id r, m) | c r m. (c, Charged m) \<in> set cs \<and> handle_of c = Some r}"

lemma charges_snoc:
  "charges (cs @ [(c, reply)]) = charges cs \<union>
     (case (handle_of c, reply) of (Some r, Charged m) \<Rightarrow> {(ur_id r, m)} | _ \<Rightarrow> {})"
  by (auto simp: charges_def split: option.splits billing_reply.splits)

lemma billing_run_charges:
  assumes "billing_run e s0 cs s" and "system_inv s0"
  shows "(\<forall>(i, m) \<in> charges cs. settled_with (sys_db s) i m) \<and>
    (\<exists>ops. list_all2 (\<lambda>op (c, reply). op \<in> bank_ops c reply) ops cs \<and>
       bank_of (sys_db s) = fold bank_apply ops (bank_of (sys_db s0)))"
  using assms
proof (induction rule: billing_run.induct)
  case start
  have "list_all2 (\<lambda>op (c, reply). op \<in> bank_ops c reply) [] [] \<and>
      bank_of (sys_db s0) = fold bank_apply [] (bank_of (sys_db s0))" by simp
  then show ?case by (auto simp: charges_def)
next
  case (commit cs s c now db' reply)
  have sinv: "system_inv s" by (rule billing_run_inv [OF commit.hyps(1) commit.prems])
  then have inv: "billing_inv (sys_db s)" by (simp add: system_inv_def)
  have pre: "holds_handle c (sys_db s)" by (rule system_pre [OF sinv commit.hyps(2)])
  note ok = commit.hyps(3) and IH = commit.IH [OF commit.prems]
  have old: "settled_with db' i m" if "(i, m) \<in> charges cs" for i m
    using call_keeps_settled [OF inv pre ok] IH that by blast
  have new: "settled_with db' (ur_id r) m" if "handle_of c = Some r" "reply = Charged m" for r m
    by (rule charge_settles [OF inv pre ok [unfolded that(2)]]) (use that in auto)
  have "\<forall>(i, m) \<in> charges (cs @ [(c, reply)]). settled_with db' i m"
    unfolding charges_snoc using old new by (auto split: option.splits billing_reply.splits)
  moreover obtain ops op where "list_all2 (\<lambda>op (c, reply). op \<in> bank_ops c reply) ops cs"
    "bank_of (sys_db s) = fold bank_apply ops (bank_of (sys_db s0))" "op \<in> bank_ops c reply"
    "bank_of db' = bank_apply op (bank_of (sys_db s))"
    using IH call.refines [OF inv pre ok] by blast
  then have "list_all2 (\<lambda>op (c, reply). op \<in> bank_ops c reply) (ops @ [op]) (cs @ [(c, reply)]) \<and>
      bank_of db' = fold bank_apply (ops @ [op]) (bank_of (sys_db s0))"
    by (simp add: list_all2_appendI)
  ultimately show ?case by auto
qed

subsection \<open>Properties of the system\<close>

text \<open>
  C2. The books balance in every state the system can reach: however reservations, resizes,
  settlements, grants, reversals, projections and retention jobs interleave, every account
  holds exactly what its ledger says, its reserved part is exactly the sum of the open
  holds on it, what is left is never negative, and every reservation a caller still has
  matches its row.
\<close>

theorem billing_system_sound:
  assumes "billing_run e s0 cs s" and "system_inv s0"
  shows "(\<forall>r \<in> set (sys_handles s). reservation_matches (sys_db s) r) \<and>
    (\<forall>a acct. tget (credit_accounts (sys_db s)) a = Some acct \<longrightarrow>
       0 \<le> ca_available acct \<and> ca_available acct \<le> i64_max \<and> 0 \<le> ca_reserved acct \<and> ca_reserved acct = account_holds (sys_db s) a \<and>
       ca_available acct + ca_reserved acct = account_books (sys_db s) a)"
  using billing_run_inv [OF assms] reserved_nonneg
  by (auto simp: system_inv_def billing_inv_def holds_ok_def books_ok_def amount_ok_def)

text \<open>
  C3. The accounting code refines the abstract bank: every run of transactions carries out,
  call by call, one operation of the bank that the call and its result allow, and the
  balances and open holds of the database are exactly those of the bank.
\<close>

theorem billing_system_refines_bank:
  assumes "billing_run e s0 cs s" and "system_inv s0"
  shows "\<exists>ops. list_all2 (\<lambda>op (c, reply). op \<in> bank_ops c reply) ops cs \<and>
    bank_of (sys_db s) = fold bank_apply ops (bank_of (sys_db s0))"
  using billing_run_charges [OF assms] by blast

text \<open>
  C4. A request is charged once: in any run, however calls interleave and whichever of the
  four settlement entry points they use, all settlements of one reservation report the
  same charge, and the row carries it at the end.
\<close>

theorem billing_system_charges_once:
  assumes "billing_run e s0 cs s" and "system_inv s0" and "(i, m) \<in> charges cs" and "(i, m') \<in> charges cs"
  shows "m = m' \<and> settled_with (sys_db s) i m"
proof -
  have "settled_with (sys_db s) i m" "settled_with (sys_db s) i m'"
    using billing_run_charges [OF assms(1,2)] assms(3,4) by blast+
  then show ?thesis by (auto simp: settled_with_def split: option.splits)
qed

subsection \<open>A concrete run\<close>

definition sample_codecs :: codecs where
  "sample_codecs = \<lparr>cd_decimal = sample_dp, cd_price = sample_ser, cd_units = (\<lambda>_. None)\<rparr>"

definition sample_system :: "billing_db \<Rightarrow> billing_system" where
  "sample_system db = \<lparr>sys_db = db, sys_handles = [sample_reserved]\<rparr>"

definition sample_call :: billing_call where
  "sample_call = Settle sample_reserved sample_usage None ''u1'' sample_aid"

lemma sample_system_inv: "system_inv (sample_system sample_open_db)"
  using sample_open_inv sample_open_matches by (simp add: system_inv_def sample_system_def)

lemma sample_run_settles: "billing_run sample_codecs (sample_system sample_open_db) [(sample_call, Charged 4)] (sample_system sample_settled_db)"
proof -
  have "exec_billing sample_codecs 130000 sample_call (sys_db (sample_system sample_open_db)) = Inr (sample_settled_db, Charged 4)"
    using sample_settle
    by (simp add: sample_call_def sample_codecs_def sample_system_def replying_def settle_terminal_usage_in_transaction_def)
  from billing_run.commit [OF billing_run.start _ this] show ?thesis
    by (simp add: sample_call_def sample_system_def)
qed

theorem billing_system_sound_witness: "reservation_matches sample_settled_db sample_reserved"
  using billing_system_sound [OF sample_run_settles sample_system_inv] by (simp add: sample_system_def)

theorem billing_system_refines_bank_witness:
  "bank_of sample_settled_db = bank_apply (Close ''r1'' 4) (bank_of sample_open_db)"
  using billing_system_refines_bank [OF sample_run_settles sample_system_inv]
  by (auto simp: sample_system_def sample_call_def list_all2_Cons2 sample_reserved_def)

theorem billing_system_charges_once_witness: "settled_with sample_settled_db ''r1'' 4"
proof -
  have "(''r1'', 4) \<in> charges [(sample_call, Charged 4)]"
    by (auto simp: charges_def sample_call_def sample_reserved_def intro!: exI [of _ sample_call] exI [of _ sample_reserved])
  from billing_system_charges_once [OF sample_run_settles sample_system_inv this this] show ?thesis
    by (simp add: sample_system_def)
qed

end
