(* ===== verification/Settlement_Adjust.thy ===== *)
theory Settlement_Adjust
  imports Ledger_Grants
begin

text \<open>
  Rebates on settled requests (\<open>src/src/db/billing/settlement_adjustments\<close>): every namespace
  keeps a desired rebate per settlement that only grows with its version; all namespaces
  together never exceed the gross cost; generic funding is returned first, then consumed
  subscription credit from the end of the allocation. \<open>hash\<close> stands for the SHA-256 digest
  of the serialised request, \<open>eid\<close>, \<open>lid\<close> and \<open>fid n\<close> for the identifiers the transaction
  draws, \<open>now\<close> for every reading of its clock.
\<close>

subsection \<open>Data\<close>

datatype settlement_kind = Text | Generation

record adjust_input =
  ai_account_id :: uuid
  ai_settlement_id :: uuid
  ai_namespace :: string
  ai_request_kind :: settlement_kind
  ai_request_id :: uuid
  ai_currency :: string
  ai_desired :: int
  ai_version :: int
  ai_digest :: string
  ai_source :: string
  ai_key :: string

record adjust_result =
  ar_account_id :: uuid
  ar_settlement_id :: uuid
  ar_namespace :: string
  ar_request_kind :: settlement_kind
  ar_request_id :: uuid
  ar_currency :: string
  ar_desired :: int
  ar_applied_delta :: int
  ar_cumulative :: int
  ar_remaining :: int
  ar_version :: int
  ar_entry_id :: "uuid option"
  ar_event_id :: uuid
  ar_created_at :: int
  ar_replayed :: bool

record feed_row =
  fd_account_id :: uuid
  fd_request_kind :: settlement_kind
  fd_request_id :: uuid
  fd_currency :: string
  fd_cost :: int

record baseline =
  bl_request_kind :: settlement_kind
  bl_request_id :: uuid
  bl_currency :: string
  bl_gross :: int
  bl_original :: int

record adjustment_state =
  st_desired :: int
  st_version :: int
  st_digest :: string
  st_source :: string
  st_last_event_id :: uuid
  st_last_delta :: int

record adjustment_event =
  ev_account_id :: uuid
  ev_settlement_id :: uuid
  ev_namespace :: string
  ev_request_kind :: settlement_kind
  ev_request_id :: uuid
  ev_currency :: string
  ev_desired :: int
  ev_applied_delta :: int
  ev_cumulative :: int
  ev_version :: int
  ev_digest :: string
  ev_source :: string
  ev_entry_id :: "uuid option"
  ev_created_at :: int

text \<open>The adjustment tables beside the billing tables.\<close>

record adjust_db =
  billing :: billing_db
  settlement_feed :: "(uuid, feed_row) table"
  baselines :: "(uuid \<times> uuid, baseline) table" \<comment> \<open>account, settlement\<close>
  adjustment_states :: "(uuid \<times> uuid \<times> string, adjustment_state) table" \<comment> \<open>account, settlement, namespace\<close>
  adjustment_events :: "(uuid, adjustment_event) table"
  adjustment_keys :: "(uuid \<times> string, string \<times> uuid) table" \<comment> \<open>account, key: hash, event\<close>
  entitlement_rollbacks :: "(uuid \<times> int, uuid \<times> int) table" \<comment> \<open>event, sequence: cycle, amount\<close>
  funding_reductions :: "(uuid \<times> uuid, int) table" \<comment> \<open>event, cycle\<close>

subsection \<open>Validation\<close>

definition canonicalize_input :: "adjust_input \<Rightarrow> adjust_input" where
  "canonicalize_input i = i\<lparr>ai_namespace := trim (ai_namespace i),
     ai_currency := to_ascii_uppercase (trim (ai_currency i)),
     ai_digest := to_ascii_lowercase (trim (ai_digest i)),
     ai_source := trim (ai_source i), ai_key := trim (ai_key i)\<rparr>"

fun split_colon :: "string \<Rightarrow> string list" where
  "split_colon [] = [[]]"
| "split_colon (c # s) = (if c = CHR '':'' then [] # split_colon s
     else case split_colon s of [] \<Rightarrow> [[c]] | p # ps \<Rightarrow> (c # p) # ps)"

definition valid_namespace_part :: "string \<Rightarrow> bool" where
  "valid_namespace_part v \<longleftrightarrow> 1 \<le> length v \<and> length v \<le> 64 \<and> (v \<noteq> [] \<and> is_ascii_lower (hd v)) \<and>
     list_all (\<lambda>c. is_ascii_lower c \<or> is_ascii_digit c \<or> c = CHR ''-'') v"

definition validate_input :: "adjust_input \<Rightarrow> unit res" where
  "validate_input i =
     rbind (validate_idempotency_key (ai_key i) ''Idempotency-Key'') (\<lambda>_.
     rbind (validate_currency (ai_currency i)) (\<lambda>_.
     rbind (ensure (case split_colon (ai_namespace i) of
         [owner, name] \<Rightarrow> valid_namespace_part owner \<and> valid_namespace_part name | _ \<Rightarrow> False)
       (BadRequest ''namespace must match [a-z][a-z0-9-]{0,63}:[a-z][a-z0-9-]{0,63}'')) (\<lambda>_.
     rbind (ensure (\<not> (ai_version i \<le> 0 \<or> ai_desired i < 0))
       (BadRequest ''desired rebate must be non-negative and version must be positive'')) (\<lambda>_.
     rbind (ensure (length (ai_digest i) = 64 \<and> list_all is_lower_hex (ai_digest i))
       (BadRequest ''decision_digest must be a lowercase SHA-256 hex digest'')) (\<lambda>_.
     ensure (\<not> (ai_source i = [] \<or> 200 < length (ai_source i) \<or> has_control (ai_source i)))
       (BadRequest ''source must contain 1 to 200 non-control characters''))))))"

subsection \<open>Baseline and states\<close>

definition ensure_baseline ::
  "adjust_db \<Rightarrow> adjust_input \<Rightarrow> int \<Rightarrow> string \<Rightarrow> (adjust_db \<times> baseline) res" where
  "ensure_baseline ad i gross currency =
     (case tget (baselines ad) (ai_account_id i, ai_settlement_id i) of
        Some b \<Rightarrow> rbind (ensure (bl_request_kind b = ai_request_kind i \<and> bl_request_id b = ai_request_id i \<and>
            eq_ignore_ascii_case (bl_currency b) currency \<and> bl_gross b = gross)
          (Conflict ''settlement adjustment baseline no longer matches settlement'')) (\<lambda>_. Inr (ad, b))
      | None \<Rightarrow>
          rbind (sql_int (entry_allocated (billing ad) (ai_settlement_id i))) (\<lambda>original.
          rbind (ensure (\<not> (original < 0 \<or> gross < original))
            (Conflict ''settlement entitlement allocations do not match gross settlement cost'')) (\<lambda>_.
          let b = \<lparr>bl_request_kind = ai_request_kind i, bl_request_id = ai_request_id i, bl_currency = currency,
                   bl_gross = gross, bl_original = original\<rparr> in
          rbind (ensure (\<not> list_ex (\<lambda>(_, x). bl_request_kind x = ai_request_kind i \<and>
              bl_request_id x = ai_request_id i) (baselines ad) \<and> 0 \<le> gross) (db_error ''database'')) (\<lambda>_.
          Inr (ad\<lparr>baselines := tput (ai_account_id i, ai_settlement_id i) b (baselines ad)\<rparr>, b)))))"

definition load_states :: "adjust_db \<Rightarrow> uuid \<Rightarrow> uuid \<Rightarrow> (string \<times> adjustment_state) list" where
  "load_states ad a s = map (\<lambda>((_, _, ns), st). (ns, st))
     (filter (\<lambda>((a', s', _), _). a' = a \<and> s' = s) (adjustment_states ad))"

text \<open>The loop over the states: their sum, and the one of the request's own namespace.\<close>

fun sum_states :: "string \<Rightarrow> (string \<times> adjustment_state) list \<Rightarrow> int \<Rightarrow> adjustment_state option \<Rightarrow>
    (int \<times> adjustment_state option) res" where
  "sum_states ns [] acc own = Inr (acc, own)"
| "sum_states ns ((n, st) # sts) acc own =
     rbind (ok_or (checked (acc + st_desired st))
       (Conflict ''settlement adjustment cumulative amount overflowed'')) (\<lambda>acc.
     sum_states ns sts acc (if n = ns then Some st else own))"

definition persist_state :: "adjust_db \<Rightarrow> adjust_input \<Rightarrow> uuid \<Rightarrow> int \<Rightarrow> adjust_db" where
  "persist_state ad i eid delta = ad\<lparr>adjustment_states :=
     tput (ai_account_id i, ai_settlement_id i, ai_namespace i)
       \<lparr>st_desired = ai_desired i, st_version = ai_version i, st_digest = ai_digest i, st_source = ai_source i,
        st_last_event_id = eid, st_last_delta = delta\<rparr> (adjustment_states ad)\<rparr>"

definition insert_idempotency :: "adjust_db \<Rightarrow> adjust_input \<Rightarrow> string \<Rightarrow> uuid \<Rightarrow> adjust_db res" where
  "insert_idempotency ad i h eid = (case tget (adjustment_keys ad) (ai_account_id i, ai_key i) of
      None \<Rightarrow> Inr (ad\<lparr>adjustment_keys := tput (ai_account_id i, ai_key i) (h, eid) (adjustment_keys ad)\<rparr>)
    | Some x \<Rightarrow> if x = (h, eid) then Inr ad
        else Inl (Conflict ''Idempotency-Key was already used for a different settlement adjustment''))"

definition event_result :: "adjust_db \<Rightarrow> uuid \<Rightarrow> bool \<Rightarrow> adjust_result res" where
  "event_result ad eid replayed =
     rbind (ok_or (tget (adjustment_events ad) eid) (internal ''idempotency_event_result_1'')) (\<lambda>e.
     rbind (ok_or (tget (baselines ad) (ev_account_id e, ev_settlement_id e)) (internal ''idempotency_event_result_3'')) (\<lambda>b.
     rbind (ok_or (checked (bl_gross b - ev_cumulative e)) (internal ''idempotency_event_result_4'')) (\<lambda>remaining.
     Inr \<lparr>ar_account_id = ev_account_id e, ar_settlement_id = ev_settlement_id e, ar_namespace = ev_namespace e,
          ar_request_kind = ev_request_kind e, ar_request_id = ev_request_id e, ar_currency = ev_currency e,
          ar_desired = ev_desired e, ar_applied_delta = ev_applied_delta e, ar_cumulative = ev_cumulative e,
          ar_remaining = remaining, ar_version = ev_version e, ar_entry_id = ev_entry_id e, ar_event_id = eid,
          ar_created_at = ev_created_at e, ar_replayed = replayed\<rparr>)))"

subsection \<open>Returning consumed subscription credit\<close>

text \<open>
  The allocations of a settlement, the one whose cycle ends last in front. Sorting by the
  reversed key order is written as the reverse of the ascending sort: the keys are distinct.
\<close>

definition allocation_tail :: "billing_db \<Rightarrow> uuid \<Rightarrow> (uuid \<times> uuid \<times> int) list" where
  "allocation_tail db sid =
     map (\<lambda>(i, x, _). (i, al_cycle_id x, al_amount x))
       (rev (sort_key (\<lambda>(i, x, c). (cy_period_end c, al_cycle_id x, i))
         (concat (map (\<lambda>(i, x). case tget (entitlement_cycles db) (al_cycle_id x) of
             None \<Rightarrow> [] | Some c \<Rightarrow> if al_usage_entry_id x = sid \<and> 0 < al_amount x then [(i, x, c)] else [])
           (usage_allocations db)))))"

fun sum_allocations :: "(uuid \<times> uuid \<times> int) list \<Rightarrow> int \<Rightarrow> int res" where
  "sum_allocations [] acc = Inr acc"
| "sum_allocations ((_, _, m) # xs) acc =
     rbind (ok_or (checked (acc + m)) (Conflict ''settlement allocation amount overflowed'')) (sum_allocations xs)"

text \<open>Consumption goes back to the cycle; funding it can no longer use goes back to the account.\<close>

definition return_consumption :: "billing_db \<Rightarrow> uuid \<Rightarrow> int \<Rightarrow> int \<Rightarrow> (billing_db \<times> cycle) res" where
  "return_consumption db cid amount now =
     rbind (ok_or (case tget (entitlement_cycles db) cid of
         None \<Rightarrow> None | Some c \<Rightarrow> if amount \<le> cy_consumed c then Some c else None)
       (Conflict ''entitlement consumption is no longer reversible'')) (\<lambda>c.
     rbind (sql_int (cy_consumed c - amount)) (\<lambda>used.
     let c' = c\<lparr>cy_consumed := used, cy_updated_at := now\<rparr> in
     Inr (db\<lparr>entitlement_cycles := tput cid c' (entitlement_cycles db)\<rparr>, c')))"

definition funding_target :: "cycle \<Rightarrow> int \<Rightarrow> int" where
  "funding_target c now = (if cy_active c \<and> now < cy_period_end c then max (cy_desired c) (cy_consumed c)
     else cy_consumed c)"

definition funding_entry :: "uuid \<Rightarrow> uuid \<Rightarrow> uuid \<Rightarrow> uuid \<Rightarrow> int \<Rightarrow> string \<Rightarrow> int \<Rightarrow> ledger_entry" where
  "funding_entry a sid eid cid amount currency now =
     \<lparr>le_account_id = a, le_key_id = None, le_kind = EntitlementAdjustment, le_amount = - amount,
      le_currency = currency, le_source = ''settlement-adjustment:'' @ eid,
      le_idempotency_key = Some (''settlement-adjustment:funding:'' @ eid @ '':'' @ cid),
      le_reference_entry_id = Some sid, le_entitlement_cycle_id = Some cid, le_created_at = now,
      le_usage_snapshot = None\<rparr>"

definition reduce_funding ::
  "adjust_db \<Rightarrow> uuid \<Rightarrow> uuid \<Rightarrow> uuid \<Rightarrow> uuid \<Rightarrow> cycle \<Rightarrow> int \<Rightarrow> uuid \<Rightarrow> (adjust_db \<times> int) res" where
  "reduce_funding ad a sid eid cid c now fid =
     (let target = funding_target c now; reduction = cy_funded c - target in
      rbind (ensure (target \<le> cy_funded c)
        (Conflict ''entitlement funding no longer covers its consumption'')) (\<lambda>_.
      if 0 < reduction then
        rbind (ledger_insert fid (funding_entry a sid eid cid reduction (cy_currency c) now)
          (ledger_entries (billing ad))) (\<lambda>t.
        rbind (sql_insert (eid, cid) reduction (funding_reductions ad)) (\<lambda>fr.
        Inr (ad\<lparr>billing := (billing ad)\<lparr>entitlement_cycles := tput cid
                  (c\<lparr>cy_funded := target, cy_updated_at := now\<rparr>) (entitlement_cycles (billing ad)),
                ledger_entries := t\<rparr>, funding_reductions := fr\<rparr>, reduction)))
      else Inr (ad, 0)))"

definition shrink_allocation :: "billing_db \<Rightarrow> uuid \<Rightarrow> int \<Rightarrow> int \<Rightarrow> billing_db" where
  "shrink_allocation db i allocated amount =
     (if amount = allocated then db\<lparr>usage_allocations := tdel i (usage_allocations db)\<rparr>
      else case tget (usage_allocations db) i of
        None \<Rightarrow> db
      | Some x \<Rightarrow> if amount \<le> al_amount x
          then db\<lparr>usage_allocations := tput i (x\<lparr>al_amount := al_amount x - amount\<rparr>) (usage_allocations db)\<rparr>
          else db)"

definition insert_rollback :: "adjust_db \<Rightarrow> uuid \<Rightarrow> int \<Rightarrow> uuid \<Rightarrow> int \<Rightarrow> adjust_db res" where
  "insert_rollback ad eid seq cid amount =
     rbind (ensure (\<not> list_ex (\<lambda>((e, _), (c, _)). e = eid \<and> c = cid) (entitlement_rollbacks ad) \<and> 0 < amount)
       (db_error ''database'')) (\<lambda>_.
     rbind (sql_insert (eid, seq) (cid, amount) (entitlement_rollbacks ad)) (\<lambda>t.
     Inr (ad\<lparr>entitlement_rollbacks := t\<rparr>)))"

definition rollback_one ::
  "adjust_db \<Rightarrow> uuid \<Rightarrow> uuid \<Rightarrow> uuid \<Rightarrow> int \<Rightarrow> int \<Rightarrow> uuid \<Rightarrow> uuid \<Rightarrow> uuid \<Rightarrow> int \<Rightarrow> int \<Rightarrow> int \<Rightarrow> (adjust_db \<times> int) res" where
  "rollback_one ad a sid eid now seq fid i cid allocated amount funding =
     rbind (return_consumption (billing ad) cid amount now) (\<lambda>(db, c).
     rbind (reduce_funding (ad\<lparr>billing := db\<rparr>) a sid eid cid c now fid) (\<lambda>(ad, reduction).
     rbind (ok_or (checked (funding + reduction)) (Conflict ''settlement funding reduction overflowed'')) (\<lambda>funding.
     rbind (insert_rollback ad eid seq cid amount) (\<lambda>ad.
     Inr (ad\<lparr>billing := shrink_allocation (billing ad) i allocated amount\<rparr>, funding)))))"

fun rollback_loop ::
  "uuid \<Rightarrow> uuid \<Rightarrow> uuid \<Rightarrow> int \<Rightarrow> (nat \<Rightarrow> uuid) \<Rightarrow> nat \<Rightarrow> (uuid \<times> uuid \<times> int) list \<Rightarrow> int \<Rightarrow> int \<Rightarrow> adjust_db \<Rightarrow>
   (adjust_db \<times> int \<times> int) res" where
  "rollback_loop a sid eid now fid n [] todo funding ad = Inr (ad, funding, todo)"
| "rollback_loop a sid eid now fid n ((i, cid, allocated) # xs) todo funding ad =
     (if todo = 0 then Inr (ad, funding, todo)
      else let amount = min allocated todo in
        rbind (rollback_one ad a sid eid now (int (Suc n)) (fid n) i cid allocated amount funding) (\<lambda>(ad, funding).
        rollback_loop a sid eid now fid (Suc n) xs (todo - amount) funding ad))"

definition rollback_entitlement_tail ::
  "adjust_db \<Rightarrow> uuid \<Rightarrow> uuid \<Rightarrow> int \<Rightarrow> int \<Rightarrow> uuid \<Rightarrow> int \<Rightarrow> (nat \<Rightarrow> uuid) \<Rightarrow> (adjust_db \<times> int) res" where
  "rollback_entitlement_tail ad a sid original target eid now fid =
     (let xs = allocation_tail (billing ad) sid in
      rbind (sum_allocations xs 0) (\<lambda>remaining.
      rbind (ok_or (checked (original - remaining))
        (Conflict ''settlement allocations exceed their original amount'')) (\<lambda>current.
      rbind (ensure (\<not> target < current)
        (Conflict ''automatic settlement adjustments cannot reverse entitlement rollback'')) (\<lambda>_.
      rbind (rollback_loop a sid eid now fid 0 xs (target - current) 0 ad) (\<lambda>(ad, funding, todo).
      rbind (ensure (todo = 0) (Conflict ''settlement allocation tail is no longer reversible'')) (\<lambda>_.
      Inr (ad, funding)))))))"

subsection \<open>Reconciliation\<close>

definition find_idempotency :: "adjust_db \<Rightarrow> uuid \<Rightarrow> string \<Rightarrow> (string \<times> uuid) option" where
  "find_idempotency ad a key = tget (adjustment_keys ad) (a, key)"

text \<open>The settlement the request names, and that the request describes it.\<close>

definition bind_settlement :: "adjust_db \<Rightarrow> adjust_input \<Rightarrow> feed_row res" where
  "bind_settlement ad i =
     rbind (ok_or (case tget (settlement_feed ad) (ai_settlement_id i) of
         None \<Rightarrow> None | Some f \<Rightarrow> if fd_account_id f = ai_account_id i then Some f else None) NotFound) (\<lambda>f.
     rbind (ensure (\<not> (fd_request_kind f \<noteq> ai_request_kind i \<or> fd_request_id f \<noteq> ai_request_id i \<or>
         \<not> eq_ignore_ascii_case (fd_currency f) (ai_currency i)))
       (Conflict ''adjustment request identity does not bind the settlement'')) (\<lambda>_.
     rbind (ensure (\<not> fd_cost f < ai_desired i)
       (Conflict ''desired rebate cannot exceed the gross settlement cost'')) (\<lambda>_.
     Inr f)))"

text \<open>
  What the stored state of the namespace says of the request: an error, the state whose
  decision it repeats, or nothing that stands against it.
\<close>

definition version_decision ::
  "adjust_input \<Rightarrow> adjustment_state option \<Rightarrow> adjustment_state option res" where
  "version_decision i existing = (case existing of
      None \<Rightarrow> Inr None
    | Some st \<Rightarrow>
        if ai_version i < st_version st then
          Inl (Conflict ''settlement adjustment version is older than current state'')
        else if ai_version i = st_version st then
          rbind (ensure (\<not> (st_desired st \<noteq> ai_desired i \<or> st_digest st \<noteq> ai_digest i \<or> st_source st \<noteq> ai_source i))
            (Conflict ''settlement adjustment version has a different payload'')) (\<lambda>_. Inr (Some st))
        else if ai_desired i < st_desired st then
          Inl (Conflict ''automatic settlement adjustments cannot lower desired rebate'')
        else Inr None)"

definition cumulative_rebate :: "int \<Rightarrow> int \<Rightarrow> int \<Rightarrow> int \<Rightarrow> int res" where
  "cumulative_rebate before current desired gross =
     rbind (ok_or (case checked (before - current) of None \<Rightarrow> None | Some v \<Rightarrow> checked (v + desired))
       (Conflict ''settlement adjustment cumulative amount overflowed'')) (\<lambda>cum.
     rbind (ensure (\<not> gross < cum)
       (Conflict ''settlement adjustment namespaces exceed gross settlement cost'')) (\<lambda>_. Inr cum))"

text \<open>Generic funding is rebated first; only the excess returns to subscription credit.\<close>

definition rollback_target :: "baseline \<Rightarrow> int \<Rightarrow> int res" where
  "rollback_target b cum =
     rbind (ok_or (checked (bl_gross b - bl_original b))
       (internal ''settlement_adjustments_mod_reconcile_settlement_adjustment_2'')) (\<lambda>generic.
     let target = max (case checked (cum - generic) of None \<Rightarrow> 0 | Some v \<Rightarrow> v) 0 in
     rbind (ensure (\<not> bl_original b < target) (internal ''settlement_adjustments_mod_site_1'')) (\<lambda>_. Inr target))"

definition rebate_entry :: "adjust_input \<Rightarrow> string \<Rightarrow> int \<Rightarrow> int \<Rightarrow> ledger_entry" where
  "rebate_entry i h applied now =
     \<lparr>le_account_id = ai_account_id i, le_key_id = None, le_kind = SettlementAdjustment, le_amount = applied,
      le_currency = ai_currency i, le_source = ai_source i,
      le_idempotency_key = Some (''settlement-adjustment:'' @ h),
      le_reference_entry_id = Some (ai_settlement_id i), le_entitlement_cycle_id = None, le_created_at = now,
      le_usage_snapshot = None\<rparr>"

definition post_rebate ::
  "billing_db \<Rightarrow> adjust_input \<Rightarrow> string \<Rightarrow> int \<Rightarrow> int \<Rightarrow> int \<Rightarrow> uuid \<Rightarrow> (billing_db \<times> uuid option) res" where
  "post_rebate db i h applied net now lid =
     (if applied = 0 then Inr (db, None)
      else
        rbind (ok_or (checked (i64_max - net)) (Conflict ''settlement adjustment would overflow account balance'')) (\<lambda>limit.
        rbind (ok_or (case tget (credit_accounts db) (ai_account_id i) of
            None \<Rightarrow> None | Some acct \<Rightarrow> if ca_available acct \<le> limit then Some acct else None)
          (Conflict ''settlement adjustment would overflow account balance'')) (\<lambda>acct.
        let (t, n) = ledger_insert_or_ignore lid (rebate_entry i h applied now) (ledger_entries db) in
        rbind (ensure (n = 1) (Conflict ''Idempotency-Key was already used by another ledger entry'')) (\<lambda>_.
        Inr (db\<lparr>credit_accounts := tput (ai_account_id i)
               (acct\<lparr>ca_available := ca_available acct + net, ca_updated_at := now\<rparr>) (credit_accounts db),
             ledger_entries := t\<rparr>, Some lid)))))"

definition make_event :: "adjust_input \<Rightarrow> int \<Rightarrow> int \<Rightarrow> uuid option \<Rightarrow> int \<Rightarrow> adjustment_event" where
  "make_event i applied cum entry now =
     \<lparr>ev_account_id = ai_account_id i, ev_settlement_id = ai_settlement_id i, ev_namespace = ai_namespace i,
      ev_request_kind = ai_request_kind i, ev_request_id = ai_request_id i, ev_currency = ai_currency i,
      ev_desired = ai_desired i, ev_applied_delta = applied, ev_cumulative = cum, ev_version = ai_version i,
      ev_digest = ai_digest i, ev_source = ai_source i, ev_entry_id = entry, ev_created_at = now\<rparr>"

text \<open>The unique index on namespace and version, and the checks of the table.\<close>

definition insert_event :: "adjust_db \<Rightarrow> uuid \<Rightarrow> adjustment_event \<Rightarrow> adjust_db res" where
  "insert_event ad eid e =
     rbind (ensure (\<not> list_ex (\<lambda>(_, x). ev_account_id x = ev_account_id e \<and> ev_settlement_id x = ev_settlement_id e \<and>
           ev_namespace x = ev_namespace e \<and> ev_version x = ev_version e) (adjustment_events ad) \<and>
         0 \<le> ev_desired e \<and> 0 \<le> ev_applied_delta e \<and> 0 \<le> ev_cumulative e \<and> 0 < ev_version e)
       (db_error ''database'')) (\<lambda>_.
     rbind (sql_insert eid e (adjustment_events ad)) (\<lambda>t. Inr (ad\<lparr>adjustment_events := t\<rparr>)))"

definition new_result :: "adjust_input \<Rightarrow> int \<Rightarrow> int \<Rightarrow> int \<Rightarrow> uuid option \<Rightarrow> uuid \<Rightarrow> int \<Rightarrow> adjust_result" where
  "new_result i applied cum remaining entry eid now =
     \<lparr>ar_account_id = ai_account_id i, ar_settlement_id = ai_settlement_id i, ar_namespace = ai_namespace i,
      ar_request_kind = ai_request_kind i, ar_request_id = ai_request_id i, ar_currency = ai_currency i,
      ar_desired = ai_desired i, ar_applied_delta = applied, ar_cumulative = cum, ar_remaining = remaining,
      ar_version = ai_version i, ar_entry_id = entry, ar_event_id = eid, ar_created_at = now,
      ar_replayed = False\<rparr>"

text \<open>A decision that is new: the amounts, the rollback, the postings and the records of it.\<close>

definition apply_adjustment ::
  "adjust_db \<Rightarrow> adjust_input \<Rightarrow> baseline \<Rightarrow> int \<Rightarrow> int \<Rightarrow> string \<Rightarrow> int \<Rightarrow> uuid \<Rightarrow> uuid \<Rightarrow> (nat \<Rightarrow> uuid) \<Rightarrow>
   (adjust_db \<times> adjust_result) res" where
  "apply_adjustment ad i b before current h now eid lid fid =
     rbind (cumulative_rebate before current (ai_desired i) (bl_gross b)) (\<lambda>cum.
     rbind (ok_or (checked (ai_desired i - current))
       (internal ''settlement_adjustments_mod_reconcile_settlement_adjustment_1'')) (\<lambda>applied.
     rbind (rollback_target b cum) (\<lambda>target.
     rbind (rollback_entitlement_tail ad (ai_account_id i) (ai_settlement_id i) (bl_original b) target eid now fid)
       (\<lambda>(ad, funding).
     rbind (ok_or (checked (applied - funding))
       (Conflict ''settlement adjustment funding reduction exceeds rebate delta'')) (\<lambda>net.
     rbind (post_rebate (billing ad) i h applied net now lid) (\<lambda>(db, entry).
     rbind (insert_event (ad\<lparr>billing := db\<rparr>) eid (make_event i applied cum entry now)) (\<lambda>ad.
     rbind (insert_idempotency (persist_state ad i eid applied) i h eid) (\<lambda>ad.
     rbind (ok_or (checked (bl_gross b - cum)) (internal ''settlement_adjustments_mod_site_2'')) (\<lambda>remaining.
     Inr (ad, new_result i applied cum remaining entry eid now))))))))))"

definition reconcile_new ::
  "adjust_db \<Rightarrow> adjust_input \<Rightarrow> string \<Rightarrow> int \<Rightarrow> uuid \<Rightarrow> uuid \<Rightarrow> (nat \<Rightarrow> uuid) \<Rightarrow> (adjust_db \<times> adjust_result) res" where
  "reconcile_new ad i h now eid lid fid =
     rbind (bind_settlement ad i) (\<lambda>f.
     rbind (ensure_baseline ad i (fd_cost f) (fd_currency f)) (\<lambda>(ad, b).
     rbind (sum_states (ai_namespace i) (load_states ad (ai_account_id i) (ai_settlement_id i)) 0 None)
       (\<lambda>(before, existing).
     rbind (version_decision i existing) (\<lambda>same.
     (case same of
        Some st \<Rightarrow>
          rbind (insert_idempotency ad i h (st_last_event_id st)) (\<lambda>ad.
          rbind (event_result ad (st_last_event_id st) True) (\<lambda>r. Inr (ad, r)))
      | None \<Rightarrow>
          apply_adjustment ad i b before (case existing of None \<Rightarrow> 0 | Some st \<Rightarrow> st_desired st) h now eid lid fid)))))"

definition reconcile_settlement_adjustment ::
  "(adjust_input \<Rightarrow> string res) \<Rightarrow> adjust_db \<Rightarrow> adjust_input \<Rightarrow> int \<Rightarrow> uuid \<Rightarrow> uuid \<Rightarrow> (nat \<Rightarrow> uuid) \<Rightarrow>
   (adjust_db \<times> adjust_result) res" where
  "reconcile_settlement_adjustment hash ad input now eid lid fid =
     (let i = canonicalize_input input in
      rbind (validate_input i) (\<lambda>_.
      rbind (hash i) (\<lambda>h.
      rbind (ensure (tget (credit_accounts (billing ad)) (ai_account_id i) \<noteq> None) NotFound) (\<lambda>_.
      (case find_idempotency ad (ai_account_id i) (ai_key i) of
         Some (h', e) \<Rightarrow>
           rbind (ensure (h' = h)
             (Conflict ''Idempotency-Key was already used for a different settlement adjustment'')) (\<lambda>_.
           rbind (event_result ad e True) (\<lambda>r. Inr (ad, r)))
       | None \<Rightarrow> reconcile_new ad i h now eid lid fid)))))"

subsection \<open>The invariant of the adjustments\<close>

text \<open>
  What all namespaces together rebate of a settlement, and the part of it that has to come
  from subscription credit: what exceeds the generically funded part of the cost.
\<close>

definition settlement_rebates :: "adjust_db \<Rightarrow> uuid \<Rightarrow> uuid \<Rightarrow> int" where
  "settlement_rebates ad a s =
     tsum (\<lambda>(a', s', _) st. if a' = a \<and> s' = s then st_desired st else 0) (adjustment_states ad)"

definition rollback_due :: "baseline \<Rightarrow> int \<Rightarrow> int" where
  "rollback_due b cum = max 0 (cum - (bl_gross b - bl_original b))"

definition allocations_ok :: "billing_db \<Rightarrow> bool" where
  "allocations_ok db \<longleftrightarrow> (\<forall>i x. tget (usage_allocations db) i = Some x \<longrightarrow>
     0 < al_amount x \<and> tget (entitlement_cycles db) (al_cycle_id x) \<noteq> None)"

definition baseline_ok :: "adjust_db \<Rightarrow> uuid \<Rightarrow> uuid \<Rightarrow> baseline \<Rightarrow> bool" where
  "baseline_ok ad a s b \<longleftrightarrow> 0 \<le> bl_original b \<and> bl_original b \<le> bl_gross b \<and>
     settlement_rebates ad a s \<le> bl_gross b \<and>
     entry_allocated (billing ad) s = bl_original b - rollback_due b (settlement_rebates ad a s) \<and>
     (\<exists>f. tget (settlement_feed ad) s = Some f \<and> fd_account_id f = a \<and> fd_cost f = bl_gross b)"

definition adjust_inv :: "adjust_db \<Rightarrow> bool" where
  "adjust_inv ad \<longleftrightarrow> billing_inv (billing ad) \<and> allocations_ok (billing ad) \<and> wf_table (adjustment_states ad) \<and>
     (\<forall>s f. tget (settlement_feed ad) s = Some f \<longrightarrow> in_i64 (fd_cost f)) \<and>
     (\<forall>a s b. tget (baselines ad) (a, s) = Some b \<longrightarrow> baseline_ok ad a s b) \<and>
     (\<forall>a s n st. tget (adjustment_states ad) (a, s, n) = Some st \<longrightarrow>
        0 \<le> st_desired st \<and> tget (baselines ad) (a, s) \<noteq> None)"

subsection \<open>Lemmas\<close>

paragraph \<open>The states of a settlement\<close>

lemma sum_states_Inr:
  "sum_states ns xs acc own = Inr (t, ex) \<Longrightarrow> distinct (map fst xs) \<Longrightarrow>
     t = acc + sum_list (map (st_desired \<circ> snd) xs) \<and>
     ex = (case map_of xs ns of None \<Rightarrow> own | Some st \<Rightarrow> Some st)"
proof (induction xs arbitrary: acc own)
  case (Cons x xs)
  obtain n st where x: "x = (n, st)" by force
  have "map_of xs n = None" using Cons.prems(2) x by (simp add: map_of_eq_None_iff)
  moreover have rest: "sum_states ns xs (acc + st_desired st) (if n = ns then Some st else own) = Inr (t, ex)"
    using Cons.prems(1) by (auto simp: x rbind_Inr_iff ok_or_Inr_iff)
  ultimately show ?case using Cons.IH [OF rest] Cons.prems(2) by (auto simp: x split: option.splits)
qed simp

lemma load_states_distinct:
  assumes "wf_table (adjustment_states ad)"
  shows "distinct (map fst (load_states ad a s))"
proof -
  have "distinct (map fst (filter (\<lambda>((a', s', _), _). a' = a \<and> s' = s) t))
      \<Longrightarrow> distinct (map (\<lambda>x. snd (snd (fst x))) (filter (\<lambda>((a', s', _), _). a' = a \<and> s' = s) t))"
    for t :: "((uuid \<times> uuid \<times> string) \<times> adjustment_state) list"
    by (induction t) (auto split: if_splits intro: rev_image_eqI)
  moreover have "distinct (map fst (filter (\<lambda>((a', s', _), _). a' = a \<and> s' = s) (adjustment_states ad)))"
    using assms by (simp add: wf_table_def distinct_map_filter)
  ultimately show ?thesis
    by (simp add: load_states_def case_prod_beta comp_def)
qed

lemma load_states_get: "map_of (load_states ad a s) ns = tget (adjustment_states ad) (a, s, ns)"
proof -
  have "map_of (map (\<lambda>((_, _, ns), st). (ns, st)) (filter (\<lambda>((a', s', _), _). a' = a \<and> s' = s) t)) ns
     = map_of t (a, s, ns)" for t :: "((uuid \<times> uuid \<times> string) \<times> adjustment_state) list"
    by (induction t) auto
  then show ?thesis by (simp add: load_states_def tget_def)
qed

lemma load_states_sum: "sum_list (map (st_desired \<circ> snd) (load_states ad a s)) = settlement_rebates ad a s"
proof -
  have "sum_list (map (st_desired \<circ> snd) (map (\<lambda>((_, _, ns), st). (ns, st))
      (filter (\<lambda>((a', s', _), _). a' = a \<and> s' = s) t))) =
    sum_list (map (\<lambda>(k, r). (\<lambda>(a', s', _) st. if a' = a \<and> s' = s then st_desired st else 0) k r) t)"
    for t :: "((uuid \<times> uuid \<times> string) \<times> adjustment_state) list"
    by (induction t) (auto split: if_splits)
  then show ?thesis by (simp add: load_states_def settlement_rebates_def tsum_def)
qed

lemma states_read:
  assumes "wf_table (adjustment_states ad)"
    and "sum_states ns (load_states ad a s) 0 None = Inr (before, ex)"
  shows "before = settlement_rebates ad a s" and "ex = tget (adjustment_states ad) (a, s, ns)"
  using sum_states_Inr [OF assms(2) load_states_distinct [OF assms(1)]]
  by (simp_all add: load_states_sum load_states_get split: option.splits)

lemma rebates_persist:
  "settlement_rebates (persist_state ad i eid d) a s = settlement_rebates ad a s +
     (if a = ai_account_id i \<and> s = ai_settlement_id i then ai_desired i -
        (case tget (adjustment_states ad) (a, s, ai_namespace i) of None \<Rightarrow> 0 | Some st \<Rightarrow> st_desired st) else 0)"
  by (cases "tget (adjustment_states ad) (ai_account_id i, ai_settlement_id i, ai_namespace i)")
    (auto simp: settlement_rebates_def persist_state_def tbl_simps)

paragraph \<open>The allocations of a settlement\<close>

definition settlement_allocations :: "billing_db \<Rightarrow> uuid \<Rightarrow> (uuid \<times> uuid \<times> int) list" where
  "settlement_allocations db sid = map (\<lambda>(i, x). (i, al_cycle_id x, al_amount x))
     (filter (\<lambda>(_, x). al_usage_entry_id x = sid) (usage_allocations db))"

lemma sum_allocations_Inr:
  "sum_allocations xs acc = Inr t \<Longrightarrow> t = acc + sum_list (map (snd \<circ> snd) xs)"
  by (induction xs arbitrary: acc) (fastforce simp: rbind_Inr_iff ok_or_Inr_iff)+

lemma allocation_tail_mset:
  assumes "allocations_ok db" and "wf_tables db"
  shows "mset (allocation_tail db sid) = mset (settlement_allocations db sid)"
proof -
  let ?pick = "\<lambda>(i, x). case tget (entitlement_cycles db) (al_cycle_id x) of
     None \<Rightarrow> [] | Some c \<Rightarrow> if al_usage_entry_id x = sid \<and> 0 < al_amount x then [(i, x, c)] else []"
  have "map (\<lambda>(i, x, _). (i, al_cycle_id x, al_amount x)) (concat (map ?pick t)) =
     map (\<lambda>(i, x). (i, al_cycle_id x, al_amount x)) (filter (\<lambda>(_, x). al_usage_entry_id x = sid) t)"
    if "set t \<subseteq> set (usage_allocations db)" for t
    using that
  proof (induction t)
    case (Cons y t)
    obtain i x where y: "y = (i, x)" by force
    have "tget (usage_allocations db) i = Some x"
      using Cons.prems y assms(2) by (intro trows_tget) (auto simp: wf_tables_def trows_def)
    then have "0 < al_amount x" "tget (entitlement_cycles db) (al_cycle_id x) \<noteq> None"
      using assms(1) by (auto simp: allocations_ok_def)
    with Cons y show ?case by auto
  qed simp
  then have eq: "map (\<lambda>(i, x, _). (i, al_cycle_id x, al_amount x)) (concat (map ?pick (usage_allocations db))) =
     settlement_allocations db sid" by (simp add: settlement_allocations_def)
  show ?thesis
    unfolding allocation_tail_def eq [symmetric] by (simp only: mset_map mset_rev mset_sort)
qed

lemma settlement_allocations_sum: "sum_list (map (snd \<circ> snd) (settlement_allocations db sid)) = entry_allocated db sid"
proof -
  have "sum_list (map (snd \<circ> snd) (map (\<lambda>(i, x). (i, al_cycle_id x, al_amount x))
      (filter (\<lambda>(_, x). al_usage_entry_id x = sid) t))) =
    sum_list (map (\<lambda>(k, x). if al_usage_entry_id x = sid then al_amount x else 0) t)"
    for t :: "(uuid \<times> allocation) list"
    by (induction t) auto
  then show ?thesis by (simp add: settlement_allocations_def entry_allocated_def tsum_def)
qed

lemma allocation_tail_sum:
  assumes "allocations_ok db" and "wf_tables db"
  shows "sum_list (map (snd \<circ> snd) (allocation_tail db sid)) = entry_allocated db sid"
  using arg_cong [OF allocation_tail_mset [OF assms], of "\<lambda>m. sum_mset (image_mset (snd \<circ> snd) m)" sid]
  by (simp add: settlement_allocations_sum [symmetric] flip: sum_mset_sum_list mset_map)

text \<open>Entries of a list that are the settlement's allocation rows.\<close>

definition allocation_rows :: "billing_db \<Rightarrow> uuid \<Rightarrow> (uuid \<times> uuid \<times> int) list \<Rightarrow> bool" where
  "allocation_rows db sid xs \<longleftrightarrow> distinct (map fst xs) \<and>
     (\<forall>(i, cid, m) \<in> set xs. \<exists>x. tget (usage_allocations db) i = Some x \<and> al_cycle_id x = cid \<and>
        al_usage_entry_id x = sid \<and> al_amount x = m)"

lemma allocation_tail_rows:
  assumes "allocations_ok db" and "wf_tables db"
  shows "allocation_rows db sid (allocation_tail db sid)"
proof -
  have m: "mset (allocation_tail db sid) = mset (settlement_allocations db sid)" by (rule allocation_tail_mset [OF assms])
  have "distinct (map fst (settlement_allocations db sid))"
    using assms(2) by (simp add: settlement_allocations_def wf_tables_def wf_table_def comp_def case_prod_beta'
        distinct_map_filter)
  then have "distinct (map fst (allocation_tail db sid))"
    using m by (metis mset_eq_imp_distinct_iff mset_map)
  moreover have "set (allocation_tail db sid) = set (settlement_allocations db sid)" by (rule mset_eq_setD [OF m])
  moreover have "\<forall>(i, cid, m) \<in> set (settlement_allocations db sid). \<exists>x. tget (usage_allocations db) i = Some x \<and>
      al_cycle_id x = cid \<and> al_usage_entry_id x = sid \<and> al_amount x = m"
    using assms(2) by (auto simp: settlement_allocations_def wf_tables_def trows_def intro!: trows_tget exI)
  ultimately show ?thesis by (simp add: allocation_rows_def)
qed
paragraph \<open>The rollback\<close>

text \<open>
  What returning \<open>amount\<close> of consumed credit and \<open>funding\<close> of cycle funding does: the
  allocations of the settlement shrink by the amount, each cycle's consumption by what its
  allocations lose, and the ledger records the funding that is taken back.
\<close>

definition cycles_return :: "billing_db \<Rightarrow> billing_db \<Rightarrow> bool" where
  "cycles_return db db' \<longleftrightarrow>
     (\<forall>cid c. tget (entitlement_cycles db) cid = Some c \<longrightarrow>
        (\<exists>c'. tget (entitlement_cycles db') cid = Some c' \<and> cy_active c' = cy_active c \<and> cy_funded c' \<le> cy_funded c \<and>
           cy_consumed c - cy_consumed c' = cycle_allocated db cid - cycle_allocated db' cid))"

definition same_adjustments :: "adjust_db \<Rightarrow> adjust_db \<Rightarrow> bool" where
  "same_adjustments ad ad' \<longleftrightarrow> settlement_feed ad' = settlement_feed ad \<and> baselines ad' = baselines ad \<and>
     adjustment_states ad' = adjustment_states ad \<and> adjustment_events ad' = adjustment_events ad \<and>
     adjustment_keys ad' = adjustment_keys ad"

definition rolls_back :: "adjust_db \<Rightarrow> adjust_db \<Rightarrow> uuid \<Rightarrow> uuid \<Rightarrow> int \<Rightarrow> int \<Rightarrow> bool" where
  "rolls_back ad ad' a sid amount funding \<longleftrightarrow>
     wf_tables (billing ad') \<and> allocations_ok (billing ad') \<and> same_adjustments ad ad' \<and>
     credit_accounts (billing ad') = credit_accounts (billing ad) \<and>
     key_budget_state (billing ad') = key_budget_state (billing ad) \<and>
     usage_reservations (billing ad') = usage_reservations (billing ad) \<and>
     posts_books (billing ad) (billing ad') a (- funding) \<and> 0 \<le> funding \<and>
     (\<forall>s. entry_allocated (billing ad') s = entry_allocated (billing ad) s - (if s = sid then amount else 0)) \<and>
     cycles_return (billing ad) (billing ad') \<and>
     tsum (\<lambda>_ m. m) (funding_reductions ad') = tsum (\<lambda>_ m. m) (funding_reductions ad) + funding"

lemma cycles_return_trans:
  assumes "cycles_return db db1" and "cycles_return db1 db2"
  shows "cycles_return db db2"
  unfolding cycles_return_def
proof (intro allI impI)
  fix cid c assume "tget (entitlement_cycles db) cid = Some c"
  with assms(1) obtain c1 where c1: "tget (entitlement_cycles db1) cid = Some c1" "cy_active c1 = cy_active c"
    "cy_funded c1 \<le> cy_funded c" "cy_consumed c - cy_consumed c1 = cycle_allocated db cid - cycle_allocated db1 cid"
    by (auto simp: cycles_return_def)
  with assms(2) obtain c2 where "tget (entitlement_cycles db2) cid = Some c2" "cy_active c2 = cy_active c1"
    "cy_funded c2 \<le> cy_funded c1" "cy_consumed c1 - cy_consumed c2 = cycle_allocated db1 cid - cycle_allocated db2 cid"
    by (fastforce simp: cycles_return_def)
  with c1 show "\<exists>c'. tget (entitlement_cycles db2) cid = Some c' \<and> cy_active c' = cy_active c \<and>
      cy_funded c' \<le> cy_funded c \<and> cy_consumed c - cy_consumed c' = cycle_allocated db cid - cycle_allocated db2 cid"
    by simp
qed

lemma rolls_back_refl:
  "wf_tables (billing ad) \<Longrightarrow> allocations_ok (billing ad) \<Longrightarrow> rolls_back ad ad a sid 0 0"
  by (simp add: rolls_back_def same_adjustments_def posts_books_def cycles_return_def)

lemma rolls_back_trans:
  assumes "rolls_back ad ad1 a sid m f" and "rolls_back ad1 ad2 a sid m' f'"
  shows "rolls_back ad ad2 a sid (m + m') (f + f')"
  using assms cycles_return_trans [of "billing ad" "billing ad1" "billing ad2"]
  by (auto simp: rolls_back_def same_adjustments_def posts_books_def)

lemma return_consumption_Inr:
  "return_consumption db cid amount now = Inr (db', c') \<longleftrightarrow>
     (\<exists>c. tget (entitlement_cycles db) cid = Some c \<and> amount \<le> cy_consumed c \<and> in_i64 (cy_consumed c - amount) \<and>
        c' = c\<lparr>cy_consumed := cy_consumed c - amount, cy_updated_at := now\<rparr> \<and>
        db' = db\<lparr>entitlement_cycles := tput cid c' (entitlement_cycles db)\<rparr>)"
  by (auto simp: return_consumption_def Let_def rbind_Inr_iff ok_or_Inr_iff sql_int_Inr_iff
      split: option.splits if_splits)

text \<open>Taking back funding writes one ledger entry, and touches only the funding of the cycle.\<close>

lemma reduce_funding_Inr:
  assumes "reduce_funding ad a sid eid cid c now fid = Inr (ad', r)"
    and "tget (entitlement_cycles (billing ad)) cid = Some c"
  shows "0 \<le> r \<and> (\<exists>cs les fr c'. ad' = ad\<lparr>billing := (billing ad)\<lparr>entitlement_cycles := cs, ledger_entries := les\<rparr>,
      funding_reductions := fr\<rparr> \<and> cs = tput cid c' (entitlement_cycles (billing ad)) \<and>
    cy_active c' = cy_active c \<and> cy_funded c' \<le> cy_funded c \<and> cy_consumed c' = cy_consumed c \<and>
    tsum (\<lambda>_ m. m) fr = tsum (\<lambda>_ m. m) (funding_reductions ad) + r \<and>
    (wf_table (ledger_entries (billing ad)) \<longrightarrow> wf_table les) \<and>
    (\<forall>x. tsum (book_value x) les = tsum (book_value x) (ledger_entries (billing ad)) - (if x = a then r else 0)))"
proof (cases "0 < cy_funded c - funding_target c now")
  case True
  let ?r = "cy_funded c - funding_target c now"
  let ?e = "funding_entry a sid eid cid ?r (cy_currency c) now"
  let ?les = "tput fid ?e (ledger_entries (billing ad))"
  have ok: "\<not> ledger_conflict fid ?e (ledger_entries (billing ad))" "tget (funding_reductions ad) (eid, cid) = None"
    and ad': "ad' = ad\<lparr>billing := (billing ad)\<lparr>entitlement_cycles := tput cid
      (c\<lparr>cy_funded := funding_target c now, cy_updated_at := now\<rparr>) (entitlement_cycles (billing ad)),
        ledger_entries := ?les\<rparr>, funding_reductions := tput (eid, cid) ?r (funding_reductions ad)\<rparr>" and r: "r = ?r"
    using True assms(1)
    by (auto simp: reduce_funding_def Let_def rbind_Inr_iff ensure_Inr_iff ledger_insert_Inr_iff sql_insert_Inr_iff)
  have books: "tsum (book_value x) ?les = tsum (book_value x) (ledger_entries (billing ad)) - (if x = a then r else 0)" for x
    using ledger_conflict_fresh [OF ok(1)] by (simp add: tbl_simps book_value_def funding_entry_def touches_balance_def r)
  show ?thesis
  proof (intro conjI exI)
    show "ad' = ad\<lparr>billing := (billing ad)\<lparr>entitlement_cycles := tput cid
      (c\<lparr>cy_funded := funding_target c now, cy_updated_at := now\<rparr>) (entitlement_cycles (billing ad)),
        ledger_entries := ?les\<rparr>, funding_reductions := tput (eid, cid) ?r (funding_reductions ad)\<rparr>" by (rule ad')
    show "tput cid (c\<lparr>cy_funded := funding_target c now, cy_updated_at := now\<rparr>) (entitlement_cycles (billing ad)) =
      tput cid (c\<lparr>cy_funded := funding_target c now, cy_updated_at := now\<rparr>) (entitlement_cycles (billing ad))" by (rule refl)
  qed (use True books ok(2) in \<open>auto simp: tbl_simps r\<close>)
next
  case False
  then have "ad' = ad" "r = 0"
    using assms(1) by (auto simp: reduce_funding_def Let_def rbind_Inr_iff ensure_Inr_iff)
  moreover have "tput cid c (entitlement_cycles (billing ad)) = entitlement_cycles (billing ad)"
    using assms(2) by (simp add: tput_def tget_def update_triv)
  ultimately show ?thesis
    by (intro conjI exI [of _ "entitlement_cycles (billing ad)"] exI [of _ "ledger_entries (billing ad)"]
        exI [of _ "funding_reductions ad"] exI [of _ c]) auto
qed
lemma insert_rollback_Inr:
  "insert_rollback ad eid seq cid amount = Inr ad' \<Longrightarrow> \<exists>t. ad' = ad\<lparr>entitlement_rollbacks := t\<rparr>"
  by (auto simp: insert_rollback_def rbind_Inr_iff)

text \<open>Shrinking one allocation changes the sums of its settlement and of its cycle only.\<close>

lemma shrink_allocation_sums:
  assumes "wf_tables db" and "tget (usage_allocations db) i = Some x" and "al_amount x = allocated"
    and "amount \<le> allocated"
    and "f i (x\<lparr>al_amount := allocated - amount\<rparr>) = f i x - w * amount" and "f i x = w * allocated"
  shows "tsum f (usage_allocations (shrink_allocation db i allocated amount)) = tsum f (usage_allocations db) - w * amount"
  using assms by (simp add: shrink_allocation_def tbl_simps wf_tables_def)

lemma shrink_allocation_frame:
  "\<exists>t. shrink_allocation db i allocated amount = db\<lparr>usage_allocations := t\<rparr> \<and>
     (wf_table (usage_allocations db) \<longrightarrow> wf_table t) \<and> (\<forall>j. j \<noteq> i \<longrightarrow> tget t j = tget (usage_allocations db) j)"
proof (cases "amount = allocated")
  case True
  then show ?thesis
    by (intro exI [of _ "tdel i (usage_allocations db)"]) (simp add: shrink_allocation_def tbl_simps)
next
  case False
  show ?thesis
  proof (cases "tget (usage_allocations db) i")
    case None
    with False show ?thesis by (intro exI [of _ "usage_allocations db"]) (simp add: shrink_allocation_def)
  next
    case (Some x)
    show ?thesis
    proof (cases "amount \<le> al_amount x")
      case True
      with False Some show ?thesis
        by (intro exI [of _ "tput i (x\<lparr>al_amount := al_amount x - amount\<rparr>) (usage_allocations db)"])
          (simp add: shrink_allocation_def tbl_simps)
    next
      case no: False
      with False Some show ?thesis by (intro exI [of _ "usage_allocations db"]) (simp add: shrink_allocation_def)
    qed
  qed
qed

lemma shrink_allocation_row:
  assumes "tget (usage_allocations db) i = Some x" and "amount \<le> al_amount x"
    and "tget (usage_allocations (shrink_allocation db i (al_amount x) amount)) i = Some y"
  shows "amount < al_amount x \<and> y = x\<lparr>al_amount := al_amount x - amount\<rparr>"
  using assms by (auto simp: shrink_allocation_def tbl_simps split: if_splits)

lemma rollback_one_rolls:
  assumes wf: "wf_tables (billing ad)" and aok: "allocations_ok (billing ad)"
    and row: "tget (usage_allocations (billing ad)) i = Some x" "al_cycle_id x = cid" "al_usage_entry_id x = sid"
      "al_amount x = allocated"
    and amount: "0 < amount" "amount \<le> allocated"
    and run: "rollback_one ad a sid eid now seq fid i cid allocated amount funding = Inr (ad', funding')"
  shows "rolls_back ad ad' a sid amount (funding' - funding) \<and>
    (\<forall>j. j \<noteq> i \<longrightarrow> tget (usage_allocations (billing ad')) j = tget (usage_allocations (billing ad)) j)"
proof -
  obtain db1 c1 ad2 r ad3 where
    1: "return_consumption (billing ad) cid amount now = Inr (db1, c1)" and
    2: "reduce_funding (ad\<lparr>billing := db1\<rparr>) a sid eid cid c1 now fid = Inr (ad2, r)" and
    f: "funding' = funding + r" and
    3: "insert_rollback ad2 eid seq cid amount = Inr ad3" and
    4: "ad' = ad3\<lparr>billing := shrink_allocation (billing ad3) i allocated amount\<rparr>"
    using run by (auto simp: rollback_one_def rbind_Inr_iff ok_or_Inr_iff)
  obtain c where c: "tget (entitlement_cycles (billing ad)) cid = Some c"
    and c1: "c1 = c\<lparr>cy_consumed := cy_consumed c - amount, cy_updated_at := now\<rparr>"
    and db1: "db1 = (billing ad)\<lparr>entitlement_cycles := tput cid c1 (entitlement_cycles (billing ad))\<rparr>"
    using 1 [unfolded return_consumption_Inr] by blast
  have "tget (entitlement_cycles (billing (ad\<lparr>billing := db1\<rparr>))) cid = Some c1" by (simp add: db1 tbl_simps)
  then obtain les fr c2 where r: "0 \<le> r"
    and ad2: "ad2 = ad\<lparr>billing := db1\<lparr>entitlement_cycles := tput cid c2 (entitlement_cycles db1), ledger_entries := les\<rparr>,
      funding_reductions := fr\<rparr>"
    and c2: "cy_active c2 = cy_active c1" "cy_funded c2 \<le> cy_funded c1" "cy_consumed c2 = cy_consumed c1"
    and fr: "tsum (\<lambda>_ m. m) fr = tsum (\<lambda>_ m. m) (funding_reductions ad) + r"
    and les: "wf_table (ledger_entries (billing ad)) \<longrightarrow> wf_table les"
      "\<forall>x. tsum (book_value x) les = tsum (book_value x) (ledger_entries (billing ad)) - (if x = a then r else 0)"
    using reduce_funding_Inr [OF 2] by (auto simp: db1)
  obtain rb where ad3: "ad3 = ad2\<lparr>entitlement_rollbacks := rb\<rparr>" using insert_rollback_Inr [OF 3] ..
  let ?db = "billing ad" and ?db3 = "billing ad3"
  have al3: "usage_allocations ?db3 = usage_allocations ?db" by (simp add: ad3 ad2 db1)
  obtain t where shrunk: "shrink_allocation ?db3 i allocated amount = ?db3\<lparr>usage_allocations := t\<rparr>"
    and t: "wf_table (usage_allocations ?db) \<longrightarrow> wf_table t" "\<forall>j. j \<noteq> i \<longrightarrow> tget t j = tget (usage_allocations ?db) j"
    using shrink_allocation_frame [of ?db3 i allocated amount] by (auto simp: al3)
  have wf3: "wf_tables ?db3" using wf les(1) by (simp add: wf_tables_def ad3 ad2 db1)
  have row3: "tget (usage_allocations ?db3) i = Some x" by (simp add: al3 row)
  have entry: "entry_allocated (billing ad') s = entry_allocated ?db s - (if s = sid then amount else 0)" for s
    using shrink_allocation_sums [OF wf3 row3 row(4) amount(2), where
        f = "\<lambda>_ x. if al_usage_entry_id x = s then al_amount x else 0" and
        w = "if sid = s then 1 else 0"] row
    by (auto simp: 4 entry_allocated_def al3)
  have cyc: "cycle_allocated (billing ad') s = cycle_allocated ?db s - (if s = cid then amount else 0)" for s
    using shrink_allocation_sums [OF wf3 row3 row(4) amount(2), where
        f = "\<lambda>_ x. if al_cycle_id x = s then al_amount x else 0" and
        w = "if cid = s then 1 else 0"] row
    by (auto simp: 4 cycle_allocated_def al3)
  have cycles': "tget (entitlement_cycles (billing ad')) y = (if y = cid then Some c2 else tget (entitlement_cycles ?db) y)" for y
    unfolding 4 by (simp add: shrunk) (simp add: ad3 ad2 db1 tbl_simps)
  have ret: "cycles_return ?db (billing ad')"
    using c c2 by (auto simp: cycles_return_def cyc cycles' c1)
  have rows': "tget (usage_allocations (billing ad')) j = tget (usage_allocations ?db) j" if "j \<noteq> i" for j
    using t(2) that by (simp add: 4 shrunk)
  have "allocations_ok (billing ad')"
    unfolding allocations_ok_def
  proof (intro allI impI)
    fix j y assume y: "tget (usage_allocations (billing ad')) j = Some y"
    have "\<exists>y0. tget (usage_allocations ?db) j = Some y0 \<and> al_cycle_id y = al_cycle_id y0 \<and> 0 < al_amount y"
    proof (cases "j = i")
      case True
      have "amount < al_amount x \<and> y = x\<lparr>al_amount := al_amount x - amount\<rparr>"
        using y amount row by (intro shrink_allocation_row [OF row3]) (simp_all add: True 4)
      with True row(1) show ?thesis by simp
    next
      case False
      then show ?thesis using y rows' aok by (auto simp: allocations_ok_def)
    qed
    then show "0 < al_amount y \<and> tget (entitlement_cycles (billing ad')) (al_cycle_id y) \<noteq> None"
      using aok by (fastforce simp: allocations_ok_def cycles')
  qed
  moreover have "posts_books ?db (billing ad') a (- r)"
    using les(2) unfolding 4 by (simp add: posts_books_def account_books_def shrunk) (simp add: ad3 ad2 db1)
  moreover have "wf_tables (billing ad')"
    using wf3 t(1) by (simp add: wf_tables_def 4 al3 shrunk)
  moreover have "same_adjustments ad ad'" by (simp add: same_adjustments_def 4 ad3 ad2)
  moreover have "credit_accounts (billing ad') = credit_accounts ?db" "key_budget_state (billing ad') = key_budget_state ?db"
    "usage_reservations (billing ad') = usage_reservations ?db" "funding_reductions ad' = fr"
    unfolding 4 by (simp_all add: shrunk) (simp_all add: ad3 ad2 db1)
  ultimately have "rolls_back ad ad' a sid amount r"
    using entry ret r fr by (simp add: rolls_back_def)
  with rows' show ?thesis by (simp add: f)
qed
lemma allocation_rows_cong:
  assumes "allocation_rows db sid xs"
    and "\<And>j. j \<in> fst ` set xs \<Longrightarrow> tget (usage_allocations db1) j = tget (usage_allocations db) j"
  shows "allocation_rows db1 sid xs"
  unfolding allocation_rows_def
proof (intro conjI ballI)
  fix y assume y: "y \<in> set xs"
  then show "case y of (i, cid, m) \<Rightarrow> \<exists>x. tget (usage_allocations db1) i = Some x \<and> al_cycle_id x = cid \<and>
      al_usage_entry_id x = sid \<and> al_amount x = m"
    using assms(1) assms(2) [of "fst y"] unfolding allocation_rows_def by fastforce
qed (use assms(1) in \<open>simp add: allocation_rows_def\<close>)

lemma rollback_loop_rolls:
  assumes "rollback_loop a sid eid now fid n xs todo funding ad = Inr (ad', funding', todo')"
    and "wf_tables (billing ad)" and "allocations_ok (billing ad)" and "allocation_rows (billing ad) sid xs" and "0 \<le> todo"
  shows "rolls_back ad ad' a sid (todo - todo') (funding' - funding)"
  using assms
proof (induction a sid eid now fid n xs todo funding ad rule: rollback_loop.induct)
  case (1 a sid eid now fid n todo funding ad)
  then show ?case by (simp add: rolls_back_refl)
next
  case (2 a sid eid now fid n i cid allocated xs todo funding ad)
  show ?case
  proof (cases "todo = 0")
    case True
    with 2 show ?thesis by (simp add: rolls_back_refl)
  next
    case False
    let ?m = "min allocated todo"
    obtain ad1 f1 where one: "rollback_one ad a sid eid now (int (Suc n)) (fid n) i cid allocated ?m funding = Inr (ad1, f1)"
      and rest: "rollback_loop a sid eid now fid (Suc n) xs (todo - ?m) f1 ad1 = Inr (ad', funding', todo')"
      using False "2.prems"(1) by (auto simp: Let_def rbind_Inr_iff)
    obtain x where x: "tget (usage_allocations (billing ad)) i = Some x" "al_cycle_id x = cid" "al_usage_entry_id x = sid"
      "al_amount x = allocated" using "2.prems"(4) by (auto simp: allocation_rows_def)
    have "0 < allocated" using x "2.prems"(3) by (auto simp: allocations_ok_def)
    then have step: "rolls_back ad ad1 a sid ?m (f1 - funding)"
      and others: "\<forall>j. j \<noteq> i \<longrightarrow> tget (usage_allocations (billing ad1)) j = tget (usage_allocations (billing ad)) j"
      using rollback_one_rolls [OF "2.prems"(2,3) x _ _ one] False "2.prems"(5) by auto
    have new: "i \<notin> fst ` set xs" and rows: "allocation_rows (billing ad) sid xs"
      using "2.prems"(4) by (auto simp: allocation_rows_def)
    have "tget (usage_allocations (billing ad1)) j = tget (usage_allocations (billing ad)) j" if "j \<in> fst ` set xs" for j
      using others new that by metis
    then have "allocation_rows (billing ad1) sid xs" by (rule allocation_rows_cong [OF rows])
    then have "rolls_back ad1 ad' a sid (todo - ?m - todo') (funding' - f1)"
      using step rest "2.prems"(5) False
      by (intro "2.IH" [OF False refl rest]) (simp_all add: rolls_back_def)
    from rolls_back_trans [OF step this] show ?thesis by simp
  qed
qed

lemma rollback_tail_rolls:
  assumes "rollback_entitlement_tail ad a sid original target eid now fid = Inr (ad', funding)"
    and "wf_tables (billing ad)" and "allocations_ok (billing ad)"
  shows "original - entry_allocated (billing ad) sid \<le> target"
    and "rolls_back ad ad' a sid (target - (original - entry_allocated (billing ad) sid)) funding"
    and "target = original - entry_allocated (billing ad) sid \<Longrightarrow> ad' = ad \<and> funding = 0"
proof -
  let ?xs = "allocation_tail (billing ad) sid" and ?c = "original - entry_allocated (billing ad) sid"
  have c: "?c \<le> target" and run: "rollback_loop a sid eid now fid 0 ?xs (target - ?c) 0 ad = Inr (ad', funding, 0)"
    using assms(1) sum_allocations_Inr [of ?xs 0] allocation_tail_sum [OF assms(3,2), of sid]
    by (auto simp: rollback_entitlement_tail_def Let_def rbind_Inr_iff ok_or_Inr_iff ensure_Inr_iff)
  show "?c \<le> target" by (rule c)
  show "rolls_back ad ad' a sid (target - ?c) funding"
    using rollback_loop_rolls [OF run assms(2,3) allocation_tail_rows [OF assms(3,2)]] c by simp
  show "ad' = ad \<and> funding = 0" if "target = ?c"
    using run that by (cases ?xs) auto
qed

paragraph \<open>The postings\<close>

text \<open>
  Rollback and credit together post exactly the rebate less the funding that went back: the
  account gains what the ledger records.
\<close>

lemma rebate_posts:
  assumes inv: "billing_inv (billing ad)" and roll: "rolls_back ad ad1 (ai_account_id i) sid amount funding"
    and post: "post_rebate (billing ad1) i h applied (applied - funding) now lid = Inr (db, entry)"
    and pos: "applied \<noteq> 0"
  shows "posts (billing ad) db (ai_account_id i) k 0 (applied - funding)" and "funding \<le> applied"
    and "\<exists>cs les. db = (billing ad1)\<lparr>credit_accounts := cs, ledger_entries := les\<rparr>"
proof -
  let ?a = "ai_account_id i" and ?db = "billing ad" and ?db1 = "billing ad1" and ?e = "rebate_entry i h applied now"
  obtain acct where net: "in_i64 (i64_max - (applied - funding))"
    and room: "ca_available acct \<le> i64_max - (applied - funding)" and acct: "tget (credit_accounts ?db1) ?a = Some acct"
    and fresh: "\<not> ledger_conflict lid ?e (ledger_entries ?db1)"
    and db: "db = ?db1\<lparr>credit_accounts := tput ?a
       (acct\<lparr>ca_available := ca_available acct + (applied - funding), ca_updated_at := now\<rparr>) (credit_accounts ?db1),
       ledger_entries := tput lid ?e (ledger_entries ?db1)\<rparr>"
    using post pos
    by (auto simp: post_rebate_def ledger_insert_or_ignore_def rbind_Inr_iff ok_or_Inr_iff ensure_Inr_iff
        split: option.splits if_splits)
  show le: "funding \<le> applied" using net by (simp add: in_i64_def)
  have same: "credit_accounts ?db1 = credit_accounts ?db" "key_budget_state ?db1 = key_budget_state ?db"
    "usage_reservations ?db1 = usage_reservations ?db" "posts_books ?db ?db1 ?a (- funding)" "wf_tables ?db1"
    using roll by (auto simp: rolls_back_def)
  have "amount_ok (ca_available acct)" using balance_ok [OF inv] acct same by simp
  then have "posts_account ?db db ?a 0 (applied - funding)"
    using le room acct same by (intro posts_account_put [OF inv, of ?a acct db
          "acct\<lparr>ca_available := ca_available acct + (applied - funding), ca_updated_at := now\<rparr>"])
      (simp_all add: db amount_ok_def)
  moreover have "posts_books ?db1 db ?a applied"
    using posts_books_fresh [of db lid ?e ?db1] ledger_conflict_fresh [OF fresh]
    by (simp add: db rebate_entry_def touches_balance_def)
  then have "posts_books ?db db ?a (applied - funding)" using same(4) by (simp add: posts_books_def)
  ultimately show "posts ?db db ?a k 0 (applied - funding)"
    using same inv by (simp add: posts_def posts_key_same posts_holds_same db wf_tables_def)
  show "\<exists>cs les. db = ?db1\<lparr>credit_accounts := cs, ledger_entries := les\<rparr>" using db by blast
qed
paragraph \<open>One decision\<close>

lemma rollback_target_Inr:
  assumes "rollback_target b cum = Inr target" and "0 \<le> cum" and "cum \<le> bl_gross b" and "bl_gross b \<le> i64_max"
    and "0 \<le> bl_original b" and "bl_original b \<le> bl_gross b"
  shows "target = rollback_due b cum"
proof -
  have "in_i64 (cum - (bl_gross b - bl_original b))" using assms(2-) by (simp add: in_i64_def i64_bounds)
  then have "(case checked (cum - (bl_gross b - bl_original b)) of None \<Rightarrow> 0 | Some v \<Rightarrow> v) =
      cum - (bl_gross b - bl_original b)" by (simp add: checked_def)
  then show ?thesis
    using assms(1) by (simp add: rollback_target_def Let_def rbind_Inr_iff ok_or_Inr_iff ensure_Inr_iff rollback_due_def max.commute)
qed

lemma cumulative_rebate_Inr:
  "cumulative_rebate before current desired gross = Inr cum \<Longrightarrow> cum = before - current + desired \<and> cum \<le> gross"
  by (auto simp: cumulative_rebate_def rbind_Inr_iff ok_or_Inr_iff ensure_Inr_iff split: option.splits)

text \<open>The stages of a decision that is applied, with the amounts in closed form.\<close>

lemma apply_adjustment_stages:
  assumes "apply_adjustment ad i b before current h now eid lid fid = Inr (ad', r)"
  obtains target ad1 funding db entry where
    "before - current + ai_desired i \<le> bl_gross b"
    "rollback_target b (before - current + ai_desired i) = Inr target"
    "rollback_entitlement_tail ad (ai_account_id i) (ai_settlement_id i) (bl_original b) target eid now fid = Inr (ad1, funding)"
    "post_rebate (billing ad1) i h (ai_desired i - current) (ai_desired i - current - funding) now lid = Inr (db, entry)"
    "tget (adjustment_events ad1) eid = None" "0 \<le> before - current + ai_desired i"
    "in_i64 (bl_gross b - (before - current + ai_desired i))"
    "insert_idempotency (persist_state (ad1\<lparr>billing := db, adjustment_events :=
       tput eid (make_event i (ai_desired i - current) (before - current + ai_desired i) entry now) (adjustment_events ad1)\<rparr>)
       i eid (ai_desired i - current)) i h eid = Inr ad'"
    "r = new_result i (ai_desired i - current) (before - current + ai_desired i)
       (bl_gross b - (before - current + ai_desired i)) entry eid now"
proof -
  obtain cum target ad1 funding db entry ad2 where c: "cumulative_rebate before current (ai_desired i) (bl_gross b) = Inr cum"
    and "rollback_target b cum = Inr target"
    and "rollback_entitlement_tail ad (ai_account_id i) (ai_settlement_id i) (bl_original b) target eid now fid = Inr (ad1, funding)"
    and "post_rebate (billing ad1) i h (ai_desired i - current) (ai_desired i - current - funding) now lid = Inr (db, entry)"
    and ev: "insert_event (ad1\<lparr>billing := db\<rparr>) eid (make_event i (ai_desired i - current) cum entry now) = Inr ad2"
    and "insert_idempotency (persist_state ad2 i eid (ai_desired i - current)) i h eid = Inr ad'"
    and "r = new_result i (ai_desired i - current) cum (bl_gross b - cum) entry eid now" and "in_i64 (bl_gross b - cum)"
    using assms unfolding apply_adjustment_def by (auto simp: rbind_Inr_iff ok_or_Inr_iff)
  moreover have "cum = before - current + ai_desired i" "cum \<le> bl_gross b" using cumulative_rebate_Inr [OF c] by auto
  moreover have "tget (adjustment_events ad1) eid = None" "0 \<le> cum"
    "ad2 = ad1\<lparr>billing := db, adjustment_events := tput eid (make_event i (ai_desired i - current) cum entry now) (adjustment_events ad1)\<rparr>"
    using ev by (auto simp: insert_event_def rbind_Inr_iff ensure_Inr_iff sql_insert_Inr_iff make_event_def)
  ultimately show ?thesis using that by blast
qed

lemma insert_idempotency_Inr:
  assumes "insert_idempotency ad i h eid = Inr ad'"
  shows "\<exists>t. ad' = ad\<lparr>adjustment_keys := t\<rparr> \<and> tget t (ai_account_id i, ai_key i) = Some (h, eid)"
proof (cases "tget (adjustment_keys ad) (ai_account_id i, ai_key i)")
  case None
  with assms show ?thesis by (auto simp: insert_idempotency_def tbl_simps)
next
  case (Some x)
  with assms have "ad' = ad\<lparr>adjustment_keys := adjustment_keys ad\<rparr>" "x = (h, eid)"
    by (auto simp: insert_idempotency_def split: if_splits)
  with Some show ?thesis by blast
qed

text \<open>
  The effect of a decision: the tables it leaves, what it posts, and that the allocations
  of the settlement match the rebates again.
\<close>

lemma apply_adjustment_effect:
  assumes inv: "billing_inv (billing ad)" "allocations_ok (billing ad)" "wf_table (adjustment_states ad)"
    and b: "baseline_ok ad a s b" "in_i64 (bl_gross b)" and ids: "a = ai_account_id i" "s = ai_settlement_id i"
    and cur: "0 \<le> current" "current \<le> ai_desired i" "current \<le> before" "before = settlement_rebates ad a s"
      "current = (case tget (adjustment_states ad) (a, s, ai_namespace i) of None \<Rightarrow> 0 | Some st \<Rightarrow> st_desired st)"
    and run: "apply_adjustment ad i b before current h now eid lid fid = Inr (ad', r)"
  obtains funding where
    "posts (billing ad) (billing ad') a k 0 (ai_desired i - current - funding)" "0 \<le> funding" "funding \<le> ai_desired i - current"
    "tsum (\<lambda>_ m. m) (funding_reductions ad') = tsum (\<lambda>_ m. m) (funding_reductions ad) + funding"
    "allocations_ok (billing ad')" "cycles_return (billing ad) (billing ad')"
    "\<And>x. x \<noteq> s \<Longrightarrow> entry_allocated (billing ad') x = entry_allocated (billing ad) x"
    "entry_allocated (billing ad') s = bl_original b - rollback_due b (before - current + ai_desired i)"
    "settlement_feed ad' = settlement_feed ad" "baselines ad' = baselines ad"
    "adjustment_states ad' = adjustment_states (persist_state ad i eid (ai_desired i - current))"
    "before - current + ai_desired i \<le> bl_gross b"
proof -
  let ?applied = "ai_desired i - current" and ?cum = "before - current + ai_desired i"
  obtain target ad1 funding db entry where
    cap: "?cum \<le> bl_gross b" and tg: "rollback_target b ?cum = Inr target"
    and tail: "rollback_entitlement_tail ad (ai_account_id i) (ai_settlement_id i) (bl_original b) target eid now fid = Inr (ad1, funding)"
    and post: "post_rebate (billing ad1) i h ?applied (?applied - funding) now lid = Inr (db, entry)" and "0 \<le> ?cum"
    and idem: "insert_idempotency (persist_state (ad1\<lparr>billing := db, adjustment_events :=
       tput eid (make_event i ?applied ?cum entry now) (adjustment_events ad1)\<rparr>) i eid ?applied) i h eid = Inr ad'"
    using apply_adjustment_stages [OF run] by metis
  have wf: "wf_tables (billing ad)" using inv(1) by (simp add: billing_inv_def)
  have target: "target = rollback_due b ?cum"
    using b cap \<open>0 \<le> ?cum\<close> by (intro rollback_target_Inr [OF tg]) (auto simp: baseline_ok_def in_i64_def)
  have alloc: "entry_allocated (billing ad) s = bl_original b - rollback_due b before"
    using b(1) cur(4) by (simp add: baseline_ok_def)
  note roll = rollback_tail_rolls [OF tail wf inv(2), folded ids]
  have roll': "rolls_back ad ad1 a s (rollback_due b ?cum - rollback_due b before) funding"
    using roll(2) by (simp add: alloc target)
  have "posts (billing ad) db a k 0 (?applied - funding) \<and> funding \<le> ?applied \<and>
      (\<exists>cs les. db = (billing ad1)\<lparr>credit_accounts := cs, ledger_entries := les\<rparr>)"
  proof (cases "?applied = 0")
    case True
    then have "ad1 = ad" "funding = 0" using roll(3) by (simp_all add: alloc target)
    moreover have "db = billing ad1" using True post by (simp add: post_rebate_def)
    moreover have "\<exists>cs les. billing ad = (billing ad)\<lparr>credit_accounts := cs, ledger_entries := les\<rparr>"
      by (intro exI [of _ "credit_accounts (billing ad)"] exI [of _ "ledger_entries (billing ad)"]) simp
    ultimately show ?thesis
      using True inv(1) wf by (simp add: posts_def posts_account_same posts_key_same posts_holds_same posts_books_same)
  next
    case False
    show ?thesis using rebate_posts [OF inv(1) roll' [unfolded ids(1)] post False] ids(1) by metis
  qed
  then obtain cs les where posts: "posts (billing ad) db a k 0 (?applied - funding)" "funding \<le> ?applied"
    and db: "db = (billing ad1)\<lparr>credit_accounts := cs, ledger_entries := les\<rparr>" by blast
  obtain keys where ad': "ad' = (persist_state (ad1\<lparr>billing := db, adjustment_events :=
       tput eid (make_event i ?applied ?cum entry now) (adjustment_events ad1)\<rparr>) i eid ?applied)\<lparr>adjustment_keys := keys\<rparr>"
    using insert_idempotency_Inr [OF idem] by blast
  have bill: "billing ad' = db" by (simp add: ad' persist_state_def)
  have sums: "entry_allocated db = entry_allocated (billing ad1)" "allocations_ok db = allocations_ok (billing ad1)"
    "cycles_return (billing ad) db = cycles_return (billing ad) (billing ad1)"
    by (simp_all add: db fun_eq_iff entry_allocated_def allocations_ok_def cycles_return_def cycle_allocated_def)
  show ?thesis
    using posts roll' alloc cap
    by (intro that [of funding]) (auto simp: bill sums rolls_back_def same_adjustments_def ad' persist_state_def)
qed
paragraph \<open>The transaction\<close>

lemma ensure_baseline_Inr:
  assumes "ensure_baseline ad i gross currency = Inr (ad1, b)"
  shows "bl_gross b = gross \<and> ad1 = ad\<lparr>baselines := tput (ai_account_id i, ai_settlement_id i) b (baselines ad)\<rparr> \<and>
    (tget (baselines ad) (ai_account_id i, ai_settlement_id i) = Some b \<or>
     tget (baselines ad) (ai_account_id i, ai_settlement_id i) = None \<and>
     bl_original b = entry_allocated (billing ad) (ai_settlement_id i) \<and> 0 \<le> bl_original b \<and> bl_original b \<le> gross)"
proof (cases "tget (baselines ad) (ai_account_id i, ai_settlement_id i)")
  case None
  with assms show ?thesis
    by (auto simp: ensure_baseline_def Let_def rbind_Inr_iff ensure_Inr_iff sql_int_Inr_iff)
next
  case (Some b0)
  have "tput (ai_account_id i, ai_settlement_id i) b0 (baselines ad) = baselines ad"
    using Some by (simp add: tput_def tget_def update_triv)
  with Some assms show ?thesis by (auto simp: ensure_baseline_def rbind_Inr_iff ensure_Inr_iff)
qed

lemma sum_list_eq_0: "(\<And>x. x \<in> set xs \<Longrightarrow> f x = 0) \<Longrightarrow> sum_list (map f xs) = (0::int)"
  by (induction xs) auto

lemma no_baseline_no_rebates:
  assumes "adjust_inv ad" and "tget (baselines ad) (a, s) = None"
  shows "settlement_rebates ad a s = 0"
proof -
  have "(case k of (a', s', _) \<Rightarrow> (\<lambda>st. if a' = a \<and> s' = s then st_desired st else 0)) st = 0"
    if "(k, st) \<in> trows (adjustment_states ad)" for k st
  proof -
    obtain a' s' n where k: "k = (a', s', n)" by (cases k)
    have "tget (adjustment_states ad) (a', s', n) = Some st"
      using assms(1) that k by (auto simp: adjust_inv_def intro: trows_tget)
    then have "tget (baselines ad) (a', s') \<noteq> None" using assms(1) by (simp add: adjust_inv_def)
    with assms(2) k show ?thesis by auto
  qed
  then show ?thesis
    unfolding settlement_rebates_def tsum_def trows_def by (intro sum_list_eq_0) auto
qed

lemma rebates_bound:
  assumes "adjust_inv ad" and "tget (adjustment_states ad) (a, s, n) = Some st"
  shows "st_desired st \<le> settlement_rebates ad a s"
proof -
  let ?f = "\<lambda>(a', s', _) st. if a' = a \<and> s' = s then st_desired st else 0"
  have "0 \<le> ?f k r" if "(k, r) \<in> trows (adjustment_states ad)" for k r
    using that assms(1) by (cases k) (auto simp: adjust_inv_def dest: trows_tget)
  from tsum_ge_member [of "adjustment_states ad" ?f, OF this assms(2)] show ?thesis
    by (simp add: settlement_rebates_def)
qed

text \<open>Recording the baseline of a settlement keeps the invariant.\<close>

lemma baseline_inv:
  assumes inv: "adjust_inv ad" and feed: "tget (settlement_feed ad) (ai_settlement_id i) = Some f"
    "fd_account_id f = ai_account_id i"
    and base: "ensure_baseline ad i (fd_cost f) currency = Inr (ad1, b)"
  shows "adjust_inv ad1" and "baseline_ok ad1 (ai_account_id i) (ai_settlement_id i) b"
proof -
  let ?k = "(ai_account_id i, ai_settlement_id i)"
  note e = ensure_baseline_Inr [OF base]
  have ad1: "ad1 = ad\<lparr>baselines := tput ?k b (baselines ad)\<rparr>" using e by blast
  have reb: "settlement_rebates ad1 = settlement_rebates ad" by (simp add: ad1 settlement_rebates_def fun_eq_iff)
  have same: "baseline_ok ad1 = baseline_ok ad" by (simp add: fun_eq_iff baseline_ok_def reb) (simp add: ad1)
  have "baseline_ok ad (ai_account_id i) (ai_settlement_id i) b"
  proof (cases "tget (baselines ad) ?k")
    case None
    with e no_baseline_no_rebates [OF inv None] feed show ?thesis by (auto simp: baseline_ok_def rollback_due_def)
  next
    case (Some b0)
    with e inv show ?thesis by (auto simp: adjust_inv_def)
  qed
  then show ok: "baseline_ok ad1 (ai_account_id i) (ai_settlement_id i) b" by (simp add: same)
  have "\<forall>a s b'. tget (baselines ad1) (a, s) = Some b' \<longrightarrow> baseline_ok ad1 a s b'"
    using inv ok unfolding same adjust_inv_def by (auto simp: ad1 tbl_simps)
  then show "adjust_inv ad1"
    using inv by (auto simp: adjust_inv_def ad1 tbl_simps)
qed

lemma bind_settlement_Inr:
  "bind_settlement ad i = Inr f \<Longrightarrow> tget (settlement_feed ad) (ai_settlement_id i) = Some f \<and>
     fd_account_id f = ai_account_id i \<and> ai_desired i \<le> fd_cost f"
  by (auto simp: bind_settlement_def rbind_Inr_iff ok_or_Inr_iff ensure_Inr_iff split: option.splits if_splits)

lemma version_decision_None:
  assumes "version_decision i existing = Inr None"
  shows "case existing of None \<Rightarrow> True | Some st \<Rightarrow> st_version st < ai_version i \<and> st_desired st \<le> ai_desired i"
  using assms by (auto simp: version_decision_def rbind_Inr_iff ensure_Inr_iff split: option.splits if_splits)

text \<open>The two ways a new request ends: it repeats a stored decision, or it is applied.\<close>

lemma reconcile_new_cases:
  assumes "reconcile_new ad i h now eid lid fid = Inr (ad', r)" and "wf_table (adjustment_states ad)"
  obtains (repeat) f ad1 b e where "bind_settlement ad i = Inr f"
      "ensure_baseline ad i (fd_cost f) (fd_currency f) = Inr (ad1, b)"
      "insert_idempotency ad1 i h e = Inr ad'" "event_result ad' e True = Inr r"
  | (new) f ad1 b where "bind_settlement ad i = Inr f"
      "ensure_baseline ad i (fd_cost f) (fd_currency f) = Inr (ad1, b)"
      "version_decision i (tget (adjustment_states ad) (ai_account_id i, ai_settlement_id i, ai_namespace i)) = Inr None"
      "apply_adjustment ad1 i b (settlement_rebates ad (ai_account_id i) (ai_settlement_id i))
        (case tget (adjustment_states ad) (ai_account_id i, ai_settlement_id i, ai_namespace i) of
           None \<Rightarrow> 0 | Some st \<Rightarrow> st_desired st) h now eid lid fid = Inr (ad', r)"
proof -
  obtain f ad1 b before existing same where f: "bind_settlement ad i = Inr f"
    and base: "ensure_baseline ad i (fd_cost f) (fd_currency f) = Inr (ad1, b)"
    and sum: "sum_states (ai_namespace i) (load_states ad1 (ai_account_id i) (ai_settlement_id i)) 0 None = Inr (before, existing)"
    and ver: "version_decision i existing = Inr same"
    and rest: "(case same of Some st \<Rightarrow> rbind (insert_idempotency ad1 i h (st_last_event_id st)) (\<lambda>ad.
          rbind (event_result ad (st_last_event_id st) True) (\<lambda>r. Inr (ad, r)))
      | None \<Rightarrow> apply_adjustment ad1 i b before (case existing of None \<Rightarrow> 0 | Some st \<Rightarrow> st_desired st) h now eid lid fid)
      = Inr (ad', r)"
    using assms(1) unfolding reconcile_new_def by (auto simp: rbind_Inr_iff)
  have st: "adjustment_states ad1 = adjustment_states ad" using ensure_baseline_Inr [OF base] by simp
  have reb: "settlement_rebates ad1 = settlement_rebates ad" by (simp add: settlement_rebates_def st fun_eq_iff)
  note read = states_read [OF _ sum, unfolded st reb, OF assms(2)]
  show ?thesis
  proof (cases same)
    case None
    with ver rest read show ?thesis by (intro new [OF f base]) simp_all
  next
    case (Some st)
    with rest show ?thesis by (intro repeat [OF f base, of "st_last_event_id st"]) (auto simp: rbind_Inr_iff)
  qed
qed
lemma cycles_return_refl: "cycles_return db db"
  by (simp add: cycles_return_def)

lemma adjust_inv_keys: "adjust_inv (ad\<lparr>adjustment_keys := t\<rparr>) = adjust_inv ad"
  by (simp add: adjust_inv_def baseline_ok_def settlement_rebates_def)

lemma event_result_replayed: "event_result ad e b = Inr r \<Longrightarrow> ar_replayed r = b"
  by (auto simp: event_result_def rbind_Inr_iff ok_or_Inr_iff)

lemma validate_input_Inr: "validate_input i = Inr u \<Longrightarrow> 0 \<le> ai_desired i \<and> 0 < ai_version i"
  by (auto simp: validate_input_def rbind_Inr_iff ensure_Inr_iff)

lemma canonicalize_ids [simp]:
  "ai_account_id (canonicalize_input i) = ai_account_id i" "ai_settlement_id (canonicalize_input i) = ai_settlement_id i"
  by (simp_all add: canonicalize_input_def)

text \<open>The invariant after a decision, from its effect on the tables.\<close>

lemma applied_inv:
  assumes inv: "adjust_inv ad" and b: "tget (baselines ad) (a, s) = Some b"
    and ids: "a = ai_account_id i" "s = ai_settlement_id i" and pos: "0 \<le> ai_desired i"
    and "billing_inv (billing ad')" and "allocations_ok (billing ad')"
    and other: "\<And>x. x \<noteq> s \<Longrightarrow> entry_allocated (billing ad') x = entry_allocated (billing ad) x"
    and mine: "entry_allocated (billing ad') s = bl_original b - rollback_due b (settlement_rebates ad' a s)"
    and same: "settlement_feed ad' = settlement_feed ad" "baselines ad' = baselines ad"
    and st: "adjustment_states ad' = adjustment_states (persist_state ad i eid d)"
    and cap: "settlement_rebates ad' a s \<le> bl_gross b"
  shows "adjust_inv ad'"
proof -
  have reb: "settlement_rebates ad' a' s' = settlement_rebates ad a' s'" if "(a', s') \<noteq> (a, s)" for a' s'
  proof -
    have "settlement_rebates ad' a' s' = settlement_rebates (persist_state ad i eid d) a' s'"
      by (simp add: settlement_rebates_def st)
    with that ids show ?thesis by (auto simp: rebates_persist)
  qed
  have "baseline_ok ad' a' s' b'" if "tget (baselines ad') (a', s') = Some b'" for a' s' b'
  proof (cases "(a', s') = (a, s)")
    case True
    with that b same have "b' = b" by simp
    have "baseline_ok ad a s b" using inv b by (simp add: adjust_inv_def)
    with True \<open>b' = b\<close> mine cap same show ?thesis by (auto simp: baseline_ok_def)
  next
    case False
    have ok: "baseline_ok ad a' s' b'" "baseline_ok ad a s b" using inv b that same by (simp_all add: adjust_inv_def)
    then have "s' \<noteq> s" using False by (auto simp: baseline_ok_def)
    with ok(1) reb [OF False] other same show ?thesis by (simp add: baseline_ok_def)
  qed
  then show ?thesis
    using assms(6,7) inv b ids pos same by (auto simp: adjust_inv_def st persist_state_def tbl_simps)
qed

lemma reconcile_new_effect:
  assumes inv: "adjust_inv ad" and pos: "0 \<le> ai_desired i"
    and run: "reconcile_new ad i h now eid lid fid = Inr (ad', r)"
  shows "adjust_inv ad' \<and> (\<exists>funding. 0 \<le> funding \<and> funding \<le> (if ar_replayed r then 0 else ar_applied_delta r) \<and>
      tsum (\<lambda>_ m. m) (funding_reductions ad') = tsum (\<lambda>_ m. m) (funding_reductions ad) + funding \<and>
      posts (billing ad) (billing ad') (ai_account_id i) k 0 ((if ar_replayed r then 0 else ar_applied_delta r) - funding)) \<and>
    cycles_return (billing ad) (billing ad') \<and>
    settlement_rebates ad' (ai_account_id i) (ai_settlement_id i) =
      settlement_rebates ad (ai_account_id i) (ai_settlement_id i) + (if ar_replayed r then 0 else ar_applied_delta r) \<and>
    (\<not> ar_replayed r \<longrightarrow> ar_cumulative r = settlement_rebates ad' (ai_account_id i) (ai_settlement_id i) \<and> ar_desired r = ai_desired i)"
proof -
  let ?a = "ai_account_id i" and ?s = "ai_settlement_id i"
  have wf: "wf_table (adjustment_states ad)" using inv by (simp add: adjust_inv_def)
  show ?thesis
  proof (cases rule: reconcile_new_cases [OF run wf])
    case (1 f ad1 b e)
    note feed = bind_settlement_Inr [OF 1(1)]
    have inv1: "adjust_inv ad1" using baseline_inv(1) [OF inv _ _ 1(2)] feed by simp
    obtain t where ad': "ad' = ad1\<lparr>adjustment_keys := t\<rparr>" using insert_idempotency_Inr [OF 1(3)] by blast
    have ad1: "ad1 = ad\<lparr>baselines := tput (?a, ?s) b (baselines ad)\<rparr>" using ensure_baseline_Inr [OF 1(2)] by blast
    have "ar_replayed r" using event_result_replayed [OF 1(4)] by simp
    moreover have "adjust_inv ad'" using inv1 by (simp add: ad' adjust_inv_keys)
    ultimately show ?thesis
      using inv by (simp add: ad' ad1 posts_refl cycles_return_refl adjust_inv_def settlement_rebates_def)
  next
    case (2 f ad1 b)
    let ?cur = "case tget (adjustment_states ad) (?a, ?s, ai_namespace i) of None \<Rightarrow> 0 | Some st \<Rightarrow> st_desired st"
    note feed = bind_settlement_Inr [OF 2(1)]
    have inv1: "adjust_inv ad1" and b: "baseline_ok ad1 ?a ?s b" using baseline_inv [OF inv _ _ 2(2)] feed by simp_all
    have ad1: "ad1 = ad\<lparr>baselines := tput (?a, ?s) b (baselines ad)\<rparr>" using ensure_baseline_Inr [OF 2(2)] by blast
    have reb1: "settlement_rebates ad1 = settlement_rebates ad" by (simp add: ad1 settlement_rebates_def fun_eq_iff)
    have gross: "in_i64 (bl_gross b)" using b inv1 unfolding baseline_ok_def adjust_inv_def by metis
    have cur: "0 \<le> ?cur" "?cur \<le> ai_desired i" "?cur \<le> settlement_rebates ad ?a ?s"
    proof -
      have base: "0 \<le> settlement_rebates ad ?a ?s"
        unfolding settlement_rebates_def using inv
        by (intro tsum_nonneg) (auto simp: adjust_inv_def dest: trows_tget)
      show "0 \<le> ?cur" using inv by (auto simp: adjust_inv_def split: option.split)
      show "?cur \<le> ai_desired i" using version_decision_None [OF 2(3)] pos by (auto split: option.splits)
      show "?cur \<le> settlement_rebates ad ?a ?s"
        using base rebates_bound [OF inv] by (auto split: option.split)
    qed
    have inv1': "billing_inv (billing ad1)" "allocations_ok (billing ad1)" "wf_table (adjustment_states ad1)"
      using inv1 by (simp_all add: adjust_inv_def)
    have cur1: "settlement_rebates ad ?a ?s = settlement_rebates ad1 ?a ?s"
      "?cur = (case tget (adjustment_states ad1) (?a, ?s, ai_namespace i) of None \<Rightarrow> 0 | Some st \<Rightarrow> st_desired st)"
      by (simp add: reb1, simp add: ad1)
    obtain funding where e: "posts (billing ad1) (billing ad') ?a k 0 (ai_desired i - ?cur - funding)" "0 \<le> funding"
      "funding \<le> ai_desired i - ?cur"
      "tsum (\<lambda>_ m. m) (funding_reductions ad') = tsum (\<lambda>_ m. m) (funding_reductions ad1) + funding"
      "allocations_ok (billing ad')" "cycles_return (billing ad1) (billing ad')"
      "\<And>x. x \<noteq> ?s \<Longrightarrow> entry_allocated (billing ad') x = entry_allocated (billing ad1) x"
      "entry_allocated (billing ad') ?s = bl_original b - rollback_due b (settlement_rebates ad ?a ?s - ?cur + ai_desired i)"
      "settlement_feed ad' = settlement_feed ad1" "baselines ad' = baselines ad1"
      "adjustment_states ad' = adjustment_states (persist_state ad1 i eid (ai_desired i - ?cur))"
      "settlement_rebates ad ?a ?s - ?cur + ai_desired i \<le> bl_gross b"
      by (rule apply_adjustment_effect [OF inv1' b gross refl refl cur cur1 2(4), of k]) blast
    have "settlement_rebates ad' ?a ?s = settlement_rebates (persist_state ad1 i eid (ai_desired i - ?cur)) ?a ?s"
      by (simp add: settlement_rebates_def e(11))
    then have reb: "settlement_rebates ad' ?a ?s = settlement_rebates ad ?a ?s - ?cur + ai_desired i"
      by (simp add: rebates_persist reb1 cur1(2) [symmetric])
    have "adjust_inv ad'"
      using e(8,12) reb posts_inv [OF inv1'(1) e(1)]
      by (intro applied_inv [OF inv1 _ refl refl pos _ e(5,7) _ e(9,10,11), of b]) (simp_all add: ad1 tbl_simps)
    moreover have "ar_applied_delta r = ai_desired i - ?cur \<and> \<not> ar_replayed r \<and> ar_desired r = ai_desired i \<and>
        ar_cumulative r = settlement_rebates ad ?a ?s - ?cur + ai_desired i"
      by (rule apply_adjustment_stages [OF 2(4)]) (simp add: new_result_def)
    ultimately show ?thesis using e(1-4,6) reb by (auto simp: ad1)
  qed
qed
paragraph \<open>Records and replays\<close>

lemma reconcile_cases:
  assumes "reconcile_settlement_adjustment hash ad input now eid lid fid = Inr (ad', r)"
  obtains (known) h e where "validate_input (canonicalize_input input) = Inr ()" "hash (canonicalize_input input) = Inr h"
      "tget (credit_accounts (billing ad)) (ai_account_id input) \<noteq> None"
      "find_idempotency ad (ai_account_id input) (ai_key (canonicalize_input input)) = Some (h, e)"
      "event_result ad e True = Inr r" "ad' = ad"
  | (fresh) h where "validate_input (canonicalize_input input) = Inr ()" "hash (canonicalize_input input) = Inr h"
      "tget (credit_accounts (billing ad)) (ai_account_id input) \<noteq> None"
      "find_idempotency ad (ai_account_id input) (ai_key (canonicalize_input input)) = None"
      "reconcile_new ad (canonicalize_input input) h now eid lid fid = Inr (ad', r)"
proof -
  let ?i = "canonicalize_input input"
  let ?run = "\<lambda>h. case find_idempotency ad (ai_account_id input) (ai_key ?i) of
       Some (h', e) \<Rightarrow> rbind (ensure (h' = h)
           (Conflict ''Idempotency-Key was already used for a different settlement adjustment'')) (\<lambda>_.
         rbind (event_result ad e True) (\<lambda>r. Inr (ad, r)))
     | None \<Rightarrow> reconcile_new ad ?i h now eid lid fid"
  obtain h where v: "validate_input ?i = Inr ()" "hash ?i = Inr h" "tget (credit_accounts (billing ad)) (ai_account_id input) \<noteq> None"
    and run: "?run h = Inr (ad', r)"
    using assms unfolding reconcile_settlement_adjustment_def Let_def canonicalize_ids
    by (auto simp: rbind_Inr_iff ensure_Inr_iff)
  show ?thesis
  proof (cases "find_idempotency ad (ai_account_id input) (ai_key ?i)")
    case None
    with run show ?thesis by (intro fresh [OF v]) simp_all
  next
    case (Some x)
    with run show ?thesis
      by (cases x, intro known [OF v, of "snd x"]) (auto simp: rbind_Inr_iff ensure_Inr_iff)
  qed
qed

lemma reconcile_known:
  assumes "validate_input (canonicalize_input input) = Inr ()" "hash (canonicalize_input input) = Inr h"
    and "tget (credit_accounts (billing ad)) (ai_account_id input) \<noteq> None"
    and "find_idempotency ad (ai_account_id input) (ai_key (canonicalize_input input)) = Some (h, e)"
    and "event_result ad e True = Inr r"
  shows "reconcile_settlement_adjustment hash ad input now eid lid fid = Inr (ad, r)"
  using assms by (simp add: reconcile_settlement_adjustment_def ensure_def)

lemma event_result_stored:
  assumes "tget (adjustment_events ad) eid = Some (make_event i applied cum entry now)"
    and "tget (baselines ad) (ai_account_id i, ai_settlement_id i) = Some b" and "in_i64 (bl_gross b - cum)"
  shows "event_result ad eid True = Inr (new_result i applied cum (bl_gross b - cum) entry eid now\<lparr>ar_replayed := True\<rparr>)"
  using assms by (simp add: event_result_def make_event_def new_result_def ok_or_def checked_def)

lemma event_result_frame:
  "adjustment_events ad' = adjustment_events ad \<Longrightarrow> baselines ad' = baselines ad \<Longrightarrow> event_result ad' e b = event_result ad e b"
  by (simp add: event_result_def)

lemma post_rebate_account:
  "post_rebate db i h applied net now lid = Inr (db', entry) \<Longrightarrow> tget (credit_accounts db) (ai_account_id i) \<noteq> None \<Longrightarrow>
     tget (credit_accounts db') (ai_account_id i) \<noteq> None"
  by (auto simp: post_rebate_def ledger_insert_or_ignore_def rbind_Inr_iff tbl_simps split: if_splits)

text \<open>What a new request leaves behind for its repetitions, and for the other namespaces.\<close>

lemma reconcile_new_records:
  assumes inv: "adjust_inv ad" and run: "reconcile_new ad i h now eid lid fid = Inr (ad', r)"
  shows "(\<exists>e. find_idempotency ad' (ai_account_id i) (ai_key i) = Some (h, e) \<and>
      event_result ad' e True = Inr (r\<lparr>ar_replayed := True\<rparr>)) \<and>
    (tget (credit_accounts (billing ad)) (ai_account_id i) \<noteq> None \<longrightarrow>
      tget (credit_accounts (billing ad')) (ai_account_id i) \<noteq> None) \<and>
    (\<forall>key st. tget (adjustment_states ad) key = Some st \<longrightarrow> (\<exists>st'. tget (adjustment_states ad') key = Some st' \<and>
      st_desired st \<le> st_desired st' \<and> st_version st \<le> st_version st'))"
proof -
  let ?a = "ai_account_id i" and ?s = "ai_settlement_id i"
  have wf: "wf_table (adjustment_states ad)" using inv by (simp add: adjust_inv_def)
  show ?thesis
  proof (cases rule: reconcile_new_cases [OF run wf])
    case (1 f ad1 b e)
    obtain t where ad': "ad' = ad1\<lparr>adjustment_keys := t\<rparr>" and t: "tget t (?a, ai_key i) = Some (h, e)"
      using insert_idempotency_Inr [OF 1(3)] by blast
    have "ad1 = ad\<lparr>baselines := tput (?a, ?s) b (baselines ad)\<rparr>" using ensure_baseline_Inr [OF 1(2)] by blast
    then show ?thesis
      using 1(4) event_result_replayed [OF 1(4)] t by (auto simp: ad' find_idempotency_def)
  next
    case (2 f ad1 b)
    let ?cur = "case tget (adjustment_states ad) (?a, ?s, ai_namespace i) of None \<Rightarrow> 0 | Some st \<Rightarrow> st_desired st"
    let ?applied = "ai_desired i - ?cur" and ?cum = "settlement_rebates ad ?a ?s - ?cur + ai_desired i"
    have ad1: "ad1 = ad\<lparr>baselines := tput (?a, ?s) b (baselines ad)\<rparr>" using ensure_baseline_Inr [OF 2(2)] by blast
    obtain target ad2 funding db entry where
      tail: "rollback_entitlement_tail ad1 ?a ?s (bl_original b) target eid now fid = Inr (ad2, funding)"
      and post: "post_rebate (billing ad2) i h ?applied (?applied - funding) now lid = Inr (db, entry)"
      and cap: "in_i64 (bl_gross b - ?cum)"
      and idem: "insert_idempotency (persist_state (ad2\<lparr>billing := db, adjustment_events :=
         tput eid (make_event i ?applied ?cum entry now) (adjustment_events ad2)\<rparr>) i eid ?applied) i h eid = Inr ad'"
      and r: "r = new_result i ?applied ?cum (bl_gross b - ?cum) entry eid now"
      using apply_adjustment_stages [OF 2(4)] by metis
    obtain keys where ad': "ad' = (persist_state (ad2\<lparr>billing := db, adjustment_events :=
         tput eid (make_event i ?applied ?cum entry now) (adjustment_events ad2)\<rparr>) i eid ?applied)\<lparr>adjustment_keys := keys\<rparr>"
      and keys: "tget keys (?a, ai_key i) = Some (h, eid)"
      using insert_idempotency_Inr [OF idem] by blast
    have "rolls_back ad1 ad2 ?a ?s (target - (bl_original b - entry_allocated (billing ad1) ?s)) funding"
      using inv by (intro rollback_tail_rolls(2) [OF tail]) (simp_all add: adjust_inv_def billing_inv_def ad1)
    then have same: "baselines ad2 = baselines ad1" "adjustment_states ad2 = adjustment_states ad"
      "credit_accounts (billing ad2) = credit_accounts (billing ad)"
      by (simp_all add: rolls_back_def same_adjustments_def ad1)
    have "event_result ad' eid True = Inr (r\<lparr>ar_replayed := True\<rparr>)"
      unfolding r using cap by (intro event_result_stored) (simp_all add: ad' persist_state_def same ad1 tbl_simps)
    moreover have "tget (credit_accounts (billing ad)) ?a \<noteq> None \<longrightarrow> tget (credit_accounts (billing ad')) ?a \<noteq> None"
      using post_rebate_account [OF post] by (simp add: ad' persist_state_def same)
    moreover have "\<exists>st'. tget (adjustment_states ad') key = Some st' \<and>
        st_desired st \<le> st_desired st' \<and> st_version st \<le> st_version st'"
      if "tget (adjustment_states ad) key = Some st" for key st
      using that version_decision_None [OF 2(3)] by (auto simp: ad' persist_state_def same tbl_simps split: option.splits)
    moreover have "find_idempotency ad' ?a (ai_key i) = Some (h, eid)" using keys by (simp add: ad' find_idempotency_def)
    ultimately show ?thesis by blast
  qed
qed
subsection \<open>Properties\<close>

text \<open>
  C7. A rebate is accounted for exactly. Every successful reconciliation keeps the invariant
  of the adjustments, so the rebates of all namespaces together never exceed the cost of the
  settlement and the credit still allocated to it is what they leave; the account gains
  exactly the amount by which the rebates grow, less the subscription funding that is taken
  back and recorded as such, and never loses; a replay moves nothing.
\<close>

theorem reconcile_accounts:
  assumes "adjust_inv ad" and "reconcile_settlement_adjustment hash ad input now eid lid fid = Inr (ad', r)"
  shows "adjust_inv ad' \<and>
    (\<exists>funding. 0 \<le> funding \<and> funding \<le> (if ar_replayed r then 0 else ar_applied_delta r) \<and>
      tsum (\<lambda>_ m. m) (funding_reductions ad') = tsum (\<lambda>_ m. m) (funding_reductions ad) + funding \<and>
      posts (billing ad) (billing ad') (ai_account_id input) k 0
        ((if ar_replayed r then 0 else ar_applied_delta r) - funding)) \<and>
    cycles_return (billing ad) (billing ad') \<and>
    settlement_rebates ad' (ai_account_id input) (ai_settlement_id input) =
      settlement_rebates ad (ai_account_id input) (ai_settlement_id input) +
        (if ar_replayed r then 0 else ar_applied_delta r) \<and>
    (\<not> ar_replayed r \<longrightarrow>
      ar_cumulative r = settlement_rebates ad' (ai_account_id input) (ai_settlement_id input) \<and>
      ar_desired r = ai_desired input)"
proof (cases rule: reconcile_cases [OF assms(2)])
  case (1 h e)
  then show ?thesis
    using assms(1) event_result_replayed [OF 1(5)] by (simp add: posts_refl cycles_return_refl adjust_inv_def)
next
  case (2 h)
  have "ai_desired (canonicalize_input input) = ai_desired input" by (simp add: canonicalize_input_def)
  then show ?thesis
    using reconcile_new_effect [OF assms(1) _ 2(5), of k] validate_input_Inr [OF 2(1)] by simp
qed

text \<open>
  C18. Reconciliation is idempotent: a request that has succeeded succeeds again, at any later
  time and with any fresh identifiers, returns the same result marked as replayed and writes
  nothing.
\<close>

theorem reconcile_replay:
  assumes "adjust_inv ad" and "reconcile_settlement_adjustment hash ad input now eid lid fid = Inr (ad', r)"
  shows "reconcile_settlement_adjustment hash ad' input now2 eid2 lid2 fid2 = Inr (ad', r\<lparr>ar_replayed := True\<rparr>)"
proof (cases rule: reconcile_cases [OF assms(2)])
  case (1 h e)
  then show ?thesis
    using event_result_replayed [OF 1(5)] by (intro reconcile_known [of _ _ h _ e]) auto
next
  case (2 h)
  from reconcile_new_records [OF assms(1) 2(5)] 2(3) obtain e where
    "find_idempotency ad' (ai_account_id input) (ai_key (canonicalize_input input)) = Some (h, e)"
    "event_result ad' e True = Inr (r\<lparr>ar_replayed := True\<rparr>)" "tget (credit_accounts (billing ad')) (ai_account_id input) \<noteq> None"
    by auto
  with 2 show ?thesis by (intro reconcile_known) simp_all
qed

text \<open>
  C19. Decisions are monotone: no reconciliation removes the state of a namespace, lowers its
  version or its desired rebate; an older version, or a lower rebate under a newer one, is
  refused.
\<close>

theorem reconcile_monotone:
  assumes "adjust_inv ad" and "reconcile_settlement_adjustment hash ad input now eid lid fid = Inr (ad', r)"
    and "tget (adjustment_states ad) key = Some st"
  shows "\<exists>st'. tget (adjustment_states ad') key = Some st' \<and> st_desired st \<le> st_desired st' \<and> st_version st \<le> st_version st'"
proof (cases rule: reconcile_cases [OF assms(2)])
  case (2 h)
  from reconcile_new_records [OF assms(1) 2(5)] assms(3) show ?thesis by blast
qed (use assms(3) in auto)

subsection \<open>A concrete settlement\<close>

text \<open>
  A request of cost 10, of which 3 came from a subscription cycle that has ended since, is
  rebated by 9: 7 of generic funding and 2 of the cycle, whose unused funding of 4 goes back.
\<close>

definition sample_cycle :: cycle where
  "sample_cycle = \<lparr>cy_entitlement_id = ''e1'', cy_external_cycle_id = ''m1'', cy_period_start = 0, cy_period_end = 100, cy_currency = ''USD'',
     cy_desired = 5, cy_funded = 5, cy_consumed = 3, 
     cy_status = CycleActive, cy_proration = None, cy_created_at = 0, cy_updated_at = 0\<rparr>"

definition sample_usage :: ledger_entry where
  "sample_usage = \<lparr>le_account_id = ''a'', le_key_id = Some ''k'', le_kind = Usage, le_amount = - 10,
     le_currency = ''USD'', le_source = ''r1'', le_idempotency_key = None, le_reference_entry_id = None,
     le_entitlement_cycle_id = None, le_created_at = 5, le_usage_snapshot = None\<rparr>"

definition sample_adjust_db :: adjust_db where
  "sample_adjust_db = \<lparr>billing = sample_db\<lparr>
       credit_accounts := [(''a'', \<lparr>ca_tenant_id = ''t'', ca_currency = ''USD'', ca_available = 990, ca_reserved = 0, ca_updated_at = 5\<rparr>)],
       ledger_entries := [(''g'', sample_grant), (''u1'', sample_usage)],
       entitlement_cycles := [(''c1'', sample_cycle)],
       usage_allocations := [(''l1'', \<lparr>al_cycle_id = ''c1'', al_usage_entry_id = ''u1'', al_amount = 3, al_created_at = 5\<rparr>)]\<rparr>,
     settlement_feed = [(''u1'', \<lparr>fd_account_id = ''a'', fd_request_kind = Text, fd_request_id = ''q1'',
       fd_currency = ''USD'', fd_cost = 10\<rparr>)],
     baselines = [], adjustment_states = [], adjustment_events = [], adjustment_keys = [],
     entitlement_rollbacks = [], funding_reductions = []\<rparr>"

definition sample_rebate :: adjust_input where
  "sample_rebate = \<lparr>ai_account_id = ''a'', ai_settlement_id = ''u1'', ai_namespace = ''p:q'', ai_request_kind = Text,
     ai_request_id = ''q1'', ai_currency = ''USD'', ai_desired = 9, ai_version = 1,
     ai_digest = replicate 64 (CHR ''0''), ai_source = ''buy'', ai_key = ''o2''\<rparr>"

definition sample_rebated_db :: adjust_db where
  "sample_rebated_db = sample_adjust_db\<lparr>billing := (billing sample_adjust_db)\<lparr>
       credit_accounts := [(''a'', \<lparr>ca_tenant_id = ''t'', ca_currency = ''USD'', ca_available = 995, ca_reserved = 0, ca_updated_at = 200\<rparr>)],
       ledger_entries := [(''g'', sample_grant), (''u1'', sample_usage),
         (''f1'', funding_entry ''a'' ''u1'' ''v1'' ''c1'' 4 ''USD'' 200), (''b1'', rebate_entry sample_rebate ''hash'' 9 200)],
       entitlement_cycles := [(''c1'', sample_cycle\<lparr>cy_consumed := 1, cy_funded := 1, cy_updated_at := 200\<rparr>)],
       usage_allocations := [(''l1'', \<lparr>al_cycle_id = ''c1'', al_usage_entry_id = ''u1'', al_amount = 1, al_created_at = 5\<rparr>)]\<rparr>,
     baselines := [((''a'', ''u1''), \<lparr>bl_request_kind = Text, bl_request_id = ''q1'', bl_currency = ''USD'', bl_gross = 10,
       bl_original = 3\<rparr>)],
     adjustment_states := [((''a'', ''u1'', ''p:q''), \<lparr>st_desired = 9, st_version = 1, st_digest = replicate 64 (CHR ''0''),
       st_source = ''buy'', st_last_event_id = ''v1'', st_last_delta = 9\<rparr>)],
     adjustment_events := [(''v1'', make_event sample_rebate 9 9 (Some ''b1'') 200)],
     adjustment_keys := [((''a'', ''o2''), (''hash'', ''v1''))],
     entitlement_rollbacks := [((''v1'', 1), (''c1'', 2))], funding_reductions := [((''v1'', ''c1''), 4)]\<rparr>"

lemma sample_adjust_inv: "adjust_inv sample_adjust_db"
  by (simp add: adjust_inv_def sample_adjust_db_def inv_defs sample_eval wf_table_def book_value_def touches_balance_def
      sample_usage_def allocations_ok_def sample_cycle_def amount_ok_def)

lemma trim_id:
  "strip_any white_space s = None \<Longrightarrow> strip_any (map rev white_space) (rev s) = None \<Longrightarrow> trim s = s"
  by (simp add: trim_def trim_start_def trim_end_def trim_with.simps [of white_space s]
      trim_with.simps [of "map rev white_space" "rev s"])

lemma sample_digest: "trim (replicate 64 (CHR ''0'')) = replicate 64 (CHR ''0'')"
proof -
  have r: "replicate 64 (CHR ''0'') = CHR ''0'' # replicate 63 (CHR ''0'')" by (simp add: numeral_eq_Suc)
  have "strip_any white_space (CHR ''0'' # s) = None" "strip_any (map rev white_space) (CHR ''0'' # s) = None" for s
    by (simp_all add: white_space_def)
  with r show ?thesis by (intro trim_id) (metis rev_replicate)+
qed

lemma sample_canonical: "canonicalize_input sample_rebate = sample_rebate"
proof -
  have "trim ''p:q'' = ''p:q''" "trim ''USD'' = ''USD''" "trim ''o2'' = ''o2''"
    by (rule trim_id; simp add: white_space_def)+
  moreover have "to_ascii_uppercase ''USD'' = ''USD''" "ascii_lower (CHR ''0'') = CHR ''0''"
    by (simp_all add: to_ascii_uppercase_def ascii_upper_def ascii_lower_def is_ascii_lower_def)
  ultimately show ?thesis
    by (simp add: canonicalize_input_def sample_rebate_def sample_digest sample_texts to_ascii_lowercase_def map_replicate)
qed

lemma sample_valid: "validate_input sample_rebate = Inr ()"
  by (simp add: validate_input_def sample_rebate_def sample_texts validate_currency_def valid_namespace_part_def
      is_ascii_lower_def is_lower_hex_def is_ascii_digit_def ascii_upper_def list_all_iff ensure_def)

lemma sample_reconcile:
  "reconcile_settlement_adjustment (\<lambda>_. Inr ''hash'') sample_adjust_db sample_rebate 200 ''v1'' ''b1'' (\<lambda>_. ''f1'') =
     Inr (sample_rebated_db, new_result sample_rebate 9 9 1 (Some ''b1'') ''v1'' 200)"
proof -
  have "reconcile_new sample_adjust_db sample_rebate ''hash'' 200 ''v1'' ''b1'' (\<lambda>_. ''f1'') =
     Inr (sample_rebated_db, new_result sample_rebate 9 9 1 (Some ''b1'') ''v1'' 200)"
    by (simp add: reconcile_new_def bind_settlement_def ensure_baseline_def load_states_def version_decision_def
        apply_adjustment_def cumulative_rebate_def rollback_target_def rollback_entitlement_tail_def allocation_tail_def
        rollback_one_def return_consumption_def reduce_funding_def funding_target_def insert_rollback_def
        shrink_allocation_def post_rebate_def ledger_insert_or_ignore_def ledger_insert_def ledger_conflict_def
        insert_event_def make_event_def persist_state_def insert_idempotency_def entry_allocated_def
        sample_adjust_db_def sample_rebate_def sample_rebated_db_def sample_cycle_def sample_usage_def
        funding_entry_def rebate_entry_def new_result_def eq_ignore_ascii_case_def sample_eval)
  then show ?thesis
    by (simp add: reconcile_settlement_adjustment_def sample_canonical sample_valid find_idempotency_def)
      (simp add: sample_adjust_db_def sample_rebate_def sample_eval)
qed

theorem reconcile_accounts_witness:
  "adjust_inv sample_rebated_db \<and> settlement_rebates sample_rebated_db ''a'' ''u1'' = 9 \<and>
   (\<exists>funding \<in> {0..9}. posts (billing sample_adjust_db) (billing sample_rebated_db) ''a'' ''k'' 0 (9 - funding))"
proof -
  have "ar_replayed (new_result sample_rebate 9 9 1 (Some ''b1'') ''v1'' 200) = False"
    "ar_applied_delta (new_result sample_rebate 9 9 1 (Some ''b1'') ''v1'' 200) = 9"
    "ar_cumulative (new_result sample_rebate 9 9 1 (Some ''b1'') ''v1'' 200) = 9"
    "ai_account_id sample_rebate = ''a''" "ai_settlement_id sample_rebate = ''u1''"
    by (simp_all add: new_result_def sample_rebate_def)
  then show ?thesis
    using reconcile_accounts [OF sample_adjust_inv sample_reconcile, of "''k''"] by auto
qed

theorem reconcile_replay_witness:
  "reconcile_settlement_adjustment (\<lambda>_. Inr ''hash'') sample_rebated_db sample_rebate 300 ''v2'' ''b2'' (\<lambda>_. ''f2'') =
     Inr (sample_rebated_db, new_result sample_rebate 9 9 1 (Some ''b1'') ''v1'' 200\<lparr>ar_replayed := True\<rparr>)"
  by (rule reconcile_replay [OF sample_adjust_inv sample_reconcile])

definition sample_rebate2 :: adjust_input where
  "sample_rebate2 = sample_rebate\<lparr>ai_desired := 10, ai_version := 2, ai_key := ''o3''\<rparr>"
lemma sample_rebated_inv: "adjust_inv sample_rebated_db"
  by (simp add: adjust_inv_def sample_adjust_db_def sample_rebated_db_def inv_defs sample_eval wf_table_def book_value_def
      touches_balance_def sample_usage_def allocations_ok_def sample_cycle_def funding_entry_def rebate_entry_def
      sample_rebate_def baseline_ok_def settlement_rebates_def rollback_due_def entry_allocated_def
      amount_ok_def)

lemma sample_reconcile2:
  "\<exists>ad' r. reconcile_settlement_adjustment (\<lambda>_. Inr ''hash2'') sample_rebated_db sample_rebate2 300 ''v2'' ''b2'' (\<lambda>_. ''f2'') = Inr (ad', r)"
proof -
  have new: "\<exists>ad' r. reconcile_new sample_rebated_db sample_rebate2 ''hash2'' 300 ''v2'' ''b2'' (\<lambda>_. ''f2'') = Inr (ad', r)"
    by (simp add: reconcile_new_def bind_settlement_def ensure_baseline_def load_states_def version_decision_def
        apply_adjustment_def cumulative_rebate_def rollback_target_def rollback_entitlement_tail_def allocation_tail_def
        rollback_one_def return_consumption_def reduce_funding_def funding_target_def insert_rollback_def
        shrink_allocation_def post_rebate_def ledger_insert_or_ignore_def ledger_insert_def ledger_conflict_def
        insert_event_def make_event_def persist_state_def insert_idempotency_def entry_allocated_def
        sample_adjust_db_def sample_rebate_def sample_rebate2_def sample_rebated_db_def sample_cycle_def sample_usage_def
        funding_entry_def rebate_entry_def eq_ignore_ascii_case_def sample_eval)
  have "trim ''o3'' = ''o3''" by (rule trim_id; simp add: white_space_def)
  with sample_canonical have c: "canonicalize_input sample_rebate2 = sample_rebate2"
    by (simp add: canonicalize_input_def sample_rebate2_def sample_rebate_def)
  have v: "validate_input sample_rebate2 = Inr ()"
    using sample_valid by (simp add: validate_input_def sample_rebate2_def sample_rebate_def sample_texts rbind_Inr_iff ensure_Inr_iff)
  have "tget (credit_accounts (billing sample_rebated_db)) (ai_account_id sample_rebate2) \<noteq> None"
    "find_idempotency sample_rebated_db (ai_account_id sample_rebate2) (ai_key sample_rebate2) = None"
    by (simp_all add: find_idempotency_def sample_rebated_db_def sample_rebate2_def sample_rebate_def tget_def)
  with new show ?thesis by (simp add: reconcile_settlement_adjustment_def c v ensure_def)
qed

theorem reconcile_monotone_witness:
  "\<exists>ad' r st'. reconcile_settlement_adjustment (\<lambda>_. Inr ''hash2'') sample_rebated_db sample_rebate2 300 ''v2'' ''b2'' (\<lambda>_. ''f2'')
     = Inr (ad', r) \<and> tget (adjustment_states ad') (''a'', ''u1'', ''p:q'') = Some st' \<and> 9 \<le> st_desired st' \<and> 1 \<le> st_version st'"
proof -
  obtain ad' r where run: "reconcile_settlement_adjustment (\<lambda>_. Inr ''hash2'') sample_rebated_db sample_rebate2 300 ''v2'' ''b2''
      (\<lambda>_. ''f2'') = Inr (ad', r)" using sample_reconcile2 by blast
  have "tget (adjustment_states sample_rebated_db) (''a'', ''u1'', ''p:q'') =
      Some \<lparr>st_desired = 9, st_version = 1, st_digest = replicate 64 (CHR ''0''), st_source = ''buy'',
        st_last_event_id = ''v1'', st_last_delta = 9\<rparr>" by (simp add: sample_rebated_db_def tget_def)
  from reconcile_monotone [OF sample_rebated_inv run this] run show ?thesis by auto
qed

end
