(* ===== verification/Subscription_Entitlements.thy ===== *)
theory Subscription_Entitlements
  imports Settle_Usage
begin

text \<open>
  Subscription entitlements (\<open>src/src/db/billing/entitlements.rs\<close>): external subscription
  snapshots are reconciled against the credit of an account. A subscription funds its
  current billing cycle up to the desired amount; what a cycle leaves unspent is taken back
  when the cycle ends, the subscription is cancelled or another one replaces it. The digest
  of a request, the JSON forms of a proration note and of a stored response are parameters
  (\<open>ent_codecs\<close>); identifiers that the code draws fresh are arguments.
\<close>

subsection \<open>Messages\<close>

record reconcile_entitlement_input =
  ri_tenant_external_id :: string
  ri_account_id :: uuid
  ri_provider :: string
  ri_external_subscription_id :: string
  ri_external_cycle_id :: string
  ri_period_start :: int
  ri_period_end :: int
  ri_currency :: string
  ri_desired_micros :: int
  ri_version :: int
  ri_source :: string
  ri_proration_json :: "string option"

record cancel_entitlement_input =
  ci_tenant_external_id :: string
  ci_provider :: string
  ci_external_subscription_id :: string
  ci_external_cycle_id :: "string option"
  ci_version :: int
  ci_source :: string

record replace_entitlement_input =
  pi_tenant_external_id :: string
  pi_provider :: string
  pi_external_subscription_id :: string
  pi_version :: int
  pi_source :: string
  pi_replacement :: reconcile_entitlement_input

datatype entitlement_operation =
    OpReconcile reconcile_entitlement_input
  | OpCancel cancel_entitlement_input
  | OpReplace replace_entitlement_input

definition op_tenant_external_id :: "entitlement_operation \<Rightarrow> string" where
  "op_tenant_external_id op = (case op of
      OpReconcile i \<Rightarrow> ri_tenant_external_id i
    | OpCancel i \<Rightarrow> ci_tenant_external_id i
    | OpReplace i \<Rightarrow> pi_tenant_external_id i)"

record entitlement_view =
  vw_entitlement_id :: uuid
  vw_cycle_id :: uuid
  vw_tenant_external_id :: string
  vw_account_id :: uuid
  vw_provider :: string
  vw_external_subscription_id :: string
  vw_external_cycle_id :: string
  vw_period_start :: int
  vw_period_end :: int
  vw_currency :: string
  vw_desired :: string
  vw_consumed :: string
  vw_remaining :: string
  vw_status :: subscription_status
  vw_version :: int
  vw_replaced_by :: "uuid option"
  vw_created_at :: int
  vw_updated_at :: int

record entitlement_result =
  er_entitlement :: entitlement_view
  er_ledger_delta :: string
  er_replaced :: "uuid option"

subsection \<open>Validation\<close>

definition is_identity_byte :: "byte \<Rightarrow> bool" where
  "is_identity_byte c \<longleftrightarrow> is_ascii_digit c \<or> is_ascii_lower c \<or> is_ascii_lower (ascii_lower c) \<or> c \<in> set ''._-:''"

definition validate_entitlement_identity :: "string \<Rightarrow> string \<Rightarrow> unit res" where
  "validate_entitlement_identity value field =
     (let v = trim value in
      ensure (\<not> (v = [] \<or> 200 < length v \<or> \<not> list_all is_identity_byte v))
        (BadRequest (field @ '' must contain 1 to 200 safe ASCII characters'')))"

definition validate_reconcile_entitlement :: "reconcile_entitlement_input \<Rightarrow> unit res" where
  "validate_reconcile_entitlement i =
     rbind (validate_entitlement_identity (ri_tenant_external_id i) ''tenant_external_id'') (\<lambda>_.
     rbind (validate_entitlement_identity (ri_provider i) ''provider'') (\<lambda>_.
     rbind (validate_entitlement_identity (ri_external_subscription_id i) ''external_subscription_id'') (\<lambda>_.
     rbind (validate_entitlement_identity (ri_external_cycle_id i) ''external_cycle_id'') (\<lambda>_.
     rbind (validate_currency (ri_currency i)) (\<lambda>_.
     rbind (ensure (\<not> (ri_period_start i < 0 \<or> ri_period_end i \<le> ri_period_start i))
       (BadRequest ''billing period_end must be after a non-negative period_start'')) (\<lambda>_.
     rbind (ensure (\<not> (ri_desired_micros i < 0 \<or> ri_version i \<le> 0))
       (BadRequest ''desired entitlement cannot be negative and version must be positive'')) (\<lambda>_.
     let source = trim (ri_source i) in
     rbind (ensure (\<not> (source = [] \<or> 200 < length source \<or> has_control source))
       (BadRequest ''source must contain 1 to 200 non-control characters'')) (\<lambda>_.
     ensure (case ri_proration_json i of None \<Rightarrow> True | Some v \<Rightarrow> length v \<le> 4096)
       (BadRequest ''proration metadata exceeds 4 KiB'')))))))))"

definition source_ok :: "int \<Rightarrow> string \<Rightarrow> bool" where
  "source_ok version source \<longleftrightarrow>
     \<not> (version \<le> 0 \<or> trim source = [] \<or> 200 < length source \<or> has_control source)"

definition validate_entitlement_operation :: "entitlement_operation \<Rightarrow> unit res" where
  "validate_entitlement_operation op = (case op of
      OpReconcile i \<Rightarrow> validate_reconcile_entitlement i
    | OpCancel i \<Rightarrow>
        rbind (validate_entitlement_identity (ci_tenant_external_id i) ''tenant_external_id'') (\<lambda>_.
        rbind (validate_entitlement_identity (ci_provider i) ''provider'') (\<lambda>_.
        rbind (validate_entitlement_identity (ci_external_subscription_id i) ''external_subscription_id'') (\<lambda>_.
        rbind (case ci_external_cycle_id i of None \<Rightarrow> Inr ()
               | Some c \<Rightarrow> validate_entitlement_identity c ''external_cycle_id'') (\<lambda>_.
        ensure (source_ok (ci_version i) (ci_source i))
          (BadRequest ''cancellation requires a positive version and valid source'')))))
    | OpReplace i \<Rightarrow>
        rbind (validate_entitlement_identity (pi_tenant_external_id i) ''tenant_external_id'') (\<lambda>_.
        rbind (validate_entitlement_identity (pi_provider i) ''provider'') (\<lambda>_.
        rbind (validate_entitlement_identity (pi_external_subscription_id i) ''external_subscription_id'') (\<lambda>_.
        rbind (ensure (source_ok (pi_version i) (pi_source i))
          (BadRequest ''replacement requires a positive version and valid source'')) (\<lambda>_.
        validate_reconcile_entitlement (pi_replacement i))))))"

text \<open>
  The JSON library and the digest: a note parses (else \<open>None\<close>) and prints again (else
  \<open>Some None\<close>); a response prints and parses.
\<close>

record ent_codecs =
  ec_normalize :: "string \<Rightarrow> string option option"
  ec_digest :: "entitlement_operation \<Rightarrow> string option"
  ec_print :: "entitlement_result \<Rightarrow> string option"
  ec_parse :: "string \<Rightarrow> entitlement_result option"

definition canonicalize :: "ent_codecs \<Rightarrow> reconcile_entitlement_input \<Rightarrow> reconcile_entitlement_input res" where
  "canonicalize ec i = (case ri_proration_json i of
      None \<Rightarrow> Inr i
    | Some raw \<Rightarrow>
        rbind (ok_or (ec_normalize ec raw) (BadRequest ''proration metadata must be valid JSON'')) (\<lambda>printed.
        rbind (ok_or printed (internal ''entitlements_canonicalize_1'')) (\<lambda>t.
        Inr (i\<lparr>ri_proration_json := Some t\<rparr>))))"

definition canonicalize_entitlement_operation :: "ent_codecs \<Rightarrow> entitlement_operation \<Rightarrow> entitlement_operation res" where
  "canonicalize_entitlement_operation ec op = (case op of
      OpReconcile i \<Rightarrow> rbind (canonicalize ec i) (\<lambda>i. Inr (OpReconcile i))
    | OpCancel i \<Rightarrow> Inr (OpCancel i)
    | OpReplace i \<Rightarrow> rbind (canonicalize ec (pi_replacement i)) (\<lambda>r. Inr (OpReplace (i\<lparr>pi_replacement := r\<rparr>))))"


subsection \<open>Rows\<close>

definition find_subscription ::
  "billing_db \<Rightarrow> uuid \<Rightarrow> string \<Rightarrow> string \<Rightarrow> (uuid \<times> entitlement) option" where
  "find_subscription db tenant provider external =
     find (\<lambda>(_, e). en_tenant_id e = tenant \<and> en_provider e = provider \<and> en_external_subscription_id e = external)
       (subscription_entitlements db)"

definition find_cycle :: "billing_db \<Rightarrow> uuid \<Rightarrow> string \<Rightarrow> (uuid \<times> cycle) option" where
  "find_cycle db eid external =
     find (\<lambda>(_, c). cy_entitlement_id c = eid \<and> cy_external_cycle_id c = external) (entitlement_cycles db)"

text \<open>Inserts under the primary key and the unique identity of a subscription or cycle.\<close>

definition insert_subscription :: "billing_db \<Rightarrow> uuid \<Rightarrow> entitlement \<Rightarrow> billing_db res" where
  "insert_subscription db eid e =
     rbind (ensure (find_subscription db (en_tenant_id e) (en_provider e) (en_external_subscription_id e) = None)
       (db_error ''database'')) (\<lambda>_.
     rbind (sql_insert eid e (subscription_entitlements db)) (\<lambda>t.
     Inr (db\<lparr>subscription_entitlements := t\<rparr>)))"

definition insert_cycle :: "billing_db \<Rightarrow> uuid \<Rightarrow> cycle \<Rightarrow> billing_db res" where
  "insert_cycle db cid c =
     rbind (ensure (find_cycle db (cy_entitlement_id c) (cy_external_cycle_id c) = None) (db_error ''database'')) (\<lambda>_.
     rbind (sql_insert cid c (entitlement_cycles db)) (\<lambda>t.
     Inr (db\<lparr>entitlement_cycles := t\<rparr>)))"

definition new_subscription :: "uuid \<Rightarrow> reconcile_entitlement_input \<Rightarrow> uuid option \<Rightarrow> int \<Rightarrow> entitlement" where
  "new_subscription tenant i current now =
     \<lparr>en_tenant_id = tenant, en_account_id = ri_account_id i, en_provider = ri_provider i,
      en_external_subscription_id = ri_external_subscription_id i, en_status = SubActive, en_version = ri_version i,
      en_current_cycle_id = current, en_replaced_by = None, en_created_at = now, en_updated_at = now\<rparr>"

definition new_cycle :: "uuid \<Rightarrow> reconcile_entitlement_input \<Rightarrow> int \<Rightarrow> cycle" where
  "new_cycle eid i now =
     \<lparr>cy_entitlement_id = eid, cy_external_cycle_id = ri_external_cycle_id i, cy_period_start = ri_period_start i,
      cy_period_end = ri_period_end i, cy_currency = currency_uppercase (ri_currency i), cy_desired = 0, cy_funded = 0,
      cy_consumed = 0, cy_status = CycleActive, cy_proration = ri_proration_json i, cy_created_at = now,
      cy_updated_at = now\<rparr>"

text \<open>The account must belong to the tenant; the lock itself changes nothing.\<close>

definition lock_entitlement_account :: "billing_db \<Rightarrow> uuid \<Rightarrow> uuid \<Rightarrow> string option \<Rightarrow> string res" where
  "lock_entitlement_account db a tenant currency =
     rbind (ok_or (case tget (credit_accounts db) a of
         None \<Rightarrow> None | Some acct \<Rightarrow> if ca_tenant_id acct = tenant then Some acct else None) Forbidden) (\<lambda>acct.
     rbind (ensure (case currency of None \<Rightarrow> True | Some v \<Rightarrow> eq_ignore_ascii_case (ca_currency acct) v)
       (Conflict ''entitlement currency does not match the stable credit account'')) (\<lambda>_.
     Inr (ca_currency acct)))"

definition view_of :: "uuid \<Rightarrow> entitlement \<Rightarrow> string \<Rightarrow> uuid \<Rightarrow> cycle \<Rightarrow> entitlement_view" where
  "view_of eid e tenant cid c =
     \<lparr>vw_entitlement_id = eid, vw_cycle_id = cid, vw_tenant_external_id = tenant, vw_account_id = en_account_id e,
      vw_provider = en_provider e, vw_external_subscription_id = en_external_subscription_id e,
      vw_external_cycle_id = cy_external_cycle_id c, vw_period_start = cy_period_start c, vw_period_end = cy_period_end c,
      vw_currency = cy_currency c, vw_desired = micros_to_decimal_string (cy_desired c),
      vw_consumed = micros_to_decimal_string (cy_consumed c),
      vw_remaining = micros_to_decimal_string (max (sat (cy_funded c - cy_consumed c)) 0),
      vw_status = en_status e, vw_version = en_version e, vw_replaced_by = en_replaced_by e,
      vw_created_at = en_created_at e, vw_updated_at = en_updated_at e\<rparr>"

text \<open>The join of a subscription with its tenant and its current cycle.\<close>

definition entitlement_result_view :: "(uuid, string) table \<Rightarrow> billing_db \<Rightarrow> uuid \<Rightarrow> entitlement_view res" where
  "entitlement_result_view tenants db eid =
     ok_or (Option.bind (tget (subscription_entitlements db) eid) (\<lambda>e.
            Option.bind (tget tenants (en_tenant_id e)) (\<lambda>tenant.
            Option.bind (en_current_cycle_id e) (\<lambda>cid.
            map_option (view_of eid e tenant cid) (tget (entitlement_cycles db) cid))))) NotFound"

subsection \<open>Funding a cycle\<close>

definition cycle_funding_entry :: "uuid \<Rightarrow> uuid \<Rightarrow> int \<Rightarrow> string \<Rightarrow> string \<Rightarrow> uuid \<Rightarrow> int \<Rightarrow> ledger_entry" where
  "cycle_funding_entry a cid delta currency source rec now =
     \<lparr>le_account_id = a, le_key_id = None, le_kind = EntitlementAdjustment, le_amount = delta, le_currency = currency,
      le_source = source, le_idempotency_key = Some (''entitlement:'' @ rec @ '':'' @ cid), le_reference_entry_id = None,
      le_entitlement_cycle_id = Some cid, le_created_at = now, le_usage_snapshot = None\<rparr>"

definition move_credit :: "billing_db \<Rightarrow> uuid \<Rightarrow> int \<Rightarrow> int \<Rightarrow> billing_db res" where
  "move_credit db a delta now =
     rbind (ok_or (case tget (credit_accounts db) a of
         None \<Rightarrow> None
       | Some acct \<Rightarrow> if delta < 0 \<and> ca_available acct < sat \<bar>delta\<bar> then None else Some acct)
       (Conflict ''entitlement remaining credit is no longer revocable'')) (\<lambda>acct.
     rbind (sql_int (ca_available acct + delta)) (\<lambda>available.
     Inr (db\<lparr>credit_accounts := tput a (acct\<lparr>ca_available := available, ca_updated_at := now\<rparr>) (credit_accounts db)\<rparr>)))"

definition cycle_target :: "bool \<Rightarrow> int \<Rightarrow> cycle \<Rightarrow> int" where
  "cycle_target revoke desired c = (if revoke then cy_consumed c else max desired (cy_consumed c))"

definition adjusted_cycle :: "cycle \<Rightarrow> int \<Rightarrow> int \<Rightarrow> cycle_status \<Rightarrow> string option \<Rightarrow> int \<Rightarrow> cycle" where
  "adjusted_cycle c desired target status proration now = c\<lparr>cy_desired := desired, cy_funded := target,
     cy_status := status, cy_proration := proration, cy_updated_at := now\<rparr>"

definition record_funding ::
  "billing_db \<Rightarrow> uuid \<Rightarrow> uuid \<Rightarrow> int \<Rightarrow> string \<Rightarrow> string \<Rightarrow> uuid \<Rightarrow> int \<Rightarrow> uuid \<Rightarrow> billing_db res" where
  "record_funding db a cid delta currency source rec now lid =
     (if delta = 0 then Inr db
      else rbind (ledger_insert lid (cycle_funding_entry a cid delta currency source rec now) (ledger_entries db))
             (\<lambda>entries. Inr (db\<lparr>ledger_entries := entries\<rparr>)))"

definition adjust_entitlement_cycle ::
  "billing_db \<Rightarrow> uuid \<Rightarrow> uuid \<Rightarrow> int \<Rightarrow> cycle_status \<Rightarrow> bool \<Rightarrow> string option \<Rightarrow> string \<Rightarrow> uuid \<Rightarrow> int \<Rightarrow> uuid \<Rightarrow>
   (billing_db \<times> int) res" where
  "adjust_entitlement_cycle db a cid desired status revoke proration source rec now lid =
     rbind (ok_or (tget (entitlement_cycles db) cid) NotFound) (\<lambda>c.
     let target = cycle_target revoke desired c; delta = sat (target - cy_funded c) in
     rbind (move_credit db a delta now) (\<lambda>db.
     rbind (record_funding (db\<lparr>entitlement_cycles :=
              tput cid (adjusted_cycle c desired target status proration now) (entitlement_cycles db)\<rparr>)
              a cid delta (cy_currency c) source rec now lid) (\<lambda>db.
     Inr (db, delta))))"

subsection \<open>Snapshots\<close>

definition version_text :: "int \<Rightarrow> string" where
  "version_text v = (if v < 0 then ''-'' @ nat_digits (nat (- v)) else nat_digits (nat v))"

definition find_or_create_subscription ::
  "billing_db \<Rightarrow> uuid \<Rightarrow> reconcile_entitlement_input \<Rightarrow> int \<Rightarrow> uuid \<Rightarrow> (billing_db \<times> uuid) res" where
  "find_or_create_subscription db tenant i now eid =
     (case find_subscription db tenant (ri_provider i) (ri_external_subscription_id i) of
        Some (existing, e) \<Rightarrow>
          rbind (ensure (en_account_id e = ri_account_id i)
            (Conflict ''a stable subscription cannot be moved to another credit account; use replace'')) (\<lambda>_.
          rbind (ensure (en_status e \<noteq> SubReplaced)
            (Conflict ''a replaced subscription cannot be reactivated'')) (\<lambda>_.
          rbind (ensure (en_version e < ri_version i)
            (Conflict (''entitlement version must be greater than '' @ version_text (en_version e)))) (\<lambda>_.
          Inr (db, existing))))
      | None \<Rightarrow> rbind (insert_subscription db eid (new_subscription tenant i None now)) (\<lambda>db. Inr (db, eid)))"

definition find_or_create_cycle ::
  "billing_db \<Rightarrow> uuid \<Rightarrow> reconcile_entitlement_input \<Rightarrow> int \<Rightarrow> uuid \<Rightarrow> (billing_db \<times> uuid) res" where
  "find_or_create_cycle db eid i now cid =
     (case find_cycle db eid (ri_external_cycle_id i) of
        Some (existing, c) \<Rightarrow>
          rbind (ensure (\<not> (cy_period_start c \<noteq> ri_period_start i \<or> cy_period_end c \<noteq> ri_period_end i \<or>
              \<not> eq_ignore_ascii_case (cy_currency c) (ri_currency i)))
            (Conflict ''a stable billing-cycle identity cannot change period or currency'')) (\<lambda>_.
          Inr (db, existing))
      | None \<Rightarrow> rbind (insert_cycle db cid (new_cycle eid i now)) (\<lambda>db. Inr (db, cid)))"

definition stale_cycles :: "billing_db \<Rightarrow> uuid \<Rightarrow> uuid \<Rightarrow> (uuid \<times> int \<times> string option) list" where
  "stale_cycles db eid cid = map (\<lambda>(i, c). (i, cy_desired c, cy_proration c))
     (filter (\<lambda>(i, c). cy_entitlement_id c = eid \<and> i \<noteq> cid \<and> cy_active c) (entitlement_cycles db))"

fun expire_cycles ::
  "uuid \<Rightarrow> string \<Rightarrow> uuid \<Rightarrow> int \<Rightarrow> (nat \<Rightarrow> uuid) \<Rightarrow> nat \<Rightarrow> (uuid \<times> int \<times> string option) list \<Rightarrow> int \<Rightarrow> billing_db \<Rightarrow>
   (billing_db \<times> int) res" where
  "expire_cycles a source rec now lid n [] acc db = Inr (db, acc)"
| "expire_cycles a source rec now lid n ((cid, desired, proration) # xs) acc db =
     rbind (adjust_entitlement_cycle db a cid desired CycleExpired True proration source rec now (lid n)) (\<lambda>(db, delta).
     expire_cycles a source rec now lid (Suc n) xs (sat (acc + delta)) db)"

definition update_subscription ::
  "billing_db \<Rightarrow> uuid \<Rightarrow> (entitlement \<Rightarrow> entitlement) \<Rightarrow> billing_db" where
  "update_subscription db eid f = (case tget (subscription_entitlements db) eid of
      None \<Rightarrow> db
    | Some e \<Rightarrow> db\<lparr>subscription_entitlements := tput eid (f e) (subscription_entitlements db)\<rparr>)"

definition reconciled_row :: "int \<Rightarrow> uuid \<Rightarrow> int \<Rightarrow> entitlement \<Rightarrow> entitlement" where
  "reconciled_row version cid now e = e\<lparr>en_status := SubActive, en_version := version, en_current_cycle_id := Some cid,
     en_replaced_by := None, en_updated_at := now\<rparr>"

definition cancelled_row :: "int \<Rightarrow> int \<Rightarrow> entitlement \<Rightarrow> entitlement" where
  "cancelled_row version now e = e\<lparr>en_status := SubCancelled, en_version := version, en_updated_at := now\<rparr>"

definition replaced_row :: "int \<Rightarrow> uuid \<Rightarrow> int \<Rightarrow> entitlement \<Rightarrow> entitlement" where
  "replaced_row version eid now e = e\<lparr>en_status := SubReplaced, en_version := version, en_replaced_by := Some eid,
     en_updated_at := now\<rparr>"

definition reconcile_entitlement_snapshot ::
  "(uuid, string) table \<Rightarrow> billing_db \<Rightarrow> uuid \<Rightarrow> reconcile_entitlement_input \<Rightarrow> uuid \<Rightarrow> int \<Rightarrow> uuid \<Rightarrow> uuid \<Rightarrow>
   (nat \<Rightarrow> uuid) \<Rightarrow> (billing_db \<times> entitlement_result) res" where
  "reconcile_entitlement_snapshot tenants db tenant i rec now eid cid lid =
     rbind (lock_entitlement_account db (ri_account_id i) tenant (Some (ri_currency i))) (\<lambda>_.
     rbind (find_or_create_subscription db tenant i now eid) (\<lambda>(db, eid).
     rbind (find_or_create_cycle db eid i now cid) (\<lambda>(db, cid).
     rbind (expire_cycles (ri_account_id i) (ri_source i) rec now lid 1 (stale_cycles db eid cid) 0 db) (\<lambda>(db, stale).
     rbind (adjust_entitlement_cycle db (ri_account_id i) cid (ri_desired_micros i) CycleActive False
              (ri_proration_json i) (ri_source i) rec now (lid 0)) (\<lambda>(db, delta).
     let db = update_subscription db eid (reconciled_row (ri_version i) cid now) in
     rbind (entitlement_result_view tenants db eid) (\<lambda>view.
     Inr (db, \<lparr>er_entitlement = view, er_ledger_delta = micros_to_decimal_string (sat (stale + delta)),
               er_replaced = None\<rparr>)))))))"

definition cancel_entitlement_snapshot ::
  "(uuid, string) table \<Rightarrow> billing_db \<Rightarrow> uuid \<Rightarrow> cancel_entitlement_input \<Rightarrow> uuid \<Rightarrow> int \<Rightarrow> uuid \<Rightarrow>
   (billing_db \<times> entitlement_result) res" where
  "cancel_entitlement_snapshot tenants db tenant i rec now lid =
     rbind (ok_or (find_subscription db tenant (ci_provider i) (ci_external_subscription_id i)) NotFound) (\<lambda>(eid, e).
     rbind (lock_entitlement_account db (en_account_id e) tenant None) (\<lambda>_.
     rbind (ok_or (en_current_cycle_id e) (db_error ''column_decode'')) (\<lambda>cid.
     rbind (ensure (\<not> (en_status e = SubReplaced \<or> ci_version i \<le> en_version e))
       (Conflict (''cancellation version must be greater than '' @ version_text (en_version e)))) (\<lambda>_.
     rbind (ok_or (tget (entitlement_cycles db) cid) (db_error ''row_not_found'')) (\<lambda>c.
     rbind (ensure (case ci_external_cycle_id i of None \<Rightarrow> True | Some expected \<Rightarrow> expected = cy_external_cycle_id c)
       (Conflict ''cancellation billing-cycle identity is stale'')) (\<lambda>_.
     rbind (adjust_entitlement_cycle db (en_account_id e) cid (cy_desired c) CycleCancelled True (cy_proration c)
              (ci_source i) rec now lid) (\<lambda>(db, delta).
     let db = update_subscription db eid (cancelled_row (ci_version i) now) in
     rbind (entitlement_result_view tenants db eid) (\<lambda>view.
     Inr (db, \<lparr>er_entitlement = view, er_ledger_delta = micros_to_decimal_string delta, er_replaced = None\<rparr>)))))))))"

definition replace_guards :: "billing_db \<Rightarrow> uuid \<Rightarrow> replace_entitlement_input \<Rightarrow> entitlement \<Rightarrow> unit res" where
  "replace_guards db tenant i e =
     rbind (ensure (\<not> (en_status e = SubReplaced \<or> pi_version i \<le> en_version e))
       (Conflict (''replacement version must be greater than '' @ version_text (en_version e)))) (\<lambda>_.
     rbind (ensure (\<not> (ri_tenant_external_id (pi_replacement i) \<noteq> pi_tenant_external_id i \<or>
         ri_account_id (pi_replacement i) \<noteq> en_account_id e))
       (Conflict ''replacement must retain the tenant and stable credit account'')) (\<lambda>_.
     rbind (ensure (\<not> (ri_provider (pi_replacement i) = pi_provider i \<and>
         ri_external_subscription_id (pi_replacement i) = pi_external_subscription_id i))
       (Conflict ''replacement subscription identity must be different'')) (\<lambda>_.
     ensure (find_subscription db tenant (ri_provider (pi_replacement i))
         (ri_external_subscription_id (pi_replacement i)) = None)
       (Conflict ''replacement subscription identity already exists''))))"

definition replace_entitlement_snapshot ::
  "(uuid, string) table \<Rightarrow> billing_db \<Rightarrow> uuid \<Rightarrow> replace_entitlement_input \<Rightarrow> uuid \<Rightarrow> int \<Rightarrow> uuid \<Rightarrow> uuid \<Rightarrow>
   (nat \<Rightarrow> uuid) \<Rightarrow> (billing_db \<times> entitlement_result) res" where
  "replace_entitlement_snapshot tenants db tenant i rec now eid cid lid =
     rbind (ok_or (find_subscription db tenant (pi_provider i) (pi_external_subscription_id i)) NotFound) (\<lambda>(old, e).
     rbind (lock_entitlement_account db (en_account_id e) tenant (Some (ri_currency (pi_replacement i)))) (\<lambda>_.
     rbind (ok_or (en_current_cycle_id e) (db_error ''column_decode'')) (\<lambda>old_cid.
     rbind (replace_guards db tenant i e) (\<lambda>_.
     rbind (ok_or (tget (entitlement_cycles db) old_cid) (db_error ''row_not_found'')) (\<lambda>c.
     rbind (adjust_entitlement_cycle db (en_account_id e) old_cid (cy_desired c) CycleReplaced True (cy_proration c)
              (pi_source i) rec now (lid 1)) (\<lambda>(db, revoked).
     rbind (insert_subscription db eid ((new_subscription tenant (pi_replacement i) (Some cid) now)
              \<lparr>en_account_id := en_account_id e\<rparr>)) (\<lambda>db.
     rbind (insert_cycle db cid (new_cycle eid (pi_replacement i) now)) (\<lambda>db.
     rbind (adjust_entitlement_cycle db (en_account_id e) cid (ri_desired_micros (pi_replacement i)) CycleActive False
              (ri_proration_json (pi_replacement i)) (pi_source i) rec now (lid 0)) (\<lambda>(db, delta).
     let db = update_subscription db old (replaced_row (pi_version i) eid now) in
     rbind (entitlement_result_view tenants db eid) (\<lambda>view.
     Inr (db, \<lparr>er_entitlement = view, er_ledger_delta = micros_to_decimal_string (sat (revoked + delta)),
               er_replaced = Some old\<rparr>)))))))))))"

subsection \<open>Reconciliation\<close>

record ent_ids =
  id_rec :: uuid
  id_subscription :: uuid
  id_cycle :: uuid
  id_ledger :: "nat \<Rightarrow> uuid"

definition apply_operation ::
  "(uuid, string) table \<Rightarrow> billing_db \<Rightarrow> uuid \<Rightarrow> entitlement_operation \<Rightarrow> int \<Rightarrow> ent_ids \<Rightarrow>
   (billing_db \<times> entitlement_result) res" where
  "apply_operation tenants db tenant op now ids = (case op of
      OpReconcile i \<Rightarrow> reconcile_entitlement_snapshot tenants db tenant i (id_rec ids) now (id_subscription ids)
                         (id_cycle ids) (id_ledger ids)
    | OpCancel i \<Rightarrow> cancel_entitlement_snapshot tenants db tenant i (id_rec ids) now (id_ledger ids 0)
    | OpReplace i \<Rightarrow> replace_entitlement_snapshot tenants db tenant i (id_rec ids) now (id_subscription ids)
                       (id_cycle ids) (id_ledger ids))"

record reconciliation_row =
  rc_tenant_id :: uuid
  rc_key :: string
  rc_hash :: string
  rc_response :: string
  rc_created_at :: int

record entitlement_db =
  ed_billing :: billing_db
  ed_tenants :: "(uuid, string) table" \<comment> \<open>\<open>tenants\<close>: the external identity\<close>
  ed_reconciliations :: "(uuid, reconciliation_row) table"

definition find_reconciliation :: "entitlement_db \<Rightarrow> uuid \<Rightarrow> string \<Rightarrow> reconciliation_row option" where
  "find_reconciliation ed tenant key =
     map_option snd (find (\<lambda>(_, r). rc_tenant_id r = tenant \<and> rc_key r = key) (ed_reconciliations ed))"

definition insert_reconciliation :: "entitlement_db \<Rightarrow> uuid \<Rightarrow> reconciliation_row \<Rightarrow> entitlement_db res" where
  "insert_reconciliation ed rec r =
     rbind (ensure (find_reconciliation ed (rc_tenant_id r) (rc_key r) = None) (db_error ''database'')) (\<lambda>_.
     rbind (sql_insert rec r (ed_reconciliations ed)) (\<lambda>t. Inr (ed\<lparr>ed_reconciliations := t\<rparr>)))"

definition reconcile_entitlement_in_transaction ::
  "ent_codecs \<Rightarrow> entitlement_db \<Rightarrow> uuid \<Rightarrow> entitlement_operation \<Rightarrow> string \<Rightarrow> int \<Rightarrow> ent_ids \<Rightarrow>
   (entitlement_db \<times> entitlement_result \<times> bool) res" where
  "reconcile_entitlement_in_transaction ec ed tenant op key now ids =
     rbind (ok_or (ec_digest ec op) (internal ''entitlements_reconcile_entitlement_in_transaction_1'')) (\<lambda>hash.
     case find_reconciliation ed tenant key of
       Some r \<Rightarrow>
         rbind (ensure (rc_hash r = hash)
           (Conflict ''Idempotency-Key was already used for a different entitlement request'')) (\<lambda>_.
         rbind (ok_or (ec_parse ec (rc_response r))
           (internal ''entitlements_reconcile_entitlement_in_transaction_2'')) (\<lambda>result. Inr (ed, result, True)))
     | None \<Rightarrow>
         rbind (apply_operation (ed_tenants ed) (ed_billing ed) tenant op now ids) (\<lambda>(db, result).
         rbind (ok_or (ec_print ec result)
           (internal ''entitlements_reconcile_entitlement_in_transaction_3'')) (\<lambda>response.
         rbind (insert_reconciliation (ed\<lparr>ed_billing := db\<rparr>) (id_rec ids)
           \<lparr>rc_tenant_id = tenant, rc_key = key, rc_hash = hash, rc_response = response, rc_created_at = now\<rparr>) (\<lambda>ed.
         Inr (ed, result, False)))))"

definition reconcile_entitlement ::
  "ent_codecs \<Rightarrow> entitlement_db \<Rightarrow> entitlement_operation \<Rightarrow> string \<Rightarrow> int \<Rightarrow> ent_ids \<Rightarrow>
   (entitlement_db \<times> entitlement_result) res" where
  "reconcile_entitlement ec ed op0 key now ids =
     rbind (validate_idempotency_key key ''Idempotency-Key'') (\<lambda>_.
     rbind (canonicalize_entitlement_operation ec op0) (\<lambda>op.
     rbind (validate_entitlement_operation op) (\<lambda>_.
     rbind (ok_or (find (\<lambda>(_, external). external = op_tenant_external_id op) (ed_tenants ed)) NotFound) (\<lambda>(tenant, _).
     rbind (reconcile_entitlement_in_transaction ec ed tenant op key now ids) (\<lambda>(ed, result, _).
     Inr (ed, result))))))"

subsection \<open>The funding invariant\<close>

text \<open>
  What a cycle has been funded with is what the ledger records for it, covers what it has
  consumed, and is no more than that once the cycle is no longer active.
\<close>

definition cycle_books :: "billing_db \<Rightarrow> uuid \<Rightarrow> int" where
  "cycle_books db cid = tsum (\<lambda>_ e. if le_entitlement_cycle_id e = Some cid then le_amount e else 0) (ledger_entries db)"

definition cycle_ok :: "billing_db \<Rightarrow> uuid \<Rightarrow> cycle \<Rightarrow> bool" where
  "cycle_ok db cid c \<longleftrightarrow> 0 \<le> cy_consumed c \<and> cy_consumed c \<le> cy_funded c \<and> cy_funded c \<le> i64_max \<and>
     (cy_active c \<or> cy_funded c = cy_consumed c) \<and> cy_funded c = cycle_books db cid"

definition fund_inv :: "billing_db \<Rightarrow> bool" where
  "fund_inv db \<longleftrightarrow> billing_inv db \<and>
     (\<forall>cid c. tget (entitlement_cycles db) cid = Some c \<longrightarrow> cycle_ok db cid c) \<and>
     (\<forall>cid. tget (entitlement_cycles db) cid = None \<longrightarrow> cycle_books db cid = 0)"

lemma fund_inv_billing: "fund_inv db \<Longrightarrow> billing_inv db"
  by (simp add: fund_inv_def)

lemma fund_inv_cycle: "fund_inv db \<Longrightarrow> tget (entitlement_cycles db) cid = Some c \<Longrightarrow> cycle_ok db cid c"
  by (simp add: fund_inv_def)

lemma move_credit_Inr [res_simps]:
  "move_credit db a d now = Inr db' \<longleftrightarrow>
     (\<exists>acct. tget (credit_accounts db) a = Some acct \<and> \<not> (d < 0 \<and> ca_available acct < sat \<bar>d\<bar>) \<and>
        in_i64 (ca_available acct + d) \<and> db' = db\<lparr>credit_accounts :=
          tput a (acct\<lparr>ca_available := ca_available acct + d, ca_updated_at := now\<rparr>) (credit_accounts db)\<rparr>)"
  by (auto simp: move_credit_def rbind_Inr_iff ok_or_Inr_iff sql_int_Inr_iff split: option.splits if_splits)

lemma cycle_books_fresh:
  assumes "ledger_entries db' = tput i e (ledger_entries db)" and "tget (ledger_entries db) i = None"
  shows "cycle_books db' cid = cycle_books db cid + (if le_entitlement_cycle_id e = Some cid then le_amount e else 0)"
  using assms by (simp add: cycle_books_def tbl_simps)

lemma cycle_books_same: "ledger_entries db' = ledger_entries db \<Longrightarrow> cycle_books db' cid = cycle_books db cid"
  by (simp add: cycle_books_def)

text \<open>The inversion of an adjustment: the account, the cycle and the ledger it leaves.\<close>

lemma record_funding_Inr:
  "record_funding db a cid delta currency source rec now lid = Inr db' \<Longrightarrow>
   \<exists>entries. db' = db\<lparr>ledger_entries := entries\<rparr> \<and>
     (if delta = 0 then entries = ledger_entries db
      else tget (ledger_entries db) lid = None \<and>
        entries = tput lid (cycle_funding_entry a cid delta currency source rec now) (ledger_entries db))"
  by (auto simp: record_funding_def rbind_Inr_iff ledger_insert_Inr_iff dest: ledger_conflict_fresh
      intro: exI [of _ "ledger_entries db"] split: if_splits)

lemma adjust_stages:
  assumes "adjust_entitlement_cycle db a cid desired status revoke proration source rec now lid = Inr (db', delta)"
  obtains c c' acct entries where
    "tget (entitlement_cycles db) cid = Some c"
    "c' = adjusted_cycle c desired (cycle_target revoke desired c) status proration now"
    "delta = sat (cy_funded c' - cy_funded c)"
    "tget (credit_accounts db) a = Some acct" "\<not> (delta < 0 \<and> ca_available acct < sat \<bar>delta\<bar>)"
    "in_i64 (ca_available acct + delta)"
    "if delta = 0 then entries = ledger_entries db
     else tget (ledger_entries db) lid = None \<and>
       entries = tput lid (cycle_funding_entry a cid delta (cy_currency c) source rec now) (ledger_entries db)"
    "db' = db\<lparr>credit_accounts := tput a (acct\<lparr>ca_available := ca_available acct + delta, ca_updated_at := now\<rparr>)
         (credit_accounts db), entitlement_cycles := tput cid c' (entitlement_cycles db), ledger_entries := entries\<rparr>"
proof -
  from assms obtain c where c: "tget (entitlement_cycles db) cid = Some c"
    unfolding adjust_entitlement_cycle_def by (auto simp: rbind_Inr_iff ok_or_Inr_iff)
  define c' where "c' = adjusted_cycle c desired (cycle_target revoke desired c) status proration now"
  have tgt: "cycle_target revoke desired c = cy_funded c'" by (simp add: c'_def adjusted_cycle_def)
  have adj: "adjusted_cycle c desired (cy_funded c') status proration now = c'" by (simp add: c'_def adjusted_cycle_def)
  from assms c obtain db1 where d: "delta = sat (cy_funded c' - cy_funded c)"
    and m: "move_credit db a delta now = Inr db1"
    and r: "record_funding (db1\<lparr>entitlement_cycles := tput cid c' (entitlement_cycles db1)\<rparr>)
       a cid delta (cy_currency c) source rec now lid = Inr db'"
    unfolding adjust_entitlement_cycle_def Let_def
    by (auto simp: rbind_Inr_iff ok_or_Inr_iff tgt adj)
  from m [unfolded move_credit_Inr] obtain acct where acct: "tget (credit_accounts db) a = Some acct"
    "\<not> (delta < 0 \<and> ca_available acct < sat \<bar>delta\<bar>)" "in_i64 (ca_available acct + delta)"
    and db1: "db1 = db\<lparr>credit_accounts := tput a (acct\<lparr>ca_available := ca_available acct + delta, ca_updated_at := now\<rparr>)
      (credit_accounts db)\<rparr>" by blast
  from record_funding_Inr [OF r] obtain entries where "db' = db1\<lparr>entitlement_cycles := tput cid c' (entitlement_cycles db1),
       ledger_entries := entries\<rparr>"
    "if delta = 0 then entries = ledger_entries db1 else tget (ledger_entries db1) lid = None \<and>
       entries = tput lid (cycle_funding_entry a cid delta (cy_currency c) source rec now) (ledger_entries db1)"
    by (force split: if_splits)
  then show ?thesis
    by (intro that [OF c _ d acct, of entries]) (simp_all add: db1 c'_def split: if_splits)
qed

lemma adjust_effect:
  assumes inv: "fund_inv db" and range: "revoke \<or> desired \<le> i64_max" and kind: "revoke \<longleftrightarrow> status \<noteq> CycleActive"
    and ok: "adjust_entitlement_cycle db a cid desired status revoke proration source rec now lid = Inr (db', delta)"
  obtains c c' where "tget (entitlement_cycles db) cid = Some c"
    "c' = adjusted_cycle c desired (cycle_target revoke desired c) status proration now"
    "entitlement_cycles db' = tput cid c' (entitlement_cycles db)"
    "subscription_entitlements db' = subscription_entitlements db" "usage_reservations db' = usage_reservations db"
    "\<And>k. posts db db' a k 0 delta" "fund_inv db'" "revoke \<longrightarrow> delta \<le> 0" "delta \<le> i64_max"
proof (rule adjust_stages [OF ok])
  fix c c' :: cycle and acct :: credit_account and entries
  let ?e = "cycle_funding_entry a cid delta (cy_currency c) source rec now"
  assume c: "tget (entitlement_cycles db) cid = Some c"
    and c': "c' = adjusted_cycle c desired (cycle_target revoke desired c) status proration now"
    and d: "delta = sat (cy_funded c' - cy_funded c)"
    and acct: "tget (credit_accounts db) a = Some acct" "\<not> (delta < 0 \<and> ca_available acct < sat \<bar>delta\<bar>)"
      "in_i64 (ca_available acct + delta)"
    and entries: "if delta = 0 then entries = ledger_entries db
       else tget (ledger_entries db) lid = None \<and> entries = tput lid ?e (ledger_entries db)"
    and db': "db' = db\<lparr>credit_accounts := tput a (acct\<lparr>ca_available := ca_available acct + delta, ca_updated_at := now\<rparr>)
         (credit_accounts db), entitlement_cycles := tput cid c' (entitlement_cycles db), ledger_entries := entries\<rparr>"
  note binv = fund_inv_billing [OF inv]
  have new: "cy_consumed c' = cy_consumed c" "cy_funded c' = cycle_target revoke desired c" "cy_status c' = status"
    by (simp_all add: c' adjusted_cycle_def)
  have old: "0 \<le> cy_consumed c" "cy_consumed c \<le> cy_funded c" "cy_funded c \<le> i64_max" "cy_funded c = cycle_books db cid"
    using fund_inv_cycle [OF inv c] by (simp_all add: cycle_ok_def)
  have tgt: "cy_consumed c \<le> cy_funded c'" "cy_funded c' \<le> i64_max" "revoke \<Longrightarrow> cy_funded c' = cy_consumed c"
    using old range by (auto simp: new cycle_target_def)
  have delta: "delta = cy_funded c' - cy_funded c"
    unfolding d using old tgt by (intro sat_in_range) (simp add: in_i64_def i64_bounds)
  have low: "- i64_max \<le> delta" "delta \<le> i64_max" using old tgt by (simp_all add: delta)
  have enough: "- delta \<le> ca_available acct"
    using acct(2) low balance_ok [OF binv acct(1)] by (auto simp: amount_ok_def sat_def i64_bounds split: if_splits)
  have "posts_account db db' a 0 delta"
    using acct(3) enough by (intro posts_account_put [OF binv acct(1)], simp add: db') (simp_all add: amount_ok_def in_i64_def)
  moreover have books: "ledger_entries db' = ledger_entries db \<and> delta = 0 \<or>
      ledger_entries db' = tput lid ?e (ledger_entries db) \<and> tget (ledger_entries db) lid = None"
    using entries by (auto simp: db' split: if_splits)
  then have "posts_books db db' a delta"
    using posts_books_same [of db' db a] posts_books_fresh [of db' lid ?e db]
    by (auto simp: cycle_funding_entry_def touches_balance_def)
  moreover have "wf_tables db'" using binv books by (auto simp: frame_simps db')
  ultimately have p: "posts db db' a k 0 delta" for k
    using binv by (simp add: posts_def posts_key_same posts_holds_same db')
  have cb: "cycle_books db' x = cycle_books db x + (if x = cid then delta else 0)" for x
    using books cycle_books_same [of db' db x] cycle_books_fresh [of db' lid ?e db x]
    by (auto simp: cycle_funding_entry_def)
  have "cycle_ok db' cid c'" using old tgt kind by (auto simp: cycle_ok_def cb delta new)
  moreover have "cycle_ok db' x y" if "x \<noteq> cid" "tget (entitlement_cycles db) x = Some y" for x y
    using fund_inv_cycle [OF inv that(2)] that(1) by (auto simp: cycle_ok_def cb)
  moreover have "tget (entitlement_cycles db') x = (if x = cid then Some c' else tget (entitlement_cycles db) x)" for x
    by (simp add: db' tbl_simps)
  ultimately have f: "fund_inv db'"
    using posts_inv [OF binv p] inv c by (auto simp: fund_inv_def cb split: if_splits)
  show thesis
    by (rule that [OF c c' _ _ _ p f _ low(2)]) (use old tgt in \<open>simp_all add: db' delta\<close>)
qed

subsection \<open>The other steps\<close>

lemma fund_inv_subscriptions [simp]: "fund_inv (db\<lparr>subscription_entitlements := t\<rparr>) \<longleftrightarrow> fund_inv db"
  by (simp add: fund_inv_def inv_defs cycle_ok_def cycle_books_def)

lemma posts_subscriptions: "billing_inv db \<Longrightarrow> posts db (db\<lparr>subscription_entitlements := t\<rparr>) a k 0 0"
  by (simp add: posts_def posts_account_same posts_key_same posts_holds_same posts_books_same frame_simps)

lemma insert_subscription_Inr [res_simps]:
  "insert_subscription db eid e = Inr db' \<longleftrightarrow>
     find_subscription db (en_tenant_id e) (en_provider e) (en_external_subscription_id e) = None \<and>
     tget (subscription_entitlements db) eid = None \<and>
     db' = db\<lparr>subscription_entitlements := tput eid e (subscription_entitlements db)\<rparr>"
  by (auto simp: insert_subscription_def rbind_Inr_iff ensure_Inr_iff sql_insert_Inr_iff)

lemma insert_cycle_Inr [res_simps]:
  "insert_cycle db cid c = Inr db' \<longleftrightarrow>
     find_cycle db (cy_entitlement_id c) (cy_external_cycle_id c) = None \<and> tget (entitlement_cycles db) cid = None \<and>
     db' = db\<lparr>entitlement_cycles := tput cid c (entitlement_cycles db)\<rparr>"
  by (auto simp: insert_cycle_def rbind_Inr_iff ensure_Inr_iff sql_insert_Inr_iff)

lemma insert_cycle_effect:
  assumes "fund_inv db" and "tget (entitlement_cycles db) cid = None"
    and "db' = db\<lparr>entitlement_cycles := tput cid (new_cycle eid i now) (entitlement_cycles db)\<rparr>"
  shows "fund_inv db' \<and> posts db db' a k 0 0"
proof -
  note binv = fund_inv_billing [OF assms(1)]
  have p: "posts db db' a k 0 0" for a k
    using binv by (simp add: posts_def posts_account_same posts_key_same posts_holds_same posts_books_same frame_simps assms(3))
  have cb: "cycle_books db' x = cycle_books db x" for x by (simp add: cycle_books_def assms(3))
  have "cycle_ok db' cid (new_cycle eid i now)"
    using assms(1,2) by (simp add: cycle_ok_def cb new_cycle_def fund_inv_def i64_bounds)
  moreover have "cycle_ok db' x y" if "tget (entitlement_cycles db) x = Some y" for x y
    using fund_inv_cycle [OF assms(1) that] by (auto simp: cycle_ok_def cb)
  moreover have "tget (entitlement_cycles db') x = (if x = cid then Some (new_cycle eid i now) else tget (entitlement_cycles db) x)" for x
    by (simp add: assms(3) tbl_simps)
  ultimately have "fund_inv db'"
    using posts_inv [OF binv p] assms(1) by (auto simp: fund_inv_def cb split: if_splits)
  then show ?thesis using p by blast
qed

text \<open>What never changes about a cycle: its identity and what it has consumed.\<close>

definition same_cycle :: "cycle \<Rightarrow> cycle \<Rightarrow> bool" where
  "same_cycle c c' \<longleftrightarrow> cy_entitlement_id c' = cy_entitlement_id c \<and> cy_external_cycle_id c' = cy_external_cycle_id c \<and>
     cy_consumed c' = cy_consumed c"

lemma same_cycle_adjusted [simp]: "same_cycle c (adjusted_cycle c desired target status proration now)"
  by (simp add: same_cycle_def adjusted_cycle_def)

lemma same_cycle_refl [simp]: "same_cycle c c"
  by (simp add: same_cycle_def)

lemma same_cycle_trans: "same_cycle c c1 \<Longrightarrow> same_cycle c1 c2 \<Longrightarrow> same_cycle c c2"
  by (simp add: same_cycle_def)

definition cycles_kept :: "billing_db \<Rightarrow> billing_db \<Rightarrow> bool" where
  "cycles_kept db db' \<longleftrightarrow> (\<forall>x c'. tget (entitlement_cycles db') x = Some c' \<longrightarrow>
     (\<exists>c. tget (entitlement_cycles db) x = Some c \<and> same_cycle c c'))"

lemma cycles_kept_trans: "cycles_kept db db1 \<Longrightarrow> cycles_kept db1 db2 \<Longrightarrow> cycles_kept db db2"
  unfolding cycles_kept_def by (meson same_cycle_trans)

lemma cycles_kept_tput:
  "tget (entitlement_cycles db) x = Some c \<Longrightarrow> same_cycle c c' \<Longrightarrow>
   entitlement_cycles db' = tput x c' (entitlement_cycles db) \<Longrightarrow> cycles_kept db db'"
  by (auto simp: cycles_kept_def tbl_simps)

lemma posts_balance:
  assumes "posts db db' a k hold book" and "tget (credit_accounts db) a = Some acct"
  obtains acct' where "tget (credit_accounts db') a = Some acct'" "ca_available acct' = ca_available acct + book - hold"
    "amount_ok (ca_available acct')"
proof -
  from assms have "tget (credit_accounts db') a \<noteq> None" by (simp add: posts_def posts_account_def)
  then obtain acct' where "tget (credit_accounts db') a = Some acct'" by blast
  with assms show thesis unfolding posts_def posts_account_def by (force intro: that)
qed

lemma expire_cycles_effect:
  assumes "expire_cycles a source rec now lid n xs acc db = Inr (db', acc')" and "fund_inv db"
    and "tget (credit_accounts db) a = Some acct" and "acc \<le> 0" and "- i64_max \<le> acc - ca_available acct"
  shows "fund_inv db' \<and> (\<forall>k. posts db db' a k 0 (acc' - acc)) \<and> acc' \<le> 0 \<and> cycles_kept db db' \<and>
    subscription_entitlements db' = subscription_entitlements db \<and> usage_reservations db' = usage_reservations db \<and>
    (\<forall>x. x \<notin> fst ` set xs \<longrightarrow> tget (entitlement_cycles db') x = tget (entitlement_cycles db) x) \<and>
    (\<forall>x \<in> fst ` set xs. \<exists>c'. tget (entitlement_cycles db') x = Some c' \<and> \<not> cy_active c')"
  using assms
proof (induction xs arbitrary: n acc db acct)
  case Nil
  then have "db' = db" "acc' = acc" by auto
  with Nil(2,4) show ?case
    by (auto simp: cycles_kept_def posts_def posts_account_same posts_key_same posts_holds_same posts_books_same
        frame_simps fund_inv_billing dest: fund_inv_billing)
next
  case (Cons q xs)
  obtain cid desired proration where q: "q = (cid, desired, proration)" by (cases q)
  from Cons.prems(1) obtain db1 delta where
    one: "adjust_entitlement_cycle db a cid desired CycleExpired True proration source rec now (lid n) = Inr (db1, delta)"
    and rest: "expire_cycles a source rec now lid (Suc n) xs (sat (acc + delta)) db1 = Inr (db', acc')"
    by (auto simp: q rbind_Inr_iff)
  show ?case
  proof (rule adjust_effect [OF Cons.prems(2) _ _ one])
    fix c c'
    assume c: "tget (entitlement_cycles db) cid = Some c"
      and c': "c' = adjusted_cycle c desired (cycle_target True desired c) CycleExpired proration now"
      and cy: "entitlement_cycles db1 = tput cid c' (entitlement_cycles db)"
      and fr: "subscription_entitlements db1 = subscription_entitlements db" "usage_reservations db1 = usage_reservations db"
      and p: "\<And>k. posts db db1 a k 0 delta" and f: "fund_inv db1" and neg: "True \<longrightarrow> delta \<le> 0"
    obtain acct1 where acct1: "tget (credit_accounts db1) a = Some acct1" "ca_available acct1 = ca_available acct + delta"
      "amount_ok (ca_available acct1)" using posts_balance [OF p Cons.prems(3)] by (metis diff_zero)
    have acc: "sat (acc + delta) = acc + delta"
      by (rule sat_in_range) (use acct1 neg Cons.prems(4,5) in \<open>auto simp: in_i64_def i64_bounds amount_ok_def\<close>)
    have IH: "fund_inv db' \<and> (\<forall>k. posts db1 db' a k 0 (acc' - (acc + delta))) \<and> acc' \<le> 0 \<and> cycles_kept db1 db' \<and>
      subscription_entitlements db' = subscription_entitlements db1 \<and> usage_reservations db' = usage_reservations db1 \<and>
      (\<forall>x. x \<notin> fst ` set xs \<longrightarrow> tget (entitlement_cycles db') x = tget (entitlement_cycles db1) x) \<and>
      (\<forall>x \<in> fst ` set xs. \<exists>c'. tget (entitlement_cycles db') x = Some c' \<and> \<not> cy_active c')"
      by (rule Cons.IH [OF rest [unfolded acc] f acct1(1)]) (use acct1 neg Cons.prems(4,5) in auto)
    have "cycles_kept db db1" by (rule cycles_kept_tput [OF c _ cy]) (simp add: c')
    then have kept: "cycles_kept db db'" using IH by (blast intro: cycles_kept_trans)
    have "posts db db' a k (0 + 0) (delta + (acc' - (acc + delta)))" for k using posts_trans [OF p] IH by blast
    then have "posts db db' a k 0 (acc' - acc)" for k by simp
    moreover have "\<exists>c'. tget (entitlement_cycles db') cid = Some c' \<and> \<not> cy_active c'"
      using IH cy by (cases "cid \<in> fst ` set xs") (auto simp: tbl_simps c' adjusted_cycle_def)
    ultimately show ?thesis using IH kept fr cy by (auto simp: q tbl_simps)
  qed auto
qed

subsection \<open>The invariant of subscriptions\<close>

text \<open>At most the current cycle of an active subscription is active.\<close>

definition current_inv :: "billing_db \<Rightarrow> bool" where
  "current_inv db \<longleftrightarrow> wf_table (subscription_entitlements db) \<and>
     (\<forall>cid c. tget (entitlement_cycles db) cid = Some c \<longrightarrow> cy_active c \<longrightarrow>
        (\<exists>e. tget (subscription_entitlements db) (cy_entitlement_id c) = Some e \<and> en_active e \<and>
           en_current_cycle_id e = Some cid))"

definition ent_inv :: "billing_db \<Rightarrow> bool" where
  "ent_inv db \<longleftrightarrow> fund_inv db \<and> current_inv db"

lemma find_subscription_Some:
  assumes "find_subscription db tenant provider external = Some (eid, e)" and "wf_table (subscription_entitlements db)"
  shows "tget (subscription_entitlements db) eid = Some e \<and> en_tenant_id e = tenant \<and> en_provider e = provider \<and>
    en_external_subscription_id e = external"
proof -
  have "(eid, e) \<in> set (subscription_entitlements db)" "en_tenant_id e = tenant" "en_provider e = provider"
    "en_external_subscription_id e = external"
    using assms(1) by (auto simp: find_subscription_def find_Some_iff) (metis nth_mem)
  then show ?thesis using assms(2) by (simp add: trows_tget trows_def)
qed

lemma find_cycle_Some:
  assumes "find_cycle db eid external = Some (cid, c)" and "wf_table (entitlement_cycles db)"
  shows "tget (entitlement_cycles db) cid = Some c \<and> cy_entitlement_id c = eid \<and> cy_external_cycle_id c = external"
proof -
  have "(cid, c) \<in> set (entitlement_cycles db)" "cy_entitlement_id c = eid" "cy_external_cycle_id c = external"
    using assms(1) by (auto simp: find_cycle_def find_Some_iff) (metis nth_mem)
  then show ?thesis using assms(2) by (simp add: trows_tget trows_def)
qed

lemma stale_cycles_iff:
  assumes "wf_table (entitlement_cycles db)"
  shows "x \<in> fst ` set (stale_cycles db eid cid) \<longleftrightarrow>
    (\<exists>c. tget (entitlement_cycles db) x = Some c \<and> cy_entitlement_id c = eid \<and> x \<noteq> cid \<and> cy_active c)"
proof -
  have "(x, c) \<in> set (entitlement_cycles db) \<longleftrightarrow> tget (entitlement_cycles db) x = Some c" for c
    using assms trows_tget tget_in_trows by (fastforce simp: trows_def)
  then show ?thesis by (force simp: stale_cycles_def)
qed

lemma fund_inv_wf: "fund_inv db \<Longrightarrow> wf_table (entitlement_cycles db)"
  by (simp add: fund_inv_def billing_inv_def wf_tables_def)

lemma update_subscription_Some:
  "tget (subscription_entitlements db) eid = Some e \<Longrightarrow>
   update_subscription db eid f = db\<lparr>subscription_entitlements := tput eid (f e) (subscription_entitlements db)\<rparr>"
  by (simp add: update_subscription_def)

text \<open>The subscription a reconciliation works on: created, or found unreplaced with a smaller version.\<close>

lemma find_or_create_subscription_Inr:
  assumes "find_or_create_subscription db tenant i now eid0 = Inr (db', eid)" and "ent_inv db"
  obtains e t where "db' = db\<lparr>subscription_entitlements := t\<rparr>" "wf_table t" "tget t eid = Some e"
    "en_account_id e = ri_account_id i" "en_tenant_id e = tenant" "en_provider e = ri_provider i"
    "en_external_subscription_id e = ri_external_subscription_id i"
    "tget (subscription_entitlements db) eid = None \<or>
     tget (subscription_entitlements db) eid = Some e \<and> en_status e \<noteq> SubReplaced \<and> en_version e < ri_version i"
    "\<And>x. x \<noteq> eid \<Longrightarrow> tget t x = tget (subscription_entitlements db) x"
proof -
  have wf: "wf_table (subscription_entitlements db)" using assms(2) by (simp add: ent_inv_def current_inv_def)
  show thesis
  proof (cases "find_subscription db tenant (ri_provider i) (ri_external_subscription_id i)")
    case None
    then show thesis using assms(1) wf
      by (intro that [of "subscription_entitlements db'" "new_subscription tenant i None now"])
         (auto simp: find_or_create_subscription_def rbind_Inr_iff insert_subscription_Inr tbl_simps new_subscription_def)
  next
    case (Some q)
    obtain old e where q: "q = (old, e)" by (cases q)
    note f = find_subscription_Some [OF Some [unfolded q] wf]
    have "db' = db" "eid = old" "en_account_id e = ri_account_id i" "en_status e \<noteq> SubReplaced" "en_version e < ri_version i"
      using assms(1) Some q by (auto simp: find_or_create_subscription_def rbind_Inr_iff ensure_Inr_iff)
    then show thesis using f wf by (intro that [of "subscription_entitlements db" e]) auto
  qed
qed

lemma find_or_create_cycle_Inr:
  assumes "find_or_create_cycle db eid i now cid0 = Inr (db', cid)" and inv: "fund_inv db"
  obtains c t where "db' = db\<lparr>entitlement_cycles := t\<rparr>" "tget t cid = Some c" "cy_entitlement_id c = eid"
    "cy_external_cycle_id c = ri_external_cycle_id i"
    "tget (entitlement_cycles db) cid = None \<and> cy_consumed c = 0 \<or> tget (entitlement_cycles db) cid = Some c"
    "\<And>x. x \<noteq> cid \<Longrightarrow> tget t x = tget (entitlement_cycles db) x"
    "fund_inv db'" "\<And>a k. posts db db' a k 0 0"
proof (cases "find_cycle db eid (ri_external_cycle_id i)")
  case None
  then have new: "tget (entitlement_cycles db) cid = None"
    "db' = db\<lparr>entitlement_cycles := tput cid (new_cycle eid i now) (entitlement_cycles db)\<rparr>"
    using assms(1) by (auto simp: find_or_create_cycle_def rbind_Inr_iff insert_cycle_Inr)
  show thesis
    using new insert_cycle_effect [OF inv new]
    by (intro that [of "tput cid (new_cycle eid i now) (entitlement_cycles db)" "new_cycle eid i now"])
       (auto simp: tbl_simps new_cycle_def)
next
  case (Some q)
  obtain old c where q: "q = (old, c)" by (cases q)
  note f = find_cycle_Some [OF Some [unfolded q] fund_inv_wf [OF inv]]
  have same: "db' = db" "cid = old"
    using assms(1) Some q by (auto simp: find_or_create_cycle_def rbind_Inr_iff ensure_Inr_iff)
  have "posts db db a k 0 0" for a k
    using fund_inv_billing [OF inv]
    by (simp add: posts_def posts_account_same posts_key_same posts_holds_same posts_books_same billing_inv_def)
  then show thesis using f same inv by (intro that [of "entitlement_cycles db" c]) auto
qed

text \<open>
  How a subscription may change: only to a greater version, never once it is replaced, and
  never its tenant, account or identity.
\<close>

definition subscriptions_advance :: "billing_db \<Rightarrow> billing_db \<Rightarrow> bool" where
  "subscriptions_advance db db' \<longleftrightarrow> (\<forall>x e. tget (subscription_entitlements db) x = Some e \<longrightarrow>
     (\<exists>e'. tget (subscription_entitlements db') x = Some e' \<and>
        (e' = e \<or> en_version e < en_version e' \<and> en_status e \<noteq> SubReplaced \<and> en_tenant_id e' = en_tenant_id e \<and>
           en_account_id e' = en_account_id e \<and> en_provider e' = en_provider e \<and>
           en_external_subscription_id e' = en_external_subscription_id e)))"

lemma entitlement_result_view_Inr:
  "entitlement_result_view tenants db eid = Inr v \<Longrightarrow>
   \<exists>e cid c. tget (subscription_entitlements db) eid = Some e \<and> en_current_cycle_id e = Some cid \<and>
     tget (entitlement_cycles db) cid = Some c \<and> vw_entitlement_id v = eid \<and> vw_account_id v = en_account_id e"
  by (auto simp: entitlement_result_view_def ok_or_Inr_iff view_of_def split: bind_splits option.splits)

lemma lock_entitlement_account_Inr:
  "lock_entitlement_account db a tenant currency = Inr x \<Longrightarrow>
   \<exists>acct. tget (credit_accounts db) a = Some acct \<and> ca_tenant_id acct = tenant"
  by (auto simp: lock_entitlement_account_def rbind_Inr_iff ok_or_Inr_iff split: option.splits if_splits)

lemma current_inv_reconciled:
  assumes inv: "current_inv db"
    and subs: "wf_table (subscription_entitlements db')"
      "tget (subscription_entitlements db') eid = Some e" "en_active e" "en_current_cycle_id e = Some cid"
      "\<And>x. x \<noteq> eid \<Longrightarrow> tget (subscription_entitlements db') x = tget (subscription_entitlements db) x"
    and cycles: "\<And>x c'. x \<noteq> cid \<Longrightarrow> tget (entitlement_cycles db') x = Some c' \<Longrightarrow> cy_active c' \<Longrightarrow>
        cy_entitlement_id c' \<noteq> eid \<and> (\<exists>c. tget (entitlement_cycles db) x = Some c \<and> cy_active c \<and>
          cy_entitlement_id c = cy_entitlement_id c')"
      "tget (entitlement_cycles db') cid = Some c" "cy_entitlement_id c = eid"
  shows "current_inv db'"
  unfolding current_inv_def
proof (intro conjI allI impI subs(1))
  fix x c' assume x: "tget (entitlement_cycles db') x = Some c'" "cy_active c'"
  show "\<exists>e. tget (subscription_entitlements db') (cy_entitlement_id c') = Some e \<and> en_active e \<and> en_current_cycle_id e = Some x"
  proof (cases "x = cid")
    case True
    then show ?thesis using x subs cycles by auto
  next
    case False
    from cycles(1) [OF this x] inv obtain e where "cy_entitlement_id c' \<noteq> eid"
      "tget (subscription_entitlements db) (cy_entitlement_id c') = Some e" "en_active e" "en_current_cycle_id e = Some x"
      unfolding current_inv_def by metis
    then show ?thesis using subs(5) by auto
  qed
qed

text \<open>No posting takes more than an account has, so a sum of postings stays in range.\<close>

lemma posts_delta_range:
  assumes "billing_inv db" and "posts db db' a k 0 delta" and "tget (credit_accounts db) a = Some acct"
  shows "delta \<le> i64_max \<Longrightarrow> in_i64 delta"
  by (rule posts_balance [OF assms(2,3)])
     (use balance_ok [OF assms(1,3)] in \<open>auto simp: amount_ok_def in_i64_def i64_bounds\<close>)

text \<open>Switching the funding to a cycle: find or create it, expire the others, fund it.\<close>

lemma cycle_switch_effect:
  assumes f1: "fund_inv db1" and range: "ri_desired_micros i \<le> i64_max"
    and acct: "tget (credit_accounts db1) a = Some acct"
    and cyc: "find_or_create_cycle db1 eid i now cid0 = Inr (db2, cid)"
    and exp: "expire_cycles a source rec now lid 1 (stale_cycles db2 eid cid) 0 db2 = Inr (db3, stale)"
    and adj: "adjust_entitlement_cycle db3 a cid (ri_desired_micros i) CycleActive False proration source rec now lid0 = Inr (db4, delta)"
  obtains c where "fund_inv db4" "\<And>k. posts db1 db4 a k 0 (stale + delta)" "sat (stale + delta) = stale + delta"
    "subscription_entitlements db4 = subscription_entitlements db1" "usage_reservations db4 = usage_reservations db1"
    "tget (entitlement_cycles db4) cid = Some c" "cy_entitlement_id c = eid" "cy_active c"
    "cy_external_cycle_id c = ri_external_cycle_id i" "cy_funded c = max (ri_desired_micros i) (cy_consumed c)"
    "\<And>y c'. y \<noteq> cid \<Longrightarrow> tget (entitlement_cycles db4) y = Some c' \<Longrightarrow> cy_active c' \<Longrightarrow>
       cy_entitlement_id c' \<noteq> eid \<and> tget (entitlement_cycles db1) y = Some c'"
proof -
  note binv = fund_inv_billing [OF f1]
  obtain c2 t2 where db2: "db2 = db1\<lparr>entitlement_cycles := t2\<rparr>"
    and c2: "tget t2 cid = Some c2" "cy_entitlement_id c2 = eid" "cy_external_cycle_id c2 = ri_external_cycle_id i"
    and t2: "\<And>x. x \<noteq> cid \<Longrightarrow> tget t2 x = tget (entitlement_cycles db1) x"
    and f2: "fund_inv db2" and p2: "\<And>a k. posts db1 db2 a k 0 0"
    by (rule find_or_create_cycle_Inr [OF cyc f1]) blast
  have acct2: "tget (credit_accounts db2) a = Some acct" using acct by (simp add: db2)
  note x = expire_cycles_effect [OF exp f2 acct2]
  have bal: "amount_ok (ca_available acct)" by (rule balance_ok [OF binv acct])
  then have f3: "fund_inv db3" and p3: "\<And>k. posts db2 db3 a k 0 stale" and stale: "stale \<le> 0"
    and fr3: "subscription_entitlements db3 = subscription_entitlements db2" "usage_reservations db3 = usage_reservations db2"
    and keep3: "\<And>y. y \<notin> fst ` set (stale_cycles db2 eid cid) \<Longrightarrow> tget (entitlement_cycles db3) y = tget (entitlement_cycles db2) y"
    and gone3: "\<And>y. y \<in> fst ` set (stale_cycles db2 eid cid) \<Longrightarrow> \<exists>c'. tget (entitlement_cycles db3) y = Some c' \<and> \<not> cy_active c'"
    using x by (auto simp: amount_ok_def)
  note stale_iff = stale_cycles_iff [OF fund_inv_wf [OF f2], of _ eid cid]
  have "cid \<notin> fst ` set (stale_cycles db2 eid cid)" by (simp add: stale_iff)
  then have c3: "tget (entitlement_cycles db3) cid = Some c2" using keep3 c2 by (simp add: db2)
  obtain c4 where c4: "c4 = adjusted_cycle c2 (ri_desired_micros i) (cycle_target False (ri_desired_micros i) c2) CycleActive
        proration now"
    and cy4: "entitlement_cycles db4 = tput cid c4 (entitlement_cycles db3)"
    and fr4: "subscription_entitlements db4 = subscription_entitlements db3" "usage_reservations db4 = usage_reservations db3"
    and p4: "\<And>k. posts db3 db4 a k 0 delta" and f4: "fund_inv db4" and top: "delta \<le> i64_max"
    by (rule adjust_effect [OF f3 _ _ adj]) (use range c3 in auto)
  have "posts db1 db4 a k (0 + 0 + 0) (0 + stale + delta)" for k
    by (rule posts_trans [OF posts_trans [OF p2 p3] p4])
  then have p: "posts db1 db4 a k 0 (stale + delta)" for k by simp
  have others: "cy_entitlement_id c' \<noteq> eid \<and> tget (entitlement_cycles db1) y = Some c'"
    if y: "y \<noteq> cid" "tget (entitlement_cycles db4) y = Some c'" "cy_active c'" for y c'
  proof -
    have three: "tget (entitlement_cycles db3) y = Some c'" using y by (simp add: cy4 tbl_simps)
    have ns: "y \<notin> fst ` set (stale_cycles db2 eid cid)" using gone3 [of y] three y(3) by auto
    then have two: "tget (entitlement_cycles db2) y = Some c'" using keep3 three by simp
    then have "cy_entitlement_id c' \<noteq> eid" using ns y unfolding stale_iff by auto
    then show ?thesis using two y t2 by (simp add: db2)
  qed
  show thesis
    by (rule that [OF f4 p _ _ _ _ _ _ _ _ others, of c4])
       (use posts_delta_range [OF binv p [of "[]"] acct] stale top c2 in
         \<open>simp_all add: fr4 fr3 db2 cy4 c4 tbl_simps adjusted_cycle_def cycle_target_def sat_in_range\<close>)
qed

lemma subscriptions_advance_update:
  assumes "tget (subscription_entitlements db') eid = Some e'"
    and "\<And>x. x \<noteq> eid \<Longrightarrow> tget (subscription_entitlements db) x \<noteq> None \<Longrightarrow>
       tget (subscription_entitlements db') x = tget (subscription_entitlements db) x"
    and "\<And>e. tget (subscription_entitlements db) eid = Some e \<Longrightarrow> en_version e < en_version e' \<and> en_status e \<noteq> SubReplaced \<and>
       en_tenant_id e' = en_tenant_id e \<and> en_account_id e' = en_account_id e \<and> en_provider e' = en_provider e \<and>
       en_external_subscription_id e' = en_external_subscription_id e"
  shows "subscriptions_advance db db'"
  unfolding subscriptions_advance_def
proof (intro allI impI)
  fix y e assume y: "tget (subscription_entitlements db) y = Some e"
  show "\<exists>e'. tget (subscription_entitlements db') y = Some e' \<and>
        (e' = e \<or> en_version e < en_version e' \<and> en_status e \<noteq> SubReplaced \<and> en_tenant_id e' = en_tenant_id e \<and>
           en_account_id e' = en_account_id e \<and> en_provider e' = en_provider e \<and>
           en_external_subscription_id e' = en_external_subscription_id e)"
    using assms y by (cases "y = eid") auto
qed

lemma reconcile_snapshot_effect:
  assumes inv: "ent_inv db" and range: "ri_desired_micros i \<le> i64_max"
    and ok: "reconcile_entitlement_snapshot tenants db tenant i rec now eid0 cid0 lid = Inr (db', r)"
  obtains eid e cid c delta where "ent_inv db'" "\<And>k. posts db db' (ri_account_id i) k 0 delta"
    "er_ledger_delta r = micros_to_decimal_string delta" "usage_reservations db' = usage_reservations db"
    "subscriptions_advance db db'" "vw_entitlement_id (er_entitlement r) = eid"
    "vw_account_id (er_entitlement r) = ri_account_id i"
    "tget (subscription_entitlements db') eid = Some e" "en_active e" "en_version e = ri_version i"
    "en_tenant_id e = tenant" "en_provider e = ri_provider i"
    "en_external_subscription_id e = ri_external_subscription_id i" "en_current_cycle_id e = Some cid"
    "tget (entitlement_cycles db') cid = Some c" "cy_active c" "cy_external_cycle_id c = ri_external_cycle_id i"
    "cy_funded c = max (ri_desired_micros i) (cy_consumed c)"
proof -
  let ?a = "ri_account_id i"
  from ok obtain cur db1 eid db2 cid db3 stale db4 delta view where
    lock: "lock_entitlement_account db ?a tenant (Some (ri_currency i)) = Inr cur"
    and sub: "find_or_create_subscription db tenant i now eid0 = Inr (db1, eid)"
    and cyc: "find_or_create_cycle db1 eid i now cid0 = Inr (db2, cid)"
    and exp: "expire_cycles ?a (ri_source i) rec now lid 1 (stale_cycles db2 eid cid) 0 db2 = Inr (db3, stale)"
    and adj: "adjust_entitlement_cycle db3 ?a cid (ri_desired_micros i) CycleActive False
              (ri_proration_json i) (ri_source i) rec now (lid 0) = Inr (db4, delta)"
    and db': "db' = update_subscription db4 eid (reconciled_row (ri_version i) cid now)"
    and view: "entitlement_result_view tenants db' eid = Inr view"
    and r: "r = \<lparr>er_entitlement = view, er_ledger_delta = micros_to_decimal_string (sat (stale + delta)), er_replaced = None\<rparr>"
    unfolding reconcile_entitlement_snapshot_def Let_def by (auto simp: rbind_Inr_iff)
  have finv: "fund_inv db" and cinv: "current_inv db" using inv by (simp_all add: ent_inv_def)
  obtain acct where acct: "tget (credit_accounts db) ?a = Some acct" using lock_entitlement_account_Inr [OF lock] by blast
  obtain e t where db1: "db1 = db\<lparr>subscription_entitlements := t\<rparr>" and t: "wf_table t" "tget t eid = Some e"
      "en_account_id e = ?a" "en_tenant_id e = tenant" "en_provider e = ri_provider i"
      "en_external_subscription_id e = ri_external_subscription_id i"
    and was: "tget (subscription_entitlements db) eid = None \<or>
     tget (subscription_entitlements db) eid = Some e \<and> en_status e \<noteq> SubReplaced \<and> en_version e < ri_version i"
    and others: "\<And>x. x \<noteq> eid \<Longrightarrow> tget t x = tget (subscription_entitlements db) x"
    by (rule find_or_create_subscription_Inr [OF sub inv]) blast
  have f1: "fund_inv db1" "tget (credit_accounts db1) ?a = Some acct" using finv acct by (simp_all add: db1)
  obtain c where f4: "fund_inv db4" and p4: "\<And>k. posts db1 db4 ?a k 0 (stale + delta)"
    and sum: "sat (stale + delta) = stale + delta"
    and fr4: "subscription_entitlements db4 = subscription_entitlements db1" "usage_reservations db4 = usage_reservations db1"
    and c: "tget (entitlement_cycles db4) cid = Some c" "cy_entitlement_id c = eid" "cy_active c"
      "cy_external_cycle_id c = ri_external_cycle_id i" "cy_funded c = max (ri_desired_micros i) (cy_consumed c)"
    and oc: "\<And>y c'. y \<noteq> cid \<Longrightarrow> tget (entitlement_cycles db4) y = Some c' \<Longrightarrow> cy_active c' \<Longrightarrow>
       cy_entitlement_id c' \<noteq> eid \<and> tget (entitlement_cycles db1) y = Some c'"
    by (rule cycle_switch_effect [OF f1(1) range f1(2) cyc exp adj]) blast
  let ?e = "reconciled_row (ri_version i) cid now e"
  have upd: "db' = db4\<lparr>subscription_entitlements := tput eid ?e t\<rparr>"
    unfolding db' by (subst update_subscription_Some [of _ _ e]) (simp_all add: fr4 db1 t)
  have p1: "posts db db1 ?a k 0 0" for k unfolding db1 by (rule posts_subscriptions [OF fund_inv_billing [OF finv]])
  have p5: "posts db4 db' ?a k 0 0" for k unfolding upd by (rule posts_subscriptions [OF fund_inv_billing [OF f4]])
  have "posts db db' ?a k (0 + 0 + 0) (0 + (stale + delta) + 0)" for k by (rule posts_trans [OF posts_trans [OF p1 p4] p5])
  then have p: "posts db db' ?a k 0 (stale + delta)" for k by simp
  have "current_inv db'"
    by (rule current_inv_reconciled [OF cinv, of db' eid ?e cid c])
       (use t others c oc in \<open>auto simp: upd tbl_simps db1 reconciled_row_def\<close>)
  then have inv': "ent_inv db'" using f4 by (simp add: ent_inv_def upd)
  have adv: "subscriptions_advance db db'"
    by (rule subscriptions_advance_update [of _ eid ?e]) (use was others in \<open>auto simp: upd tbl_simps reconciled_row_def\<close>)
  have v: "vw_entitlement_id view = eid \<and> vw_account_id view = ?a"
    using entitlement_result_view_Inr [OF view] t by (auto simp: upd tbl_simps reconciled_row_def)
  show thesis
    by (rule that [of "stale + delta" eid ?e cid c])
       (use inv' p sum adv v t c in \<open>simp_all add: r upd fr4 db1 tbl_simps reconciled_row_def\<close>)
qed

lemma revoke_current_inv:
  assumes inv: "current_inv db" and e: "tget (subscription_entitlements db) eid = Some e" "en_current_cycle_id e = Some cid"
    and c': "entitlement_cycles db' = tput cid c' (entitlement_cycles db)" "\<not> cy_active c'"
    and subs: "subscription_entitlements db' = tput eid e' (subscription_entitlements db)"
  shows "current_inv db' \<and> (\<forall>x c. tget (entitlement_cycles db') x = Some c \<longrightarrow> cy_active c \<longrightarrow> cy_entitlement_id c \<noteq> eid)"
proof -
  have no: "cy_entitlement_id c \<noteq> eid \<and> tget (entitlement_cycles db) x = Some c"
    if x: "tget (entitlement_cycles db') x = Some c" "cy_active c" for x c
  proof -
    have "x \<noteq> cid" "tget (entitlement_cycles db) x = Some c" using x c' by (auto simp: tbl_simps split: if_splits)
    with inv x(2) e show ?thesis unfolding current_inv_def by fastforce
  qed
  have "current_inv db'"
    unfolding current_inv_def
  proof (intro conjI allI impI)
    show "wf_table (subscription_entitlements db')" using inv by (simp add: subs current_inv_def)
  next
    fix x c assume x: "tget (entitlement_cycles db') x = Some c" "cy_active c"
    with no [OF x] inv show "\<exists>e. tget (subscription_entitlements db') (cy_entitlement_id c) = Some e \<and> en_active e \<and>
        en_current_cycle_id e = Some x"
      unfolding current_inv_def subs by (simp add: tbl_simps)
  qed
  then show ?thesis using no by blast
qed

lemma cancel_snapshot_effect:
  assumes inv: "ent_inv db"
    and ok: "cancel_entitlement_snapshot tenants db tenant i rec now lid = Inr (db', r)"
  obtains eid e a delta where "ent_inv db'" "\<And>k. posts db db' a k 0 delta"
    "er_ledger_delta r = micros_to_decimal_string delta" "delta \<le> 0" "usage_reservations db' = usage_reservations db"
    "subscriptions_advance db db'" "vw_entitlement_id (er_entitlement r) = eid" "vw_account_id (er_entitlement r) = a"
    "tget (subscription_entitlements db') eid = Some e" "en_status e = SubCancelled" "en_version e = ci_version i"
    "en_tenant_id e = tenant" "en_provider e = ci_provider i" "en_external_subscription_id e = ci_external_subscription_id i"
    "\<And>x c. tget (entitlement_cycles db') x = Some c \<Longrightarrow> cy_entitlement_id c = eid \<Longrightarrow> \<not> cy_active c"
proof -
  from ok obtain eid e where
    f: "find_subscription db tenant (ci_provider i) (ci_external_subscription_id i) = Some (eid, e)"
    unfolding cancel_entitlement_snapshot_def by (auto simp: rbind_Inr_iff ok_or_Inr_iff)
  with ok obtain cid c where cid: "en_current_cycle_id e = Some cid" and "tget (entitlement_cycles db) cid = Some c"
    unfolding cancel_entitlement_snapshot_def by (auto simp: rbind_Inr_iff ok_or_Inr_iff)
  with ok f obtain db1 delta view where st: "en_status e \<noteq> SubReplaced" "en_version e < ci_version i"
    and adj: "adjust_entitlement_cycle db (en_account_id e) cid (cy_desired c) CycleCancelled True (cy_proration c)
              (ci_source i) rec now lid = Inr (db1, delta)"
    and db': "db' = update_subscription db1 eid (cancelled_row (ci_version i) now)"
    and view: "entitlement_result_view tenants db' eid = Inr view"
    and r: "r = \<lparr>er_entitlement = view, er_ledger_delta = micros_to_decimal_string delta, er_replaced = None\<rparr>"
    unfolding cancel_entitlement_snapshot_def Let_def by (auto simp: rbind_Inr_iff ok_or_Inr_iff ensure_Inr_iff not_le)
  have finv: "fund_inv db" and cinv: "current_inv db" using inv by (simp_all add: ent_inv_def)
  have e: "tget (subscription_entitlements db) eid = Some e" "en_tenant_id e = tenant" "en_provider e = ci_provider i"
    "en_external_subscription_id e = ci_external_subscription_id i"
    using find_subscription_Some [OF f] cinv by (simp_all add: current_inv_def)
  obtain c0 c' where c': "c' = adjusted_cycle c0 (cy_desired c) (cycle_target True (cy_desired c) c0) CycleCancelled (cy_proration c) now"
    and cy: "entitlement_cycles db1 = tput cid c' (entitlement_cycles db)"
    and fr: "subscription_entitlements db1 = subscription_entitlements db" "usage_reservations db1 = usage_reservations db"
    and p1: "\<And>k. posts db db1 (en_account_id e) k 0 delta" and f1: "fund_inv db1" and neg: "True \<longrightarrow> delta \<le> 0"
    by (rule adjust_effect [OF finv _ _ adj]) auto
  let ?e = "cancelled_row (ci_version i) now e"
  have upd: "db' = db1\<lparr>subscription_entitlements := tput eid ?e (subscription_entitlements db)\<rparr>"
    unfolding db' by (subst update_subscription_Some [of _ _ e]) (simp_all add: fr e)
  have "posts db1 db' (en_account_id e) k 0 0" for k
    unfolding upd by (rule posts_subscriptions [OF fund_inv_billing [OF f1]])
  from posts_trans [OF p1 this] have p: "posts db db' (en_account_id e) k 0 delta" for k by simp
  have cur: "current_inv db' \<and> (\<forall>x c. tget (entitlement_cycles db') x = Some c \<longrightarrow> cy_active c \<longrightarrow> cy_entitlement_id c \<noteq> eid)"
    by (rule revoke_current_inv [OF cinv e(1) cid, of db' c' ?e]) (simp_all add: upd cy c' adjusted_cycle_def)
  then have inv': "ent_inv db'" using f1 by (simp add: ent_inv_def upd)
  have adv: "subscriptions_advance db db'"
    by (rule subscriptions_advance_update [of _ eid ?e]) (use st e in \<open>auto simp: upd tbl_simps cancelled_row_def\<close>)
  have v: "vw_entitlement_id view = eid \<and> vw_account_id view = en_account_id e"
    using entitlement_result_view_Inr [OF view] by (auto simp: upd tbl_simps cancelled_row_def)
  show thesis
    by (rule that [of "en_account_id e" delta eid ?e])
       (use inv' p adv v e cur neg in \<open>auto simp: r upd fr tbl_simps cancelled_row_def\<close>)
qed

lemma replace_stages:
  assumes "replace_entitlement_snapshot tenants db tenant i rec now eid cid lid = Inr (db', r)"
  obtains old e ocid c acct db1 revoked db2 db3 db4 delta view where
    "find_subscription db tenant (pi_provider i) (pi_external_subscription_id i) = Some (old, e)"
    "tget (credit_accounts db) (en_account_id e) = Some acct"
    "en_current_cycle_id e = Some ocid" "en_status e \<noteq> SubReplaced" "en_version e < pi_version i"
    "adjust_entitlement_cycle db (en_account_id e) ocid (cy_desired (c :: cycle)) CycleReplaced True (cy_proration c)
       (pi_source i) rec now (lid (Suc 0)) = Inr (db1, revoked)"
    "insert_subscription db1 eid ((new_subscription tenant (pi_replacement i) (Some cid) now)
       \<lparr>en_account_id := en_account_id e\<rparr>) = Inr db2"
    "insert_cycle db2 cid (new_cycle eid (pi_replacement i) now) = Inr db3"
    "adjust_entitlement_cycle db3 (en_account_id e) cid (ri_desired_micros (pi_replacement i)) CycleActive False
       (ri_proration_json (pi_replacement i)) (pi_source i) rec now (lid 0) = Inr (db4, delta)"
    "db' = update_subscription db4 old (replaced_row (pi_version i) eid now)"
    "entitlement_result_view tenants db' eid = Inr view"
    "r = \<lparr>er_entitlement = view, er_ledger_delta = micros_to_decimal_string (sat (revoked + delta)), er_replaced = Some old\<rparr>"
proof -
  from assms obtain old e where
    f: "find_subscription db tenant (pi_provider i) (pi_external_subscription_id i) = Some (old, e)"
    unfolding replace_entitlement_snapshot_def by (auto simp: rbind_Inr_iff ok_or_Inr_iff)
  with assms obtain cur ocid c where lock: "lock_entitlement_account db (en_account_id e) tenant (Some (ri_currency (pi_replacement i))) = Inr cur"
    and ocid: "en_current_cycle_id e = Some ocid" and c: "tget (entitlement_cycles db) ocid = Some c"
    unfolding replace_entitlement_snapshot_def by (auto simp: rbind_Inr_iff ok_or_Inr_iff)
  obtain acct where "tget (credit_accounts db) (en_account_id e) = Some acct"
    using lock_entitlement_account_Inr [OF lock] by blast
  moreover from assms f ocid c obtain db1 revoked db2 db3 db4 delta view where
    "en_status e \<noteq> SubReplaced" "en_version e < pi_version i"
    "adjust_entitlement_cycle db (en_account_id e) ocid (cy_desired c) CycleReplaced True (cy_proration c)
       (pi_source i) rec now (lid (Suc 0)) = Inr (db1, revoked)"
    "insert_subscription db1 eid ((new_subscription tenant (pi_replacement i) (Some cid) now)
       \<lparr>en_account_id := en_account_id e\<rparr>) = Inr db2"
    "insert_cycle db2 cid (new_cycle eid (pi_replacement i) now) = Inr db3"
    "adjust_entitlement_cycle db3 (en_account_id e) cid (ri_desired_micros (pi_replacement i)) CycleActive False
       (ri_proration_json (pi_replacement i)) (pi_source i) rec now (lid 0) = Inr (db4, delta)"
    "db' = update_subscription db4 old (replaced_row (pi_version i) eid now)"
    "entitlement_result_view tenants db' eid = Inr view"
    "r = \<lparr>er_entitlement = view, er_ledger_delta = micros_to_decimal_string (sat (revoked + delta)), er_replaced = Some old\<rparr>"
    unfolding replace_entitlement_snapshot_def replace_guards_def Let_def
    by (auto simp: rbind_Inr_iff ok_or_Inr_iff ensure_Inr_iff not_le)
  ultimately show thesis using f ocid by (intro that)
qed

lemma replace_snapshot_effect:
  assumes inv: "ent_inv db" and range: "ri_desired_micros (pi_replacement i) \<le> i64_max" "0 \<le> ri_desired_micros (pi_replacement i)"
    and ok: "replace_entitlement_snapshot tenants db tenant i rec now eid cid lid = Inr (db', r)"
  obtains old e e' a c delta where "ent_inv db'" "\<And>k. posts db db' a k 0 delta"
    "er_ledger_delta r = micros_to_decimal_string delta" "usage_reservations db' = usage_reservations db"
    "subscriptions_advance db db'" "vw_entitlement_id (er_entitlement r) = eid" "vw_account_id (er_entitlement r) = a"
    "er_replaced r = Some old"
    "tget (subscription_entitlements db') old = Some e" "en_status e = SubReplaced" "en_version e = pi_version i"
    "en_replaced_by e = Some eid"
    "tget (subscription_entitlements db') eid = Some e'" "en_active e'" "en_current_cycle_id e' = Some cid"
    "en_account_id e' = en_account_id e"
    "tget (entitlement_cycles db') cid = Some c" "cy_active c" "cy_funded c = ri_desired_micros (pi_replacement i)"
    "\<And>x c. tget (entitlement_cycles db') x = Some c \<Longrightarrow> cy_entitlement_id c = old \<Longrightarrow> \<not> cy_active c"
proof (rule replace_stages [OF ok])
  fix old ocid revoked delta and e :: entitlement and c :: cycle and acct :: credit_account and db1 db2 db3 db4 :: billing_db and view
  let ?i = "pi_replacement i" and ?a = "en_account_id e"
  let ?n = "(new_subscription tenant ?i (Some cid) now)\<lparr>en_account_id := ?a\<rparr>" and ?nc = "new_cycle eid ?i now"
  let ?o = "replaced_row (pi_version i) eid now e"
  assume f: "find_subscription db tenant (pi_provider i) (pi_external_subscription_id i) = Some (old, e)"
    and acct: "tget (credit_accounts db) ?a = Some acct"
    and cid: "en_current_cycle_id e = Some ocid" and st: "en_status e \<noteq> SubReplaced" "en_version e < pi_version i"
    and adj1: "adjust_entitlement_cycle db ?a ocid (cy_desired c) CycleReplaced True (cy_proration c)
       (pi_source i) rec now (lid (Suc 0)) = Inr (db1, revoked)"
    and ins: "insert_subscription db1 eid ?n = Inr db2" "insert_cycle db2 cid ?nc = Inr db3"
    and adj4: "adjust_entitlement_cycle db3 ?a cid (ri_desired_micros ?i) CycleActive False
       (ri_proration_json ?i) (pi_source i) rec now (lid 0) = Inr (db4, delta)"
    and db': "db' = update_subscription db4 old (replaced_row (pi_version i) eid now)"
    and view: "entitlement_result_view tenants db' eid = Inr view"
    and r: "r = \<lparr>er_entitlement = view, er_ledger_delta = micros_to_decimal_string (sat (revoked + delta)), er_replaced = Some old\<rparr>"
  have finv: "fund_inv db" and cinv: "current_inv db" using inv by (simp_all add: ent_inv_def)
  have e: "tget (subscription_entitlements db) old = Some e" using find_subscription_Some [OF f] cinv by (simp add: current_inv_def)
  obtain c0 c1 where c1: "c1 = adjusted_cycle c0 (cy_desired c) (cycle_target True (cy_desired c) c0) CycleReplaced (cy_proration c) now"
    and cy1: "entitlement_cycles db1 = tput ocid c1 (entitlement_cycles db)"
    and fr1: "subscription_entitlements db1 = subscription_entitlements db" "usage_reservations db1 = usage_reservations db"
    and p1: "\<And>k. posts db db1 ?a k 0 revoked" and f1: "fund_inv db1" and neg: "True \<longrightarrow> revoked \<le> 0"
    by (rule adjust_effect [OF finv _ _ adj1]) auto
  have db2: "db2 = db1\<lparr>subscription_entitlements := tput eid ?n (subscription_entitlements db)\<rparr>"
    and newe: "tget (subscription_entitlements db) eid = None"
    using ins(1) by (simp_all add: insert_subscription_Inr fr1)
  have f2: "fund_inv db2" and p2: "posts db1 db2 ?a k 0 0" for k
    using f1 posts_subscriptions [OF fund_inv_billing [OF f1]] by (simp_all add: db2)
  have db3: "db3 = db2\<lparr>entitlement_cycles := tput cid ?nc (entitlement_cycles db2)\<rparr>"
    and newc: "tget (entitlement_cycles db2) cid = None" using ins(2) by (simp_all add: insert_cycle_Inr)
  have f3: "fund_inv db3" and p3: "posts db2 db3 ?a k 0 0" for k using insert_cycle_effect [OF f2 newc db3] by auto
  obtain c3 c4 where c3: "tget (entitlement_cycles db3) cid = Some c3"
    and c4: "c4 = adjusted_cycle c3 (ri_desired_micros ?i) (cycle_target False (ri_desired_micros ?i) c3) CycleActive
        (ri_proration_json ?i) now"
    and cy4: "entitlement_cycles db4 = tput cid c4 (entitlement_cycles db3)"
    and fr4: "subscription_entitlements db4 = subscription_entitlements db3" "usage_reservations db4 = usage_reservations db3"
    and p4: "\<And>k. posts db3 db4 ?a k 0 delta" and f4: "fund_inv db4" and top: "delta \<le> i64_max"
    by (rule adjust_effect [OF f3 _ _ adj4]) (use range in auto)
  have c3': "c3 = ?nc" using c3 by (simp add: db3 tbl_simps)
  have ne: "old \<noteq> eid" "ocid \<noteq> cid" using e newe newc by (auto simp: db2 cy1 tbl_simps split: if_splits)
  have upd: "db' = db4\<lparr>subscription_entitlements := tput old ?o (tput eid ?n (subscription_entitlements db))\<rparr>"
    unfolding db' by (subst update_subscription_Some [of _ _ e]) (use ne e in \<open>simp_all add: fr4 db3 db2 tbl_simps\<close>)
  have p5: "posts db4 db' ?a k 0 0" for k unfolding upd by (rule posts_subscriptions [OF fund_inv_billing [OF f4]])
  have "posts db db' ?a k (0 + 0 + 0 + 0 + 0) (revoked + 0 + 0 + delta + 0)" for k
    by (rule posts_trans [OF posts_trans [OF posts_trans [OF posts_trans [OF p1 p2] p3] p4] p5])
  then have p: "posts db db' ?a k 0 (revoked + delta)" for k by simp
  have sum: "sat (revoked + delta) = revoked + delta"
    using posts_delta_range [OF fund_inv_billing [OF finv] p [of "[]"] acct] neg top by (simp add: sat_in_range)
  define mid where "mid = db\<lparr>entitlement_cycles := tput ocid c1 (entitlement_cycles db),
      subscription_entitlements := tput old ?o (subscription_entitlements db)\<rparr>"
  have mid: "current_inv mid \<and> (\<forall>x c. tget (entitlement_cycles mid) x = Some c \<longrightarrow> cy_active c \<longrightarrow> cy_entitlement_id c \<noteq> old)"
    by (rule revoke_current_inv [OF cinv e cid, of _ c1 ?o]) (simp_all add: mid_def c1 adjusted_cycle_def)
  have cyc: "tget (entitlement_cycles db') x = (if x = cid then Some c4 else tget (entitlement_cycles mid) x)" for x
    by (simp add: mid_def upd cy4 db3 db2 cy1 tbl_simps)
  have subs: "tget (subscription_entitlements db') x = (if x = eid then Some ?n else tget (subscription_entitlements mid) x)" for x
    using ne by (simp add: mid_def upd tbl_simps)
  have new: "tget (subscription_entitlements mid) eid = None" "wf_table (subscription_entitlements db')"
    "cy_active c4" "cy_entitlement_id c4 = eid" "en_active ?n" "en_current_cycle_id ?n = Some cid"
    using newe ne cinv
    by (simp_all add: mid_def tbl_simps upd current_inv_def c4 c3' adjusted_cycle_def new_cycle_def new_subscription_def)
  have noeid: "cy_entitlement_id y \<noteq> eid" if "tget (entitlement_cycles mid) x = Some y" "cy_active y" for x y
    using mid that new(1) unfolding current_inv_def by fastforce
  have cur: "current_inv db'"
    by (rule current_inv_reconciled [OF conjunct1 [OF mid], of db' eid ?n cid c4])
       (use noeid new in \<open>auto simp: cyc subs\<close>)
  then have inv': "ent_inv db'" using f4 by (simp add: ent_inv_def upd)
  have adv: "subscriptions_advance db db'"
    by (rule subscriptions_advance_update [of _ old ?o]) (use st e newe in \<open>auto simp: upd tbl_simps replaced_row_def\<close>)
  have v: "vw_entitlement_id view = eid \<and> vw_account_id view = ?a"
    using entitlement_result_view_Inr [OF view] ne by (auto simp: upd tbl_simps)
  have none: "\<not> cy_active y" if "tget (entitlement_cycles db') x = Some y" "cy_entitlement_id y = old" for x y
    using that mid ne new(4) by (auto simp: cyc split: if_splits)
  show thesis
    by (rule that [of ?a "revoked + delta" old ?o ?n c4, OF inv' p _ _ adv _ _ _ _ _ _ _ _ _ _ _ _ _ _ none])
       (use sum v ne range in \<open>simp_all add: r upd fr4 db3 db2 fr1 tbl_simps replaced_row_def new_subscription_def cy4 c4 c3'
         adjusted_cycle_def new_cycle_def cycle_target_def\<close>)
qed

subsection \<open>Operations\<close>

text \<open>The desired amount of a request is an \<open>i64\<close>; validation rejects negative ones.\<close>

definition op_desired :: "entitlement_operation \<Rightarrow> int" where
  "op_desired op = (case op of OpReconcile i \<Rightarrow> ri_desired_micros i | OpCancel _ \<Rightarrow> 0
     | OpReplace i \<Rightarrow> ri_desired_micros (pi_replacement i))"

lemma apply_operation_effect:
  assumes inv: "ent_inv db" and range: "amount_ok (op_desired op)"
    and ok: "apply_operation tenants db tenant op now ids = Inr (db', r)"
  obtains delta where "ent_inv db'" "\<And>k. posts db db' (vw_account_id (er_entitlement r)) k 0 delta"
    "er_ledger_delta r = micros_to_decimal_string delta" "usage_reservations db' = usage_reservations db"
    "subscriptions_advance db db'"
proof (cases op)
  case (OpReconcile i)
  then have rec: "reconcile_entitlement_snapshot tenants db tenant i (id_rec ids) now (id_subscription ids) (id_cycle ids)
      (id_ledger ids) = Inr (db', r)" and le: "ri_desired_micros i \<le> i64_max"
    using ok range by (auto simp: apply_operation_def op_desired_def amount_ok_def)
  from reconcile_snapshot_effect [OF inv le rec] obtain delta where "ent_inv db'" "\<And>k. posts db db' (ri_account_id i) k 0 delta"
    "er_ledger_delta r = micros_to_decimal_string delta" "usage_reservations db' = usage_reservations db"
    "subscriptions_advance db db'" "vw_account_id (er_entitlement r) = ri_account_id i"
    by metis
  then show thesis by (intro that [of delta]) simp_all
next
  case (OpCancel i)
  then have "cancel_entitlement_snapshot tenants db tenant i (id_rec ids) now (id_ledger ids 0) = Inr (db', r)"
    using ok by (simp add: apply_operation_def)
  then show thesis by (rule cancel_snapshot_effect [OF inv]) (use that in auto)
next
  case (OpReplace i)
  show thesis
    by (rule replace_snapshot_effect [OF inv, of i tenants tenant "id_rec ids" now "id_subscription ids" "id_cycle ids" "id_ledger ids"])
       (use range ok OpReplace that in \<open>auto simp: op_desired_def amount_ok_def apply_operation_def\<close>)
qed

lemma reconcile_stages:
  assumes "reconcile_entitlement_in_transaction ec ed tenant op key now ids = Inr (ed', r, replayed)"
  obtains (replay) row hash where "replayed" "ed' = ed" "find_reconciliation ed tenant key = Some row"
      "ec_digest ec op = Some hash" "rc_hash row = hash" "ec_parse ec (rc_response row) = Some r"
  | (fresh) db hash response where "\<not> replayed" "find_reconciliation ed tenant key = None" "ec_digest ec op = Some hash"
      "apply_operation (ed_tenants ed) (ed_billing ed) tenant op now ids = Inr (db, r)" "ec_print ec r = Some response"
      "tget (ed_reconciliations ed) (id_rec ids) = None"
      "ed' = ed\<lparr>ed_billing := db, ed_reconciliations := tput (id_rec ids) \<lparr>rc_tenant_id = tenant, rc_key = key,
         rc_hash = hash, rc_response = response, rc_created_at = now\<rparr> (ed_reconciliations ed)\<rparr>"
proof (cases "find_reconciliation ed tenant key")
  case None
  then show thesis using assms
    by (auto simp: reconcile_entitlement_in_transaction_def rbind_Inr_iff ok_or_Inr_iff insert_reconciliation_def
        ensure_Inr_iff sql_insert_Inr_iff intro!: fresh)
next
  case (Some row)
  then show thesis using assms
    by (auto simp: reconcile_entitlement_in_transaction_def rbind_Inr_iff ok_or_Inr_iff ensure_Inr_iff intro!: replay)
qed

lemma canonical_desired:
  "canonicalize_entitlement_operation ec op0 = Inr op \<Longrightarrow> op_desired op = op_desired op0"
  by (auto simp: canonicalize_entitlement_operation_def canonicalize_def op_desired_def rbind_Inr_iff ok_or_Inr_iff
      split: entitlement_operation.splits option.splits)

lemma valid_desired: "validate_entitlement_operation op = Inr () \<Longrightarrow> 0 \<le> op_desired op"
  by (auto simp: validate_entitlement_operation_def validate_reconcile_entitlement_def op_desired_def rbind_Inr_iff
      ensure_Inr_iff Let_def split: entitlement_operation.splits)

subsection \<open>Properties of entitlements\<close>



text \<open>
  C11. Late and repeated snapshots cannot undo later ones: no reconciliation removes a
  subscription; one that changes a subscription gives it a strictly greater version and
  keeps its tenant, account and identity; and a replaced subscription never changes again.
\<close>

theorem entitlement_versions:
  assumes "ent_inv (ed_billing ed)" and "amount_ok (op_desired op)"
    and "reconcile_entitlement_in_transaction ec ed tenant op key now ids = Inr (ed', r, replayed)"
    and "tget (subscription_entitlements (ed_billing ed)) x = Some e"
  shows "\<exists>e'. tget (subscription_entitlements (ed_billing ed')) x = Some e' \<and>
    (e' = e \<or> en_version e < en_version e' \<and> en_status e \<noteq> SubReplaced \<and> en_tenant_id e' = en_tenant_id e \<and>
       en_account_id e' = en_account_id e \<and> en_external_subscription_id e' = en_external_subscription_id e)"
  using assms(3)
proof (cases rule: reconcile_stages)
  case replay
  then show ?thesis using assms(4) by simp
next
  case (fresh db hash response)
  show ?thesis
    by (rule apply_operation_effect [OF assms(1,2) fresh(4)])
       (use assms(4) fresh(7) in \<open>fastforce simp: subscriptions_advance_def\<close>)
qed

text \<open>
  C32. An idempotency key stands for one request: once a reconciliation has succeeded under a
  key, the same request under that key returns the stored result, at any time and with any
  fresh identifiers, and changes nothing; any other request under it is a conflict.
\<close>

theorem entitlement_replay:
  assumes "reconcile_entitlement_in_transaction ec ed tenant op key now ids = Inr (ed', r, replayed)"
    and "\<forall>s. ec_print ec r = Some s \<longrightarrow> ec_parse ec s = Some r"
  shows "reconcile_entitlement_in_transaction ec ed' tenant op key now2 ids2 = Inr (ed', r, True) \<and>
    (ec_digest ec op2 \<noteq> None \<and> ec_digest ec op2 \<noteq> ec_digest ec op \<longrightarrow>
     reconcile_entitlement_in_transaction ec ed' tenant op2 key now2 ids2 =
       Inl (Conflict ''Idempotency-Key was already used for a different entitlement request''))"
proof -
  obtain row hash where row: "find_reconciliation ed' tenant key = Some row" "ec_digest ec op = Some hash"
    "rc_hash row = hash" "ec_parse ec (rc_response row) = Some r"
    using assms(1)
  proof (cases rule: reconcile_stages)
    case (fresh db hash response)
    then show thesis using assms(2)
      by (intro that [of "\<lparr>rc_tenant_id = tenant, rc_key = key, rc_hash = hash, rc_response = response, rc_created_at = now\<rparr>" hash])
         (auto simp: find_reconciliation_def tput_fresh find_None_append)
  qed (use that in blast)
  then show ?thesis
    by (auto simp: reconcile_entitlement_in_transaction_def ok_or_def ensure_def split: option.splits)
qed

subsection \<open>Evaluation on samples\<close>

text \<open>One monthly snapshot of 500 micros on the sample account, and what it leaves behind.\<close>

definition sample_snapshot :: reconcile_entitlement_input where
  "sample_snapshot = \<lparr>ri_tenant_external_id = ''T'', ri_account_id = ''a'', ri_provider = ''pay'',
     ri_external_subscription_id = ''sub'', ri_external_cycle_id = ''jan'', ri_period_start = 0, ri_period_end = 1000,
     ri_currency = ''usd'', ri_desired_micros = 500, ri_version = 1, ri_source = ''hook'', ri_proration_json = None\<rparr>"

definition sample_ids :: ent_ids where
  "sample_ids = \<lparr>id_rec = ''r'', id_subscription = ''s'', id_cycle = ''c'', id_ledger = (\<lambda>_. ''l'')\<rparr>"

definition sample_entry :: ledger_entry where
  "sample_entry = cycle_funding_entry ''a'' ''c'' 500 ''USD'' ''hook'' ''r'' 7"

definition sample_subscribed :: billing_db where
  "sample_subscribed = sample_db\<lparr>
     credit_accounts := [(''a'', \<lparr>ca_tenant_id = ''t'', ca_currency = ''USD'', ca_available = 1500, ca_reserved = 0, ca_updated_at = 7\<rparr>)],
     subscription_entitlements := [(''s'', new_subscription ''t'' sample_snapshot (Some ''c'') 7)],
     entitlement_cycles := [(''c'', (new_cycle ''s'' sample_snapshot 7)\<lparr>cy_desired := 500, cy_funded := 500\<rparr>)],
     ledger_entries := [(''g'', sample_grant), (''l'', sample_entry)]\<rparr>"

definition sample_result :: entitlement_result where
  "sample_result = \<lparr>er_entitlement = view_of ''s'' (new_subscription ''t'' sample_snapshot (Some ''c'') 7) ''T'' ''c''
       ((new_cycle ''s'' sample_snapshot 7)\<lparr>cy_desired := 500, cy_funded := 500\<rparr>),
     er_ledger_delta = micros_to_decimal_string 500, er_replaced = None\<rparr>"

definition sample_ec :: ent_codecs where
  "sample_ec = \<lparr>ec_normalize = (\<lambda>s. Some (Some s)),
     ec_digest = (\<lambda>op. Some (case op of OpReconcile i \<Rightarrow> ''R'' | OpCancel i \<Rightarrow> ''C'' | OpReplace i \<Rightarrow> ''P'')),
     ec_print = (\<lambda>r. if r = sample_result then Some ''stored'' else None),
     ec_parse = (\<lambda>s. if s = ''stored'' then Some sample_result else None)\<rparr>"

definition sample_ed :: entitlement_db where
  "sample_ed = \<lparr>ed_billing = sample_db, ed_tenants = [(''t'', ''T'')], ed_reconciliations = []\<rparr>"

definition sample_reconciled :: entitlement_db where
  "sample_reconciled = \<lparr>ed_billing = sample_subscribed, ed_tenants = [(''t'', ''T'')],
     ed_reconciliations = [(''r'', \<lparr>rc_tenant_id = ''t'', rc_key = ''once'', rc_hash = ''R'', rc_response = ''stored'',
       rc_created_at = 7\<rparr>)]\<rparr>"

lemma sample_ent_inv: "ent_inv (ed_billing sample_ed)"
  using sample_db_inv
  by (simp add: sample_ed_def ent_inv_def fund_inv_def current_inv_def cycle_books_def sample_db_def empty_db_def
      sample_grant_def tsum_def tget_def wf_table_def)

lemma sample_currency:
  "ascii_upper CHR ''u'' = CHR ''U''" "ascii_upper CHR ''s'' = CHR ''S''" "ascii_upper CHR ''d'' = CHR ''D''"
  "eq_ignore_ascii_case ''USD'' ''usd''"
  by code_simp+

lemma sample_applied:
  "apply_operation [(''t'', ''T'')] sample_db ''t'' (OpReconcile sample_snapshot) 7 sample_ids = Inr (sample_subscribed, sample_result)"
  by (simp add: apply_operation_def reconcile_entitlement_snapshot_def lock_entitlement_account_def
      find_or_create_subscription_def find_or_create_cycle_def find_subscription_def find_cycle_def insert_subscription_def
      insert_cycle_def new_subscription_def new_cycle_def stale_cycles_def adjust_entitlement_cycle_def cycle_target_def
      adjusted_cycle_def move_credit_def record_funding_def ledger_insert_def ledger_conflict_def sql_insert_def sql_int_def
      update_subscription_def reconciled_row_def entitlement_result_view_def sample_db_def empty_db_def sample_snapshot_def
      sample_ids_def sample_subscribed_def sample_result_def sample_entry_def cycle_funding_entry_def sample_grant_def
      ok_or_def ensure_def Let_def tget_def tput_def sat_def i64_bounds in_i64_def sample_currency)


lemma sample_entitlement_tx:
  "reconcile_entitlement_in_transaction sample_ec sample_ed ''t'' (OpReconcile sample_snapshot) ''once'' 7 sample_ids =
     Inr (sample_reconciled, sample_result, False)"
  using sample_applied
  by (simp add: reconcile_entitlement_in_transaction_def sample_ed_def sample_ec_def sample_ids_def sample_reconciled_def
      find_reconciliation_def insert_reconciliation_def ok_or_def ensure_def sql_insert_def tget_def tput_def)

lemma sample_valid_snapshot:
  "validate_idempotency_key ''once'' ''Idempotency-Key'' = Inr ()"
  "validate_entitlement_operation (OpReconcile sample_snapshot) = Inr ()"
  by code_simp+

lemma sample_reconcile_request:
  "reconcile_entitlement sample_ec sample_ed (OpReconcile sample_snapshot) ''once'' 7 sample_ids =
     Inr (sample_reconciled, sample_result)"
proof -
  have "ri_proration_json sample_snapshot = None" "ri_tenant_external_id sample_snapshot = ''T''"
    by (simp_all add: sample_snapshot_def)
  moreover have "ed_tenants sample_ed = [(''t'', ''T'')]" by (simp add: sample_ed_def)
  ultimately show ?thesis
    by (simp add: reconcile_entitlement_def sample_valid_snapshot canonicalize_entitlement_operation_def canonicalize_def ok_or_def
        op_tenant_external_id_def sample_entitlement_tx)
qed

lemma sample_desired: "op_desired (OpReconcile sample_snapshot) = 500"
  by (simp add: op_desired_def sample_snapshot_def)



theorem entitlement_versions_witness:
  "\<exists>e'. tget (subscription_entitlements (ed_billing sample_reconciled)) ''s'' = Some e' \<and>
     (e' = new_subscription ''t'' sample_snapshot (Some ''c'') 7 \<or> 1 < en_version e')"
proof -
  have "reconcile_entitlement_in_transaction sample_ec sample_reconciled ''t'' (OpReconcile sample_snapshot) ''once'' 9 sample_ids =
      Inr (sample_reconciled, sample_result, True)"
    by (simp add: reconcile_entitlement_in_transaction_def sample_reconciled_def sample_ec_def find_reconciliation_def
        ok_or_def ensure_def)
  moreover have "ent_inv (ed_billing sample_reconciled)"
    by (rule apply_operation_effect [OF _ _ sample_applied])
       (use sample_ent_inv in \<open>simp_all add: sample_ed_def sample_desired amount_ok_def i64_bounds sample_reconciled_def\<close>)
  moreover have "tget (subscription_entitlements (ed_billing sample_reconciled)) ''s'' =
      Some (new_subscription ''t'' sample_snapshot (Some ''c'') 7)"
    by (simp add: sample_reconciled_def sample_subscribed_def tget_def)
  ultimately show ?thesis
    using entitlement_versions [of sample_reconciled "OpReconcile sample_snapshot" sample_ec "''t''" "''once''" 9 sample_ids
        sample_reconciled sample_result True "''s''"]
    by (auto simp: sample_desired amount_ok_def i64_bounds new_subscription_def sample_snapshot_def)
qed

theorem entitlement_replay_witness:
  "reconcile_entitlement_in_transaction sample_ec sample_reconciled ''t'' (OpReconcile sample_snapshot) ''once'' 9 sample_ids =
     Inr (sample_reconciled, sample_result, True)"
proof -
  have "\<forall>s. ec_print sample_ec sample_result = Some s \<longrightarrow> ec_parse sample_ec s = Some sample_result"
    by (simp add: sample_ec_def)
  from entitlement_replay [OF sample_entitlement_tx this] show ?thesis by blast
qed

end
