(* ===== verification/Archive_Staging.thy ===== *)
theory Archive_Staging
  imports Rust_Strings "HOL-Library.Char_ord" "HOL-Library.List_Lexorder" "HOL-Library.Product_Lexorder"
begin

text \<open>
  Staging of archive objects (\<open>src/src/archive_staging.rs\<close>, \<open>src/src/db/archive_staging.rs\<close>, the
  clean-up statements of \<open>src/src/db/generation/mod.rs\<close> and \<open>src/src/archive_reaper.rs\<close>). An
  attempt owns one object-store prefix. Its writer holds a lease while it uploads; binding
  the attempt publishes a locator; everything else ends in clean-up, where a reaper with a
  lease of its own deletes the prefix after the database has shown that nothing refers to
  it. The rows hold the typed identity; the text columns it is stored in are read back by
  \<open>from_database\<close>. \<open>now\<close> is the database clock a transaction reads, and identifiers drawn fresh
  are arguments. Transactions are serial: a row another transaction holds locked, which
  PostgreSQL would skip in a selection, does not occur. The schema also refuses times before the creation of the row, which only a
  clock running backwards produces; the model lets such a transaction go through, so what is
  shown here holds with and without that check.
\<close>

subsection \<open>Identities\<close>

definition WRITE_LEASE_MILLIS :: int where
  "WRITE_LEASE_MILLIS = 90000"

definition CLEANUP_LEASE_MILLIS :: int where
  "CLEANUP_LEASE_MILLIS = 300000"

definition EMPTY_STABILITY_MILLIS :: int where
  "EMPTY_STABILITY_MILLIS = 60000"

definition STALE_DELETE_GRACE_MILLIS :: int where
  "STALE_DELETE_GRACE_MILLIS = 1800000"

definition CLAIM_BATCH :: nat where
  "CLAIM_BATCH = 64"

datatype staging_owner = ProxyRequest uuid | SynchronousRequest uuid | GenerationJob uuid

fun owner_kind :: "staging_owner \<Rightarrow> string" where
  "owner_kind (ProxyRequest _) = ''proxy_request''"
| "owner_kind (SynchronousRequest _) = ''synchronous_request''"
| "owner_kind (GenerationJob _) = ''generation_job''"

fun path_kind :: "staging_owner \<Rightarrow> string" where
  "path_kind (ProxyRequest _) = ''proxy''"
| "path_kind (SynchronousRequest _) = ''synchronous''"
| "path_kind (GenerationJob _) = ''generation''"

fun owner_id :: "staging_owner \<Rightarrow> uuid" where
  "owner_id (ProxyRequest i) = i"
| "owner_id (SynchronousRequest i) = i"
| "owner_id (GenerationJob i) = i"

datatype staging_purpose = PRequest | PResponse | PResult | PAssets | PMedia

fun purpose_str :: "staging_purpose \<Rightarrow> string" where
  "purpose_str PRequest = ''request''"
| "purpose_str PResponse = ''response''"
| "purpose_str PResult = ''result''"
| "purpose_str PAssets = ''assets''"
| "purpose_str PMedia = ''media''"

text \<open>\<open>up\<close> is \<open>Uuid::parse_str\<close>, giving the canonical text of what it accepts.\<close>

definition parse_canonical_uuid :: "(string \<Rightarrow> uuid option) \<Rightarrow> string \<Rightarrow> uuid res" where
  "parse_canonical_uuid up value =
     rbind (ok_or (up value) (internal ''archive_staging_parse_canonical_uuid_1'')) (\<lambda>parsed.
     rbind (ensure (parsed = value) (internal ''archive_staging_parse_canonical_uuid_2'')) (\<lambda>_. Inr parsed))"

definition owner_parse :: "(string \<Rightarrow> uuid option) \<Rightarrow> string \<Rightarrow> string \<Rightarrow> staging_owner res" where
  "owner_parse up kind i =
     rbind (parse_canonical_uuid up i) (\<lambda>i.
     if kind = ''proxy_request'' then Inr (ProxyRequest i)
     else if kind = ''synchronous_request'' then Inr (SynchronousRequest i)
     else if kind = ''generation_job'' then Inr (GenerationJob i)
     else Inl (internal ''archive_staging_parse_1''))"

definition purpose_parse :: "string \<Rightarrow> staging_purpose res" where
  "purpose_parse v =
     (if v = ''request'' then Inr PRequest
      else if v = ''response'' then Inr PResponse
      else if v = ''result'' then Inr PResult
      else if v = ''assets'' then Inr PAssets
      else if v = ''media'' then Inr PMedia
      else Inl (internal ''archive_staging_parse_2''))"

definition valid_owner_purpose :: "staging_owner \<Rightarrow> staging_purpose \<Rightarrow> bool" where
  "valid_owner_purpose ow p = (case ow of
      ProxyRequest _ \<Rightarrow> p \<in> {PRequest, PResponse, PMedia}
    | SynchronousRequest _ \<Rightarrow> p \<in> {PRequest, PResult, PMedia}
    | GenerationJob _ \<Rightarrow> p \<in> {PRequest, PAssets})"

record staging_key =
  sk_owner :: staging_owner
  sk_purpose :: staging_purpose
  sk_attempt_id :: uuid

definition staging_key_new :: "staging_owner \<Rightarrow> staging_purpose \<Rightarrow> uuid \<Rightarrow> staging_key res" where
  "staging_key_new ow p i =
     rbind (ensure (valid_owner_purpose ow p)
       (BadRequest ''archive staging owner and purpose are incompatible'')) (\<lambda>_.
     Inr \<lparr>sk_owner = ow, sk_purpose = p, sk_attempt_id = i\<rparr>)"

definition from_database :: "(string \<Rightarrow> uuid option) \<Rightarrow> string \<Rightarrow> string \<Rightarrow> string \<Rightarrow> string \<Rightarrow> staging_key res" where
  "from_database up kind oid purpose attempt =
     rbind (owner_parse up kind oid) (\<lambda>ow.
     rbind (purpose_parse purpose) (\<lambda>p.
     rbind (parse_canonical_uuid up attempt) (\<lambda>i. staging_key_new ow p i)))"

definition canonical_prefix :: "staging_key \<Rightarrow> string" where
  "canonical_prefix k = ''staging/'' @ path_kind (sk_owner k) @ ''/'' @ owner_id (sk_owner k) @ ''/'' @
     purpose_str (sk_purpose k) @ ''/'' @ sk_attempt_id k"

definition valid_digest :: "string \<Rightarrow> bool" where
  "valid_digest v \<longleftrightarrow> length v = 64 \<and> list_all is_lower_hex v"

definition is_owner_byte :: "byte \<Rightarrow> bool" where
  "is_owner_byte c \<longleftrightarrow> is_ascii_digit c \<or> is_ascii_lower c \<or> is_ascii_lower (ascii_lower c) \<or> c \<in> set ''._-:''"

definition intent_digest_new :: "string \<Rightarrow> string res" where
  "intent_digest_new v = rbind (ensure (valid_digest v)
     (BadRequest ''archive staging intent digest must be lower-case SHA-256'')) (\<lambda>_. Inr v)"

definition lease_owner_new :: "string \<Rightarrow> string res" where
  "lease_owner_new v = rbind (ensure (\<not> (v = [] \<or> 128 < length v \<or> \<not> list_all is_owner_byte v))
     (BadRequest ''archive staging lease owner must contain safe ASCII characters'')) (\<lambda>_. Inr v)"

subsection \<open>Locators\<close>

definition locator_matches_prefix :: "string \<Rightarrow> string \<Rightarrow> bool" where
  "locator_matches_prefix locator prefix \<longleftrightarrow> locator = prefix \<or>
     (case strip_prefix prefix locator of None \<Rightarrow> False | Some suffix \<Rightarrow> suffix \<noteq> [] \<and> hd suffix = CHR ''/'')"

fun contains :: "string \<Rightarrow> string \<Rightarrow> bool" where
  "contains pat [] = (pat = [])"
| "contains pat (c # s) = (strip_prefix pat (c # s) \<noteq> None \<or> contains pat s)"

fun split_slash :: "string \<Rightarrow> string list" where
  "split_slash [] = [[]]"
| "split_slash (c # s) = (if c = CHR ''/'' then [] # split_slash s
     else case split_slash s of [] \<Rightarrow> [[c]] | seg # segs \<Rightarrow> (c # seg) # segs)"

definition valid_segment :: "string \<Rightarrow> bool" where
  "valid_segment seg \<longleftrightarrow> seg \<noteq> [] \<and> seg \<noteq> ''.'' \<and> seg \<noteq> ''..'' \<and> \<not> contains ''%2e'' (to_ascii_lowercase seg)"

definition is_ascii_control :: "byte \<Rightarrow> bool" where
  "is_ascii_control c \<longleftrightarrow> (of_char c :: nat) < 32 \<or> (of_char c :: nat) = 127"

definition valid_object_locator :: "string \<Rightarrow> bool" where
  "valid_object_locator v \<longleftrightarrow>
     \<not> (v = [] \<or> 1024 < length v \<or> hd v = CHR ''/'' \<or> last v = CHR ''/'' \<or> CHR 0x5C \<in> set v \<or>
        list_ex is_ascii_control v) \<and>
     list_all valid_segment (split_slash v)"

definition validate_bound_locator :: "staging_key \<Rightarrow> string \<Rightarrow> unit res" where
  "validate_bound_locator k locator =
     ensure (\<not> (\<not> valid_object_locator locator \<or> \<not> locator_matches_prefix locator (canonical_prefix k)))
       (BadRequest ''archive staging binding must stay inside its canonical prefix'')"

text \<open>The object key of a media part of an archived conversation; the message is UTF-8 text.\<close>

definition media_key_message :: string where
  "media_key_message =
     [CHR 0xE4, CHR 0xBC, CHR 0x9A, CHR 0xE8, CHR 0xAF, CHR 0x9D, CHR 0xE6, CHR 0xAD,
      CHR 0xA3, CHR 0xE6, CHR 0x96, CHR 0x87, CHR 0xE5, CHR 0xBD, CHR 0x92, CHR 0xE6,
      CHR 0xA1, CHR 0xA3, CHR 0xE7, CHR 0x9A, CHR 0x84, CHR 0xE5, CHR 0xAA, CHR 0x92,
      CHR 0xE4, CHR 0xBD, CHR 0x93, CHR 0xE5, CHR 0xAF, CHR 0xB9, CHR 0xE8, CHR 0xB1,
      CHR 0xA1, CHR 0xE9, CHR 0x94, CHR 0xAE, CHR 0xE5, CHR 0xBF, CHR 0x85, CHR 0xE9,
      CHR 0xA1, CHR 0xBB, CHR 0xE6, CHR 0x98, CHR 0xAF, CHR 0x20, CHR 0x6D, CHR 0x65,
      CHR 0x64, CHR 0x69, CHR 0x61, CHR 0x20, CHR 0xE7, CHR 0x94, CHR 0xA8, CHR 0xE9,
      CHR 0x80, CHR 0x94, CHR 0xE5, CHR 0x92, CHR 0x8C, CHR 0x20, CHR 0x62, CHR 0x6C,
      CHR 0x61, CHR 0x6B, CHR 0x65, CHR 0x33]"

definition conversation_media_locator :: "staging_key \<Rightarrow> string \<Rightarrow> string res" where
  "conversation_media_locator k blake3 =
     rbind (ensure (\<not> (sk_purpose k \<noteq> PMedia \<or> \<not> valid_digest blake3)) (BadRequest media_key_message)) (\<lambda>_.
     let locator = canonical_prefix k @ ''/'' @ blake3 in
     rbind (validate_bound_locator k locator) (\<lambda>_. Inr locator))"

subsection \<open>Back-off\<close>

definition cleanup_backoff_millis :: "nat \<Rightarrow> int" where
  "cleanup_backoff_millis failure_count = min (sat (5000 * 2 ^ min (failure_count - 1) 20)) 21600000"

definition hex_value :: "byte \<Rightarrow> nat" where
  "hex_value c = (if is_ascii_digit c then of_char c - 48 else of_char c - 87)"

text \<open>The first eight bytes of a UUID, read from its canonical text.\<close>

definition uuid_high64 :: "uuid \<Rightarrow> nat" where
  "uuid_high64 u = foldl (\<lambda>a c. 16 * a + hex_value c) 0 (take 16 (filter (\<lambda>c. c \<noteq> CHR ''-'') u))"

definition cleanup_backoff_with_jitter :: "uuid \<Rightarrow> nat \<Rightarrow> int" where
  "cleanup_backoff_with_jitter attempt failure_count =
     (let base = cleanup_backoff_millis failure_count;
          jitter_bound = max 1 (min (base div 4) 60000)
      in min (sat (base + int (uuid_high64 attempt) mod jitter_bound)) 21600000)"

subsection \<open>Attempts\<close>

datatype staging_state = Writing | Bound | CleanupPending | Cleaned

record staging_row =
  sg_owner :: staging_owner
  sg_purpose :: staging_purpose
  sg_intent_digest :: string
  sg_state :: staging_state
  sg_writer_owner :: string
  sg_writer_token :: uuid
  sg_lease_owner :: "string option"
  sg_lease_token :: "uuid option"
  sg_lease_expires_at :: "int option"
  sg_bound_locator :: "string option"
  sg_bound_at :: "int option"
  sg_empty_observed_at :: "int option"
  sg_cleanup_failures :: int
  sg_next_cleanup_at :: "int option"
  sg_last_error_code :: "string option"
  sg_created_at :: int
  sg_updated_at :: int
  sg_cleaned_at :: "int option"

type_synonym staging_table = "(uuid, staging_row) table" \<comment> \<open>by attempt\<close>

definition row_key :: "uuid \<Rightarrow> staging_row \<Rightarrow> staging_key" where
  "row_key i r = \<lparr>sk_owner = sg_owner r, sk_purpose = sg_purpose r, sk_attempt_id = i\<rparr>"

record write_lease =
  wl_key :: staging_key
  wl_owner :: string
  wl_token :: uuid
  wl_expires_at :: int

text \<open>A cleanup lease carries the attempt as the claim read it, with the time of the claim.\<close>

record cleanup_lease =
  cl_key :: staging_key
  cl_attempt :: staging_row
  cl_owner :: string
  cl_token :: uuid
  cl_expires_at :: int

record begin_input =
  bi_key :: staging_key
  bi_intent_digest :: string
  bi_lease_token :: uuid
  bi_lease_owner :: string

datatype begin_result = Created write_lease | Replayed write_lease | Existing staging_row

definition archive_database_now :: "int \<Rightarrow> int res" where
  "archive_database_now now = rbind (ensure (0 \<le> now) (internal ''archive_staging_archive_database_now_1'')) (\<lambda>_. Inr now)"

definition new_attempt :: "begin_input \<Rightarrow> int \<Rightarrow> int \<Rightarrow> staging_row" where
  "new_attempt i now expires_at =
     \<lparr>sg_owner = sk_owner (bi_key i), sg_purpose = sk_purpose (bi_key i), sg_intent_digest = bi_intent_digest i,
      sg_state = Writing, sg_writer_owner = bi_lease_owner i, sg_writer_token = bi_lease_token i,
      sg_lease_owner = Some (bi_lease_owner i), sg_lease_token = Some (bi_lease_token i),
      sg_lease_expires_at = Some expires_at, sg_bound_locator = None, sg_bound_at = None,
      sg_empty_observed_at = None, sg_cleanup_failures = 0, sg_next_cleanup_at = None, sg_last_error_code = None,
      sg_created_at = now, sg_updated_at = now, sg_cleaned_at = None\<rparr>"

definition begin_archive_staging_attempt :: "staging_table \<Rightarrow> begin_input \<Rightarrow> int \<Rightarrow> (staging_table \<times> begin_result) res" where
  "begin_archive_staging_attempt t i clock =
     rbind (archive_database_now clock) (\<lambda>now.
     rbind (ok_or (checked (now + WRITE_LEASE_MILLIS))
       (internal ''archive_staging_begin_archive_staging_attempt_1'')) (\<lambda>expires_at.
     let a = sk_attempt_id (bi_key i);
         lease = \<lparr>wl_key = bi_key i, wl_owner = bi_lease_owner i, wl_token = bi_lease_token i, wl_expires_at = expires_at\<rparr>
     in case tget t a of
          None \<Rightarrow> Inr (tput a (new_attempt i now expires_at) t, Created lease)
        | Some r \<Rightarrow>
            rbind (ensure (row_key a r = bi_key i \<and> sg_intent_digest r = bi_intent_digest i \<and>
                sg_writer_owner r = bi_lease_owner i \<and> sg_writer_token r = bi_lease_token i)
              (Conflict ''archive staging attempt identity already exists'')) (\<lambda>_.
            Inr (t, case sg_lease_expires_at r of
                None \<Rightarrow> Existing r
              | Some expiry \<Rightarrow> if sg_state r = Writing \<and> now < expiry then Replayed (lease\<lparr>wl_expires_at := expiry\<rparr>)
                               else Existing r))))"

text \<open>The condition of every statement that needs a live lease on an attempt in one state.\<close>

definition live_lease :: "staging_state \<Rightarrow> string \<Rightarrow> uuid \<Rightarrow> int \<Rightarrow> staging_row \<Rightarrow> bool" where
  "live_lease st owner token now r \<longleftrightarrow> sg_state r = st \<and> sg_lease_owner r = Some owner \<and> sg_lease_token r = Some token \<and>
     (case sg_lease_expires_at r of None \<Rightarrow> False | Some e \<Rightarrow> now < e)"

definition drop_lease :: "staging_row \<Rightarrow> staging_row" where
  "drop_lease r = r\<lparr>sg_lease_owner := None, sg_lease_token := None, sg_lease_expires_at := None\<rparr>"

definition heartbeat_archive_staging_write :: "staging_table \<Rightarrow> write_lease \<Rightarrow> int \<Rightarrow> (staging_table \<times> write_lease \<times> bool) res" where
  "heartbeat_archive_staging_write t l clock =
     rbind (archive_database_now clock) (\<lambda>now.
     rbind (ok_or (checked (now + WRITE_LEASE_MILLIS))
       (internal ''archive_staging_heartbeat_archive_staging_write_1'')) (\<lambda>expires_at.
     let (t, updated) = tupdate (sk_attempt_id (wl_key l)) (live_lease Writing (wl_owner l) (wl_token l) now)
           (\<lambda>r. r\<lparr>sg_lease_expires_at := Some expires_at, sg_updated_at := now\<rparr>) t
     in Inr (t, if updated then l\<lparr>wl_expires_at := expires_at\<rparr> else l, updated)))"

definition bind_archive_staging_attempt :: "staging_table \<Rightarrow> write_lease \<Rightarrow> string \<Rightarrow> int \<Rightarrow> (staging_table \<times> bool) res" where
  "bind_archive_staging_attempt t l locator clock =
     rbind (validate_bound_locator (wl_key l) locator) (\<lambda>_.
     rbind (archive_database_now clock) (\<lambda>now.
     let a = sk_attempt_id (wl_key l);
         (t', updated) = tupdate a (live_lease Writing (wl_owner l) (wl_token l) now)
           (\<lambda>r. (drop_lease r)\<lparr>sg_state := Bound, sg_bound_locator := Some locator, sg_bound_at := Some now,
                 sg_updated_at := now\<rparr>) t
     in Inr (t', updated \<or> (case tget t a of None \<Rightarrow> False
          | Some r \<Rightarrow> row_key a r = wl_key l \<and> sg_state r = Bound \<and> sg_bound_locator r = Some locator))))"

definition publish_archive_staging_cas :: "staging_table \<Rightarrow> write_lease \<Rightarrow> int \<Rightarrow> (staging_table \<times> bool) res" where
  "publish_archive_staging_cas t l clock =
     (let a = sk_attempt_id (wl_key l) in
      case tget t a of
        None \<Rightarrow> Inr (t, False)
      | Some r \<Rightarrow>
          if row_key a r \<noteq> wl_key l then Inr (t, False)
          else rbind (archive_database_now clock) (\<lambda>now.
            let (t', updated) = tupdate a (live_lease Writing (wl_owner l) (wl_token l) now)
                  (\<lambda>r. (drop_lease r)\<lparr>sg_state := CleanupPending, sg_bound_locator := None, sg_bound_at := Some now,
                        sg_next_cleanup_at := Some now, sg_empty_observed_at := None, sg_last_error_code := None,
                        sg_updated_at := now\<rparr>) t
            in Inr (t', updated \<or> (sg_state r = CleanupPending \<and> sg_bound_at r \<noteq> None \<and>
                 sg_writer_owner r = wl_owner l \<and> sg_writer_token r = wl_token l))))"

definition release_bound_archive_staging_attempt :: "staging_table \<Rightarrow> staging_key \<Rightarrow> string \<Rightarrow> int \<Rightarrow> (staging_table \<times> bool) res" where
  "release_bound_archive_staging_attempt t k locator clock =
     rbind (validate_bound_locator k locator) (\<lambda>_.
     rbind (archive_database_now clock) (\<lambda>now.
     let a = sk_attempt_id k;
         (t', updated) = tupdate a (\<lambda>r. sg_state r = Bound \<and> sg_bound_locator r = Some locator)
           (\<lambda>r. r\<lparr>sg_state := CleanupPending, sg_bound_locator := None, sg_next_cleanup_at := Some now,
                 sg_empty_observed_at := None, sg_last_error_code := None, sg_updated_at := now\<rparr>) t
     in Inr (t', updated \<or> (case tget t a of None \<Rightarrow> False
          | Some r \<Rightarrow> row_key a r = k \<and> sg_state r \<in> {CleanupPending, Cleaned} \<and> sg_bound_at r \<noteq> None))))"

definition abandon_archive_staging_attempt :: "staging_table \<Rightarrow> write_lease \<Rightarrow> int \<Rightarrow> (staging_table \<times> bool) res" where
  "abandon_archive_staging_attempt t l clock =
     rbind (archive_database_now clock) (\<lambda>now.
     Inr (tupdate (sk_attempt_id (wl_key l)) (live_lease Writing (wl_owner l) (wl_token l) now)
       (\<lambda>r. (drop_lease r)\<lparr>sg_state := CleanupPending, sg_next_cleanup_at := Some now, sg_updated_at := now\<rparr>) t))"

text \<open>The batch of expired writers, oldest lease first; every one of them is updated.\<close>

definition lease_expired :: "int \<Rightarrow> staging_row \<Rightarrow> bool" where
  "lease_expired now r \<longleftrightarrow> (case sg_lease_expires_at r of None \<Rightarrow> False | Some e \<Rightarrow> e \<le> now)"

definition stale_writers :: "staging_table \<Rightarrow> int \<Rightarrow> uuid list" where
  "stale_writers t now = map fst (take CLAIM_BATCH (sort_key (\<lambda>(a, r). (the (sg_lease_expires_at r), a))
     (filter (\<lambda>(a, r). sg_state r = Writing \<and> lease_expired now r) t)))"

fun promote_attempts :: "int \<Rightarrow> int \<Rightarrow> uuid list \<Rightarrow> staging_table \<Rightarrow> staging_table \<times> nat" where
  "promote_attempts now next_cleanup_at [] t = (t, 0)"
| "promote_attempts now next_cleanup_at (a # as) t =
     (let (t, updated) = tupdate a (\<lambda>r. sg_state r = Writing \<and> lease_expired now r)
            (\<lambda>r. (drop_lease r)\<lparr>sg_state := CleanupPending, sg_next_cleanup_at := Some next_cleanup_at,
                  sg_updated_at := now\<rparr>) t;
          (t, n) = promote_attempts now next_cleanup_at as t
      in (t, if updated then Suc n else n))"

definition promote_stale_archive_staging_attempts :: "staging_table \<Rightarrow> int \<Rightarrow> (staging_table \<times> nat) res" where
  "promote_stale_archive_staging_attempts t clock =
     rbind (archive_database_now clock) (\<lambda>now.
     rbind (ok_or (checked (now + STALE_DELETE_GRACE_MILLIS))
       (internal ''archive_staging_promote_stale_archive_staging_attempts_1'')) (\<lambda>next_cleanup_at.
     Inr (promote_attempts now next_cleanup_at (stale_writers t now) t)))"

subsection \<open>Clean-up\<close>

definition claimable :: "int \<Rightarrow> staging_row \<Rightarrow> bool" where
  "claimable now r \<longleftrightarrow> sg_state r = CleanupPending \<and> (sg_lease_expires_at r = None \<or> lease_expired now r)"

definition cleanup_candidates :: "staging_table \<Rightarrow> int \<Rightarrow> (uuid \<times> staging_row) list" where
  "cleanup_candidates t now = sort_key (\<lambda>(a, r). (the (sg_next_cleanup_at r), a))
     (filter (\<lambda>(a, r). claimable now r \<and> (case sg_next_cleanup_at r of None \<Rightarrow> False | Some n \<Rightarrow> n \<le> now)) t)"

definition claim_archive_staging_cleanup ::
  "staging_table \<Rightarrow> string \<Rightarrow> uuid \<Rightarrow> int \<Rightarrow> (staging_table \<times> cleanup_lease option) res" where
  "claim_archive_staging_cleanup t owner token clock =
     rbind (archive_database_now clock) (\<lambda>now.
     case cleanup_candidates t now of
       [] \<Rightarrow> Inr (t, None)
     | (a, r) # _ \<Rightarrow>
         rbind (ok_or (checked (now + CLEANUP_LEASE_MILLIS))
           (internal ''archive_staging_claim_archive_staging_cleanup_1'')) (\<lambda>expires_at.
         let (t, updated) = tupdate a (claimable now)
               (\<lambda>r. r\<lparr>sg_lease_owner := Some owner, sg_lease_token := Some token,
                     sg_lease_expires_at := Some expires_at, sg_updated_at := now\<rparr>) t
         in rbind (ensure updated (internal ''archive_staging_claim_archive_staging_cleanup_2'')) (\<lambda>_.
            Inr (t, Some \<lparr>cl_key = row_key a r, cl_attempt = r\<lparr>sg_updated_at := now\<rparr>, cl_owner = owner,
                          cl_token = token, cl_expires_at = expires_at\<rparr>))))"

definition heartbeat_archive_staging_cleanup ::
  "staging_table \<Rightarrow> cleanup_lease \<Rightarrow> int \<Rightarrow> (staging_table \<times> cleanup_lease \<times> bool) res" where
  "heartbeat_archive_staging_cleanup t l clock =
     rbind (archive_database_now clock) (\<lambda>now.
     rbind (ok_or (checked (now + CLEANUP_LEASE_MILLIS))
       (internal ''archive_staging_heartbeat_archive_staging_cleanup_1'')) (\<lambda>expires_at.
     let (t, updated) = tupdate (sk_attempt_id (cl_key l)) (live_lease CleanupPending (cl_owner l) (cl_token l) now)
           (\<lambda>r. r\<lparr>sg_lease_expires_at := Some expires_at, sg_updated_at := now\<rparr>) t
     in Inr (t, if updated then l\<lparr>cl_expires_at := expires_at, cl_attempt := (cl_attempt l)\<lparr>sg_updated_at := now\<rparr>\<rparr>
                else l, updated)))"

abbreviation fenced :: app_error where
  "fenced \<equiv> Conflict ''archive staging cleanup lease was fenced''"

definition lock_and_verify_cleanup_lease :: "staging_table \<Rightarrow> cleanup_lease \<Rightarrow> int \<Rightarrow> staging_row res" where
  "lock_and_verify_cleanup_lease t l now =
     rbind (ok_or (tget t (sk_attempt_id (cl_key l))) NotFound) (\<lambda>r.
     rbind (ensure (live_lease CleanupPending (cl_owner l) (cl_token l) now r) fenced) (\<lambda>_.
     rbind (ensure (row_key (sk_attempt_id (cl_key l)) r = cl_key l)
       (internal ''archive_staging_lock_and_verify_cleanup_lease_1'')) (\<lambda>_. Inr r)))"

text \<open>
  What the reference check reads of other tables: the locators of request rows, of
  generation jobs (with the recovery manifest: its attempt and its asset locators, or
  \<open>Some None\<close> when the text does not parse), of archived assets, of stored image responses and
  of conversation media, and the commit mark of a conversation archive.
\<close>

record archive_refs =
  rf_requests :: "(uuid, string \<times> string option) table"
  rf_projected :: "(uuid, int option) table"
  rf_jobs :: "(uuid, string \<times> (uuid \<times> string list) option option) table"
  rf_request_assets :: "(uuid \<times> string) list"
  rf_job_assets :: "(uuid \<times> string) list"
  rf_image_responses :: "(uuid \<times> string option) list"
  rf_media :: "(string \<times> string) list" \<comment> \<open>locator, BLAKE3 digest\<close>

definition request_response_archive_pending :: "staging_key \<Rightarrow> bool" where
  "request_response_archive_pending k \<longleftrightarrow>
     (case sk_owner k of ProxyRequest _ \<Rightarrow> True | _ \<Rightarrow> False) \<and> sk_purpose k \<in> {PRequest, PResponse}"

definition conversation_archive_committed :: "archive_refs \<Rightarrow> uuid \<Rightarrow> bool" where
  "conversation_archive_committed rf i \<longleftrightarrow> (case tget (rf_projected rf) i of Some (Some _) \<Rightarrow> True | _ \<Rightarrow> False)"

definition conversation_media_reference :: "archive_refs \<Rightarrow> string \<Rightarrow> string option" where
  "conversation_media_reference rf prefix = map_option fst
     (find (\<lambda>(l, b). l = prefix \<or> take (length prefix + 1) l = prefix @ ''/'' \<or>
        length b < length prefix \<and> drop (length prefix - length b - 1) prefix = ''/'' @ b) (rf_media rf))"

definition request_reference :: "archive_refs \<Rightarrow> staging_key \<Rightarrow> string \<Rightarrow> string option" where
  "request_reference rf k prefix = (case tget (rf_requests rf) (owner_id (sk_owner k)) of
      None \<Rightarrow> if request_response_archive_pending k then Some prefix else None
    | Some (request, response) \<Rightarrow>
        if locator_matches_prefix request prefix then Some request
        else case response of
            Some l \<Rightarrow> if locator_matches_prefix l prefix then Some l
              else if request_response_archive_pending k \<and> \<not> conversation_archive_committed rf (owner_id (sk_owner k))
                then Some prefix else None
          | None \<Rightarrow> if request_response_archive_pending k \<and> \<not> conversation_archive_committed rf (owner_id (sk_owner k))
                then Some prefix else None)"

definition job_reference :: "archive_refs \<Rightarrow> staging_key \<Rightarrow> string \<Rightarrow> string option res" where
  "job_reference rf k prefix = (case tget (rf_jobs rf) (owner_id (sk_owner k)) of
      None \<Rightarrow> Inr None
    | Some (request, manifest) \<Rightarrow>
        if locator_matches_prefix request prefix then Inr (Some request)
        else case manifest of
            None \<Rightarrow> Inr None
          | Some None \<Rightarrow> Inl (internal ''archive_staging_archive_staging_reference_1'')
          | Some (Some (nonce, locators)) \<Rightarrow>
              Inr (if nonce = sk_attempt_id k then Some prefix
                   else find (\<lambda>l. locator_matches_prefix l prefix) locators))"

definition asset_reference :: "(uuid \<times> string) list \<Rightarrow> staging_key \<Rightarrow> string \<Rightarrow> string option" where
  "asset_reference rows k prefix = map_option snd
     (find (\<lambda>(i, l). i = owner_id (sk_owner k) \<and> (l = prefix \<or> take (length prefix + 1) l = prefix @ ''/'')) rows)"

definition image_reference :: "archive_refs \<Rightarrow> staging_key \<Rightarrow> string \<Rightarrow> string option" where
  "image_reference rf k prefix = (case sk_owner k of
      SynchronousRequest i \<Rightarrow> Option.bind (find (\<lambda>(j, r). j = i \<and> (case r of None \<Rightarrow> False
          | Some l \<Rightarrow> l = prefix \<or> take (length prefix + 1) l = prefix @ ''/'')) (rf_image_responses rf)) snd
    | _ \<Rightarrow> None)"

definition first_some :: "'a option \<Rightarrow> 'a option \<Rightarrow> 'a option" where
  "first_some x y = (case x of None \<Rightarrow> y | Some a \<Rightarrow> Some a)"

definition archive_staging_reference :: "archive_refs \<Rightarrow> staging_key \<Rightarrow> string \<Rightarrow> string option res" where
  "archive_staging_reference rf k prefix =
     rbind (case sk_owner k of GenerationJob _ \<Rightarrow> job_reference rf k prefix
            | _ \<Rightarrow> Inr (request_reference rf k prefix)) (\<lambda>own.
     Inr (first_some own (first_some
       (case sk_owner k of GenerationJob _ \<Rightarrow> asset_reference (rf_job_assets rf) k prefix
        | _ \<Rightarrow> asset_reference (rf_request_assets rf) k prefix)
       (first_some (image_reference rf k prefix) (conversation_media_reference rf prefix)))))"

datatype cleanup_error = ObjectStoreUnavailable | DeleteFailed | VerificationFailed | ReferenceCheckFailed | ReferencePresent

fun cleanup_error_str :: "cleanup_error \<Rightarrow> string" where
  "cleanup_error_str ObjectStoreUnavailable = ''object_store_unavailable''"
| "cleanup_error_str DeleteFailed = ''delete_failed''"
| "cleanup_error_str VerificationFailed = ''verification_failed''"
| "cleanup_error_str ReferenceCheckFailed = ''reference_check_failed''"
| "cleanup_error_str ReferencePresent = ''reference_present''"

text \<open>
  Releasing a clean-up with a counted failure: the shared tail of a positive reference check
  and of a failed deletion. \<open>site\<close> names the internal error of the caller.
\<close>

definition release_with_failure ::
  "staging_table \<Rightarrow> cleanup_lease \<Rightarrow> staging_row \<Rightarrow> string \<Rightarrow> string \<Rightarrow> int \<Rightarrow> (staging_table \<times> int) res" where
  "release_with_failure t l r site code now =
     (let failures = min (sat (sg_cleanup_failures r + 1)) 63 in
      rbind (ensure (0 \<le> failures) (internal site)) (\<lambda>_.
      rbind (ok_or (checked (now + cleanup_backoff_with_jitter (sk_attempt_id (cl_key l)) (nat failures)))
        (internal site)) (\<lambda>next_cleanup_at.
      let (t, updated) = tupdate (sk_attempt_id (cl_key l)) (live_lease CleanupPending (cl_owner l) (cl_token l) now)
            (\<lambda>r. (drop_lease r)\<lparr>sg_empty_observed_at := None, sg_cleanup_failures := failures,
                  sg_next_cleanup_at := Some next_cleanup_at, sg_last_error_code := Some code, sg_updated_at := now\<rparr>) t
      in rbind (ensure updated fenced) (\<lambda>_. Inr (t, next_cleanup_at)))))"

datatype reference_proof = Unreferenced cleanup_lease int | Protected string

definition prove_archive_staging_unreferenced ::
  "archive_refs \<Rightarrow> staging_table \<Rightarrow> cleanup_lease \<Rightarrow> int \<Rightarrow> (staging_table \<times> reference_proof) res" where
  "prove_archive_staging_unreferenced rf t l clock =
     rbind (archive_database_now clock) (\<lambda>now.
     rbind (lock_and_verify_cleanup_lease t l now) (\<lambda>r.
     rbind (archive_staging_reference rf (cl_key l) (canonical_prefix (cl_key l))) (\<lambda>ref.
     case ref of
       Some locator \<Rightarrow>
         rbind (release_with_failure t l r ''archive_staging_prove_archive_staging_unreferenced_1''
                 (cleanup_error_str ReferencePresent) now) (\<lambda>(t, _).
         Inr (t, Protected locator))
     | None \<Rightarrow> Inr (t, Unreferenced l now))))"

datatype empty_result = FirstObservation int | CleanedUp

definition record_archive_staging_empty ::
  "staging_table \<Rightarrow> cleanup_lease \<Rightarrow> int \<Rightarrow> int \<Rightarrow> (staging_table \<times> empty_result) res" where
  "record_archive_staging_empty t l proved_at clock =
     rbind (archive_database_now clock) (\<lambda>now.
     rbind (lock_and_verify_cleanup_lease t l now) (\<lambda>r.
     rbind (ensure (\<not> (now < proved_at \<or> proved_at < sg_updated_at (cl_attempt l)))
       (Conflict ''archive staging reference proof is stale'')) (\<lambda>_.
     case sg_empty_observed_at r of
       Some observed \<Rightarrow>
         rbind (ok_or (checked (observed + EMPTY_STABILITY_MILLIS))
           (internal ''archive_staging_record_archive_staging_empty_1'')) (\<lambda>confirm_after.
         rbind (ensure (confirm_after \<le> now)
           (Conflict ''archive staging empty confirmation is not stable yet'')) (\<lambda>_.
         let (t, updated) = tupdate (sk_attempt_id (cl_key l))
               (\<lambda>r. live_lease CleanupPending (cl_owner l) (cl_token l) now r \<and> sg_empty_observed_at r = Some observed)
               (\<lambda>r. (drop_lease r)\<lparr>sg_state := Cleaned, sg_next_cleanup_at := None, sg_last_error_code := None,
                     sg_cleaned_at := Some now, sg_updated_at := now\<rparr>) t
         in rbind (ensure updated fenced) (\<lambda>_. Inr (t, CleanedUp))))
     | None \<Rightarrow>
         rbind (ok_or (checked (now + EMPTY_STABILITY_MILLIS))
           (internal ''archive_staging_record_archive_staging_empty_2'')) (\<lambda>confirm_after.
         let (t, updated) = tupdate (sk_attempt_id (cl_key l))
               (\<lambda>r. live_lease CleanupPending (cl_owner l) (cl_token l) now r \<and> sg_empty_observed_at r = None)
               (\<lambda>r. (drop_lease r)\<lparr>sg_empty_observed_at := Some now, sg_next_cleanup_at := Some confirm_after,
                     sg_last_error_code := None, sg_updated_at := now\<rparr>) t
         in rbind (ensure updated fenced) (\<lambda>_. Inr (t, FirstObservation confirm_after))))))"

definition record_archive_staging_cleanup_failure ::
  "staging_table \<Rightarrow> cleanup_lease \<Rightarrow> cleanup_error \<Rightarrow> int \<Rightarrow> (staging_table \<times> int) res" where
  "record_archive_staging_cleanup_failure t l code clock =
     rbind (archive_database_now clock) (\<lambda>now.
     rbind (lock_and_verify_cleanup_lease t l now) (\<lambda>r.
     release_with_failure t l r ''archive_staging_record_archive_staging_cleanup_failure_1''
       (cleanup_error_str code) now))"

text \<open>The clean-up statements that the owners of attempts run in their own transactions.\<close>

definition surrender :: "int \<Rightarrow> staging_row \<Rightarrow> staging_row" where
  "surrender now r = (drop_lease r)\<lparr>sg_state := CleanupPending, sg_next_cleanup_at := Some now,
     sg_empty_observed_at := None, sg_last_error_code := None, sg_updated_at := now\<rparr>"

definition cleanup_archive_staging_attempt :: "staging_table \<Rightarrow> staging_key \<Rightarrow> int \<Rightarrow> staging_table \<times> bool" where
  "cleanup_archive_staging_attempt t k now = tupdate (sk_attempt_id k)
     (\<lambda>r. owner_kind (sg_owner r) = owner_kind (sk_owner k) \<and> owner_id (sg_owner r) = owner_id (sk_owner k) \<and>
          sg_purpose r = sk_purpose k \<and> sg_state r \<in> {Writing, Bound})
     (\<lambda>r. (surrender now r)\<lparr>sg_bound_locator := None\<rparr>) t"

definition cleanup_archive_staging_purpose ::
  "staging_table \<Rightarrow> staging_owner \<Rightarrow> staging_purpose \<Rightarrow> int \<Rightarrow> staging_table" where
  "cleanup_archive_staging_purpose t ow p now = tupdate_all
     (\<lambda>r. owner_kind (sg_owner r) = owner_kind ow \<and> owner_id (sg_owner r) = owner_id ow \<and> sg_purpose r = p \<and>
          sg_state r \<in> {Writing, Bound})
     (\<lambda>r. (surrender now r)\<lparr>sg_bound_locator := None\<rparr>) t"

definition cleanup_writing_archive_staging_purpose ::
  "staging_table \<Rightarrow> staging_owner \<Rightarrow> staging_purpose \<Rightarrow> int \<Rightarrow> staging_table" where
  "cleanup_writing_archive_staging_purpose t ow p now = tupdate_all
     (\<lambda>r. owner_kind (sg_owner r) = owner_kind ow \<and> owner_id (sg_owner r) = owner_id ow \<and> sg_purpose r = p \<and>
          sg_state r = Writing)
     (surrender now) t"

subsection \<open>The reaper\<close>

text \<open>
  The object store is a parameter: \<open>st_delete\<close> and \<open>st_empty\<close> are what the two calls on a
  segment do to its contents and report, \<open>st_timeout\<close> that the calls together took too long
  (their effect may or may not have happened).
\<close>

record 'o object_store =
  st_timeout :: "staging_key \<Rightarrow> 'o \<Rightarrow> 'o option"
  st_delete :: "staging_key \<Rightarrow> 'o \<Rightarrow> 'o \<times> bool"
  st_empty :: "staging_key \<Rightarrow> 'o \<Rightarrow> bool option"

datatype claim_result = ClaimProtected | ClaimObservedEmpty | ClaimCleaned | ClaimFailed

definition persist_failure :: "staging_table \<Rightarrow> cleanup_lease \<Rightarrow> cleanup_error \<Rightarrow> int \<Rightarrow> staging_table" where
  "persist_failure t l code now = (case record_archive_staging_cleanup_failure t l code now of
      Inl _ \<Rightarrow> t | Inr (t', _) \<Rightarrow> t')"

definition purge_segment :: "'o object_store \<Rightarrow> staging_key \<Rightarrow> 'o \<Rightarrow> 'o \<times> cleanup_error option" where
  "purge_segment st k obj = (case st_timeout st k obj of
      Some obj \<Rightarrow> (obj, Some ObjectStoreUnavailable)
    | None \<Rightarrow> (case st_delete st k obj of
        (obj, False) \<Rightarrow> (obj, Some DeleteFailed)
      | (obj, True) \<Rightarrow> (obj, if st_empty st k obj = Some True then None else Some VerificationFailed)))"

text \<open>One claimed attempt; \<open>n1\<close> and \<open>n2\<close> are the clock of its two transactions.\<close>

definition cleanup_claim ::
  "'o object_store \<Rightarrow> archive_refs \<Rightarrow> staging_table \<Rightarrow> 'o \<Rightarrow> cleanup_lease \<Rightarrow> int \<Rightarrow> int \<Rightarrow> staging_table \<times> 'o \<times> claim_result" where
  "cleanup_claim st rf t obj l n1 n2 = (case prove_archive_staging_unreferenced rf t l n1 of
      Inr (t, Protected _) \<Rightarrow> (t, obj, ClaimProtected)
    | Inl _ \<Rightarrow> (persist_failure t l ReferenceCheckFailed n2, obj, ClaimFailed)
    | Inr (t, Unreferenced l' proved_at) \<Rightarrow> (case purge_segment st (cl_key l) obj of
        (obj, Some code) \<Rightarrow> (persist_failure t l code n2, obj, ClaimFailed)
      | (obj, None) \<Rightarrow> (case record_archive_staging_empty t l' proved_at n2 of
          Inr (t, CleanedUp) \<Rightarrow> (t, obj, ClaimCleaned)
        | Inr (t, FirstObservation _) \<Rightarrow> (t, obj, ClaimObservedEmpty)
        | Inl _ \<Rightarrow> (t, obj, ClaimFailed))))"

text \<open>
  One pass: promote expired writers, then claim and clean up at most four attempts. \<open>tok\<close> and
  \<open>clock\<close> give the token and the clock readings of each round.
\<close>

fun reap_rounds ::
  "'o object_store \<Rightarrow> archive_refs \<Rightarrow> string \<Rightarrow> (nat \<Rightarrow> uuid) \<Rightarrow> (nat \<Rightarrow> int) \<Rightarrow> nat \<Rightarrow> nat \<Rightarrow> staging_table \<Rightarrow> 'o \<Rightarrow> nat \<Rightarrow> nat \<Rightarrow>
   (staging_table \<times> 'o \<times> nat \<times> nat) res" where
  "reap_rounds st rf owner tok clock i 0 t obj claimed cleaned = Inr (t, obj, claimed, cleaned)"
| "reap_rounds st rf owner tok clock i (Suc n) t obj claimed cleaned =
     rbind (claim_archive_staging_cleanup t owner (tok i) (clock (3 * i + 1))) (\<lambda>(t, lease).
     case lease of
       None \<Rightarrow> Inr (t, obj, claimed, cleaned)
     | Some l \<Rightarrow>
         let (t, obj, result) = cleanup_claim st rf t obj l (clock (3 * i + 2)) (clock (3 * i + 3))
         in reap_rounds st rf owner tok clock (Suc i) n t obj (Suc claimed)
              (if result = ClaimCleaned then Suc cleaned else cleaned))"

definition reap_once ::
  "'o object_store \<Rightarrow> archive_refs \<Rightarrow> string \<Rightarrow> (nat \<Rightarrow> uuid) \<Rightarrow> (nat \<Rightarrow> int) \<Rightarrow> staging_table \<Rightarrow> 'o \<Rightarrow>
   (staging_table \<times> 'o \<times> nat \<times> nat \<times> nat) res" where
  "reap_once st rf owner tok clock t obj =
     rbind (promote_stale_archive_staging_attempts t (clock 0)) (\<lambda>(t, promoted).
     rbind (reap_rounds st rf owner tok clock 0 4 t obj 0 0) (\<lambda>(t, obj, claimed, cleaned).
     Inr (t, obj, promoted, claimed, cleaned)))"

subsection \<open>Prefixes\<close>

definition canonical_uuid :: "uuid \<Rightarrow> bool" where
  "canonical_uuid u \<longleftrightarrow> length u = 36 \<and>
     (\<forall>i \<in> set [0..<36]. if i \<in> {8, 13, 18, 23} then u ! i = CHR ''-'' else is_lower_hex (u ! i))"

definition wf_key :: "staging_key \<Rightarrow> bool" where
  "wf_key k \<longleftrightarrow> canonical_uuid (owner_id (sk_owner k)) \<and> canonical_uuid (sk_attempt_id k) \<and>
     valid_owner_purpose (sk_owner k) (sk_purpose k)"

lemma canonical_uuid_no_slash: "canonical_uuid u \<Longrightarrow> CHR ''/'' \<notin> set u"
proof
  assume u: "canonical_uuid u" and "CHR ''/'' \<in> set u"
  then obtain i where i: "i < length u" "u ! i = CHR ''/''" by (auto simp: in_set_conv_nth)
  then have "i \<in> set [0..<36]" using u by (simp add: canonical_uuid_def)
  then have "if i \<in> {8, 13, 18, 23} then u ! i = CHR ''-'' else is_lower_hex (u ! i)"
    using u unfolding canonical_uuid_def by blast
  then show False using i(2) by (simp add: is_lower_hex_def is_ascii_digit_def split: if_splits)
qed

lemma split_slash_ne: "split_slash s \<noteq> []"
  by (induction s) (auto split: list.splits)

lemma split_slash_append: "split_slash (a @ CHR ''/'' # b) = split_slash a @ split_slash b"
proof (induction a)
  case (Cons c a)
  then show ?case using split_slash_ne [of a] by (cases "split_slash a") (auto split: list.splits)
qed simp

lemma split_slash_word: "CHR ''/'' \<notin> set s \<Longrightarrow> split_slash s = [s]"
  by (induction s) auto

lemma split_slash_prefix:
  assumes "wf_key k"
  shows "split_slash (canonical_prefix k) =
    [''staging'', path_kind (sk_owner k), owner_id (sk_owner k), purpose_str (sk_purpose k), sk_attempt_id k]"
proof -
  have "CHR ''/'' \<notin> set (owner_id (sk_owner k))" "CHR ''/'' \<notin> set (sk_attempt_id k)"
    using assms canonical_uuid_no_slash by (auto simp: wf_key_def)
  moreover have "CHR ''/'' \<notin> set (path_kind (sk_owner k))" by (cases "sk_owner k") auto
  moreover have "CHR ''/'' \<notin> set (purpose_str (sk_purpose k))" by (cases "sk_purpose k") auto
  moreover have "canonical_prefix k = ''staging'' @ CHR ''/'' # path_kind (sk_owner k) @ CHR ''/'' # owner_id (sk_owner k) @
      CHR ''/'' # purpose_str (sk_purpose k) @ CHR ''/'' # sk_attempt_id k"
    by (simp add: canonical_prefix_def)
  ultimately show ?thesis by (simp only: split_slash_append) (simp add: split_slash_word)
qed

lemma locator_segments:
  assumes "locator_matches_prefix l p" obtains rest where "split_slash l = split_slash p @ rest"
proof (cases "l = p")
  case True
  then show thesis using that [of "[]"] by simp
next
  case False
  with assms obtain s where "l = p @ CHR ''/'' # s"
    unfolding locator_matches_prefix_def
    by (auto split: option.splits dest!: strip_prefix_Some) (metis list.collapse)
  then show thesis using that [of "split_slash s"] by (simp add: split_slash_append)
qed

lemma path_kind_owner: "path_kind a = path_kind b \<Longrightarrow> owner_id a = owner_id b \<Longrightarrow> a = b"
  by (cases a; cases b) auto

lemma purpose_str_inj: "purpose_str a = purpose_str b \<longleftrightarrow> a = b"
  by (cases a; cases b) auto

lemma prefixes_disjoint:
  assumes "wf_key k1" and "wf_key k2" and "locator_matches_prefix l (canonical_prefix k1)"
    and "locator_matches_prefix l (canonical_prefix k2)"
  shows "k1 = k2"
proof -
  obtain r1 where r1: "split_slash l = split_slash (canonical_prefix k1) @ r1" using locator_segments [OF assms(3)] .
  obtain r2 where r2: "split_slash l = split_slash (canonical_prefix k2) @ r2" using locator_segments [OF assms(4)] .
  from r1 r2 have "path_kind (sk_owner k1) = path_kind (sk_owner k2)" "owner_id (sk_owner k1) = owner_id (sk_owner k2)"
    "purpose_str (sk_purpose k1) = purpose_str (sk_purpose k2)" "sk_attempt_id k1 = sk_attempt_id k2"
    by (simp_all add: split_slash_prefix assms(1,2))
  then show ?thesis
    using path_kind_owner [of "sk_owner k1" "sk_owner k2"] by (simp add: purpose_str_inj)
qed

lemma matches_self: "locator_matches_prefix p p"
  by (simp add: locator_matches_prefix_def)

subsection \<open>Stored identities\<close>

lemma from_database_round_trip:
  assumes "wf_key k" and "\<And>u. canonical_uuid u \<Longrightarrow> up u = Some u"
  shows "from_database up (owner_kind (sk_owner k)) (owner_id (sk_owner k)) (purpose_str (sk_purpose k)) (sk_attempt_id k) = Inr k"
proof -
  have "parse_canonical_uuid up u = Inr u" if "canonical_uuid u" for u
    using assms(2) [OF that] by (simp add: parse_canonical_uuid_def ok_or_def ensure_def)
  then have ids: "parse_canonical_uuid up (owner_id (sk_owner k)) = Inr (owner_id (sk_owner k))"
    "parse_canonical_uuid up (sk_attempt_id k) = Inr (sk_attempt_id k)"
    using assms(1) by (simp_all add: wf_key_def)
  then have "owner_parse up (owner_kind (sk_owner k)) (owner_id (sk_owner k)) = Inr (sk_owner k)"
    by (cases "sk_owner k") (simp_all add: owner_parse_def)
  note this ids(2)
  moreover have "purpose_parse (purpose_str (sk_purpose k)) = Inr (sk_purpose k)"
    by (cases "sk_purpose k") (simp_all add: purpose_parse_def)
  ultimately show ?thesis
    using assms(1) by (simp add: from_database_def staging_key_new_def wf_key_def ensure_def)
qed

lemma backoff_range: "5000 \<le> cleanup_backoff_millis n" "cleanup_backoff_millis n \<le> 21600000"
proof -
  define p where "p = (2::int) ^ min (n - 1) 20"
  have "p \<le> 2 ^ 20" unfolding p_def by (rule power_increasing) auto
  moreover have "1 \<le> p" unfolding p_def by (rule one_le_power) simp
  ultimately have "sat (5000 * p) = 5000 * p" "5000 \<le> 5000 * p"
    by (simp_all add: sat_def i64_bounds)
  then show "5000 \<le> cleanup_backoff_millis n" "cleanup_backoff_millis n \<le> 21600000"
    by (simp_all add: cleanup_backoff_millis_def p_def)
qed

lemma jitter_range:
  "cleanup_backoff_millis n \<le> cleanup_backoff_with_jitter a n" "cleanup_backoff_with_jitter a n \<le> 21600000"
proof -
  let ?b = "cleanup_backoff_millis n"
  let ?j = "int (uuid_high64 a) mod max 1 (min (?b div 4) 60000)"
  have j: "0 \<le> ?j" "?j < max 1 (min (?b div 4) 60000)" by simp_all
  then have "?j < 60000" using backoff_range [of n] by linarith
  then have "in_i64 (?b + ?j)" using backoff_range [of n] j(1) unfolding in_i64_def i64_bounds by linarith
  then have "sat (?b + ?j) = ?b + ?j" by (rule sat_in_range)
  then show "?b \<le> cleanup_backoff_with_jitter a n" "cleanup_backoff_with_jitter a n \<le> 21600000"
    using backoff_range [of n] j(1) by (simp_all add: cleanup_backoff_with_jitter_def Let_def)
qed

subsection \<open>How a row evolves\<close>

text \<open>
  The shape the schema demands of a row in each state: a writer holds its own lease; a bound
  attempt has its locator and no lease; a clean-up lease is all or nothing. Beyond the schema,
  an attempt that was seen empty is next looked at when the stability window has passed, and
  a cleaned attempt had been seen empty at least that long before.
\<close>

definition no_lease :: "staging_row \<Rightarrow> bool" where
  "no_lease r \<longleftrightarrow> sg_lease_owner r = None \<and> sg_lease_token r = None \<and> sg_lease_expires_at r = None"

definition has_lease :: "staging_row \<Rightarrow> bool" where
  "has_lease r \<longleftrightarrow> sg_lease_owner r \<noteq> None \<and> sg_lease_token r \<noteq> None \<and> sg_lease_expires_at r \<noteq> None"

definition canonical_shape :: "staging_row \<Rightarrow> bool" where
  "canonical_shape r \<longleftrightarrow> 0 \<le> sg_cleanup_failures r \<and> sg_cleanup_failures r \<le> 63 \<and> (case sg_state r of
      Writing \<Rightarrow> sg_lease_owner r = Some (sg_writer_owner r) \<and> sg_lease_token r = Some (sg_writer_token r) \<and>
        has_lease r \<and> sg_bound_locator r = None \<and> sg_bound_at r = None \<and> sg_empty_observed_at r = None \<and>
        sg_next_cleanup_at r = None \<and> sg_cleaned_at r = None
    | Bound \<Rightarrow> no_lease r \<and> sg_bound_locator r \<noteq> None \<and> sg_bound_at r \<noteq> None \<and> sg_empty_observed_at r = None \<and>
        sg_next_cleanup_at r = None \<and> sg_cleaned_at r = None
    | CleanupPending \<Rightarrow> sg_bound_locator r = None \<and> sg_cleaned_at r = None \<and> sg_next_cleanup_at r \<noteq> None \<and>
        (no_lease r \<or> has_lease r) \<and>
        (\<forall>ob. sg_empty_observed_at r = Some ob \<longrightarrow> 0 \<le> ob \<and> sg_next_cleanup_at r = Some (ob + EMPTY_STABILITY_MILLIS))
    | Cleaned \<Rightarrow> no_lease r \<and> sg_bound_locator r = None \<and> sg_next_cleanup_at r = None \<and>
        (\<exists>ob n. sg_empty_observed_at r = Some ob \<and> sg_cleaned_at r = Some n \<and> ob + EMPTY_STABILITY_MILLIS \<le> n))"

text \<open>The order of the states: an attempt never moves back.\<close>

fun state_rank :: "staging_state \<Rightarrow> nat" where
  "state_rank Writing = 0"
| "state_rank Bound = 1"
| "state_rank CleanupPending = 2"
| "state_rank Cleaned = 3"

definition same_identity :: "staging_row \<Rightarrow> staging_row \<Rightarrow> bool" where
  "same_identity r r' \<longleftrightarrow> sg_owner r' = sg_owner r \<and> sg_purpose r' = sg_purpose r \<and>
     sg_intent_digest r' = sg_intent_digest r \<and> sg_writer_owner r' = sg_writer_owner r \<and>
     sg_writer_token r' = sg_writer_token r \<and> sg_created_at r' = sg_created_at r"

definition row_step :: "staging_row \<Rightarrow> staging_row \<Rightarrow> bool" where
  "row_step r r' \<longleftrightarrow> same_identity r r' \<and> state_rank (sg_state r) \<le> state_rank (sg_state r') \<and>
     (sg_state r = Cleaned \<longrightarrow> r' = r) \<and> (canonical_shape r \<longrightarrow> canonical_shape r')"

interpretation staging_rows: row_evolution row_step
proof
  fix r r' r''
  show "row_step r r" by (simp add: row_step_def same_identity_def)
  show "row_step r r''" if "row_step r r'" "row_step r' r''"
    using that by (auto simp: row_step_def same_identity_def)
qed

lemmas row_defs = row_step_def same_identity_def canonical_shape_def no_lease_def has_lease_def drop_lease_def

lemma row_step_key: "row_step r r' \<Longrightarrow> row_key a r' = row_key a r"
  by (simp add: row_step_def same_identity_def row_key_def)

text \<open>Each assignment of the module, under the condition of its statement.\<close>

lemma steps_write:
  "live_lease Writing ow tok now r \<Longrightarrow> row_step r (r\<lparr>sg_lease_expires_at := Some e, sg_updated_at := now\<rparr>)"
  "live_lease Writing ow tok now r \<Longrightarrow> row_step r ((drop_lease r)\<lparr>sg_state := Bound, sg_bound_locator := Some l,
     sg_bound_at := Some now, sg_updated_at := now\<rparr>)"
  "live_lease Writing ow tok now r \<Longrightarrow> row_step r ((drop_lease r)\<lparr>sg_state := CleanupPending, sg_bound_locator := None,
     sg_bound_at := Some now, sg_next_cleanup_at := Some now, sg_empty_observed_at := None, sg_last_error_code := None,
     sg_updated_at := now\<rparr>)"
  "sg_state r = Bound \<Longrightarrow> row_step r (r\<lparr>sg_state := CleanupPending, sg_bound_locator := None,
     sg_next_cleanup_at := Some now, sg_empty_observed_at := None, sg_last_error_code := None, sg_updated_at := now\<rparr>)"
  "sg_state r = Writing \<Longrightarrow> row_step r ((drop_lease r)\<lparr>sg_state := CleanupPending, sg_next_cleanup_at := Some n,
     sg_updated_at := now\<rparr>)"
  by (auto simp: row_defs live_lease_def)

lemma steps_cleanup:
  "claimable now r \<Longrightarrow> row_step r (r\<lparr>sg_lease_owner := Some ow, sg_lease_token := Some tok,
     sg_lease_expires_at := Some e, sg_updated_at := now\<rparr>)"
  "live_lease CleanupPending ow tok now r \<Longrightarrow> row_step r (r\<lparr>sg_lease_expires_at := Some e, sg_updated_at := now\<rparr>)"
  "live_lease CleanupPending ow tok now r \<Longrightarrow> 0 \<le> f \<Longrightarrow> f \<le> 63 \<Longrightarrow> row_step r ((drop_lease r)\<lparr>sg_empty_observed_at := None,
     sg_cleanup_failures := f, sg_next_cleanup_at := Some n, sg_last_error_code := Some code, sg_updated_at := now\<rparr>)"
  "live_lease CleanupPending ow tok now r \<and> sg_empty_observed_at r = Some ob \<Longrightarrow>
     ob + EMPTY_STABILITY_MILLIS \<le> now \<Longrightarrow> row_step r ((drop_lease r)\<lparr>sg_state := Cleaned, sg_next_cleanup_at := None, sg_last_error_code := None, sg_cleaned_at := Some now,
      sg_updated_at := now\<rparr>)"
  "live_lease CleanupPending ow tok now r \<and> sg_empty_observed_at r = None \<Longrightarrow> 0 \<le> now \<Longrightarrow> row_step r ((drop_lease r)
     \<lparr>sg_empty_observed_at := Some now, sg_next_cleanup_at := Some (now + EMPTY_STABILITY_MILLIS), sg_last_error_code := None, sg_updated_at := now\<rparr>)"
  by (auto simp: row_defs live_lease_def claimable_def)

lemma steps_surrender:
  "sg_state r \<in> {Writing, Bound} \<Longrightarrow> row_step r ((surrender now r)\<lparr>sg_bound_locator := None\<rparr>)"
  "sg_state r = Writing \<Longrightarrow> row_step r (surrender now r)"
  by (auto simp: row_defs surrender_def)

subsection \<open>How a table evolves\<close>

abbreviation evolves :: "staging_table \<Rightarrow> staging_table \<Rightarrow> bool" where
  "evolves \<equiv> rows_evolve row_step"

abbreviation changes :: "staging_table \<Rightarrow> staging_table \<Rightarrow> bool" where
  "changes \<equiv> rows_change row_step"

lemma begin_cases:
  assumes "begin_archive_staging_attempt t i clock = Inr (t', res)"
  obtains (fresh) l e where "tget t (sk_attempt_id (bi_key i)) = None" "res = Created l" "wl_key l = bi_key i"
      "wl_owner l = bi_lease_owner i" "wl_token l = bi_lease_token i"
      "t' = tput (sk_attempt_id (bi_key i)) (new_attempt i clock e) t"
  | (existing) r where "tget t (sk_attempt_id (bi_key i)) = Some r" "t' = t" "row_key (sk_attempt_id (bi_key i)) r = bi_key i"
      "sg_writer_owner r = bi_lease_owner i" "sg_writer_token r = bi_lease_token i"
      "res = Existing r \<or> (\<exists>l. res = Replayed l \<and> wl_key l = bi_key i \<and> wl_owner l = bi_lease_owner i \<and>
         wl_token l = bi_lease_token i)"
proof (cases "tget t (sk_attempt_id (bi_key i))")
  case None
  then show thesis using assms
    by (auto simp: begin_archive_staging_attempt_def archive_database_now_def rbind_Inr_iff Let_def intro: fresh)
next
  case (Some r)
  then show thesis using assms
    by (auto simp: begin_archive_staging_attempt_def rbind_Inr_iff ensure_Inr_iff Let_def intro!: existing
        split: option.split if_split)
qed

lemma begin_evolves: "begin_archive_staging_attempt t i clock = Inr (t', res) \<Longrightarrow> evolves t t'"
  by (erule begin_cases) (auto intro: staging_rows.evolve_insert staging_rows.evolve_refl)

lemma heartbeat_write_changes:
  "heartbeat_archive_staging_write t l clock = Inr (t', l', b) \<Longrightarrow> changes t t'"
  by (auto simp: heartbeat_archive_staging_write_def rbind_Inr_iff Let_def case_prod_beta
      intro!: staging_rows.change_fst_tupdate intro: steps_write)

lemma bind_changes: "bind_archive_staging_attempt t l locator clock = Inr (t', b) \<Longrightarrow> changes t t'"
  by (auto simp: bind_archive_staging_attempt_def rbind_Inr_iff Let_def case_prod_beta
      intro!: staging_rows.change_fst_tupdate intro: steps_write)

lemma publish_changes: "publish_archive_staging_cas t l clock = Inr (t', b) \<Longrightarrow> changes t t'"
  by (auto simp: publish_archive_staging_cas_def rbind_Inr_iff Let_def case_prod_beta split: option.splits if_splits
      intro!: staging_rows.change_fst_tupdate intro: steps_write staging_rows.change_refl)

lemma release_bound_changes: "release_bound_archive_staging_attempt t k locator clock = Inr (t', b) \<Longrightarrow> changes t t'"
  by (auto simp: release_bound_archive_staging_attempt_def rbind_Inr_iff Let_def case_prod_beta
      intro!: staging_rows.change_fst_tupdate intro: steps_write)

lemma abandon_changes: "abandon_archive_staging_attempt t l clock = Inr (t', b) \<Longrightarrow> changes t t'"
  by (auto simp: abandon_archive_staging_attempt_def rbind_Inr_iff live_lease_def
      intro: steps_write elim!: staging_rows.change_tupdate)

lemma promote_attempts_changes: "promote_attempts now n as t = (t', m) \<Longrightarrow> changes t t'"
proof (induction as arbitrary: t m)
  case Nil
  then show ?case by (simp add: staging_rows.change_refl)
next
  case (Cons a as)
  from Cons.prems obtain t1 b m1 where
    u: "tupdate a (\<lambda>r. sg_state r = Writing \<and> lease_expired now r) (\<lambda>r. (drop_lease r)\<lparr>sg_state := CleanupPending,
          sg_next_cleanup_at := Some n, sg_updated_at := now\<rparr>) t = (t1, b)"
    and p: "promote_attempts now n as t1 = (t', m1)" by (auto simp: Let_def split: prod.splits)
  have "changes t t1" by (rule staging_rows.change_tupdate [OF u]) (auto intro: steps_write)
  then show ?case using Cons.IH [OF p] by (rule staging_rows.change_trans)
qed

lemma promote_changes: "promote_stale_archive_staging_attempts t clock = Inr (t', n) \<Longrightarrow> changes t t'"
  by (auto simp: promote_stale_archive_staging_attempts_def rbind_Inr_iff dest: promote_attempts_changes)

lemma claim_cases:
  assumes "claim_archive_staging_cleanup t ow tok clock = Inr (t', res)"
  obtains (idle) "t' = t" "res = None"
  | (claimed) a r r0 e where "(a, r) \<in> set t" "claimable clock r" "tget t a = Some r0" "claimable clock r0"
      "t' = tput a (r0\<lparr>sg_lease_owner := Some ow, sg_lease_token := Some tok, sg_lease_expires_at := Some e,
         sg_updated_at := clock\<rparr>) t"
      "res = Some \<lparr>cl_key = row_key a r, cl_attempt = r\<lparr>sg_updated_at := clock\<rparr>, cl_owner = ow, cl_token = tok, cl_expires_at = e\<rparr>"
proof (cases "cleanup_candidates t clock")
  case Nil
  then show thesis using assms
    by (auto simp: claim_archive_staging_cleanup_def archive_database_now_def rbind_Inr_iff intro: idle)
next
  case (Cons x xs)
  obtain a r where x: "x = (a, r)" by force
  from Cons x have "(a, r) \<in> set (cleanup_candidates t clock)" by simp
  then have "(a, r) \<in> set t" "claimable clock r" by (auto simp: cleanup_candidates_def)
  moreover from assms Cons x obtain e b where
    "tupdate a (claimable clock) (\<lambda>r. r\<lparr>sg_lease_owner := Some ow, sg_lease_token := Some tok,
       sg_lease_expires_at := Some e, sg_updated_at := clock\<rparr>) t = (t', True)"
    "res = Some \<lparr>cl_key = row_key a r, cl_attempt = r\<lparr>sg_updated_at := clock\<rparr>, cl_owner = ow, cl_token = tok, cl_expires_at = e\<rparr>"
    by (auto simp: claim_archive_staging_cleanup_def archive_database_now_def rbind_Inr_iff ensure_Inr_iff Let_def
        case_prod_beta prod_eq_iff)
  ultimately show thesis by (auto simp: tupdate_iff intro: claimed)
qed

lemma claim_changes: "claim_archive_staging_cleanup t ow tok clock = Inr (t', l) \<Longrightarrow> changes t t'"
  by (erule claim_cases) (auto intro: staging_rows.change_refl staging_rows.change_tput steps_cleanup)

lemma heartbeat_cleanup_changes: "heartbeat_archive_staging_cleanup t l clock = Inr (t', l', b) \<Longrightarrow> changes t t'"
  by (auto simp: heartbeat_archive_staging_cleanup_def rbind_Inr_iff Let_def case_prod_beta
      intro!: staging_rows.change_fst_tupdate intro: steps_cleanup)

lemma release_with_failure_changes: "release_with_failure t l r site code now = Inr (t', n) \<Longrightarrow> changes t t'"
  by (auto simp: release_with_failure_def rbind_Inr_iff ensure_Inr_iff Let_def case_prod_beta
      intro!: staging_rows.change_fst_tupdate intro: steps_cleanup)

lemma prove_changes: "prove_archive_staging_unreferenced rf t l clock = Inr (t', p) \<Longrightarrow> changes t t'"
  by (auto simp: prove_archive_staging_unreferenced_def rbind_Inr_iff split: option.splits
      dest: release_with_failure_changes intro: staging_rows.change_refl)

lemma record_empty_changes: "record_archive_staging_empty t l p clock = Inr (t', e) \<Longrightarrow> changes t t'"
  by (auto simp: record_archive_staging_empty_def archive_database_now_def rbind_Inr_iff ok_or_Inr_iff ensure_Inr_iff Let_def
      case_prod_beta split: option.splits intro!: staging_rows.change_fst_tupdate intro: steps_cleanup)

lemma record_failure_changes: "record_archive_staging_cleanup_failure t l code clock = Inr (t', n) \<Longrightarrow> changes t t'"
  by (auto simp: record_archive_staging_cleanup_failure_def rbind_Inr_iff dest: release_with_failure_changes)

lemma cleanup_attempt_changes: "cleanup_archive_staging_attempt t k now = (t', b) \<Longrightarrow> changes t t'"
  unfolding cleanup_archive_staging_attempt_def
  by (erule staging_rows.change_tupdate) (rule steps_surrender, simp)

lemma cleanup_purpose_changes: "changes t (cleanup_archive_staging_purpose t ow p now)"
  unfolding cleanup_archive_staging_purpose_def
  by (rule staging_rows.change_tupdate_all) (rule steps_surrender, simp)

lemma cleanup_writing_changes: "changes t (cleanup_writing_archive_staging_purpose t ow p now)"
  unfolding cleanup_writing_archive_staging_purpose_def
  by (rule staging_rows.change_tupdate_all) (rule steps_surrender, simp)

subsection \<open>The staging system\<close>

text \<open>
  Writers, owners and reapers of any number of processes, interleaved transaction by
  transaction, at any clock. What a process holds between transactions is part of the state:
  the leases handed out and the proofs of reference checks. A writer may upload under its
  prefix even when its lease has run out; a reaper that holds a proof may delete, wholly or
  in part, at any later time. A transaction that fails changes nothing.
\<close>

record staging_system =
  ss_table :: staging_table
  ss_writers :: "write_lease set"
  ss_cleaners :: "cleanup_lease set"
  ss_proofs :: "cleanup_lease set"
  ss_objects :: "string set"

fun issued :: "begin_result \<Rightarrow> write_lease set" where
  "issued (Created l) = {l}"
| "issued (Replayed l) = {l}"
| "issued (Existing r) = {}"

fun proven :: "reference_proof \<Rightarrow> cleanup_lease set" where
  "proven (Unreferenced l n) = {l}"
| "proven (Protected l) = {}"

definition segment :: "staging_key \<Rightarrow> string set" where
  "segment k = {obj. locator_matches_prefix obj (canonical_prefix k)}"

inductive staging_step :: "staging_system \<Rightarrow> staging_system \<Rightarrow> bool" where
  do_begin: "wf_key (bi_key i) \<Longrightarrow> begin_archive_staging_attempt (ss_table s) i now = Inr (t, res) \<Longrightarrow>
     staging_step s (s\<lparr>ss_table := t, ss_writers := ss_writers s \<union> issued res\<rparr>)"
| do_heartbeat_write: "l \<in> ss_writers s \<Longrightarrow> heartbeat_archive_staging_write (ss_table s) l now = Inr (t, l', b) \<Longrightarrow>
     staging_step s (s\<lparr>ss_table := t, ss_writers := insert l' (ss_writers s)\<rparr>)"
| do_bind: "l \<in> ss_writers s \<Longrightarrow> bind_archive_staging_attempt (ss_table s) l locator now = Inr (t, b) \<Longrightarrow>
     staging_step s (s\<lparr>ss_table := t\<rparr>)"
| do_publish: "l \<in> ss_writers s \<Longrightarrow> publish_archive_staging_cas (ss_table s) l now = Inr (t, b) \<Longrightarrow>
     staging_step s (s\<lparr>ss_table := t\<rparr>)"
| do_release: "release_bound_archive_staging_attempt (ss_table s) k locator now = Inr (t, b) \<Longrightarrow>
     staging_step s (s\<lparr>ss_table := t\<rparr>)"
| do_abandon: "l \<in> ss_writers s \<Longrightarrow> abandon_archive_staging_attempt (ss_table s) l now = Inr (t, b) \<Longrightarrow>
     staging_step s (s\<lparr>ss_table := t\<rparr>)"
| do_promote: "promote_stale_archive_staging_attempts (ss_table s) now = Inr (t, n) \<Longrightarrow>
     staging_step s (s\<lparr>ss_table := t\<rparr>)"
| do_claim: "claim_archive_staging_cleanup (ss_table s) ow tok now = Inr (t, res) \<Longrightarrow>
     staging_step s (s\<lparr>ss_table := t, ss_cleaners := ss_cleaners s \<union> set_option res\<rparr>)"
| do_heartbeat_cleanup: "l \<in> ss_cleaners s \<Longrightarrow> heartbeat_archive_staging_cleanup (ss_table s) l now = Inr (t, l', b) \<Longrightarrow>
     staging_step s (s\<lparr>ss_table := t, ss_cleaners := insert l' (ss_cleaners s)\<rparr>)"
| do_prove: "l \<in> ss_cleaners s \<Longrightarrow> prove_archive_staging_unreferenced rf (ss_table s) l now = Inr (t, p) \<Longrightarrow>
     staging_step s (s\<lparr>ss_table := t, ss_proofs := ss_proofs s \<union> proven p\<rparr>)"
| do_record_empty: "l \<in> ss_proofs s \<Longrightarrow> record_archive_staging_empty (ss_table s) l proved_at now = Inr (t, e) \<Longrightarrow>
     staging_step s (s\<lparr>ss_table := t\<rparr>)"
| do_record_failure: "l \<in> ss_cleaners s \<Longrightarrow> record_archive_staging_cleanup_failure (ss_table s) l code now = Inr (t, n) \<Longrightarrow>
     staging_step s (s\<lparr>ss_table := t\<rparr>)"
| do_cleanup_attempt: "cleanup_archive_staging_attempt (ss_table s) k now = (t, b) \<Longrightarrow> staging_step s (s\<lparr>ss_table := t\<rparr>)"
| do_cleanup_purpose: "staging_step s (s\<lparr>ss_table := cleanup_archive_staging_purpose (ss_table s) ow p now\<rparr>)"
| do_cleanup_writing: "staging_step s (s\<lparr>ss_table := cleanup_writing_archive_staging_purpose (ss_table s) ow p now\<rparr>)"
| do_upload: "l \<in> ss_writers s \<Longrightarrow> obj \<in> segment (wl_key l) \<Longrightarrow>
     staging_step s (s\<lparr>ss_objects := insert obj (ss_objects s)\<rparr>)"
| do_purge: "l \<in> ss_proofs s \<Longrightarrow> ss_objects s - segment (cl_key l) \<subseteq> objs \<Longrightarrow> objs \<subseteq> ss_objects s \<Longrightarrow>
     staging_step s (s\<lparr>ss_objects := objs\<rparr>)"

inductive_cases staging_stepE: "staging_step s s'"

inductive staging_run :: "staging_system \<Rightarrow> staging_system \<Rightarrow> bool" where
  run_refl: "staging_run s s"
| run_step: "staging_run s s' \<Longrightarrow> staging_step s' s'' \<Longrightarrow> staging_run s s''"

definition empty_system :: staging_system where
  "empty_system = \<lparr>ss_table = [], ss_writers = {}, ss_cleaners = {}, ss_proofs = {}, ss_objects = {}\<rparr>"

text \<open>
  What the leases promise: a write lease names a row that exists under its identity, a
  clean-up lease a row that is past being written or bound.
\<close>

definition names_row :: "staging_table \<Rightarrow> staging_key \<Rightarrow> bool" where
  "names_row t k \<longleftrightarrow> (\<exists>r. tget t (sk_attempt_id k) = Some r \<and> row_key (sk_attempt_id k) r = k)"

definition surrendered :: "staging_table \<Rightarrow> staging_key \<Rightarrow> bool" where
  "surrendered t k \<longleftrightarrow> (\<exists>r. tget t (sk_attempt_id k) = Some r \<and> row_key (sk_attempt_id k) r = k \<and>
     sg_state r \<in> {CleanupPending, Cleaned})"

definition staging_inv :: "staging_system \<Rightarrow> bool" where
  "staging_inv s \<longleftrightarrow> wf_table (ss_table s) \<and>
     (\<forall>a r. tget (ss_table s) a = Some r \<longrightarrow> canonical_shape r \<and> wf_key (row_key a r)) \<and>
     (\<forall>l \<in> ss_writers s. names_row (ss_table s) (wl_key l)) \<and>
     (\<forall>l \<in> ss_cleaners s \<union> ss_proofs s. surrendered (ss_table s) (cl_key l))"

lemma rank_surrendered: "2 \<le> state_rank x \<longleftrightarrow> x \<in> {CleanupPending, Cleaned}"
  by (cases x) auto

lemma names_row_evolves: "evolves t t' \<Longrightarrow> names_row t k \<Longrightarrow> names_row t' k"
  unfolding names_row_def rows_evolve_def by (metis row_step_key)

lemma surrendered_evolves:
  assumes "evolves t t'" and "surrendered t k" shows "surrendered t' k"
proof -
  obtain r where r: "tget t (sk_attempt_id k) = Some r" "row_key (sk_attempt_id k) r = k" "2 \<le> state_rank (sg_state r)"
    using assms(2) by (auto simp: surrendered_def rank_surrendered)
  obtain r' where r': "tget t' (sk_attempt_id k) = Some r'" "row_step r r'"
    using staging_rows.evolve_row [OF assms(1) r(1)] by blast
  then have "2 \<le> state_rank (sg_state r')" using r(3) by (simp add: row_step_def)
  with r r' row_step_key [OF r'(2)] show ?thesis by (auto simp: surrendered_def rank_surrendered)
qed

lemma live_cleanup_surrendered:
  "lock_and_verify_cleanup_lease t l now = Inr r \<Longrightarrow> surrendered t (cl_key l)"
  by (auto simp: lock_and_verify_cleanup_lease_def rbind_Inr_iff ok_or_Inr_iff ensure_Inr_iff surrendered_def live_lease_def)

text \<open>The common part of every transaction: the table evolves and the leases stay good.\<close>

definition staging_moves :: "staging_system \<Rightarrow> staging_system \<Rightarrow> bool" where
  "staging_moves s s' \<longleftrightarrow> evolves (ss_table s) (ss_table s') \<and>
     (\<forall>a r. tget (ss_table s) a = None \<longrightarrow> tget (ss_table s') a = Some r \<longrightarrow> canonical_shape r \<and> wf_key (row_key a r)) \<and>
     (\<forall>l \<in> ss_writers s' - ss_writers s. names_row (ss_table s') (wl_key l)) \<and>
     (\<forall>l \<in> ss_cleaners s' \<union> ss_proofs s' - (ss_cleaners s \<union> ss_proofs s). surrendered (ss_table s') (cl_key l))"

lemma staging_moves_inv:
  assumes "staging_inv s" and "staging_moves s s'" shows "staging_inv s'"
proof -
  have ev: "evolves (ss_table s) (ss_table s')" using assms(2) by (simp add: staging_moves_def)
  have "canonical_shape r' \<and> wf_key (row_key a r')" if "tget (ss_table s') a = Some r'" for a r'
  proof (cases "tget (ss_table s) a")
    case None
    then show ?thesis using assms(2) that by (simp add: staging_moves_def)
  next
    case (Some r)
    then have "row_step r r'" using staging_rows.evolve_row [OF ev Some] that by auto
    then show ?thesis using assms(1) Some row_step_key [of r r' a] by (auto simp: staging_inv_def row_step_def)
  qed
  moreover have "names_row (ss_table s') (wl_key l)" if "l \<in> ss_writers s'" for l
    using assms that names_row_evolves [OF ev] by (cases "l \<in> ss_writers s") (auto simp: staging_inv_def staging_moves_def)
  moreover have "surrendered (ss_table s') (cl_key l)" if "l \<in> ss_cleaners s' \<union> ss_proofs s'" for l
    using assms that surrendered_evolves [OF ev]
    by (cases "l \<in> ss_cleaners s \<union> ss_proofs s") (auto simp: staging_inv_def staging_moves_def)
  moreover have "wf_table (ss_table s')" using assms(1) ev by (simp add: staging_inv_def rows_evolve_def)
  ultimately show ?thesis by (simp add: staging_inv_def)
qed

lemma staging_moves_table:
  assumes "changes (ss_table s) (ss_table s')"
    and "\<And>l. l \<in> ss_writers s' - ss_writers s \<Longrightarrow> names_row (ss_table s') (wl_key l)"
    and "\<And>l. l \<in> ss_cleaners s' \<union> ss_proofs s' - (ss_cleaners s \<union> ss_proofs s) \<Longrightarrow> surrendered (ss_table s') (cl_key l)"
  shows "staging_moves s s'"
  using assms by (auto simp: staging_moves_def rows_change_def)

lemma begin_moves:
  assumes "wf_key (bi_key i)" and "begin_archive_staging_attempt (ss_table s) i now = Inr (t, res)"
  shows "staging_moves s (s\<lparr>ss_table := t, ss_writers := ss_writers s \<union> issued res\<rparr>)"
  using assms(2)
proof (cases rule: begin_cases)
  case (fresh l e)
  have "canonical_shape (new_attempt i now e)" "row_key (sk_attempt_id (bi_key i)) (new_attempt i now e) = bi_key i"
    by (simp_all add: row_defs new_attempt_def row_key_def)
  then show ?thesis using assms(1) fresh begin_evolves [OF assms(2)]
    by (auto simp: staging_moves_def names_row_def tbl_simps split: if_splits)
next
  case (existing r)
  then show ?thesis
    by (auto simp: staging_moves_def names_row_def intro: staging_rows.evolve_refl)
qed

lemma staging_step_moves:
  assumes "staging_step s s'" and "staging_inv s" shows "staging_moves s s'"
  using assms(1)
proof cases
  case (do_begin i now t res)
  then show ?thesis using begin_moves by blast
next
  case (do_heartbeat_write l now t l' b)
  have "wl_key l' = wl_key l" using do_heartbeat_write(3)
    by (auto simp: heartbeat_archive_staging_write_def rbind_Inr_iff Let_def case_prod_beta split: if_splits)
  moreover have "names_row t (wl_key l)"
    using assms(2) do_heartbeat_write(2) heartbeat_write_changes [OF do_heartbeat_write(3)]
    by (auto simp: staging_inv_def rows_change_def intro: names_row_evolves)
  ultimately show ?thesis
    using heartbeat_write_changes [OF do_heartbeat_write(3)] by (intro staging_moves_table) (auto simp: do_heartbeat_write(1))
next
  case (do_claim ow tok now t res)
  have "surrendered t (cl_key l)" if "res = Some l" for l
    using do_claim(2)
  proof (cases rule: claim_cases)
    case (claimed a r r0 e)
    have "tget (ss_table s) a = Some r"
      using claimed(1) assms(2) by (auto simp: staging_inv_def wf_table_def tget_def)
    with claimed that show ?thesis
      by (auto simp: surrendered_def row_key_def tbl_simps claimable_def)
  qed (use that in simp)
  then show ?thesis
    using claim_changes [OF do_claim(2)] by (intro staging_moves_table) (auto simp: do_claim(1))
next
  case (do_heartbeat_cleanup l now t l' b)
  have "cl_key l' = cl_key l" using do_heartbeat_cleanup(3)
    by (auto simp: heartbeat_archive_staging_cleanup_def rbind_Inr_iff Let_def case_prod_beta split: if_splits)
  moreover have "surrendered t (cl_key l)"
    using assms(2) do_heartbeat_cleanup(2) heartbeat_cleanup_changes [OF do_heartbeat_cleanup(3)]
    by (auto simp: staging_inv_def rows_change_def intro: surrendered_evolves)
  ultimately show ?thesis
    using heartbeat_cleanup_changes [OF do_heartbeat_cleanup(3)] by (intro staging_moves_table) (auto simp: do_heartbeat_cleanup(1))
next
  case (do_prove l rf now t p)
  have "surrendered t (cl_key l)"
    using assms(2) do_prove(2) prove_changes [OF do_prove(3)]
    by (auto simp: staging_inv_def rows_change_def intro: surrendered_evolves)
  moreover have "proven p \<subseteq> {l}" using do_prove(3)
    by (auto simp: prove_archive_staging_unreferenced_def rbind_Inr_iff split: option.splits)
  ultimately show ?thesis
    using prove_changes [OF do_prove(3)] by (intro staging_moves_table) (auto simp: do_prove(1))
next
  case (do_upload l obj)
  then show ?thesis by (simp add: staging_moves_def staging_rows.evolve_refl)
next
  case (do_purge l objs)
  then show ?thesis by (simp add: staging_moves_def staging_rows.evolve_refl)
qed (auto intro!: staging_moves_table intro: bind_changes publish_changes release_bound_changes
      abandon_changes promote_changes record_empty_changes record_failure_changes cleanup_attempt_changes
      cleanup_purpose_changes cleanup_writing_changes)

lemma staging_step_inv: "staging_step s s' \<Longrightarrow> staging_inv s \<Longrightarrow> staging_inv s'"
  by (rule staging_moves_inv [OF _ staging_step_moves])

lemma staging_run_inv: "staging_run s s' \<Longrightarrow> staging_inv s \<Longrightarrow> staging_inv s'"
  by (induction rule: staging_run.induct) (auto intro: staging_step_inv)

lemma empty_system_inv: "staging_inv empty_system"
  by (simp add: staging_inv_def empty_system_def tget_def)

lemma staging_run_evolves: "staging_run s s' \<Longrightarrow> staging_inv s \<Longrightarrow> evolves (ss_table s) (ss_table s')"
proof (induction rule: staging_run.induct)
  case (run_step s s' s'')
  have "staging_moves s' s''" by (rule staging_step_moves [OF run_step(2) staging_run_inv [OF run_step(1,4)]])
  then show ?case using run_step.IH [OF run_step(4)] by (auto simp: staging_moves_def intro: staging_rows.evolve_trans)
qed (rule staging_rows.evolve_refl)

text \<open>The one step that takes objects away spares the segment of every attempt not surrendered.\<close>

lemma step_spares_objects:
  assumes "staging_step s s'" and "staging_inv s" and "tget (ss_table s) a = Some r" and "sg_state r \<in> {Writing, Bound}"
    and "obj \<in> ss_objects s" and "obj \<in> segment (row_key a r)"
  shows "obj \<in> ss_objects s'"
  using assms(1)
proof cases
  case (do_purge l objs)
  have "obj \<notin> segment (cl_key l)"
  proof
    assume obj: "obj \<in> segment (cl_key l)"
    have "surrendered (ss_table s) (cl_key l)" using do_purge(2) assms(2) by (simp add: staging_inv_def)
    then obtain r0 where r0: "tget (ss_table s) (sk_attempt_id (cl_key l)) = Some r0"
      "row_key (sk_attempt_id (cl_key l)) r0 = cl_key l" "sg_state r0 \<in> {CleanupPending, Cleaned}"
      by (auto simp: surrendered_def)
    have wf: "wf_key (row_key a r)" "wf_key (row_key (sk_attempt_id (cl_key l)) r0)"
      using assms(2,3) r0(1) by (simp_all add: staging_inv_def)
    then have "row_key a r = cl_key l"
      using prefixes_disjoint [of "row_key a r" "cl_key l" obj] obj assms(6) by (simp add: segment_def r0(2))
    then have "sk_attempt_id (cl_key l) = sk_attempt_id (row_key a r)" by simp
    then have "sk_attempt_id (cl_key l) = a" by (simp add: row_key_def)
    with r0 assms(3,4) show False by auto
  qed
  then show ?thesis using do_purge assms(5) by auto
qed (use assms(5) in auto)

lemma rank_active: "state_rank x \<le> 1 \<longleftrightarrow> x \<in> {Writing, Bound}"
  by (cases x) auto

lemma run_spares_objects:
  assumes "staging_run s s'" and "staging_inv s" and "tget (ss_table s) a = Some r"
    and "obj \<in> ss_objects s" and "obj \<in> segment (row_key a r)"
    and "tget (ss_table s') a = Some r'" and "sg_state r' \<in> {Writing, Bound}"
  shows "obj \<in> ss_objects s'"
  using assms
proof (induction arbitrary: r' rule: staging_run.induct)
  case (run_step s s1 s2)
  have inv: "staging_inv s1" by (rule staging_run_inv [OF run_step(1,4)])
  obtain r1 where r1: "tget (ss_table s1) a = Some r1" "row_step r r1"
    using staging_rows.evolve_row [OF staging_run_evolves [OF run_step(1,4)] run_step(5)] by blast
  have "evolves (ss_table s1) (ss_table s2)"
    using staging_step_moves [OF run_step(2) inv] by (simp add: staging_moves_def)
  then have "row_step r1 r'" using staging_rows.evolve_row [of _ _ a r1] r1(1) run_step(8) by fastforce
  moreover have "state_rank (sg_state r') \<le> 1" using run_step(9) rank_active by blast
  ultimately have "sg_state r1 \<in> {Writing, Bound}" using rank_active by (fastforce simp: row_step_def)
  moreover from this have "obj \<in> ss_objects s1" using run_step.IH [OF run_step(4-7) r1(1)] by blast
  ultimately show ?case
    using step_spares_objects [OF run_step(2) inv r1(1)] run_step(7) row_step_key [OF r1(2)] by simp
qed simp

text \<open>One undisturbed round of the reaper: the claim, the proof, and the empty observation.\<close>

definition claimed_row :: "string \<Rightarrow> uuid \<Rightarrow> int \<Rightarrow> staging_row \<Rightarrow> staging_row" where
  "claimed_row ow tok now r = r\<lparr>sg_lease_owner := Some ow, sg_lease_token := Some tok,
     sg_lease_expires_at := Some (now + CLEANUP_LEASE_MILLIS), sg_updated_at := now\<rparr>"

definition claimed_lease :: "string \<Rightarrow> uuid \<Rightarrow> int \<Rightarrow> uuid \<Rightarrow> staging_row \<Rightarrow> cleanup_lease" where
  "claimed_lease ow tok now a r = \<lparr>cl_key = row_key a r, cl_attempt = r\<lparr>sg_updated_at := now\<rparr>, cl_owner = ow,
     cl_token = tok, cl_expires_at = now + CLEANUP_LEASE_MILLIS\<rparr>"

lemma candidate_due:
  assumes "wf_table t" and "cleanup_candidates t now = (a, r) # rest"
  shows "tget t a = Some r \<and> claimable now r \<and> (\<exists>n. sg_next_cleanup_at r = Some n \<and> n \<le> now)"
proof -
  have "(a, r) \<in> set (cleanup_candidates t now)" using assms(2) by simp
  then show ?thesis using assms(1) by (auto simp: cleanup_candidates_def wf_table_def tget_def split: option.splits)
qed

lemma claim_first:
  assumes "wf_table t" and "cleanup_candidates t now = (a, r) # rest" and "0 \<le> now" and "in_i64 (now + CLEANUP_LEASE_MILLIS)"
  shows "claim_archive_staging_cleanup t ow tok now = Inr (tput a (claimed_row ow tok now r) t, Some (claimed_lease ow tok now a r))"
  using assms candidate_due [OF assms(1,2)]
  by (simp add: claim_archive_staging_cleanup_def archive_database_now_def tupdate_def claimed_row_def claimed_lease_def
      checked_def ok_or_def ensure_def Let_def)

lemma lock_claimed:
  assumes "claimable n0 r" and "now < n0 + CLEANUP_LEASE_MILLIS"
  shows "live_lease CleanupPending ow tok now (claimed_row ow tok n0 r)"
    and "lock_and_verify_cleanup_lease (tput a (claimed_row ow tok n0 r) t) (claimed_lease ow tok n0 a r) now = Inr (claimed_row ow tok n0 r)"
  using assms
  by (simp_all add: lock_and_verify_cleanup_lease_def live_lease_def claimed_row_def claimed_lease_def claimable_def
      row_key_def tbl_simps ok_or_def ensure_def)

lemma prove_claimed:
  assumes "claimable n0 r" and "0 \<le> now" and "now < n0 + CLEANUP_LEASE_MILLIS"
    and "archive_staging_reference rf (row_key a r) (canonical_prefix (row_key a r)) = Inr None"
  shows "prove_archive_staging_unreferenced rf (tput a (claimed_row ow tok n0 r) t) (claimed_lease ow tok n0 a r) now =
    Inr (tput a (claimed_row ow tok n0 r) t, Unreferenced (claimed_lease ow tok n0 a r) now)"
  using assms lock_claimed(2) [OF assms(1,3)]
  by (simp add: prove_archive_staging_unreferenced_def archive_database_now_def ensure_def)
     (simp add: claimed_lease_def)

lemma observe_claimed:
  assumes "claimable n0 r" and "0 \<le> n0" and "n0 \<le> n1" and "n1 \<le> n2" and "n2 < n0 + CLEANUP_LEASE_MILLIS"
    and "in_i64 (n2 + EMPTY_STABILITY_MILLIS)"
    and "\<forall>ob. sg_empty_observed_at r = Some ob \<longrightarrow> ob + EMPTY_STABILITY_MILLIS \<le> n2 \<and> in_i64 (ob + EMPTY_STABILITY_MILLIS)"
  obtains r2 where "record_archive_staging_empty (tput a (claimed_row ow tok n0 r) t) (claimed_lease ow tok n0 a r) n1 n2 =
      Inr (tput a r2 (tput a (claimed_row ow tok n0 r) t),
        if sg_empty_observed_at r = None then FirstObservation (n2 + EMPTY_STABILITY_MILLIS) else CleanedUp)"
    and "if sg_empty_observed_at r = None
      then sg_empty_observed_at r2 = Some n2 \<and> sg_next_cleanup_at r2 = Some (n2 + EMPTY_STABILITY_MILLIS)
      else sg_state r2 = Cleaned"
proof -
  let ?r1 = "claimed_row ow tok n0 r" and ?l = "claimed_lease ow tok n0 a r"
  define r2 where "r2 = (if sg_empty_observed_at r = None
    then (drop_lease ?r1)\<lparr>sg_empty_observed_at := Some n2, sg_next_cleanup_at := Some (n2 + EMPTY_STABILITY_MILLIS),
        sg_last_error_code := None, sg_updated_at := n2\<rparr>
    else (drop_lease ?r1)\<lparr>sg_state := Cleaned, sg_next_cleanup_at := None, sg_last_error_code := None,
        sg_cleaned_at := Some n2, sg_updated_at := n2\<rparr>)"
  note lock = lock_claimed(1) [OF assms(1,5), of ow tok] lock_claimed(2) [OF assms(1,5), of a ow tok t]
  have l: "sk_attempt_id (cl_key ?l) = a" "cl_owner ?l = ow" "cl_token ?l = tok" "sg_updated_at (cl_attempt ?l) = n0"
    "sg_empty_observed_at ?r1 = sg_empty_observed_at r"
    by (simp_all add: claimed_lease_def claimed_row_def row_key_def)
  have "record_archive_staging_empty (tput a ?r1 t) ?l n1 n2 = Inr (tput a r2 (tput a ?r1 t),
      if sg_empty_observed_at r = None then FirstObservation (n2 + EMPTY_STABILITY_MILLIS) else CleanedUp)"
    using assms(2-7) lock
    by (cases "sg_empty_observed_at r")
       (simp_all add: record_archive_staging_empty_def archive_database_now_def ensure_def ok_or_def checked_def
         tupdate_def Let_def l tbl_simps r2_def)
  then show thesis by (rule that) (auto simp: r2_def)
qed

subsection \<open>Properties of staging\<close>

text \<open>
  C26. No archived object is lost. In any interleaving of writers, owners and reapers, at any
  clock, with leases that may have run out long ago and deletions that may arrive arbitrarily
  late, an object under the prefix of an attempt stays in the store for as long as the
  attempt is being written or is bound: no reaper can hold a proof for it, and the prefix of
  every other attempt is disjoint from it.
\<close>

theorem staging_objects_safe:
  assumes "staging_run empty_system s" and "staging_run s s'" and "tget (ss_table s) a = Some r"
    and "obj \<in> ss_objects s" and "obj \<in> segment (row_key a r)"
    and "tget (ss_table s') a = Some r'" and "sg_state r' \<in> {Writing, Bound}"
  shows "obj \<in> ss_objects s'"
  by (rule run_spares_objects [OF assms(2) staging_run_inv [OF assms(1) empty_system_inv] assms(3-7)])

text \<open>
  C27. Every row has the columns the schema prescribes for its state: the lease, the locator
  and the times that belong to it and no others, and a failure count from 0 to 63. A row
  keeps its identity and only moves forward, from writing over bound to clean-up; a cleaned
  row never changes again, and had been seen empty twice, at least the stability window
  apart.
\<close>

theorem staging_rows_typed:
  assumes "staging_run empty_system s" and "staging_run s s'" and "tget (ss_table s) a = Some r"
  shows "\<exists>r'. tget (ss_table s') a = Some r' \<and> canonical_shape r' \<and> same_identity r r' \<and>
    state_rank (sg_state r) \<le> state_rank (sg_state r') \<and> (sg_state r = Cleaned \<longrightarrow> r' = r)"
proof -
  have inv: "staging_inv s" by (rule staging_run_inv [OF assms(1) empty_system_inv])
  obtain r' where "tget (ss_table s') a = Some r'" "row_step r r'"
    using staging_rows.evolve_row [OF staging_run_evolves [OF assms(2) inv] assms(3)] by blast
  with staging_run_inv [OF assms(2) inv] show ?thesis by (auto simp: staging_inv_def row_step_def)
qed

text \<open>
  C28. Clean-up makes progress. When the reaper claims an attempt that nothing refers to, and
  the store deletes its segment within the lease, the round either records the first empty
  observation and schedules the confirmation after the stability window, or, when the
  attempt had been seen empty before, finishes it.
\<close>

theorem staging_cleanup_progress:
  assumes "wf_table t" and "cleanup_candidates t n0 = (a, r) # rest" and "canonical_shape r"
    and "0 \<le> n0" and "n0 \<le> n1" and "n1 \<le> n2" and "n2 < n0 + CLEANUP_LEASE_MILLIS"
    and "n0 + 2 * CLEANUP_LEASE_MILLIS \<le> i64_max"
    and "archive_staging_reference rf (row_key a r) (canonical_prefix (row_key a r)) = Inr None"
    and "purge_segment st (row_key a r) obj = (obj', None)"
  shows "\<exists>t1 l t2 r2. claim_archive_staging_cleanup t ow tok n0 = Inr (t1, Some l) \<and>
    cleanup_claim st rf t1 obj l n1 n2 =
      (t2, obj', if sg_empty_observed_at r = None then ClaimObservedEmpty else ClaimCleaned) \<and>
    tget t2 a = Some r2 \<and>
    (if sg_empty_observed_at r = None
     then sg_empty_observed_at r2 = Some n2 \<and> sg_next_cleanup_at r2 = Some (n2 + EMPTY_STABILITY_MILLIS)
     else sg_state r2 = Cleaned)"
proof -
  let ?t1 = "tput a (claimed_row ow tok n0 r) t" and ?l = "claimed_lease ow tok n0 a r"
  have cl: "claimable n0 r" and due: "\<exists>n. sg_next_cleanup_at r = Some n \<and> n \<le> n0"
    using candidate_due [OF assms(1,2)] by auto
  have range: "in_i64 (n0 + CLEANUP_LEASE_MILLIS)" "in_i64 (n2 + EMPTY_STABILITY_MILLIS)"
    using assms(4-8) by (auto simp: in_i64_def i64_bounds CLEANUP_LEASE_MILLIS_def EMPTY_STABILITY_MILLIS_def)
  have seen: "\<forall>ob. sg_empty_observed_at r = Some ob \<longrightarrow> ob + EMPTY_STABILITY_MILLIS \<le> n2 \<and> in_i64 (ob + EMPTY_STABILITY_MILLIS)"
    using assms(3-8) cl due
    by (auto simp: canonical_shape_def claimable_def in_i64_def i64_bounds EMPTY_STABILITY_MILLIS_def CLEANUP_LEASE_MILLIS_def)
  obtain r2 where r2: "record_archive_staging_empty ?t1 ?l n1 n2 = Inr (tput a r2 ?t1,
      if sg_empty_observed_at r = None then FirstObservation (n2 + EMPTY_STABILITY_MILLIS) else CleanedUp)"
    "if sg_empty_observed_at r = None
      then sg_empty_observed_at r2 = Some n2 \<and> sg_next_cleanup_at r2 = Some (n2 + EMPTY_STABILITY_MILLIS)
      else sg_state r2 = Cleaned"
    using observe_claimed [OF cl assms(4-7) range(2) seen] .
  have "prove_archive_staging_unreferenced rf ?t1 ?l n1 = Inr (?t1, Unreferenced ?l n1)"
    by (rule prove_claimed [OF cl _ _ assms(9)]) (use assms(4-7) in simp_all)
  then have "cleanup_claim st rf ?t1 obj ?l n1 n2 = (tput a r2 ?t1, obj',
      if sg_empty_observed_at r = None then ClaimObservedEmpty else ClaimCleaned)"
    using assms(10) r2(1) by (simp add: cleanup_claim_def claimed_lease_def)
  then show ?thesis
    using claim_first [OF assms(1,2,4) range(1)] r2(2)
    by (intro exI [of _ ?t1] exI [of _ ?l] exI [of _ "tput a r2 ?t1"] exI [of _ r2]) (simp add: tbl_simps)
qed

subsection \<open>Witnesses\<close>

definition sample_attempt :: uuid where
  "sample_attempt = ''8c5e1d2a-0b3f-4a6c-9d7e-1f2a3b4c5d6e''"

definition sample_staging_key :: staging_key where
  "sample_staging_key = \<lparr>sk_owner = ProxyRequest ''01234567-89ab-4cde-8f01-23456789abcd'', sk_purpose = PResponse,
     sk_attempt_id = sample_attempt\<rparr>"

definition sample_input :: begin_input where
  "sample_input = \<lparr>bi_key = sample_staging_key, bi_intent_digest = replicate 64 (CHR ''a''), bi_lease_token = ''t1'',
     bi_lease_owner = ''writer-1''\<rparr>"

definition sample_write_lease :: write_lease where
  "sample_write_lease = \<lparr>wl_key = sample_staging_key, wl_owner = ''writer-1'', wl_token = ''t1'', wl_expires_at = 91000\<rparr>"

definition sample_locator :: string where
  "sample_locator = canonical_prefix sample_staging_key @ ''/body.json''"

definition sample_written :: staging_system where
  "sample_written = empty_system\<lparr>ss_table := [(sample_attempt, new_attempt sample_input 1000 91000)],
     ss_writers := {sample_write_lease}, ss_objects := {sample_locator}\<rparr>"

definition sample_bound_row :: staging_row where
  "sample_bound_row = (drop_lease (new_attempt sample_input 1000 91000))\<lparr>sg_state := Bound,
     sg_bound_locator := Some sample_locator, sg_bound_at := Some 2000, sg_updated_at := 2000\<rparr>"

definition sample_bound :: staging_system where
  "sample_bound = sample_written\<lparr>ss_table := [(sample_attempt, sample_bound_row)]\<rparr>"

lemma sample_wf_key: "wf_key sample_staging_key"
  by code_simp

lemma sample_row_key: "row_key sample_attempt (new_attempt sample_input n e) = sample_staging_key"
  by (simp add: row_key_def new_attempt_def sample_input_def sample_staging_key_def)

lemma sample_in_segment: "sample_locator \<in> segment sample_staging_key"
proof -
  have "locator_matches_prefix sample_locator (canonical_prefix sample_staging_key)" by code_simp
  then show ?thesis by (simp add: segment_def)
qed

lemma sample_writes: "staging_run empty_system sample_written"
proof -
  let ?s1 = "empty_system\<lparr>ss_table := [(sample_attempt, new_attempt sample_input 1000 91000)],
     ss_writers := {sample_write_lease}\<rparr>"
  have b: "begin_archive_staging_attempt (ss_table empty_system) sample_input 1000 =
      Inr ([(sample_attempt, new_attempt sample_input 1000 91000)], Created sample_write_lease)"
    by (simp add: begin_archive_staging_attempt_def archive_database_now_def empty_system_def tget_def tput_def
        ensure_def ok_or_def checked_def in_i64_def i64_bounds WRITE_LEASE_MILLIS_def sample_input_def sample_staging_key_def
        sample_write_lease_def Let_def)
  have k: "wf_key (bi_key sample_input)" using sample_wf_key by (simp add: sample_input_def)
  have "staging_step empty_system ?s1"
    using staging_step.do_begin [OF k b] by (simp add: empty_system_def)
  moreover have "staging_step ?s1 sample_written"
    using staging_step.do_upload [of sample_write_lease ?s1 sample_locator] sample_in_segment
    by (simp add: sample_written_def empty_system_def sample_write_lease_def)
  ultimately show ?thesis by (blast intro: run_refl run_step)
qed

lemma sample_binds: "staging_run sample_written sample_bound"
proof -
  have v: "validate_bound_locator sample_staging_key sample_locator = Inr ()" by code_simp
  have "bind_archive_staging_attempt (ss_table sample_written) sample_write_lease sample_locator 2000 =
      Inr ([(sample_attempt, sample_bound_row)], True)"
    using v
    by (simp add: bind_archive_staging_attempt_def archive_database_now_def ensure_def sample_write_lease_def
        sample_written_def sample_bound_row_def tupdate_def tget_def tput_def live_lease_def new_attempt_def
        sample_input_def sample_staging_key_def Let_def)
  then have "staging_step sample_written (sample_written\<lparr>ss_table := [(sample_attempt, sample_bound_row)]\<rparr>)"
    by (rule staging_step.do_bind [rotated]) (simp add: sample_written_def)
  then show ?thesis by (auto simp: sample_bound_def intro: run_refl run_step)
qed

theorem staging_objects_safe_witness: "sample_locator \<in> ss_objects sample_bound"
  by (rule staging_objects_safe [OF sample_writes sample_binds, where a = sample_attempt
        and r = "new_attempt sample_input 1000 91000" and r' = sample_bound_row])
     (simp_all add: sample_written_def sample_bound_def tget_def sample_row_key sample_in_segment sample_bound_row_def)

theorem staging_rows_typed_witness: "canonical_shape sample_bound_row"
  using staging_rows_typed [OF sample_writes sample_binds, of sample_attempt "new_attempt sample_input 1000 91000"]
  by (simp add: sample_written_def sample_bound_def tget_def)

text \<open>A surrendered attempt, seen empty before, in a store of one object that deletes reliably.\<close>

definition sample_refs :: archive_refs where
  "sample_refs = \<lparr>rf_requests = [(''01234567-89ab-4cde-8f01-23456789abcd'', ''db/request'', Some ''db/response'')],
     rf_projected = [(''01234567-89ab-4cde-8f01-23456789abcd'', Some 5)], rf_jobs = [], rf_request_assets = [],
     rf_job_assets = [], rf_image_responses = [], rf_media = []\<rparr>"

definition sample_store :: "string list object_store" where
  "sample_store = \<lparr>st_timeout = (\<lambda>_ _. None),
     st_delete = (\<lambda>k objs. (filter (\<lambda>obj. \<not> locator_matches_prefix obj (canonical_prefix k)) objs, True)),
     st_empty = (\<lambda>k objs. Some (filter (\<lambda>obj. locator_matches_prefix obj (canonical_prefix k)) objs = []))\<rparr>"

definition sample_pending :: staging_row where
  "sample_pending = (surrender 2000 (new_attempt sample_input 1000 91000))\<lparr>sg_empty_observed_at := Some 3000,
     sg_next_cleanup_at := Some 63000\<rparr>"

theorem staging_cleanup_progress_witness:
  "snd (snd (cleanup_claim sample_store sample_refs
     [(sample_attempt, claimed_row ''reaper'' ''t2'' 70000 sample_pending)] [sample_locator]
     (claimed_lease ''reaper'' ''t2'' 70000 sample_attempt sample_pending) 70001 70002)) = ClaimCleaned"
proof -
  let ?t = "[(sample_attempt, sample_pending)]"
  have shape: "canonical_shape sample_pending" "sg_empty_observed_at sample_pending = Some 3000"
    by (simp_all add: sample_pending_def surrender_def new_attempt_def row_defs EMPTY_STABILITY_MILLIS_def)
  have key: "row_key sample_attempt sample_pending = sample_staging_key"
    using sample_row_key by (simp add: sample_pending_def surrender_def drop_lease_def row_key_def)
  have cand: "cleanup_candidates ?t 70000 = [(sample_attempt, sample_pending)]"
    by (simp add: cleanup_candidates_def sample_pending_def surrender_def drop_lease_def claimable_def)
  have ref: "archive_staging_reference sample_refs sample_staging_key (canonical_prefix sample_staging_key) = Inr None" by code_simp
  have purge: "purge_segment sample_store sample_staging_key [sample_locator] = ([], None)" by code_simp
  have claim: "claim_archive_staging_cleanup ?t ''reaper'' ''t2'' 70000 =
      Inr ([(sample_attempt, claimed_row ''reaper'' ''t2'' 70000 sample_pending)],
        Some (claimed_lease ''reaper'' ''t2'' 70000 sample_attempt sample_pending))"
    using claim_first [of ?t 70000, OF _ cand]
    by (simp add: wf_table_def tput_def in_i64_def i64_bounds CLEANUP_LEASE_MILLIS_def)
  show ?thesis
    using staging_cleanup_progress [of ?t 70000 sample_attempt sample_pending "[]" 70001 70002 sample_refs sample_store
        "[sample_locator]" "[]" "''reaper''" "''t2''"] shape cand ref purge claim
    by (auto simp: key wf_table_def i64_bounds CLEANUP_LEASE_MILLIS_def)
qed

end
