(* ===== verification/Settlement_Feed.thy ===== *)
theory Settlement_Feed
  imports Settlement_Adjust "HOL-Library.Char_ord" "HOL-Library.List_Lexorder" "HOL-Library.Product_Lexorder"
begin

text \<open>
  The settlement feed of an account (\<open>src/src/db/billing/settlements.rs\<close>): every finished,
  charged request appears once, under the next sequence of its account, in the transaction
  that finished it, and clients follow the feed by cursor. The statement that selects a
  finished text request is not modelled, that of a generation job is in \<open>Generation_Jobs\<close>;
  both hand their row to \<open>publish_settlement_row\<close>.
\<close>

subsection \<open>The feed\<close>

datatype usage_basis = ProviderReported | ProviderEstimated | ContractCeiling | NotObserved

definition usage_basis_from_storage :: "string \<Rightarrow> usage_basis option" where
  "usage_basis_from_storage v =
     (if v = ''provider_reported'' then Some ProviderReported
      else if v = ''provider_estimated'' then Some ProviderEstimated
      else if v = ''contract_ceiling'' then Some ContractCeiling
      else if v = ''not_observed'' then Some NotObserved else None)"

definition usage_basis_as_str :: "usage_basis \<Rightarrow> string" where
  "usage_basis_as_str b = (case b of ProviderReported \<Rightarrow> ''provider_reported'' | ProviderEstimated \<Rightarrow> ''provider_estimated''
     | ContractCeiling \<Rightarrow> ''contract_ceiling'' | NotObserved \<Rightarrow> ''not_observed'')"

record feed_entry =
  fe_account_id :: uuid
  fe_sequence :: int
  fe_request_id :: uuid
  fe_request_kind :: settlement_kind
  fe_key_id :: uuid
  fe_model :: string
  fe_cost :: int
  fe_currency :: string
  fe_settled_at :: int
  fe_completed_at :: int
  fe_input_tokens :: "int option"
  fe_cached_input_tokens :: "int option"
  fe_cache_write_tokens :: "int option"
  fe_output_tokens :: "int option"
  fe_usage_basis :: "string option"

record feed_db =
  feed_rows :: "(uuid, feed_entry) table" \<comment> \<open>\<open>account_settlement_feed\<close>, by settlement\<close>
  feed_sequences :: "(uuid, int) table" \<comment> \<open>\<open>credit_accounts.settlement_sequence\<close>, default 0\<close>

definition feed_sequence :: "feed_db \<Rightarrow> uuid \<Rightarrow> int" where
  "feed_sequence fd a = (case tget (feed_sequences fd) a of None \<Rightarrow> 0 | Some n \<Rightarrow> n)"

text \<open>
  The row the two publishing statements select: the finished request, the reservation it
  settled and, through an outer join, the usage entry of the ledger.
\<close>

record settlement_source =
  so_request_id :: uuid
  so_request_kind :: settlement_kind
  so_account_id :: uuid
  so_key_id :: uuid
  so_model :: string
  so_cost :: int
  so_completed_at :: int
  so_input_tokens :: "int option"
  so_cached_input_tokens :: "int option"
  so_cache_write_tokens :: "int option"
  so_output_tokens :: "int option"
  so_usage_basis :: "string option"
  so_mode :: enforcement_mode
  so_ledger :: "(uuid \<times> ledger_entry) option"

definition settled_entry :: "billing_db \<Rightarrow> uuid \<Rightarrow> reservation_row \<Rightarrow> (uuid \<times> ledger_entry) option" where
  "settled_entry db i r = find (\<lambda>(j, l). le_account_id l = rr_account_id r \<and> le_key_id l = Some (rr_key_id r) \<and>
     le_kind l = Usage \<and> le_source l = i) (ledger_entries db)"

definition feed_lookup :: "feed_db \<Rightarrow> settlement_kind \<Rightarrow> uuid \<Rightarrow> uuid option" where
  "feed_lookup fd kind request = map_option fst
     (find (\<lambda>(s, f). fe_request_kind f = kind \<and> fe_request_id f = request) (feed_rows fd))"

definition publish_settlement_row :: "billing_db \<Rightarrow> feed_db \<Rightarrow> settlement_source option \<Rightarrow> (feed_db \<times> bool) res" where
  "publish_settlement_row db fd row = (case row of
      None \<Rightarrow> Inr (fd, False)
    | Some so \<Rightarrow>
        if so_mode so = MeteredUnlimited then Inr (fd, False)
        else
          rbind (ok_or (so_ledger so) (internal ''settlements_publish_settlement_row_2'')) (\<lambda>(settlement_id, l).
          rbind (ensure (\<not> (so_cost so < 0 \<or> checked (- le_amount l) \<noteq> Some (so_cost so)))
            (internal ''settlements_publish_settlement_row_4'')) (\<lambda>_.
          rbind (ensure (tget (credit_accounts db) (so_account_id so) \<noteq> None)
            (internal ''settlements_publish_settlement_row_5'')) (\<lambda>_.
          case feed_lookup fd (so_request_kind so) (so_request_id so) of
            Some existing \<Rightarrow>
              rbind (ensure (existing = settlement_id) (internal ''settlements_publish_settlement_row_6'')) (\<lambda>_.
              Inr (fd, True))
          | None \<Rightarrow>
              rbind (sql_int (feed_sequence fd (so_account_id so) + 1)) (\<lambda>sequence.
              rbind (sql_insert settlement_id
                \<lparr>fe_account_id = so_account_id so, fe_sequence = sequence, fe_request_id = so_request_id so,
                 fe_request_kind = so_request_kind so, fe_key_id = so_key_id so, fe_model = so_model so,
                 fe_cost = so_cost so, fe_currency = le_currency l, fe_settled_at = le_created_at l,
                 fe_completed_at = so_completed_at so, fe_input_tokens = so_input_tokens so,
                 fe_cached_input_tokens = so_cached_input_tokens so, fe_cache_write_tokens = so_cache_write_tokens so,
                 fe_output_tokens = so_output_tokens so, fe_usage_basis = so_usage_basis so\<rparr> (feed_rows fd)) (\<lambda>rows.
              Inr (fd\<lparr>feed_rows := rows, feed_sequences := tput (so_account_id so) sequence (feed_sequences fd)\<rparr>, True)))))))"

subsection \<open>Reading the feed\<close>

record settlement_view =
  sv_settlement_id :: uuid
  sv_sequence :: int
  sv_request_id :: uuid
  sv_kind :: settlement_kind
  sv_account_id :: uuid
  sv_key_id :: uuid
  sv_model :: string
  sv_cost :: string
  sv_currency :: string
  sv_settled_at :: int
  sv_completed_at :: int
  sv_input_tokens :: "int option"
  sv_cached_input_tokens :: "int option"
  sv_cache_write_tokens :: "int option"
  sv_output_tokens :: "int option"
  sv_usage_basis :: "usage_basis option"

type_synonym feed_cursor = "int \<times> uuid"

definition account_settlement_from_row :: "uuid \<times> feed_entry \<Rightarrow> settlement_view res" where
  "account_settlement_from_row = (\<lambda>(s, f).
     rbind (ensure (\<not> fe_cost f < 0) (internal ''settlements_account_settlement_from_row_1'')) (\<lambda>_.
     rbind (case fe_usage_basis f of None \<Rightarrow> Inr None
            | Some v \<Rightarrow> rbind (ok_or (usage_basis_from_storage v) (internal ''settlements_account_settlement_from_row_3''))
                (\<lambda>b. Inr (Some b))) (\<lambda>basis.
     Inr \<lparr>sv_settlement_id = s, sv_sequence = fe_sequence f, sv_request_id = fe_request_id f, sv_kind = fe_request_kind f,
          sv_account_id = fe_account_id f, sv_key_id = fe_key_id f, sv_model = fe_model f,
          sv_cost = micros_to_decimal_string (fe_cost f), sv_currency = fe_currency f, sv_settled_at = fe_settled_at f,
          sv_completed_at = fe_completed_at f, sv_input_tokens = fe_input_tokens f,
          sv_cached_input_tokens = fe_cached_input_tokens f, sv_cache_write_tokens = fe_cache_write_tokens f,
          sv_output_tokens = fe_output_tokens f, sv_usage_basis = basis\<rparr>)))"

fun collect :: "('a \<Rightarrow> 'b res) \<Rightarrow> 'a list \<Rightarrow> 'b list res" where
  "collect f [] = Inr []"
| "collect f (x # xs) = rbind (f x) (\<lambda>y. rbind (collect f xs) (\<lambda>ys. Inr (y # ys)))"

definition feed_key :: "uuid \<times> feed_entry \<Rightarrow> feed_cursor" where
  "feed_key = (\<lambda>(s, f). (fe_sequence f, s))"

text \<open>The rows of an account behind a cursor, in the order of the feed.\<close>

definition feed_after :: "feed_db \<Rightarrow> uuid \<Rightarrow> feed_cursor \<Rightarrow> (uuid \<times> feed_entry) list" where
  "feed_after fd a after = sort_key feed_key (filter (\<lambda>x. fe_account_id (snd x) = a \<and> after < feed_key x) (feed_rows fd))"

definition nil_uuid :: uuid where
  "nil_uuid = ''00000000-0000-0000-0000-000000000000''"

definition list_account_settlements ::
  "feed_db \<Rightarrow> uuid \<Rightarrow> int \<Rightarrow> feed_cursor option \<Rightarrow> (settlement_kind \<times> uuid) option \<Rightarrow> (settlement_view list \<times> feed_cursor option) res" where
  "list_account_settlements fd a limit after exact =
     rbind (ensure (\<not> (\<not> (1 \<le> limit \<and> limit \<le> 500) \<or> exact \<noteq> None \<and> after \<noteq> None))
       (BadRequest ''invalid settlement query'')) (\<lambda>_.
     rbind (case after of None \<Rightarrow> Inr ()
       | Some (sequence, i) \<Rightarrow>
           ensure (case tget (feed_rows fd) i of None \<Rightarrow> False
               | Some f \<Rightarrow> fe_account_id f = a \<and> fe_sequence f = sequence)
             (BadRequest ''after cursor does not identify an account settlement'')) (\<lambda>_.
     let start = (case after of None \<Rightarrow> (-1, nil_uuid) | Some c \<Rightarrow> c);
         fetch_limit = (if exact \<noteq> None then 2 else sat (limit + 1));
         rows = take (nat fetch_limit) (filter (\<lambda>(s, f). case exact of None \<Rightarrow> True
             | Some (kind, request) \<Rightarrow> fe_request_kind f = kind \<and> fe_request_id f = request) (feed_after fd a start))
     in rbind (ensure (\<not> (exact \<noteq> None \<and> 1 < length rows)) (internal ''settlements_list_account_settlements_1'')) (\<lambda>_.
        rbind (collect account_settlement_from_row rows) (\<lambda>items.
        let has_more = exact = None \<and> nat limit < length items;
            items = (if has_more then take (nat limit) items else items)
        in Inr (items, if has_more then Some (sv_sequence (last items), sv_settlement_id (last items)) else None)))))"

subsection \<open>The invariant of the feed\<close>

definition basis_ok :: "string option \<Rightarrow> bool" where
  "basis_ok v \<longleftrightarrow> (case v of None \<Rightarrow> True | Some s \<Rightarrow> usage_basis_from_storage s \<noteq> None)"

definition sequences_of :: "feed_db \<Rightarrow> uuid \<Rightarrow> int set" where
  "sequences_of fd a = {fe_sequence f |s f. tget (feed_rows fd) s = Some f \<and> fe_account_id f = a}"

definition feed_inv :: "feed_db \<Rightarrow> bool" where
  "feed_inv fd \<longleftrightarrow> wf_table (feed_rows fd) \<and>
     (\<forall>s f. tget (feed_rows fd) s = Some f \<longrightarrow> 0 \<le> fe_cost f \<and> basis_ok (fe_usage_basis f)) \<and>
     (\<forall>a. 0 \<le> feed_sequence fd a \<and> sequences_of fd a = {1..feed_sequence fd a}) \<and>
     (\<forall>s f s' f'. tget (feed_rows fd) s = Some f \<longrightarrow> tget (feed_rows fd) s' = Some f' \<longrightarrow>
        fe_account_id f = fe_account_id f' \<and> fe_sequence f = fe_sequence f' \<or>
        fe_request_kind f = fe_request_kind f' \<and> fe_request_id f = fe_request_id f' \<longrightarrow> s = s')"

text \<open>How the feed grows: rows stay, and new ones come behind all rows of their account.\<close>

definition feed_grows :: "feed_db \<Rightarrow> feed_db \<Rightarrow> bool" where
  "feed_grows fd fd' \<longleftrightarrow> (\<forall>s f. tget (feed_rows fd) s = Some f \<longrightarrow> tget (feed_rows fd') s = Some f) \<and>
     (\<forall>a. feed_sequence fd a \<le> feed_sequence fd' a)"

definition published :: "settlement_source \<Rightarrow> ledger_entry \<Rightarrow> int \<Rightarrow> feed_entry" where
  "published so l n = \<lparr>fe_account_id = so_account_id so, fe_sequence = n, fe_request_id = so_request_id so,
     fe_request_kind = so_request_kind so, fe_key_id = so_key_id so, fe_model = so_model so,
     fe_cost = so_cost so, fe_currency = le_currency l, fe_settled_at = le_created_at l,
     fe_completed_at = so_completed_at so, fe_input_tokens = so_input_tokens so,
     fe_cached_input_tokens = so_cached_input_tokens so, fe_cache_write_tokens = so_cache_write_tokens so,
     fe_output_tokens = so_output_tokens so, fe_usage_basis = so_usage_basis so\<rparr>"

lemma publish_cases:
  assumes "publish_settlement_row db fd row = Inr (fd', b)"
  obtains (skipped) "fd' = fd" "\<not> b" "\<And>so. row = Some so \<Longrightarrow> so_mode so = MeteredUnlimited"
  | (replayed) so s l where "row = Some so" "so_mode so \<noteq> MeteredUnlimited" "fd' = fd" b "so_ledger so = Some (s, l)"
      "feed_lookup fd (so_request_kind so) (so_request_id so) = Some s"
  | (added) so s l where "row = Some so" "so_mode so \<noteq> MeteredUnlimited" b "so_ledger so = Some (s, l)"
      "le_amount l = - so_cost so" "0 \<le> so_cost so" "tget (credit_accounts db) (so_account_id so) \<noteq> None"
      "feed_lookup fd (so_request_kind so) (so_request_id so) = None" "tget (feed_rows fd) s = None"
      "fd' = fd\<lparr>feed_rows := tput s (published so l (feed_sequence fd (so_account_id so) + 1)) (feed_rows fd),
         feed_sequences := tput (so_account_id so) (feed_sequence fd (so_account_id so) + 1) (feed_sequences fd)\<rparr>"
proof (cases row)
  case None
  then show thesis using assms by (intro skipped) (auto simp: publish_settlement_row_def)
next
  case (Some so)
  show thesis
  proof (cases "so_mode so = MeteredUnlimited")
    case True
    then show thesis using assms Some by (intro skipped) (auto simp: publish_settlement_row_def)
  next
    case False
    then obtain s l where l: "so_ledger so = Some (s, l)" "0 \<le> so_cost so" "le_amount l = - so_cost so"
      "tget (credit_accounts db) (so_account_id so) \<noteq> None"
      using assms Some by (auto simp: publish_settlement_row_def rbind_Inr_iff ok_or_Inr_iff ensure_Inr_iff checked_def split: if_splits)
    show thesis
    proof (cases "feed_lookup fd (so_request_kind so) (so_request_id so)")
      case None
      then show thesis using assms Some False l
        by (intro added [of so s l]) (auto simp: publish_settlement_row_def rbind_Inr_iff ensure_Inr_iff sql_int_Inr_iff
            sql_insert_Inr_iff published_def ok_or_def)
    next
      case (Some s')
      then show thesis using assms \<open>row = Some so\<close> False l
        by (intro replayed [of so s l]) (auto simp: publish_settlement_row_def rbind_Inr_iff ensure_Inr_iff ok_or_def)
    qed
  qed
qed

lemma feed_lookup_None:
  assumes "feed_lookup fd kind request = None" and "tget (feed_rows fd) s = Some f"
  shows "\<not> (fe_request_kind f = kind \<and> fe_request_id f = request)"
proof -
  have "(s, f) \<in> set (feed_rows fd)" using assms(2) by (simp add: tget_def map_of_SomeD)
  then show ?thesis using assms(1) by (auto simp: feed_lookup_def find_None_iff)
qed

lemma feed_lookup_Some:
  assumes "feed_inv fd" and "tget (feed_rows fd) s = Some f"
  shows "feed_lookup fd (fe_request_kind f) (fe_request_id f) = Some s"
proof -
  obtain s' where s': "feed_lookup fd (fe_request_kind f) (fe_request_id f) = Some s'"
    using feed_lookup_None [of fd "fe_request_kind f" "fe_request_id f" s f] assms(2) by fastforce
  then obtain f' where "(s', f') \<in> set (feed_rows fd)" "fe_request_kind f' = fe_request_kind f" "fe_request_id f' = fe_request_id f"
    by (auto simp: feed_lookup_def find_Some_iff) (metis nth_mem)
  moreover from this have "tget (feed_rows fd) s' = Some f'" using assms(1) by (simp add: feed_inv_def wf_table_def tget_def)
  ultimately have "s' = s" using assms unfolding feed_inv_def by metis
  with s' show ?thesis by simp
qed

lemma added_unique:
  assumes "feed_inv fd" and "\<And>s'. tget rows s' = (if s' = s then Some f else tget (feed_rows fd) s')"
    and "fe_sequence f = feed_sequence fd (fe_account_id f) + 1"
    and "feed_lookup fd (fe_request_kind f) (fe_request_id f) = None"
    and "tget rows s1 = Some f1" and "tget rows s2 = Some f2"
    and "fe_account_id f1 = fe_account_id f2 \<and> fe_sequence f1 = fe_sequence f2 \<or>
       fe_request_kind f1 = fe_request_kind f2 \<and> fe_request_id f1 = fe_request_id f2"
  shows "s1 = s2"
proof -
  have clash: "\<not> (fe_account_id g = fe_account_id f \<and> fe_sequence g = fe_sequence f \<or>
      fe_request_kind g = fe_request_kind f \<and> fe_request_id g = fe_request_id f)"
    if g: "tget (feed_rows fd) s' = Some g" for s' g
  proof -
    have "fe_sequence g \<in> sequences_of fd (fe_account_id g)" using g by (auto simp: sequences_of_def)
    then have "fe_sequence g \<le> feed_sequence fd (fe_account_id g)" using assms(1) by (simp add: feed_inv_def)
    then show ?thesis using feed_lookup_None [OF assms(4) g] assms(3) by auto
  qed
  show ?thesis
  proof (cases "s1 = s"; cases "s2 = s")
    assume "s1 = s" "s2 \<noteq> s"
    then show ?thesis using assms(2,5-7) clash [of s2 f2] by (metis option.sel)
  next
    assume "s1 \<noteq> s" "s2 = s"
    then show ?thesis using assms(2,5-7) clash [of s1 f1] by (metis option.sel)
  next
    assume "s1 \<noteq> s" "s2 \<noteq> s"
    then have "tget (feed_rows fd) s1 = Some f1" "tget (feed_rows fd) s2 = Some f2" using assms(2,5,6) by simp_all
    then show ?thesis using assms(1,7) unfolding feed_inv_def by blast
  qed simp
qed

lemma publish_added_inv:
  assumes "feed_inv fd" and "0 \<le> so_cost so" and "basis_ok (so_usage_basis so)" and "tget (feed_rows fd) s = None"
    and "feed_lookup fd (so_request_kind so) (so_request_id so) = None"
    and "fd' = fd\<lparr>feed_rows := tput s (published so l (feed_sequence fd (so_account_id so) + 1)) (feed_rows fd),
         feed_sequences := tput (so_account_id so) (feed_sequence fd (so_account_id so) + 1) (feed_sequences fd)\<rparr>"
  shows "feed_inv fd'" and "feed_grows fd fd'"
proof -
  let ?a = "so_account_id so" and ?n = "feed_sequence fd (so_account_id so)" and ?f = "published so l (feed_sequence fd (so_account_id so) + 1)"
  have f: "fe_account_id ?f = ?a" "fe_sequence ?f = ?n + 1" "fe_request_kind ?f = so_request_kind so" "fe_request_id ?f = so_request_id so"
    "fe_cost ?f = so_cost so" "fe_usage_basis ?f = so_usage_basis so" by (simp_all add: published_def)
  have get: "tget (feed_rows fd') s' = (if s' = s then Some ?f else tget (feed_rows fd) s')" for s'
    by (simp add: assms(6) tbl_simps)
  have seq: "feed_sequence fd' a = (if a = ?a then ?n + 1 else feed_sequence fd a)" for a
    by (simp add: assms(6) feed_sequence_def tbl_simps)
  have "sequences_of fd' a = (if a = ?a then insert (?n + 1) (sequences_of fd a) else sequences_of fd a)" for a
    using assms(4) f(1,2) by (auto simp: sequences_of_def get) (metis option.distinct(1))+
  then have seqs: "sequences_of fd' a = {1..feed_sequence fd' a}" "0 \<le> feed_sequence fd' a" for a
    using assms(1) by (auto simp: feed_inv_def seq)
  have wf: "wf_table (feed_rows fd')" using assms(1,6) by (simp add: feed_inv_def)
  have uniq: "s1 = s2" if "tget (feed_rows fd') s1 = Some f1" "tget (feed_rows fd') s2 = Some f2"
      "fe_account_id f1 = fe_account_id f2 \<and> fe_sequence f1 = fe_sequence f2 \<or>
       fe_request_kind f1 = fe_request_kind f2 \<and> fe_request_id f1 = fe_request_id f2" for s1 s2 f1 f2
    by (rule added_unique [OF assms(1) get _ _ that]) (simp_all add: f(1-4) assms(5))
  have "0 \<le> fe_cost g \<and> basis_ok (fe_usage_basis g)" if "tget (feed_rows fd') s' = Some g" for s' g
    using that assms(1-3) f(5,6) by (auto simp: get feed_inv_def split: if_splits)
  then show "feed_inv fd'" unfolding feed_inv_def using wf seqs uniq by blast
  show "feed_grows fd fd'" using assms(4) by (auto simp: feed_grows_def get seq)
qed

subsection \<open>Pages\<close>

definition cursor_valid :: "feed_db \<Rightarrow> uuid \<Rightarrow> feed_cursor option \<Rightarrow> bool" where
  "cursor_valid fd a c \<longleftrightarrow> (case c of None \<Rightarrow> True
     | Some (n, s) \<Rightarrow> (\<exists>f. tget (feed_rows fd) s = Some f \<and> fe_account_id f = a \<and> fe_sequence f = n))"

definition cursor_sequence :: "feed_cursor option \<Rightarrow> int" where
  "cursor_sequence c = (case c of None \<Rightarrow> 0 | Some (n, s) \<Rightarrow> n)"

definition cursor_start :: "feed_cursor option \<Rightarrow> feed_cursor" where
  "cursor_start c = (case c of None \<Rightarrow> (-1, nil_uuid) | Some c \<Rightarrow> c)"

lemma feed_row_sequence:
  assumes "feed_inv fd" and "tget (feed_rows fd) s = Some f"
  shows "1 \<le> fe_sequence f" and "fe_sequence f \<le> feed_sequence fd (fe_account_id f)"
proof -
  have "fe_sequence f \<in> sequences_of fd (fe_account_id f)" using assms(2) by (auto simp: sequences_of_def)
  then show "1 \<le> fe_sequence f" "fe_sequence f \<le> feed_sequence fd (fe_account_id f)" using assms(1) by (simp_all add: feed_inv_def)
qed

lemma feed_unique:
  assumes "feed_inv fd" and "tget (feed_rows fd) s = Some f" and "tget (feed_rows fd) s' = Some f'"
    and "fe_account_id f = fe_account_id f'" and "fe_sequence f = fe_sequence f'"
  shows "s = s'"
  using assms unfolding feed_inv_def by blast

lemma feed_row_get: "feed_inv fd \<Longrightarrow> (s, f) \<in> set (feed_rows fd) \<longleftrightarrow> tget (feed_rows fd) s = Some f"
proof -
  assume "feed_inv fd"
  then have "distinct (map fst (feed_rows fd))" by (simp add: feed_inv_def wf_table_def)
  then show ?thesis by (simp add: tget_def)
qed

lemma feed_after_set:
  assumes "feed_inv fd" and "cursor_valid fd a c"
  shows "x \<in> set (feed_after fd a (cursor_start c)) \<longleftrightarrow>
    tget (feed_rows fd) (fst x) = Some (snd x) \<and> fe_account_id (snd x) = a \<and> cursor_sequence c < fe_sequence (snd x)"
proof -
  obtain s f where x: "x = (s, f)" by force
  have "cursor_start c < feed_key (s, f) \<longleftrightarrow> cursor_sequence c < fe_sequence f"
    if "tget (feed_rows fd) s = Some f" "fe_account_id f = a"
  proof (cases c)
    case None
    then show ?thesis using feed_row_sequence(1) [OF assms(1) that(1)]
      by (simp add: cursor_start_def cursor_sequence_def feed_key_def)
  next
    case (Some p)
    obtain n s' where p: "p = (n, s')" by force
    then obtain f' where "tget (feed_rows fd) s' = Some f'" "fe_account_id f' = a" "fe_sequence f' = n"
      using assms(2) Some by (auto simp: cursor_valid_def)
    then have "fe_sequence f = n \<Longrightarrow> s = s'" using feed_unique [OF assms(1) that(1)] that(2) by simp
    then show ?thesis using Some p
      by (cases "fe_sequence f = n") (auto simp: cursor_start_def cursor_sequence_def feed_key_def)
  qed
  then show ?thesis using feed_row_get [OF assms(1)] by (auto simp: feed_after_def x)
qed

lemma feed_after_sequences:
  assumes "feed_inv fd" and "cursor_valid fd a c"
  shows "map (\<lambda>x. fe_sequence (snd x)) (feed_after fd a (cursor_start c)) = [cursor_sequence c + 1..feed_sequence fd a]"
proof -
  let ?xs = "feed_after fd a (cursor_start c)" and ?seq = "\<lambda>x. fe_sequence (snd x)"
  note mem = feed_after_set [OF assms]
  have nn: "0 \<le> cursor_sequence c" using assms feed_row_sequence(1)
    by (fastforce simp: cursor_valid_def cursor_sequence_def split: option.splits)
  have sq: "sequences_of fd a = {1..feed_sequence fd a}" using assms(1) by (simp add: feed_inv_def)
  have im: "?seq ` set ?xs = {n \<in> sequences_of fd a. cursor_sequence c < n}"
  proof
    show "?seq ` set ?xs \<subseteq> {n \<in> sequences_of fd a. cursor_sequence c < n}"
      unfolding sequences_of_def by (auto simp: mem) blast
    show "{n \<in> sequences_of fd a. cursor_sequence c < n} \<subseteq> ?seq ` set ?xs"
    proof
      fix n assume "n \<in> {n \<in> sequences_of fd a. cursor_sequence c < n}"
      then obtain s f where "tget (feed_rows fd) s = Some f" "fe_account_id f = a" "fe_sequence f = n" "cursor_sequence c < n"
        by (auto simp: sequences_of_def)
      then have "(s, f) \<in> set ?xs" "?seq (s, f) = n" by (simp_all add: mem)
      then show "n \<in> ?seq ` set ?xs" by blast
    qed
  qed
  have "{n \<in> {1..feed_sequence fd a}. cursor_sequence c < n} = {cursor_sequence c + 1..feed_sequence fd a}" using nn by auto
  then have set: "set (map ?seq ?xs) = set [cursor_sequence c + 1..feed_sequence fd a]" unfolding set_map im sq set_upto .
  have "sorted (map feed_key ?xs)" by (simp add: feed_after_def)
  then have "sorted_wrt (\<lambda>x y. feed_key x \<le> feed_key y) ?xs" by (simp only: sorted_map)
  then have "sorted_wrt (\<lambda>x y. ?seq x \<le> ?seq y) ?xs"
    by (rule sorted_wrt_mono_rel [rotated]) (auto simp: feed_key_def split: prod.splits)
  then have "sorted (map ?seq ?xs)" by (simp add: sorted_map)
  moreover have "distinct (map ?seq ?xs)"
  proof -
    have "distinct (map fst (feed_rows fd))" using assms(1) by (simp add: feed_inv_def wf_table_def)
    then have "distinct (feed_rows fd)" by (simp add: distinct_map)
    moreover have "x = y" if "x \<in> set ?xs" "y \<in> set ?xs" "?seq x = ?seq y" for x y
    proof -
      have x: "tget (feed_rows fd) (fst x) = Some (snd x)" "tget (feed_rows fd) (fst y) = Some (snd y)"
        "fe_account_id (snd x) = fe_account_id (snd y)" using that(1,2) by (simp_all add: mem)
      then have "fst x = fst y" using feed_unique [OF assms(1) x that(3)] by simp
      then show ?thesis using x by (simp add: prod_eq_iff)
    qed
    ultimately show ?thesis by (simp add: distinct_map inj_on_def feed_after_def)
  qed
  ultimately show ?thesis using set by (intro sorted_distinct_set_unique) simp_all
qed

lemma collect_Inr:
  assumes "\<And>x. x \<in> set xs \<Longrightarrow> f x = Inr (g x)" shows "collect f xs = Inr (map g xs)"
  using assms by (induction xs) auto

definition view_of_row :: "uuid \<times> feed_entry \<Rightarrow> settlement_view" where
  "view_of_row x = (case account_settlement_from_row x of Inr v \<Rightarrow> v | Inl _ \<Rightarrow> undefined)"

lemma row_has_view:
  assumes "feed_inv fd" and "tget (feed_rows fd) (fst x) = Some (snd x)"
  shows "account_settlement_from_row x = Inr (view_of_row x)" and "sv_sequence (view_of_row x) = fe_sequence (snd x)"
    and "sv_settlement_id (view_of_row x) = fst x"
proof -
  obtain s f where x: "x = (s, f)" by force
  have "0 \<le> fe_cost f" "basis_ok (fe_usage_basis f)" using assms x by (auto simp: feed_inv_def)
  then obtain v where "account_settlement_from_row x = Inr v" "sv_sequence v = fe_sequence f" "sv_settlement_id v = s"
    by (auto simp: account_settlement_from_row_def x basis_ok_def ensure_def ok_or_def split: option.splits)
  then show "account_settlement_from_row x = Inr (view_of_row x)" "sv_sequence (view_of_row x) = fe_sequence (snd x)"
    "sv_settlement_id (view_of_row x) = fst x" by (simp_all add: view_of_row_def x)
qed

lemma upto_take: "map g xs = [i..j] \<Longrightarrow> map g (take n xs) = [i..min j (i + int n - 1)]"
proof (induction n arbitrary: xs i)
  case (Suc n)
  show ?case
  proof (cases xs)
    case Nil
    then show ?thesis using Suc.prems by auto
  next
    case (Cons x ys)
    have "i \<le> j" using Suc.prems Cons by (metis list.distinct(1) list.map_disc_iff upto_empty linorder_not_le)
    then have "g x = i" "map g ys = [i + 1..j]" using Suc.prems Cons upto_rec1 [of i j] by auto
    then show ?thesis using Suc.IH [of ys "i + 1"] Cons \<open>i \<le> j\<close> upto_rec1 [of i "min j (i + int (Suc n) - 1)"] by auto
  qed
qed simp

text \<open>One page: the next sequences, and a cursor at the last of them when there are more.\<close>

lemma feed_page:
  assumes "feed_inv fd" and "cursor_valid fd a c" and "1 \<le> limit" and "limit \<le> 500"
  obtains items c' where "list_account_settlements fd a limit c None = Inr (items, c')"
    and "map sv_sequence items = [cursor_sequence c + 1..min (feed_sequence fd a) (cursor_sequence c + limit)]"
    and "if cursor_sequence c + limit < feed_sequence fd a
         then c' \<noteq> None \<and> cursor_valid fd a c' \<and> cursor_sequence c' = cursor_sequence c + limit else c' = None"
proof -
  let ?all = "feed_after fd a (cursor_start c)" and ?q = "cursor_sequence c" and ?N = "feed_sequence fd a"
  let ?rows = "take (nat (limit + 1)) ?all"
  define items where "items = map view_of_row (take (nat limit) ?all)"
  note mem = feed_after_set [OF assms(1,2)] and seqs = feed_after_sequences [OF assms(1,2)]
  have view: "account_settlement_from_row x = Inr (view_of_row x)" "sv_sequence (view_of_row x) = fe_sequence (snd x)"
    "sv_settlement_id (view_of_row x) = fst x" if "x \<in> set ?all" for x
    using row_has_view [OF assms(1)] that mem by auto
  have len: "length ?all = nat (?N - ?q)" using arg_cong [OF seqs, of length] by simp
  have sat: "sat (limit + 1) = limit + 1" using assms(3,4) by (simp add: sat_def i64_bounds)
  have coll: "collect account_settlement_from_row ?rows = Inr (map view_of_row ?rows)"
    by (rule collect_Inr) (use view(1) in \<open>blast dest: in_set_takeD\<close>)
  have valid: "(case c of None \<Rightarrow> Inr () | Some (sequence, i) \<Rightarrow>
      ensure (case tget (feed_rows fd) i of None \<Rightarrow> False | Some f \<Rightarrow> fe_account_id f = a \<and> fe_sequence f = sequence)
        (BadRequest ''after cursor does not identify an account settlement'')) = Inr ()"
    using assms(2) by (auto simp: cursor_valid_def ensure_def split: option.splits)
  have seq_items: "map sv_sequence items = [?q + 1..min ?N (?q + limit)]"
  proof -
    have "map sv_sequence items = map (\<lambda>x. fe_sequence (snd x)) (take (nat limit) ?all)"
      unfolding items_def map_map by (rule map_cong) (auto dest!: in_set_takeD simp: view(2))
    then show ?thesis using upto_take [OF seqs, of "nat limit"] assms(3) by simp
  qed
  have more: "nat limit < length ?rows \<longleftrightarrow> ?q + limit < ?N" using assms(3) len by auto
  have whole: "\<not> ?q + limit < ?N \<Longrightarrow> ?rows = take (nat limit) ?all" using assms(3) len by auto
  have page: "list_account_settlements fd a limit c None = Inr (items,
      if ?q + limit < ?N then Some (sv_sequence (last items), sv_settlement_id (last items)) else None)"
    unfolding list_account_settlements_def using assms(3,4) valid sat coll more whole
    by (simp add: ensure_def Let_def items_def take_map min_def flip: cursor_start_def)
  show thesis
  proof (rule that [OF page seq_items])
    show "if ?q + limit < ?N
        then (if ?q + limit < ?N then Some (sv_sequence (last items), sv_settlement_id (last items)) else None) \<noteq> None \<and>
          cursor_valid fd a (if ?q + limit < ?N then Some (sv_sequence (last items), sv_settlement_id (last items)) else None) \<and>
          cursor_sequence (if ?q + limit < ?N then Some (sv_sequence (last items), sv_settlement_id (last items)) else None) = ?q + limit
        else (if ?q + limit < ?N then Some (sv_sequence (last items), sv_settlement_id (last items)) else None) = None"
    proof (cases "?q + limit < ?N")
      case True
      then have "map sv_sequence items = [?q + 1..?q + limit]" using seq_items by simp
      moreover have ne: "take (nat limit) ?all \<noteq> []" using assms(3) len True by auto
      ultimately have last: "sv_sequence (last items) = ?q + limit"
        using assms(3) upto_rec2 [of "?q + 1" "?q + limit"] by (simp add: items_def flip: last_map)
      have x: "last (take (nat limit) ?all) \<in> set ?all" using last_in_set [OF ne] by (rule in_set_takeD)
      then have "cursor_valid fd a (Some (sv_sequence (last items), sv_settlement_id (last items)))"
        using view(2,3) [OF x] ne mem by (simp add: cursor_valid_def items_def last_map)
      then show ?thesis using True last by (simp add: cursor_sequence_def)
    qed simp
  qed
qed

text \<open>
  A client that follows the cursors, one page from each snapshot of a growing feed; the flag
  says that it reached the end.
\<close>

fun read_pages ::
  "(nat \<Rightarrow> feed_db) \<Rightarrow> uuid \<Rightarrow> int \<Rightarrow> nat \<Rightarrow> nat \<Rightarrow> feed_cursor option \<Rightarrow> settlement_view list \<times> bool" where
  "read_pages snap a limit i 0 c = ([], False)"
| "read_pages snap a limit i (Suc n) c = (case list_account_settlements (snap i) a limit c None of
      Inl _ \<Rightarrow> ([], False)
    | Inr (items, None) \<Rightarrow> (items, True)
    | Inr (items, Some c') \<Rightarrow> (let (rest, finished) = read_pages snap a limit (Suc i) n (Some c') in (items @ rest, finished)))"

lemma cursor_valid_grows: "feed_grows fd fd' \<Longrightarrow> cursor_valid fd a c \<Longrightarrow> cursor_valid fd' a c"
  by (fastforce simp: feed_grows_def cursor_valid_def split: option.splits)

lemma cursor_below: "feed_inv fd \<Longrightarrow> cursor_valid fd a c \<Longrightarrow> cursor_sequence c \<le> feed_sequence fd a"
  using feed_row_sequence(2) by (fastforce simp: cursor_valid_def cursor_sequence_def feed_inv_def split: option.splits)

lemma read_pages_gapless:
  assumes "\<And>i. feed_inv (snap i)" and "\<And>i. feed_grows (snap i) (snap (Suc i))" and "1 \<le> limit" and "limit \<le> 500"
    and "cursor_valid (snap i) a c" and "read_pages snap a limit i n c = (items, finished)"
  shows "\<exists>k \<ge> cursor_sequence c. map sv_sequence items = [cursor_sequence c + 1..k] \<and>
    (if finished then \<exists>j \<in> {i..<i + n}. k = feed_sequence (snap j) a else k = cursor_sequence c + int n * limit)"
  using assms(5,6)
proof (induction n arbitrary: i c items finished)
  case (Suc n)
  let ?q = "cursor_sequence c"
  obtain page c' where p: "list_account_settlements (snap i) a limit c None = Inr (page, c')"
    "map sv_sequence page = [?q + 1..min (feed_sequence (snap i) a) (?q + limit)]"
    "if ?q + limit < feed_sequence (snap i) a then c' \<noteq> None \<and> cursor_valid (snap i) a c' \<and> cursor_sequence c' = ?q + limit else c' = None"
    using feed_page [OF assms(1) Suc.prems(1) assms(3,4)] .
  show ?case
  proof (cases "?q + limit < feed_sequence (snap i) a")
    case False
    then have "items = page" "finished" using Suc.prems(2) p(1,3) by simp_all
    then show ?thesis using False p(2) cursor_below [OF assms(1) Suc.prems(1)]
      by (intro exI [of _ "feed_sequence (snap i) a"]) auto
  next
    case True
    then obtain x where c': "c' = Some x" "cursor_valid (snap i) a c'" "cursor_sequence c' = ?q + limit" using p(3) by auto
    obtain rest fin where r: "read_pages snap a limit (Suc i) n c' = (rest, fin)" by fastforce
    then have it: "items = page @ rest" "finished = fin" using Suc.prems(2) p(1) c'(1) by simp_all
    obtain k where k: "?q + limit \<le> k" "map sv_sequence rest = [?q + limit + 1..k]"
      "if fin then \<exists>j \<in> {Suc i..<Suc i + n}. k = feed_sequence (snap j) a else k = ?q + limit + int n * limit"
      using Suc.IH [OF cursor_valid_grows [OF assms(2) c'(2)] r] unfolding c'(3) by blast
    have "map sv_sequence items = [?q + 1..?q + limit] @ [?q + limit + 1..k]" using p(2) k(2) it True by simp
    also have "\<dots> = [?q + 1..k]" using k(1) assms(3) upto_split2 [of "?q + 1" "?q + limit" k] by simp
    finally show ?thesis using k(1,3) it(2) assms(3) by (intro exI [of _ k]) (auto simp: algebra_simps split: if_splits)
  qed
qed (auto intro!: exI [of _ "cursor_sequence _"])

subsection \<open>Properties of the settlement feed\<close>

text \<open>
  C29. The feed of an account has no gaps. Publishing a settlement keeps the sequences of
  every account's feed at 1 to its counter, each once; it adds at most one row, for the
  amount the ledger took, at the next sequence; and publishing again changes nothing.
\<close>

theorem settlement_feed_gapless:
  assumes "feed_inv fd" and "publish_settlement_row db fd row = Inr (fd', b)"
    and "\<And>so. row = Some so \<Longrightarrow> basis_ok (so_usage_basis so)"
  shows "feed_inv fd' \<and> feed_grows fd fd' \<and> publish_settlement_row db fd' row = Inr (fd', b) \<and>
    (fd' = fd \<or> (\<exists>so s l f. row = Some so \<and> so_ledger so = Some (s, l) \<and> tget (feed_rows fd) s = None \<and>
       feed_rows fd' = tput s f (feed_rows fd) \<and> fe_account_id f = so_account_id so \<and> fe_cost f = - le_amount l \<and>
       fe_sequence f = feed_sequence fd (so_account_id so) + 1 \<and> feed_sequence fd' (so_account_id so) = fe_sequence f))"
  using assms(2)
proof (cases rule: publish_cases)
  case skipped
  then show ?thesis using assms(1,2) by (simp add: feed_grows_def)
next
  case (replayed so s l)
  then show ?thesis using assms(1,2) by (simp add: feed_grows_def)
next
  case (added so s l)
  let ?f = "published so l (feed_sequence fd (so_account_id so) + 1)"
  note inv = publish_added_inv [OF assms(1) added(6) assms(3) [OF added(1)] added(9,8,10)]
  have "tget (feed_rows fd') s = Some ?f" by (simp add: added(10) tbl_simps)
  then have "feed_lookup fd' (so_request_kind so) (so_request_id so) = Some s"
    using feed_lookup_Some [OF inv(1)] by (fastforce simp: published_def)
  moreover have "in_i64 (so_cost so)" using assms(2) added(1,2,4,5)
    by (auto simp: publish_settlement_row_def rbind_Inr_iff ok_or_def ensure_Inr_iff checked_def split: if_splits)
  ultimately have "publish_settlement_row db fd' row = Inr (fd', b)"
    using added(1-7) by (simp add: publish_settlement_row_def ok_or_def ensure_def checked_def)
  then show ?thesis using inv added(1,4,5,9) added(10)
    by (intro conjI disjI2 exI [of _ so] exI [of _ s] exI [of _ l] exI [of _ ?f])
       (simp_all add: published_def feed_sequence_def tbl_simps)
qed

text \<open>
  C30. A client that follows the cursors, page by page, while settlements are published in
  between, has read the sequences from 1 to some number, in order and without a gap. As
  long as it is told to go on it receives full pages; when it is told that there is no
  more it has everything the feed held at that time.
\<close>

theorem settlement_feed_pages:
  assumes "\<And>i. feed_inv (snap i)" and "\<And>i. feed_grows (snap i) (snap (Suc i))" and "1 \<le> limit" and "limit \<le> 500"
    and "read_pages snap a limit 0 n None = (items, finished)"
  shows "\<exists>k. map sv_sequence items = [1..k] \<and>
    (if finished then \<exists>j < n. k = feed_sequence (snap j) a else k = int n * limit)"
  using read_pages_gapless [OF assms(1-4) _ assms(5)]
  by (fastforce simp: cursor_valid_def cursor_sequence_def split: if_splits)

definition sample_feed_entry :: "uuid \<Rightarrow> int \<Rightarrow> feed_entry" where
  "sample_feed_entry q n = \<lparr>fe_account_id = ''a'', fe_sequence = n, fe_request_id = q, fe_request_kind = Generation, fe_key_id = ''k'',
     fe_model = ''m'', fe_cost = 0, fe_currency = ''USD'', fe_settled_at = 1, fe_completed_at = 1, fe_input_tokens = None,
     fe_cached_input_tokens = None, fe_cache_write_tokens = None, fe_output_tokens = None, fe_usage_basis = None\<rparr>"

lemma sample_feed_entry_simps [simp]:
  "fe_account_id (sample_feed_entry q n) = ''a''" "fe_sequence (sample_feed_entry q n) = n" "fe_request_id (sample_feed_entry q n) = q"
  "fe_request_kind (sample_feed_entry q n) = Generation" "fe_cost (sample_feed_entry q n) = 0" "fe_usage_basis (sample_feed_entry q n) = None"
  by (simp_all add: sample_feed_entry_def)

definition sample_feed :: feed_db where
  "sample_feed = \<lparr>feed_rows = [(''s1'', sample_feed_entry ''q1'' 1), (''s2'', sample_feed_entry ''q2'' 2), (''s3'', sample_feed_entry ''q3'' 3)],
     feed_sequences = [(''a'', 3)]\<rparr>"

lemma sample_feed_rows:
  "tget (feed_rows sample_feed) s = Some f \<longleftrightarrow>
     s = ''s1'' \<and> f = sample_feed_entry ''q1'' 1 \<or> s = ''s2'' \<and> f = sample_feed_entry ''q2'' 2 \<or> s = ''s3'' \<and> f = sample_feed_entry ''q3'' 3"
  unfolding sample_feed_def tget_def by (cases "s = ''s1''"; cases "s = ''s2''"; cases "s = ''s3''") (simp_all add: eq_commute)

lemma sample_feed_inv: "feed_inv sample_feed"
proof -
  have seqs: "sequences_of sample_feed a = (if a = ''a'' then {1..3} else {})" for a
  proof -
    have "{1..3::int} = {1, 2, 3}" by auto
    moreover have "sequences_of sample_feed a = (if a = ''a'' then {1, 2, 3} else {})"
      unfolding sequences_of_def sample_feed_rows 
      by (cases "a = ''a''") (auto simp: conj_disj_distribL conj_disj_distribR ex_disj_distrib)
    ultimately show ?thesis by simp
  qed
  have n: "feed_sequence sample_feed a = (if a = ''a'' then 3 else 0)" for a
    by (simp add: feed_sequence_def sample_feed_def tget_def)
  show ?thesis unfolding feed_inv_def seqs n sample_feed_rows
    by (auto simp: basis_ok_def) (simp add: sample_feed_def wf_table_def)
qed

definition sample_source :: settlement_source where
  "sample_source = \<lparr>so_request_id = ''q4'', so_request_kind = Generation, so_account_id = ''a'', so_key_id = ''k'', so_model = ''m'',
     so_cost = 7, so_completed_at = 5, so_input_tokens = None, so_cached_input_tokens = None, so_cache_write_tokens = None,
     so_output_tokens = None, so_usage_basis = None, so_mode = Prepaid,
     so_ledger = Some (''s4'', \<lparr>le_account_id = ''a'', le_key_id = Some ''k'', le_kind = Usage, le_amount = -7, le_currency = ''USD'',
       le_source = ''r4'', le_idempotency_key = None, le_reference_entry_id = None, le_entitlement_cycle_id = None,
       le_created_at = 5, le_usage_snapshot = None\<rparr>)\<rparr>"

definition sample_accounts :: billing_db where
  "sample_accounts = empty_db\<lparr>credit_accounts := [(''a'', \<lparr>ca_tenant_id = ''t'', ca_currency = ''USD'', ca_available = 0,
     ca_reserved = 0, ca_updated_at = 0\<rparr>)]\<rparr>"

theorem settlement_feed_gapless_witness:
  "\<exists>fd'. publish_settlement_row sample_accounts sample_feed (Some sample_source) = Inr (fd', True) \<and>
     feed_sequence fd' ''a'' = 4 \<and> feed_inv fd'"
proof -
  obtain fd' where p: "publish_settlement_row sample_accounts sample_feed (Some sample_source) = Inr (fd', True)" "feed_sequence fd' ''a'' = 4"
    by (simp add: publish_settlement_row_def sample_source_def sample_accounts_def sample_feed_def feed_lookup_def
        feed_sequence_def ensure_def ok_or_def checked_def sql_int_def sql_insert_def in_i64_def i64_bounds tget_def tput_def)
  have "feed_inv fd'" using settlement_feed_gapless [OF sample_feed_inv p(1)] by (simp add: sample_source_def basis_ok_def)
  with p show ?thesis by blast
qed

theorem settlement_feed_pages_witness:
  "map sv_sequence (fst (read_pages (\<lambda>_. sample_feed) ''a'' 500 0 1 None)) = [1, 2, 3]"
proof -
  have g: "feed_grows sample_feed sample_feed" by (simp add: feed_grows_def)
  have s: "feed_sequence sample_feed ''a'' = 3" by (simp add: feed_sequence_def sample_feed_def tget_def)
  have c: "cursor_valid sample_feed ''a'' None" by (simp add: cursor_valid_def)
  obtain items c' where "list_account_settlements sample_feed ''a'' 500 None None = Inr (items, c')"
    "if cursor_sequence None + 500 < feed_sequence sample_feed ''a'' then c' \<noteq> None \<and> cursor_valid sample_feed ''a'' c' \<and>
       cursor_sequence c' = cursor_sequence None + 500 else c' = None"
    by (rule feed_page [OF sample_feed_inv c, of 500]) simp_all
  then have r: "read_pages (\<lambda>_. sample_feed) ''a'' 500 0 1 None = (items, True)"
    by (simp add: s cursor_sequence_def del: One_nat_def add: numeral_nat)
  obtain k where "map sv_sequence items = [1..k]" "k = 3"
    using settlement_feed_pages [OF sample_feed_inv g _ _ r] s by auto
  then show ?thesis unfolding r by (simp add: upto.simps)
qed

end
