(* ===== verification/Request_Events.thy ===== *)
theory Request_Events
  imports Billing_Tables "HOL-Library.Word" "HOL-Library.Char_ord" "HOL-Library.List_Lexorder" "HOL-Library.Product_Lexorder"
begin

text \<open>
  The global event log of requests and its cursor (\<open>allocate_request_event_cursor\<close>,
  \<open>fresh_v7_at\<close> and \<open>increment_v7_random_b\<close> of \<open>src/src/db/requests/lifecycle.rs\<close>). Readers
  follow the log in the order of time and identifier, so every event must come after all
  earlier ones, although clocks step back and identifiers are random. An identifier is two
  64-bit words; its text form is the \<open>uuid\<close> crate's, a parameter with the laws of the locale
  \<open>uuid_codec\<close>. \<open>None\<close> stands for an allocation that does not end.
\<close>

unbundle bit_operations_syntax

subsection \<open>Version 7 identifiers\<close>

type_synonym uuid_bits = "64 word \<times> 64 word" \<comment> \<open>bytes 0 to 7 and bytes 8 to 15, big-endian\<close>

definition UUID_V7_RANDOM_B_MASK :: "64 word" where
  "UUID_V7_RANDOM_B_MASK = push_bit 62 1 - 1"

definition fresh_v7_at :: "(uuid_bits \<Rightarrow> uuid) \<Rightarrow> uuid_bits \<Rightarrow> int \<Rightarrow> uuid res" where
  "fresh_v7_at pr now_v7 event_at =
     rbind (ensure (0 \<le> event_at) (internal ''lifecycle_fresh_v7_at_1'')) (\<lambda>_.
     rbind (ensure (\<not> 0xffffffffffff < event_at) (internal ''lifecycle_fresh_v7_at_1'')) (\<lambda>_.
     let (hi, lo) = now_v7;
         hi = push_bit 16 (word_of_int event_at) OR (hi AND 0xffff);
         hi = (hi AND NOT 0xf000) OR 0x7000;
         lo = (lo AND UUID_V7_RANDOM_B_MASK) OR push_bit 62 2
     in Inr (pr (hi, lo))))"

definition increment_v7_random_b :: "(uuid_bits \<Rightarrow> uuid) \<Rightarrow> (uuid \<Rightarrow> uuid_bits option) \<Rightarrow> uuid \<Rightarrow> int \<Rightarrow> uuid option" where
  "increment_v7_random_b pr up last_id last_at = Option.bind (up last_id) (\<lambda>(hi, lo).
     if pr (hi, lo) \<noteq> last_id \<or> drop_bit 12 hi AND 0xf \<noteq> 7 \<or> drop_bit 62 lo \<noteq> 2 then None
     else if last_at < 0 \<or> uint (drop_bit 16 hi) \<noteq> last_at then None
     else let random_b = lo AND UUID_V7_RANDOM_B_MASK; next = random_b + 1
          in if UUID_V7_RANDOM_B_MASK < next then None else Some (pr (hi, next OR push_bit 62 2)))"

subsection \<open>The event log\<close>

record event_locator =
  el_created_at :: int
  el_tenant_id :: uuid
  el_key_id :: uuid
  el_request_id :: uuid

record event_cursor =
  ec_event_id :: uuid
  ec_event_at :: int

datatype event_kind = EventStarted | EventFinished

record request_event =
  re_tenant_id :: uuid
  re_key_id :: uuid
  re_request_id :: uuid
  re_event_at :: int
  re_kind :: event_kind
  re_protocol :: string
  re_model :: string
  re_status_code :: "int option"
  re_duration_ms :: "int option"
  re_input_tokens :: int
  re_output_tokens :: int
  re_cost_micros :: int
  re_error_code :: "string option"

record event_log =
  lg_locators :: "(uuid, event_locator) table" \<comment> \<open>\<open>request_event_locators\<close>\<close>
  lg_events :: "(uuid \<times> request_event) list" \<comment> \<open>\<open>request_events\<close>\<close>

text \<open>The stored event that comes last in the order of the feed, by time and then by identifier.\<close>

definition event_position :: "uuid \<times> request_event \<Rightarrow> int \<times> uuid" where
  "event_position = (\<lambda>(i, e). (re_event_at e, i))"

definition last_event :: "event_log \<Rightarrow> (int \<times> uuid) option" where
  "last_event lg = (case map event_position (lg_events lg) of [] \<Rightarrow> None | p # ps \<Rightarrow> Some (fold max ps p))"

text \<open>
  \<open>rnd n\<close> is the \<open>n\<close>-th identifier that \<open>Uuid::now_v7\<close> draws during the allocation.
\<close>

definition first_cursor :: "(uuid_bits \<Rightarrow> uuid) \<Rightarrow> (uuid \<Rightarrow> uuid_bits option) \<Rightarrow> uuid_bits \<Rightarrow> event_log \<Rightarrow> int \<Rightarrow> event_cursor res" where
  "first_cursor pr up rnd lg now = (case last_event lg of
      None \<Rightarrow> rbind (fresh_v7_at pr rnd now) (\<lambda>i. Inr \<lparr>ec_event_id = i, ec_event_at = now\<rparr>)
    | Some (last_at, last_id) \<Rightarrow>
        if last_at < now then rbind (fresh_v7_at pr rnd now) (\<lambda>i. Inr \<lparr>ec_event_id = i, ec_event_at = now\<rparr>)
        else (case increment_v7_random_b pr up last_id last_at of
            Some i \<Rightarrow> Inr \<lparr>ec_event_id = i, ec_event_at = last_at\<rparr>
          | None \<Rightarrow>
              rbind (ok_or (checked (last_at + 1)) (internal ''lifecycle_allocate_request_event_cursor_1'')) (\<lambda>event_at.
              rbind (fresh_v7_at pr rnd event_at) (\<lambda>i. Inr \<lparr>ec_event_id = i, ec_event_at = event_at\<rparr>))))"

definition next_cursor :: "(uuid_bits \<Rightarrow> uuid) \<Rightarrow> (uuid \<Rightarrow> uuid_bits option) \<Rightarrow> uuid_bits \<Rightarrow> event_cursor \<Rightarrow> event_cursor res" where
  "next_cursor pr up rnd c = (case increment_v7_random_b pr up (ec_event_id c) (ec_event_at c) of
      Some i \<Rightarrow> Inr (c\<lparr>ec_event_id := i\<rparr>)
    | None \<Rightarrow>
        rbind (ok_or (checked (ec_event_at c + 1)) (internal ''lifecycle_allocate_request_event_cursor_2'')) (\<lambda>event_at.
        rbind (fresh_v7_at pr rnd event_at) (\<lambda>i. Inr \<lparr>ec_event_id = i, ec_event_at = event_at\<rparr>)))"

text \<open>The loop: claim the locator of the cursor, or advance; \<open>None\<close> if it did not end.\<close>

partial_function (option) claim_cursor ::
  "(uuid_bits \<Rightarrow> uuid) \<Rightarrow> (uuid \<Rightarrow> uuid_bits option) \<Rightarrow> (nat \<Rightarrow> uuid_bits) \<Rightarrow> uuid \<times> uuid \<times> uuid \<Rightarrow> event_log \<Rightarrow> nat \<Rightarrow> event_cursor \<Rightarrow>
   (event_log \<times> event_cursor) res option" where
  "claim_cursor pr up rnd owner lg n c =
     (if tget (lg_locators lg) (ec_event_id c) = None then
        Some (Inr (lg\<lparr>lg_locators := tput (ec_event_id c)
          \<lparr>el_created_at = ec_event_at c, el_tenant_id = fst owner, el_key_id = fst (snd owner), el_request_id = snd (snd owner)\<rparr>
          (lg_locators lg)\<rparr>, c))
      else (case next_cursor pr up (rnd n) c of
          Inl e \<Rightarrow> Some (Inl e)
        | Inr c' \<Rightarrow> claim_cursor pr up rnd owner lg (Suc n) c'))"

definition allocate_request_event_cursor ::
  "(uuid_bits \<Rightarrow> uuid) \<Rightarrow> (uuid \<Rightarrow> uuid_bits option) \<Rightarrow> (nat \<Rightarrow> uuid_bits) \<Rightarrow> event_log \<Rightarrow> int \<Rightarrow> uuid \<times> uuid \<times> uuid \<Rightarrow>
   (event_log \<times> event_cursor) res option" where
  "allocate_request_event_cursor pr up rnd lg now owner = (case first_cursor pr up (rnd 0) lg now of
      Inl e \<Rightarrow> Some (Inl e)
    | Inr c \<Rightarrow> claim_cursor pr up rnd owner lg 1 c)"

text \<open>The insertion of an event at an allocated cursor.\<close>

definition insert_request_event :: "event_log \<Rightarrow> event_cursor \<Rightarrow> request_event \<Rightarrow> event_log" where
  "insert_request_event lg c e = lg\<lparr>lg_events := lg_events lg @ [(ec_event_id c, e\<lparr>re_event_at := ec_event_at c\<rparr>)]\<rparr>"

subsection \<open>The text form of an identifier\<close>

text \<open>
  What the allocation needs of the \<open>uuid\<close> crate: parsing reads back what printing wrote, and
  the printed texts are ordered like the identifiers.
\<close>

locale uuid_codec =
  fixes pr :: "uuid_bits \<Rightarrow> uuid" and up :: "uuid \<Rightarrow> uuid_bits option"
  assumes parse_print: "up (pr u) = Some u"
    and print_mono: "u < v \<Longrightarrow> pr u < pr v"

text \<open>The hyphenated form: 32 lower-case hexadecimal digits in groups of 8, 4, 4, 4 and 12.\<close>

definition hex_digit :: "nat \<Rightarrow> char" where
  "hex_digit n = (if n < 10 then char_of (48 + n) else char_of (87 + n))"

fun hex_digits :: "nat \<Rightarrow> nat \<Rightarrow> string" where
  "hex_digits 0 x = []"
| "hex_digits (Suc n) x = hex_digits n (x div 16) @ [hex_digit (x mod 16)]"

definition hyphenated :: "uuid_bits \<Rightarrow> uuid" where
  "hyphenated u = (let h = hex_digits 16 (unat (fst u)) @ hex_digits 16 (unat (snd u)) in
     take 8 h @ ''-'' @ take 4 (drop 8 h) @ ''-'' @ take 4 (drop 12 h) @ ''-'' @ take 4 (drop 16 h) @ ''-'' @ drop 20 h)"

definition nibble_value :: "char \<Rightarrow> nat" where
  "nibble_value c = (let n = of_char c in if n < 58 then n - 48 else n - 87)"

definition number_of_digits :: "string \<Rightarrow> nat" where
  "number_of_digits = foldl (\<lambda>a c. 16 * a + nibble_value c) 0"

definition parse_hyphenated :: "uuid \<Rightarrow> uuid_bits option" where
  "parse_hyphenated s = (let h = filter (\<lambda>c. c \<noteq> CHR ''-'') s;
       u = (of_nat (number_of_digits (take 16 h)), of_nat (number_of_digits (drop 16 h)))
     in if hyphenated u = s then Some u else None)"

lemma hex_nibble_value: "n < 16 \<Longrightarrow> nibble_value (hex_digit n) = n"
  by (auto simp: nibble_value_def hex_digit_def)

lemma hex_digit_mono: "m < n \<Longrightarrow> n < 16 \<Longrightarrow> hex_digit m < hex_digit n"
  by (auto simp: hex_digit_def less_char_def)

lemma hex_digit_not_hyphen: "n < 16 \<Longrightarrow> hex_digit n \<noteq> CHR ''-''"
proof
  assume "n < 16" and "hex_digit n = CHR ''-''"
  then have "(of_char (hex_digit n) :: nat) = of_char (CHR ''-'')" by simp
  then show False using \<open>n < 16\<close> by (simp add: hex_digit_def split: if_splits)
qed

lemma length_hex_digits [simp]: "length (hex_digits n x) = n"
  by (induction n arbitrary: x) auto

lemma number_of_hex_digits: "x < 16 ^ n \<Longrightarrow> number_of_digits (hex_digits n x) = x"
proof (induction n arbitrary: x)
  case (Suc n)
  then have "x div 16 < 16 ^ n" by (simp add: less_mult_imp_div_less mult.commute)
  then show ?case using Suc.IH by (simp add: number_of_digits_def hex_nibble_value)
qed (simp add: number_of_digits_def)

lemma hex_digits_no_hyphen: "CHR ''-'' \<notin> set (hex_digits n x)"
proof (induction n arbitrary: x)
  case (Suc n)
  then show ?case using hex_digit_not_hyphen [of "x mod 16"] by simp
qed simp

text \<open>Lists of equal length are compared at the first difference.\<close>

lemma append_less_iff:
  fixes xs ys :: "'a::linorder list"
  assumes "length xs = length ys"
  shows "xs @ as < ys @ bs \<longleftrightarrow> xs < ys \<or> xs = ys \<and> as < bs"
  using assms by (induction rule: list_induct2) auto

lemma hex_digits_mono: "x < y \<Longrightarrow> y < 16 ^ n \<Longrightarrow> hex_digits n x < hex_digits n y"
proof (induction n arbitrary: x y)
  case (Suc n)
  have y: "y div 16 < 16 ^ n" using Suc.prems by (simp add: less_mult_imp_div_less mult.commute)
  have "x div 16 \<le> y div 16" using Suc.prems(1) by (simp add: div_le_mono)
  then consider "x div 16 < y div 16" | "x div 16 = y div 16" "x mod 16 < y mod 16"
    using Suc.prems(1) by (metis div_mult_mod_eq le_neq_implies_less nat_add_left_cancel_less)
  then show ?case
  proof cases
    case 1
    then show ?thesis using Suc.IH [OF 1 y] by (simp add: append_less_iff)
  next
    case 2
    then show ?thesis by (simp add: append_less_iff hex_digit_mono)
  qed
qed simp

definition hyphens :: "string \<Rightarrow> string" where
  "hyphens h = take 8 h @ ''-'' @ take 4 (drop 8 h) @ ''-'' @ take 4 (drop 12 h) @ ''-'' @ take 4 (drop 16 h) @ ''-'' @ drop 20 h"

lemma digit_groups:
  assumes "length h = 32"
  obtains a b c d e where "h = a @ b @ c @ d @ e" "length a = 8" "length b = 4" "length c = 4" "length d = 4"
    "length e = 12" "hyphens h = a @ CHR ''-'' # b @ CHR ''-'' # c @ CHR ''-'' # d @ CHR ''-'' # e"
proof -
  have cut: "take m (drop n h) @ drop (n + m) h = drop n h" for m n
    by (metis append_take_drop_id drop_drop add.commute)
  have "h = take 8 h @ drop 8 h" by simp
  also have "drop 8 h = take 4 (drop 8 h) @ take 4 (drop 12 h) @ take 4 (drop 16 h) @ drop 20 h"
    using cut [of 4 8] cut [of 4 12] cut [of 4 16] by simp
  finally show thesis
    by (rule that) (simp_all add: assms hyphens_def)
qed

lemma hyphens_mono:
  assumes "length xs = 32" and "length ys = 32" and "xs < ys" shows "hyphens xs < hyphens ys"
proof -
  obtain a b c d e where x: "xs = a @ b @ c @ d @ e" "length a = 8" "length b = 4" "length c = 4" "length d = 4"
    "length e = 12" "hyphens xs = a @ CHR ''-'' # b @ CHR ''-'' # c @ CHR ''-'' # d @ CHR ''-'' # e"
    using digit_groups [OF assms(1)] .
  obtain a' b' c' d' e' where y: "ys = a' @ b' @ c' @ d' @ e'" "length a' = 8" "length b' = 4" "length c' = 4" "length d' = 4"
    "length e' = 12" "hyphens ys = a' @ CHR ''-'' # b' @ CHR ''-'' # c' @ CHR ''-'' # d' @ CHR ''-'' # e'"
    using digit_groups [OF assms(2)] .
  have "a @ b @ c @ d @ e < a' @ b' @ c' @ d' @ e'" using assms(3) x(1) y(1) by simp
  then show ?thesis unfolding x(7) y(7) using x(2-6) y(2-6) by (auto simp: append_less_iff)
qed

lemma hyphenated_hyphens: "hyphenated u = hyphens (hex_digits 16 (unat (fst u)) @ hex_digits 16 (unat (snd u)))"
  by (simp add: hyphenated_def hyphens_def Let_def)

lemma filter_hyphens:
  assumes "length h = 32" and "CHR ''-'' \<notin> set h"
  shows "filter (\<lambda>c. c \<noteq> CHR ''-'') (hyphens h) = h"
proof -
  obtain a b c d e where h: "h = a @ b @ c @ d @ e" "length a = 8" "length b = 4" "length c = 4" "length d = 4"
    "length e = 12" "hyphens h = a @ CHR ''-'' # b @ CHR ''-'' # c @ CHR ''-'' # d @ CHR ''-'' # e"
    using digit_groups [OF assms(1)] .
  have keep: "filter (\<lambda>c. c \<noteq> CHR ''-'') x = x" if "CHR ''-'' \<notin> set x" for x
    using that by (auto intro!: filter_True)
  have "CHR ''-'' \<notin> set a" "CHR ''-'' \<notin> set b" "CHR ''-'' \<notin> set c" "CHR ''-'' \<notin> set d" "CHR ''-'' \<notin> set e"
    using assms(2) unfolding h(1) by auto
  then show ?thesis unfolding h(7) by (simp add: keep) (simp add: h(1))
qed

lemma unat_digits: "unat (w :: 64 word) < 16 ^ 16"
  using unsigned_less [of w] by simp

interpretation rfc_text: uuid_codec hyphenated parse_hyphenated
proof
  fix u v :: uuid_bits
  have "filter (\<lambda>c. c \<noteq> CHR ''-'') (hyphenated u) = hex_digits 16 (unat (fst u)) @ hex_digits 16 (unat (snd u))"
    unfolding hyphenated_hyphens by (rule filter_hyphens) (simp_all add: hex_digits_no_hyphen)
  then show "parse_hyphenated (hyphenated u) = Some u"
    by (simp add: parse_hyphenated_def Let_def number_of_hex_digits [OF unat_digits])
  show "hyphenated u < hyphenated v" if "u < v"
  proof -
    have "fst u < fst v \<or> fst u = fst v \<and> snd u < snd v" using that by (auto simp: less_prod_def')
    then have "hex_digits 16 (unat (fst u)) @ hex_digits 16 (unat (snd u)) < hex_digits 16 (unat (fst v)) @ hex_digits 16 (unat (snd v))"
      by (auto simp: append_less_iff word_less_nat_alt intro: hex_digits_mono unat_digits)
    then show ?thesis unfolding hyphenated_hyphens by (intro hyphens_mono) simp_all
  qed
qed

subsection \<open>Arithmetic of the fields\<close>

lemma mask_value: "UUID_V7_RANDOM_B_MASK = mask 62"
  by (simp add: UUID_V7_RANDOM_B_MASK_def mask_eq_decr_exp)

lemma field_masks: "(0xffff :: 64 word) = mask 16" "(0xf000 :: 64 word) = push_bit 12 (mask 4)" "(0x7000 :: 64 word) = push_bit 12 (mask 3)"
  by (simp_all add: mask_eq_decr_exp)

lemma fresh_millis:
  fixes hi :: "64 word"
  assumes "0 \<le> at" and "at \<le> 0xffffffffffff"
  shows "uint (drop_bit 16 (((push_bit 16 (word_of_int at) OR (hi AND 0xffff)) AND NOT 0xf000) OR 0x7000)) = at"
proof -
  define m where "m = (word_of_int at :: 64 word)"
  have m: "uint m = at" using assms by (simp add: m_def uint_word_of_int)
  then have "take_bit 48 (uint m) = uint m" using assms by (simp add: take_bit_int_eq_self)
  then have "take_bit 48 m = m" by (metis unsigned_take_bit_eq word_eq_iff_unsigned)
  then have top: "bit m n \<longleftrightarrow> n < 48 \<and> bit m n" for n by (metis bit_take_bit_iff)
  have "drop_bit 16 (((push_bit 16 m OR (hi AND 0xffff)) AND NOT 0xf000) OR 0x7000) = m"
  proof (rule bit_word_eqI)
    fix n assume n: "n < LENGTH(64)"
    show "bit (drop_bit 16 (((push_bit 16 m OR (hi AND 0xffff)) AND NOT 0xf000) OR 0x7000)) n \<longleftrightarrow> bit m n"
      unfolding field_masks using top [of n]
      by (auto simp: bit_drop_bit_eq bit_or_iff bit_and_iff bit_not_iff bit_push_bit_iff bit_mask_iff)
  qed
  then show ?thesis using m by (simp add: m_def)
qed

lemma next_value:
  fixes lo :: "64 word"
  assumes "drop_bit 62 lo = 2" and "\<not> UUID_V7_RANDOM_B_MASK < (lo AND UUID_V7_RANDOM_B_MASK) + 1"
  shows "lo < ((lo AND UUID_V7_RANDOM_B_MASK) + 1) OR push_bit 62 2"
proof -
  define r where "r = take_bit 62 lo"
  have lo: "lo = push_bit 62 2 + r" using bits_ident [of 62 lo] assms(1) by (simp add: r_def)
  have r: "lo AND UUID_V7_RANDOM_B_MASK = r" by (simp add: mask_value r_def take_bit_eq_mask)
  have le: "r + 1 \<le> mask 62" using assms(2) unfolding r unfolding mask_value by simp
  then have bound: "unat (r + 1) < 2 ^ 62" by (simp add: word_le_nat_alt mask_eq_decr_exp)
  have "unat r < 2 ^ 62" unfolding r_def unsigned_take_bit_eq by (rule take_bit_nat_less_exp)
  then have plus: "unat (r + 1) = unat r + 1" by (simp add: unat_word_ariths)
  have "take_bit 62 (unat (r + 1)) = unat (r + 1)" by (rule take_bit_nat_eq_self) (rule bound)
  then have "take_bit 62 (r + 1) = r + 1" by (metis unsigned_take_bit_eq word_eq_iff_unsigned)
  then have low: "bit (r + 1) n \<Longrightarrow> n < 62" for n by (metis bit_take_bit_iff)
  have "(r + 1) AND push_bit 62 2 = 0"
  proof (rule bit_word_eqI)
    fix n assume "n < LENGTH(64)"
    have "\<not> (bit (r + 1) n \<and> bit (push_bit 62 (2 :: 64 word)) n)"
      using low [of n] unfolding bit_push_bit_iff by auto
    then show "bit ((r + 1) AND push_bit 62 2) n \<longleftrightarrow> bit (0 :: 64 word) n" unfolding bit_and_iff by simp
  qed
  then have "(r + 1) OR push_bit 62 2 = (r + 1) + push_bit 62 2" by (simp add: disjunctive_add_eq_or)
  moreover have "push_bit 62 2 + r < (r + 1) + push_bit 62 2"
    using bound plus by (simp add: word_less_nat_alt unat_word_ariths)
  ultimately show ?thesis unfolding r by (simp add: lo)
qed

subsection \<open>Cursors\<close>

definition stamped :: "(uuid_bits \<Rightarrow> uuid) \<Rightarrow> uuid \<Rightarrow> int \<Rightarrow> bool" where
  "stamped pr i at \<longleftrightarrow> (\<exists>hi lo. i = pr (hi, lo) \<and> uint (drop_bit 16 hi) = at)"

definition cursor_position :: "event_cursor \<Rightarrow> int \<times> uuid" where
  "cursor_position c = (ec_event_at c, ec_event_id c)"

abbreviation last_millis :: int where
  "last_millis \<equiv> 0xffffffffffff"

lemma fresh_stamped:
  assumes "fresh_v7_at pr r at = Inr i" shows "stamped pr i at" and "0 \<le> at"
proof -
  obtain hi lo where r: "r = (hi, lo)" by force
  let ?hi = "((push_bit 16 (word_of_int at) OR (hi AND 0xffff)) AND NOT 0xf000) OR 0x7000 :: 64 word"
  from assms r have "0 \<le> at" "at \<le> last_millis" "i = pr (?hi, (lo AND UUID_V7_RANDOM_B_MASK) OR push_bit 62 2)"
    by (auto simp: fresh_v7_at_def rbind_Inr_iff ensure_Inr_iff Let_def)
  with fresh_millis [of at hi] show "stamped pr i at" "0 \<le> at" unfolding stamped_def by blast+
qed

lemma fresh_fails: "fresh_v7_at pr r at = Inl e \<Longrightarrow> at < 0 \<or> last_millis < at"
  by (cases r) (auto simp: fresh_v7_at_def ensure_def split: if_splits)

lemma stamp_drop: "uint (drop_bit 16 (hi :: 64 word)) < uint (drop_bit 16 (hi' :: 64 word)) \<Longrightarrow> hi < hi'"
proof (rule ccontr)
  assume less: "uint (drop_bit 16 hi) < uint (drop_bit 16 hi')" and "\<not> hi < hi'"
  then have "uint hi' \<le> uint hi" by (simp add: word_less_def)
  then have "uint hi' div 2 ^ 16 \<le> uint hi div 2 ^ 16" by (rule zdiv_mono1) simp
  with less show False by (simp add: drop_bit_eq_div uint_div_distrib)
qed

context uuid_codec
begin

lemma stamped_less: "stamped pr i at \<Longrightarrow> stamped pr j at' \<Longrightarrow> at < at' \<Longrightarrow> i < j"
  using stamp_drop by (auto simp: stamped_def less_prod_def' intro!: print_mono)

lemma increment_stamped:
  assumes "increment_v7_random_b pr up i at = Some j" shows "stamped pr i at" and "stamped pr j at" and "i < j"
proof -
  from assms obtain hi lo where u: "up i = Some (hi, lo)"
    by (auto simp: increment_v7_random_b_def bind_eq_Some_conv)
  have c: "pr (hi, lo) = i" "drop_bit 62 lo = 2" "uint (drop_bit 16 hi) = at"
    "\<not> UUID_V7_RANDOM_B_MASK < (lo AND UUID_V7_RANDOM_B_MASK) + 1"
    "j = pr (hi, ((lo AND UUID_V7_RANDOM_B_MASK) + 1) OR push_bit 62 2)"
    using assms unfolding increment_v7_random_b_def u by (auto simp: Let_def split: if_splits)
  show "stamped pr i at" "stamped pr j at" using c(1,3,5) unfolding stamped_def by blast+
  have "(hi, lo) < (hi, ((lo AND UUID_V7_RANDOM_B_MASK) + 1) OR push_bit 62 2)"
    using next_value [OF c(2,4)] by (simp add: less_prod_def')
  from print_mono [OF this] show "i < j" using c(1,5) by simp
qed

lemma next_cursor_later:
  assumes "next_cursor pr up r c = Inr c'" and "stamped pr (ec_event_id c) (ec_event_at c)"
  shows "stamped pr (ec_event_id c') (ec_event_at c')" and "ec_event_id c < ec_event_id c'"
    and "ec_event_at c \<le> ec_event_at c'" and "ec_event_at c' \<le> ec_event_at c + 1"
proof -
  consider (bump) j where "increment_v7_random_b pr up (ec_event_id c) (ec_event_at c) = Some j" "c' = c\<lparr>ec_event_id := j\<rparr>"
    | (fresh) j where "fresh_v7_at pr r (ec_event_at c + 1) = Inr j" "c' = \<lparr>ec_event_id = j, ec_event_at = ec_event_at c + 1\<rparr>"
    using assms(1) by (auto simp: next_cursor_def rbind_Inr_iff ok_or_Inr_iff checked_def split: option.splits if_splits)
  note cases = this
  show "stamped pr (ec_event_id c') (ec_event_at c')"
    using increment_stamped(2) fresh_stamped(1) by (cases rule: cases) fastforce+
  show "ec_event_id c < ec_event_id c'"
    using increment_stamped(3) fresh_stamped(1) stamped_less [OF assms(2)] by (cases rule: cases) fastforce+
  show "ec_event_at c \<le> ec_event_at c'" "ec_event_at c' \<le> ec_event_at c + 1" by (cases rule: cases; simp)+
qed

lemma next_cursor_fails: "next_cursor pr up r c = Inl e \<Longrightarrow> 0 \<le> ec_event_at c \<Longrightarrow> last_millis < ec_event_at c + 1"
  by (auto simp: next_cursor_def ok_or_def checked_def in_i64_def i64_bounds rbind_Inl_iff split: option.splits if_splits dest: fresh_fails)

end

subsection \<open>The allocation\<close>

definition taken_from :: "event_log \<Rightarrow> uuid \<Rightarrow> uuid set" where
  "taken_from lg i = {j \<in> fst ` set (lg_locators lg). i \<le> j}"

definition event_times :: "event_log \<Rightarrow> int set" where
  "event_times lg = (\<lambda>e. re_event_at (snd e)) ` set (lg_events lg)"

definition claimed_log :: "uuid \<times> uuid \<times> uuid \<Rightarrow> event_log \<Rightarrow> event_cursor \<Rightarrow> event_log" where
  "claimed_log owner lg c = lg\<lparr>lg_locators := tput (ec_event_id c)
     \<lparr>el_created_at = ec_event_at c, el_tenant_id = fst owner, el_key_id = fst (snd owner), el_request_id = snd (snd owner)\<rparr>
     (lg_locators lg)\<rparr>"

lemma finite_taken [simp]: "finite (taken_from lg i)"
  by (simp add: taken_from_def)

lemma taken_shrinks:
  assumes "tget (lg_locators lg) i \<noteq> None" and "i < j"
  shows "card (taken_from lg j) < card (taken_from lg i)"
proof (rule psubset_card_mono)
  have "i \<in> taken_from lg i" using assms(1) by (auto simp: taken_from_def tget_def map_of_eq_None_iff)
  moreover have "i \<notin> taken_from lg j" using assms(2) by (auto simp: taken_from_def)
  ultimately show "taken_from lg j \<subset> taken_from lg i" using assms(2) by (auto simp: taken_from_def)
qed (simp add: taken_from_def)

lemma taken_bound: "card (taken_from lg i) \<le> length (lg_locators lg)"
proof -
  have "card (taken_from lg i) \<le> card (fst ` set (lg_locators lg))" by (rule card_mono) (auto simp: taken_from_def)
  also have "\<dots> \<le> length (lg_locators lg)" using card_image_le [of "set (lg_locators lg)" fst] card_length [of "lg_locators lg"] by simp
  finally show ?thesis .
qed

lemma last_event_max:
  "last_event lg = Some p \<Longrightarrow> e \<in> set (lg_events lg) \<Longrightarrow> event_position e \<le> p"
  "last_event lg = Some p \<Longrightarrow> p \<in> event_position ` set (lg_events lg)"
  "last_event lg = None \<longleftrightarrow> lg_events lg = []"
proof -
  have fold: "fold max qs q = Max (set (q # qs))" for q and qs :: "(int \<times> uuid) list" by (simp only: Max.set_eq_fold)
  show "event_position e \<le> p" if "last_event lg = Some p" "e \<in> set (lg_events lg)"
    using that by (cases "lg_events lg") (auto simp: last_event_def fold)
  show "p \<in> event_position ` set (lg_events lg)" if p: "last_event lg = Some p"
  proof -
    obtain e es where "lg_events lg = e # es" "p = Max (set (map event_position (e # es)))"
      using p by (cases "lg_events lg") (auto simp: last_event_def fold)
    then show ?thesis using Max_in [of "set (map event_position (e # es))"] by auto
  qed
  show "last_event lg = None \<longleftrightarrow> lg_events lg = []" 
    by (cases "lg_events lg") (simp_all add: last_event_def)
qed

lemma last_event_time: "last_event lg = Some (at, i) \<Longrightarrow> at \<in> event_times lg"
  using last_event_max(2) by (force simp: event_times_def event_position_def)

context uuid_codec
begin

lemma claim_cursor_ends:
  assumes "stamped pr (ec_event_id c) (ec_event_at c)"
  shows "(\<exists>c'. claim_cursor pr up rnd owner lg n c = Some (Inr (claimed_log owner lg c', c')) \<and>
       tget (lg_locators lg) (ec_event_id c') = None \<and> cursor_position c \<le> cursor_position c') \<or>
     (\<exists>e. claim_cursor pr up rnd owner lg n c = Some (Inl e) \<and>
       last_millis < ec_event_at c + int (card (taken_from lg (ec_event_id c))))"
  using assms
proof (induction "card (taken_from lg (ec_event_id c))" arbitrary: n c rule: less_induct)
  case less
  have at: "0 \<le> ec_event_at c" using less.prems unfolding stamped_def by (metis uint_ge_0)
  show ?case
  proof (cases "tget (lg_locators lg) (ec_event_id c)")
    case None
    then show ?thesis by (subst (1 2) claim_cursor.simps) (auto simp: claimed_log_def)
  next
    case (Some l)
    then have unfold: "claim_cursor pr up rnd owner lg n c = (case next_cursor pr up (rnd n) c of Inl e \<Rightarrow> Some (Inl e)
        | Inr c' \<Rightarrow> claim_cursor pr up rnd owner lg (Suc n) c')"
      by (subst claim_cursor.simps) simp
    show ?thesis
    proof (cases "next_cursor pr up (rnd n) c")
      case (Inl e)
      have "ec_event_id c \<in> taken_from lg (ec_event_id c)" 
        using Some by (force simp: taken_from_def tget_def dest: map_of_SomeD)
      then have "0 < card (taken_from lg (ec_event_id c))" by (subst card_gt_0_iff) auto
      then show ?thesis using next_cursor_fails [OF Inl at] Inl unfold by auto
    next
      case (Inr c')
      note later = next_cursor_later [OF Inr less.prems]
      have small: "card (taken_from lg (ec_event_id c')) < card (taken_from lg (ec_event_id c))"
        using taken_shrinks [OF _ later(2)] Some by simp
      have "cursor_position c < cursor_position c'" using later(2,3) by (auto simp: cursor_position_def less_prod_def')
      then show ?thesis using less.hyps [OF small later(1), of "Suc n"] small later(4) unfold Inr
        by (auto dest: less_imp_le order_trans)
    qed
  qed
qed

lemma first_cursor_later:
  assumes "first_cursor pr up r lg now = Inr c"
  shows "stamped pr (ec_event_id c) (ec_event_at c)" and "now \<le> ec_event_at c"
    and "\<forall>e \<in> set (lg_events lg). event_position e < cursor_position c"
    and "\<exists>t \<in> insert now (event_times lg). ec_event_at c \<le> t + 1"
proof -
  consider (new) i where "fresh_v7_at pr r now = Inr i" "c = \<lparr>ec_event_id = i, ec_event_at = now\<rparr>"
      "\<And>p. last_event lg = Some p \<Longrightarrow> fst p < now"
    | (bump) at i j where "last_event lg = Some (at, i)" "now \<le> at" "increment_v7_random_b pr up i at = Some j"
      "c = \<lparr>ec_event_id = j, ec_event_at = at\<rparr>"
    | (tick) at i j where "last_event lg = Some (at, i)" "now \<le> at" "fresh_v7_at pr r (at + 1) = Inr j"
      "c = \<lparr>ec_event_id = j, ec_event_at = at + 1\<rparr>"
    using assms
    by (auto simp: first_cursor_def rbind_Inr_iff ok_or_Inr_iff checked_def split: option.splits prod.splits if_splits)
  note cases = this
  show "stamped pr (ec_event_id c) (ec_event_at c)" by (cases rule: cases) (auto dest: fresh_stamped(1) increment_stamped(2))
  show "now \<le> ec_event_at c" by (cases rule: cases) auto
  show "\<exists>t \<in> insert now (event_times lg). ec_event_at c \<le> t + 1"
    by (cases rule: cases) (force dest: last_event_time)+
  have after: "\<forall>e \<in> set (lg_events lg). event_position e < cursor_position c" if "last_event lg = Some p" "p < cursor_position c" for p
    using last_event_max(1) [OF that(1)] that(2) by (auto dest: le_less_trans)
  show "\<forall>e \<in> set (lg_events lg). event_position e < cursor_position c"
  proof (cases rule: cases)
    case new
    then show ?thesis
      using after last_event_max(3) [of lg] by (cases "last_event lg") (auto simp: cursor_position_def less_prod_def')
  next
    case bump
    then show ?thesis by (intro after) (auto simp: cursor_position_def less_prod_def' dest: increment_stamped(3))
  next
    case tick
    then show ?thesis by (intro after) (auto simp: cursor_position_def less_prod_def')
  qed
qed

lemma first_cursor_fails:
  "first_cursor pr up r lg now = Inl e \<Longrightarrow> now < 0 \<or> (\<exists>t \<in> insert now (event_times lg). last_millis < t + 1)"
proof (cases "last_event lg")
  case (Some p)
  moreover obtain at i where p: "p = (at, i)" by force
  moreover assume "first_cursor pr up r lg now = Inl e"
  ultimately have "now < 0 \<or> last_millis < now \<or> now \<le> at \<and> last_millis < at + 1"
    by (auto simp: first_cursor_def rbind_Inl_iff ok_or_def checked_def in_i64_def i64_bounds dest!: fresh_fails
        split: option.splits if_splits)
  then show ?thesis using last_event_time [of lg at i] Some p by auto
qed (auto simp: first_cursor_def rbind_Inl_iff dest!: fresh_fails)

end

context uuid_codec
begin

lemma allocate_ends:
  "\<exists>r. allocate_request_event_cursor pr up rnd lg now owner = Some r \<and>
    (case r of
       Inr (lg', c) \<Rightarrow> lg' = claimed_log owner lg c \<and> tget (lg_locators lg) (ec_event_id c) = None \<and>
         now \<le> ec_event_at c \<and> (\<forall>e \<in> set (lg_events lg). event_position e < cursor_position c)
     | Inl _ \<Rightarrow> now < 0 \<or> (\<exists>t \<in> insert now (event_times lg). last_millis < t + 1 + int (length (lg_locators lg))))"
proof (cases "first_cursor pr up (rnd 0) lg now")
  case (Inl e)
  have "last_millis < t + 1 \<Longrightarrow> last_millis < t + 1 + int n" for t n by simp
  then have "now < 0 \<or> (\<exists>t \<in> insert now (event_times lg). last_millis < t + 1 + int (length (lg_locators lg)))"
    using first_cursor_fails [OF Inl] by blast
  with Inl show ?thesis by (simp add: allocate_request_event_cursor_def)
next
  case (Inr c)
  note c = first_cursor_later [OF Inr]
  from claim_cursor_ends [OF c(1), of rnd owner lg 1] show ?thesis
  proof (elim disjE exE conjE)
    fix c'
    assume c': "claim_cursor pr up rnd owner lg 1 c = Some (Inr (claimed_log owner lg c', c'))"
      "tget (lg_locators lg) (ec_event_id c') = None" "cursor_position c \<le> cursor_position c'"
    have "now \<le> ec_event_at c'" using c(2) c'(3) by (auto simp: cursor_position_def less_eq_prod_def)
    moreover have "\<forall>e \<in> set (lg_events lg). event_position e < cursor_position c'" using c(3) c'(3) by (blast intro: less_le_trans)
    ultimately show ?thesis using Inr c'(1,2) by (simp add: allocate_request_event_cursor_def)
  next
    fix e
    assume e: "claim_cursor pr up rnd owner lg 1 c = Some (Inl e)"
      "last_millis < ec_event_at c + int (card (taken_from lg (ec_event_id c)))"
    obtain t where "t \<in> insert now (event_times lg)" "ec_event_at c \<le> t + 1" using c(4) by blast
    moreover from this have "last_millis < t + 1 + int (length (lg_locators lg))"
      using e(2) taken_bound [of lg "ec_event_id c"] by linarith
    ultimately show ?thesis using Inr e(1) by (auto simp: allocate_request_event_cursor_def)
  qed
qed

text \<open>Events written at allocated cursors stand in the log in the order of their positions.\<close>

lemma append_keeps_order:
  assumes "allocate_request_event_cursor pr up rnd lg now owner = Some (Inr (lg', c))"
    and "sorted_wrt (<) (map event_position (lg_events lg))"
  shows "sorted_wrt (<) (map event_position (lg_events (insert_request_event lg' c e)))"
  using allocate_ends [of rnd lg now owner] assms
  by (auto simp: insert_request_event_def claimed_log_def sorted_wrt_append event_position_def cursor_position_def)

end

subsection \<open>Properties of the event cursor\<close>

text \<open>
  C31. The allocation of an event cursor ends, whatever identifiers are taken and whatever the
  random source draws. It fails only on a negative clock or when the 48 bits of the
  timestamp are exhausted; otherwise the cursor lies strictly after every stored event, in
  the order in which the event feed is read, is not before the clock, and claims an
  identifier that no event has had.
\<close>

theorem event_cursor_total:
  assumes "uuid_codec pr up"
  shows "\<exists>r. allocate_request_event_cursor pr up rnd lg now owner = Some r \<and>
    (case r of
       Inr (lg', c) \<Rightarrow> lg' = claimed_log owner lg c \<and> tget (lg_locators lg) (ec_event_id c) = None \<and>
         now \<le> ec_event_at c \<and> (\<forall>e \<in> set (lg_events lg). event_position e < cursor_position c)
     | Inl _ \<Rightarrow> now < 0 \<or> (\<exists>t \<in> insert now (event_times lg). last_millis < t + 1 + int (length (lg_locators lg))))"
  by (rule uuid_codec.allocate_ends [OF assms])

text \<open>
  A log whose last event is ahead of the clock and whose next identifier is taken by a
  locator without an event.
\<close>

definition sample_uuid :: "64 word \<Rightarrow> uuid" where
  "sample_uuid lo = hyphenated (0x0196f00000007abc, lo)"

definition sample_log :: event_log where
  "sample_log = \<lparr>lg_locators = [(sample_uuid 0x8000000000000001, \<lparr>el_created_at = 0x0196f0000000, el_tenant_id = ''t'', el_key_id = ''k'', el_request_id = ''q1''\<rparr>),
       (sample_uuid 0x8000000000000002, \<lparr>el_created_at = 0x0196f0000000, el_tenant_id = ''t'', el_key_id = ''k'', el_request_id = ''q2''\<rparr>)],
     lg_events = [(sample_uuid 0x8000000000000001, \<lparr>re_tenant_id = ''t'', re_key_id = ''k'', re_request_id = ''q1'', re_event_at = 0x0196f0000000,
       re_kind = EventStarted, re_protocol = ''generation'', re_model = ''m'', re_status_code = None, re_duration_ms = None, re_input_tokens = 0,
       re_output_tokens = 0, re_cost_micros = 0, re_error_code = None\<rparr>)]\<rparr>"

theorem event_cursor_total_witness:
  "\<exists>lg' c. allocate_request_event_cursor hyphenated parse_hyphenated (\<lambda>_. (0, 0)) sample_log 5 (''t'', ''k'', ''q3'') = Some (Inr (lg', c)) \<and>
     (0x0196f0000000, sample_uuid 0x8000000000000001) < cursor_position c"
proof -
  have "event_times sample_log = {0x0196f0000000}" "length (lg_locators sample_log) = 2"
    "set (lg_events sample_log) \<noteq> {}" by (simp_all add: event_times_def sample_log_def)
  moreover have "event_position (hd (lg_events sample_log)) = (0x0196f0000000, sample_uuid 0x8000000000000001)"
    "hd (lg_events sample_log) \<in> set (lg_events sample_log)" by (simp_all add: sample_log_def event_position_def)
  ultimately show ?thesis
    using event_cursor_total [OF rfc_text.uuid_codec_axioms, of "\<lambda>_. (0, 0)" sample_log 5 "(''t'', ''k'', ''q3'')"]
    by (fastforce split: sum.splits prod.splits)
qed

end
