(* ===== verification/Generation_Tables.thy ===== *)
theory Generation_Tables
  imports Billing_System Settlement_Feed Request_Events Archive_Staging
begin

text \<open>
  The data of asynchronous generation: JSON values as \<open>serde_json\<close> has them, the structures of
  \<open>src/src/model.rs\<close> that generation uses, the rows of \<open>generation_jobs\<close>, \<open>generation_assets\<close>,
  of the statistics tables and of the reconciliation records, and the database a job
  transaction works on, which contains the accounting tables, the settlement feed, the event
  log and the staging attempts of the other components.
\<close>

subsection \<open>JSON values\<close>

text \<open>
  Of the numbers only integers occur in what generation writes. An object is kept sorted by
  key, which makes equality of values the equality of \<open>serde_json::Value\<close>.
\<close>

datatype json = JNull | JBool bool | JInt int | JStr string | JArr "json list" | JObj "(string \<times> json) list"

fun jput :: "string \<Rightarrow> json \<Rightarrow> (string \<times> json) list \<Rightarrow> (string \<times> json) list" where
  "jput k v [] = [(k, v)]"
| "jput k v ((k', v') # m) = (if k = k' then (k, v) # m else if k < k' then (k, v) # (k', v') # m else (k', v') # jput k v m)"

definition jobject :: "(string \<times> json) list \<Rightarrow> json" where
  "jobject kvs = JObj (fold (\<lambda>(k, v). jput k v) kvs [])"

definition jget :: "string \<Rightarrow> json \<Rightarrow> json option" where
  "jget k j = (case j of JObj m \<Rightarrow> map_of m k | _ \<Rightarrow> None)"

text \<open>\<open>value[k] = v\<close>, which is only used on objects, and reading \<open>value[k]\<close>.\<close>

definition jset :: "string \<Rightarrow> json \<Rightarrow> json \<Rightarrow> json" where
  "jset k v j = (case j of JObj m \<Rightarrow> JObj (jput k v m) | _ \<Rightarrow> JObj [(k, v)])"

definition jindex :: "json \<Rightarrow> string \<Rightarrow> json" where
  "jindex j k = (case jget k j of Some v \<Rightarrow> v | None \<Rightarrow> JNull)"

definition jremove :: "string \<Rightarrow> json \<Rightarrow> json" where
  "jremove k j = (case j of JObj m \<Rightarrow> JObj (filter (\<lambda>(k', _). k' \<noteq> k) m) | _ \<Rightarrow> j)"

definition as_i64 :: "json \<Rightarrow> int option" where
  "as_i64 j = (case j of JInt n \<Rightarrow> checked n | _ \<Rightarrow> None)"

definition as_str :: "json \<Rightarrow> string option" where
  "as_str j = (case j of JStr s \<Rightarrow> Some s | _ \<Rightarrow> None)"

definition joption :: "('a \<Rightarrow> json) \<Rightarrow> 'a option \<Rightarrow> json" where
  "joption f x = (case x of None \<Rightarrow> JNull | Some y \<Rightarrow> f y)"

lemma map_of_jput [simp]: "map_of (jput k v m) = (map_of m)(k \<mapsto> v)"
  by (induction m) auto

lemma jget_jset [simp]: "jget k (jset k' v (JObj m)) = (if k = k' then Some v else jget k (JObj m))"
  by (simp add: jget_def jset_def)

subsection \<open>Structures\<close>

record asset_view =
  av_asset_id :: uuid
  av_index :: int
  av_mime_type :: string
  av_size_bytes :: int
  av_filename :: string

record archived_asset =
  aa_asset_id :: uuid
  aa_index :: int
  aa_object_locator :: string
  aa_mime_type :: string
  aa_size_bytes :: int
  aa_filename :: string

record provider_asset =
  pa_asset_id :: uuid
  pa_index :: int
  pa_url :: string
  pa_expires_at :: "int option"
  pa_mime_type :: string
  pa_filename :: string

record staged_assets =
  sa_attempt_nonce :: uuid
  sa_billed_units :: int
  sa_assets :: "archived_asset list"

record provider_receipt =
  pr_task_id :: string
  pr_status :: string
  pr_total_tokens :: "int option"
  pr_quota :: "int option"
  pr_supplier_usd_micros :: "int option"
  pr_provider_model_name :: "string option"

datatype job_status = Preparing | Queued | Submitting | Running | Cancelling | Succeeded | Failed | Cancelled

definition terminal :: "job_status \<Rightarrow> bool" where
  "terminal s \<longleftrightarrow> s \<in> {Succeeded, Failed, Cancelled}"

definition workable :: "job_status \<Rightarrow> bool" where
  "workable s \<longleftrightarrow> s \<in> {Queued, Running, Submitting, Cancelling}"

record job_view =
  jv_job_id :: uuid
  jv_created_at :: int
  jv_updated_at :: int
  jv_completed_at :: "int option"
  jv_model :: string
  jv_driver :: string
  jv_billing_unit :: string
  jv_status :: job_status
  jv_upstream_job_id :: "string option"
  jv_estimated_units :: int
  jv_billed_units :: "int option"
  jv_cost :: string
  jv_error_code :: "string option"
  jv_result :: "json option"
  jv_assets :: "asset_view list"

subsection \<open>Rows\<close>

record job_row =
  j_tenant_id :: uuid
  j_key_id :: uuid
  j_model_route_id :: "uuid option"
  j_upstream_account_id :: uuid
  j_reservation_id :: uuid
  j_public_model :: string
  j_upstream_model :: string
  j_driver :: string
  j_status :: job_status
  j_request_object :: string
  j_upstream_job_id :: "string option"
  j_result_json :: "string option"
  j_error_code :: "string option"
  j_estimated_units :: int
  j_billed_units :: "int option"
  j_cost_micros :: int
  j_attempt_count :: int
  j_failure_count :: int
  j_next_attempt_at :: int
  j_lease_owner :: "string option"
  j_lease_expires_at :: "int option"
  j_created_at :: int
  j_updated_at :: int
  j_completed_at :: "int option"
  j_billing_unit :: string
  j_micros_per_unit :: int
  j_idempotency_key :: "string option"
  j_request_hash :: "string option"
  j_stats_aggregated_at :: "int option"
  j_submission_nonce :: "uuid option"
  j_staged_assets_json :: "string option"
  j_routing_snapshot :: "string option"
  j_delivery_confirmed_at :: "int option"
  j_reconciliation_deadline_at :: "int option"

record asset_row =
  ga_job_id :: "uuid option" \<comment> \<open>\<open>None\<close> for an asset of a synchronous request\<close>
  ga_asset_index :: int
  ga_object_locator :: string
  ga_mime_type :: string
  ga_size_bytes :: int
  ga_filename :: string
  ga_created_at :: int

record stats_fact =
  sf_tenant_id :: uuid
  sf_key_id :: uuid
  sf_created_at :: int
  sf_model :: string
  sf_status_class :: string
  sf_error_code :: string
  sf_upstream_account_id :: string
  sf_duration_ms :: int
  sf_cost_micros :: int
  sf_billed_units :: int
  sf_currency :: string
  sf_modality :: string
  sf_billing_unit :: string
  sf_model_route_id :: string

text \<open>
  The rollup tables: the key columns as a list of texts with the time bucket (0 where the
  table has none), the counters in the order of their columns.
\<close>

type_synonym rollup_key = "string list \<times> int"
type_synonym rollup = "(rollup_key, int list) table"

record rollups =
  ro_session_totals :: rollup
  ro_session_activity :: "(rollup_key, int) table" \<comment> \<open>\<open>session_usage_totals.last_activity_at\<close>\<close>
  ro_session_hourly :: rollup
  ro_session_daily :: rollup
  ro_daily :: rollup \<comment> \<open>\<open>generation_daily_aggregates\<close>\<close>
  ro_analysis_hourly :: rollup
  ro_analysis_daily :: rollup
  ro_dimensions_hourly :: rollup
  ro_dimensions_daily :: rollup

record service_credential =
  sc_scopes_json :: string
  sc_tenant_external_id :: "string option"
  sc_revoked_at :: "int option"

record resolution_row =
  rs_tenant_id :: uuid
  rs_job_id :: uuid
  rs_submission_nonce :: uuid
  rs_actor_service_id :: uuid
  rs_idempotency_hash :: string
  rs_request_digest :: string
  rs_expected_revision :: string
  rs_action :: string
  rs_evidence_digest :: string
  rs_upstream_job_id :: string
  rs_result_json :: string
  rs_created_at :: int
  rs_actor_credential_generation :: int

record job_db =
  jd_billing :: billing_db
  jd_feed :: feed_db
  jd_log :: event_log
  jd_staging :: staging_table
  jd_jobs :: "(uuid, job_row) table"
  jd_assets :: "(uuid, asset_row) table"
  jd_facts :: "(uuid, stats_fact) table"
  jd_rollups :: rollups
  jd_resolutions :: "(uuid, resolution_row) table"
  jd_tenants :: "(uuid, string \<times> bool) table" \<comment> \<open>external identifier, whether active\<close>
  jd_principals :: "(uuid, bool \<times> int) table" \<comment> \<open>whether active, credential generation\<close>
  jd_credentials :: "(uuid \<times> int, service_credential) table"

end
