(* ===== verification/Generation_Rollups.thy ===== *)
theory Generation_Rollups
  imports Generation_Tables
begin

text \<open>
  The statistics of a finished generation job (\<open>src/src/db/generation/aggregation.rs\<close>): the
  transaction that finishes a job claims the aggregation mark of its row, records one fact
  and adds it to eight rollup tables. The facts and the rollups stay in step: what a counter
  gained is what the facts under its key add up to.
\<close>

subsection \<open>The fact\<close>

datatype backend = PostgreSql | Sqlite

text \<open>\<open>LIKE 'p%'\<close>: SQLite ignores the case of ASCII letters, PostgreSQL does not.\<close>

definition like_prefix :: "backend \<Rightarrow> string \<Rightarrow> string \<Rightarrow> bool" where
  "like_prefix b p s \<longleftrightarrow> (case b of PostgreSql \<Rightarrow> take (length p) s = p
     | Sqlite \<Rightarrow> eq_ignore_ascii_case (take (length p) s) p)"

definition job_modality :: "backend \<Rightarrow> job_db \<Rightarrow> uuid \<Rightarrow> job_row \<Rightarrow> string" where
  "job_modality b d i j =
     (let with_type = (\<lambda>p. list_ex (\<lambda>(_, a). ga_job_id a = Some i \<and> like_prefix b p (ga_mime_type a)) (jd_assets d))
      in if with_type ''video/'' then ''video'' else if with_type ''image/'' then ''image''
         else if j_driver j = ''volcengine-seedance'' then ''video'' else ''unknown'')"

definition stats_fact_of :: "backend \<Rightarrow> job_db \<Rightarrow> uuid \<Rightarrow> stats_fact option" where
  "stats_fact_of b d i =
     Option.bind (tget (jd_jobs d) i) (\<lambda>j.
     Option.bind (tget (usage_reservations (jd_billing d)) (j_reservation_id j)) (\<lambda>r.
     Option.bind (tget (credit_accounts (jd_billing d)) (rr_account_id r)) (\<lambda>account.
     if \<not> terminal (j_status j) then None else Some
       \<lparr>sf_tenant_id = j_tenant_id j, sf_key_id = j_key_id j, sf_created_at = j_created_at j, sf_model = j_public_model j,
        sf_status_class = (if j_status j = Succeeded then ''success'' else ''failure''),
        sf_error_code = (case j_error_code j of None \<Rightarrow> [] | Some e \<Rightarrow> e), sf_upstream_account_id = j_upstream_account_id j,
        sf_duration_ms = (case j_completed_at j of None \<Rightarrow> 0 | Some c \<Rightarrow> if c < j_created_at j then 0 else c - j_created_at j),
        sf_cost_micros = j_cost_micros j, sf_billed_units = (case j_billed_units j of None \<Rightarrow> 0 | Some n \<Rightarrow> n),
        sf_currency = ca_currency account, sf_modality = job_modality b d i j,
        sf_billing_unit = (if j_billing_unit j = [] then ''unknown'' else j_billing_unit j),
        sf_model_route_id = (case j_model_route_id j of None \<Rightarrow> [] | Some m \<Rightarrow> m)\<rparr>)))"

subsection \<open>Keys and counters\<close>

definition unlinked_session :: "stats_fact \<Rightarrow> string" where
  "unlinked_session f = ''unlinked:'' @ sf_key_id f"

definition session_totals_key :: "stats_fact \<Rightarrow> rollup_key" where
  "session_totals_key f = ([sf_tenant_id f, sf_key_id f, unlinked_session f, sf_currency f], 0)"

definition session_totals_counters :: "stats_fact \<Rightarrow> int list" where
  "session_totals_counters f = [1, if sf_status_class f = ''failure'' then 1 else 0, 0, 0, 0, 0, sf_billed_units f,
     1, sf_duration_ms f, sf_cost_micros f]"

definition session_key :: "int \<Rightarrow> stats_fact \<Rightarrow> rollup_key" where
  "session_key divisor f = ([sf_tenant_id f, sf_key_id f, unlinked_session f, sf_model f, ''generation'', sf_status_class f,
     sf_error_code f, sf_upstream_account_id f, sf_model_route_id f, sf_currency f], sf_created_at f sdiv divisor)"

definition session_counters :: "stats_fact \<Rightarrow> int list" where
  "session_counters f = [1, 0, 0, 0, 0, sf_billed_units f, 1, sf_duration_ms f, sf_cost_micros f]"

definition daily_key :: "stats_fact \<Rightarrow> rollup_key" where
  "daily_key f = ([sf_tenant_id f, sf_key_id f, sf_model f, sf_status_class f, sf_error_code f, sf_upstream_account_id f,
     sf_currency f], sf_created_at f sdiv 86400000)"

definition daily_counters :: "stats_fact \<Rightarrow> int list" where
  "daily_counters f = [1, sf_billed_units f, sf_cost_micros f]"

definition duration_buckets :: "int \<Rightarrow> int list" where
  "duration_buckets d = map of_bool
     [d \<le> 10, 10 < d \<and> d \<le> 50, 50 < d \<and> d \<le> 100, 100 < d \<and> d \<le> 250, 250 < d \<and> d \<le> 500, 500 < d \<and> d \<le> 1000,
      1000 < d \<and> d \<le> 2500, 2500 < d \<and> d \<le> 5000, 5000 < d \<and> d \<le> 10000, 10000 < d \<and> d \<le> 30000,
      30000 < d \<and> d \<le> 60000, 60000 < d]"

definition analysis_key :: "int \<Rightarrow> stats_fact \<Rightarrow> rollup_key" where
  "analysis_key divisor f = ([sf_tenant_id f, sf_key_id f, ''generation'', sf_model f, ''generation'', sf_status_class f,
     sf_error_code f, sf_upstream_account_id f, sf_model_route_id f, ''default'', sf_currency f], sf_created_at f sdiv divisor)"

definition analysis_counters :: "stats_fact \<Rightarrow> int list" where
  "analysis_counters f = [1, 0, 0, 0, 0, sf_billed_units f, 1, sf_duration_ms f] @ duration_buckets (sf_duration_ms f) @
     [sf_cost_micros f]"

definition dimensions_key :: "int \<Rightarrow> stats_fact \<Rightarrow> rollup_key" where
  "dimensions_key divisor f = ([sf_tenant_id f, sf_key_id f, sf_model f, sf_status_class f, sf_error_code f,
     sf_upstream_account_id f, sf_model_route_id f, sf_modality f, sf_billing_unit f, sf_currency f],
     sf_created_at f sdiv divisor)"

definition dimensions_counters :: "stats_fact \<Rightarrow> int list" where
  "dimensions_counters f = [sf_billed_units f]"

subsection \<open>The upserts\<close>

fun add_counters :: "int list \<Rightarrow> int list \<Rightarrow> int list res" where
  "add_counters (x # xs) (y # ys) = rbind (sql_int (x + y)) (\<lambda>z. rbind (add_counters xs ys) (\<lambda>zs. Inr (z # zs)))"
| "add_counters _ _ = Inr []"

definition upsert_add :: "rollup_key \<Rightarrow> int list \<Rightarrow> rollup \<Rightarrow> rollup res" where
  "upsert_add k v t = (case tget t k of None \<Rightarrow> Inr (tput k v t)
     | Some w \<Rightarrow> rbind (add_counters w v) (\<lambda>w'. Inr (tput k w' t)))"

definition upsert_latest :: "rollup_key \<Rightarrow> int \<Rightarrow> (rollup_key, int) table \<Rightarrow> (rollup_key, int) table" where
  "upsert_latest k v t = tput k (case tget t k of None \<Rightarrow> v | Some w \<Rightarrow> if w < v then v else w) t"

definition add_rollups :: "stats_fact \<Rightarrow> rollups \<Rightarrow> rollups res" where
  "add_rollups f ro =
     rbind (upsert_add (session_totals_key f) (session_totals_counters f) (ro_session_totals ro)) (\<lambda>t1.
     rbind (upsert_add (session_key 3600000 f) (session_counters f) (ro_session_hourly ro)) (\<lambda>t2.
     rbind (upsert_add (session_key 86400000 f) (session_counters f) (ro_session_daily ro)) (\<lambda>t3.
     rbind (upsert_add (daily_key f) (daily_counters f) (ro_daily ro)) (\<lambda>t4.
     rbind (upsert_add (analysis_key 3600000 f) (analysis_counters f) (ro_analysis_hourly ro)) (\<lambda>t5.
     rbind (upsert_add (analysis_key 86400000 f) (analysis_counters f) (ro_analysis_daily ro)) (\<lambda>t6.
     rbind (upsert_add (dimensions_key 3600000 f) (dimensions_counters f) (ro_dimensions_hourly ro)) (\<lambda>t7.
     rbind (upsert_add (dimensions_key 86400000 f) (dimensions_counters f) (ro_dimensions_daily ro)) (\<lambda>t8.
     Inr \<lparr>ro_session_totals = t1,
          ro_session_activity = upsert_latest (session_totals_key f) (sf_created_at f) (ro_session_activity ro),
          ro_session_hourly = t2, ro_session_daily = t3, ro_daily = t4, ro_analysis_hourly = t5, ro_analysis_daily = t6,
          ro_dimensions_hourly = t7, ro_dimensions_daily = t8\<rparr>))))))))"

definition aggregate_terminal_generation_job :: "backend \<Rightarrow> job_db \<Rightarrow> uuid \<Rightarrow> int \<Rightarrow> job_db res" where
  "aggregate_terminal_generation_job b d i now =
     (let (jobs, claimed) = tupdate i (\<lambda>j. j_stats_aggregated_at j = None \<and> terminal (j_status j))
            (\<lambda>j. j\<lparr>j_stats_aggregated_at := Some now\<rparr>) (jd_jobs d)
      in if \<not> claimed then Inr d
         else rbind (ok_or (if tget (jd_facts d) i = None then stats_fact_of b (d\<lparr>jd_jobs := jobs\<rparr>) i else None)
                (internal ''aggregation_aggregate_terminal_generation_job_1'')) (\<lambda>f.
              rbind (sql_int (sf_duration_ms f)) (\<lambda>_.
              rbind (add_rollups f (jd_rollups d)) (\<lambda>ro.
              Inr (d\<lparr>jd_jobs := jobs, jd_facts := tput i f (jd_facts d), jd_rollups := ro\<rparr>)))))"

lemma aggregate_cases:
  assumes "aggregate_terminal_generation_job b d i now = Inr d'"
  obtains (idle) "d' = d" "\<And>j. tget (jd_jobs d) i = Some j \<Longrightarrow> terminal (j_status j) \<Longrightarrow> j_stats_aggregated_at j \<noteq> None"
  | (counted) j f ro where "tget (jd_jobs d) i = Some j" "terminal (j_status j)" "j_stats_aggregated_at j = None"
      "tget (jd_facts d) i = None" "add_rollups f (jd_rollups d) = Inr ro"
      "sf_cost_micros f = j_cost_micros j" "sf_key_id f = j_key_id j" "j_billed_units j = Some n \<Longrightarrow> sf_billed_units f = n"
      "d' = d\<lparr>jd_jobs := tput i (j\<lparr>j_stats_aggregated_at := Some now\<rparr>) (jd_jobs d), jd_facts := tput i f (jd_facts d),
         jd_rollups := ro\<rparr>"
proof (cases "\<exists>j. tget (jd_jobs d) i = Some j \<and> j_stats_aggregated_at j = None \<and> terminal (j_status j)")
  case False
  then have "d' = d" using assms
    by (auto simp: aggregate_terminal_generation_job_def tupdate_def split: option.splits if_splits)
  then show thesis using False by (intro idle) auto
next
  case True
  then obtain j where j: "tget (jd_jobs d) i = Some j" "j_stats_aggregated_at j = None" "terminal (j_status j)" by blast
  from assms j obtain f ro where f: "tget (jd_facts d) i = None"
    "stats_fact_of b (d\<lparr>jd_jobs := tput i (j\<lparr>j_stats_aggregated_at := Some now\<rparr>) (jd_jobs d)\<rparr>) i = Some f"
    "add_rollups f (jd_rollups d) = Inr ro"
    "d' = d\<lparr>jd_jobs := tput i (j\<lparr>j_stats_aggregated_at := Some now\<rparr>) (jd_jobs d), jd_facts := tput i f (jd_facts d),
         jd_rollups := ro\<rparr>"
    by (auto simp: aggregate_terminal_generation_job_def tupdate_def res_simps split: if_splits)
  from f(2) have "sf_cost_micros f = j_cost_micros j" "sf_key_id f = j_key_id j"
    "j_billed_units j = Some n \<Longrightarrow> sf_billed_units f = n"
    by (auto simp: stats_fact_of_def tbl_simps bind_eq_Some_conv split: if_splits)
  with f j show thesis by (intro counted)
qed

subsection \<open>Counters follow the facts\<close>

definition counter :: "rollup \<Rightarrow> rollup_key \<Rightarrow> nat \<Rightarrow> int" where
  "counter t k n = (case tget t k of None \<Rightarrow> 0 | Some v \<Rightarrow> v ! n)"

definition fact_sum :: "(stats_fact \<Rightarrow> rollup_key) \<Rightarrow> (stats_fact \<Rightarrow> int list) \<Rightarrow> rollup_key \<Rightarrow> nat \<Rightarrow> (uuid, stats_fact) table \<Rightarrow> int" where
  "fact_sum key counters k n = tsum (\<lambda>_ f. if key f = k then counters f ! n else 0)"

definition of_width :: "nat \<Rightarrow> rollup \<Rightarrow> bool" where
  "of_width w t \<longleftrightarrow> (\<forall>k v. tget t k = Some v \<longrightarrow> length v = w)"

lemma of_widthD: "of_width w t \<Longrightarrow> tget t k = Some v \<Longrightarrow> length v = w"
  unfolding of_width_def by blast

lemma of_width_tput: "of_width w t \<Longrightarrow> length v = w \<Longrightarrow> of_width w (tput k v t)"
  unfolding of_width_def tget_tput by (metis option.inject)

lemma add_counters_nth:
  assumes "add_counters xs ys = Inr zs" and "length xs = length ys"
  shows "length zs = length ys \<and> (\<forall>n < length ys. zs ! n = xs ! n + ys ! n)"
  using assms
proof (induction xs ys arbitrary: zs rule: add_counters.induct)
  case (1 x xs y ys)
  then obtain zs' where z: "zs = (x + y) # zs'" and r: "add_counters xs ys = Inr zs'" by (auto simp: res_simps)
  have "length zs' = length ys \<and> (\<forall>n < length ys. zs' ! n = xs ! n + ys ! n)"
    using 1 r by (auto simp: sql_int_def split: if_splits)
  with z show ?case by (auto simp: nth_Cons split: nat.splits)
qed auto

text \<open>
  What one rollup table promises: the statistics transaction adds the counters of the fact
  to the row of its key and leaves every other row.
\<close>

locale additive_rollup =
  fixes tab :: "rollups \<Rightarrow> rollup"
    and key :: "stats_fact \<Rightarrow> rollup_key"
    and counters :: "stats_fact \<Rightarrow> int list"
    and width :: nat
  assumes upserts: "add_rollups f ro = Inr ro' \<Longrightarrow> upsert_add (key f) (counters f) (tab ro) = Inr (tab ro')"
    and width: "length (counters f) = width"
begin

lemma step_row:
  assumes "add_rollups f ro = Inr ro'" and "of_width width (tab ro)"
  obtains v where "tab ro' = tput (key f) v (tab ro)" "length v = width"
    "\<And>n. n < width \<Longrightarrow> v ! n = counter (tab ro) (key f) n + counters f ! n"
proof (cases "tget (tab ro) (key f)")
  case None
  then have "tab ro' = tput (key f) (counters f) (tab ro)" using upserts [OF assms(1)] by (simp add: upsert_add_def)
  with None show thesis by (intro that) (simp_all add: width counter_def)
next
  case (Some w)
  then obtain w' where w': "add_counters w (counters f) = Inr w'" "tab ro' = tput (key f) w' (tab ro)"
    using upserts [OF assms(1)] by (auto simp: upsert_add_def res_simps)
  have "length w = length (counters f)" using of_widthD [OF assms(2) Some] width by simp
  from add_counters_nth [OF w'(1) this] show thesis
    using w'(2) Some by (intro that [of w']) (simp_all add: width counter_def)
qed

lemma step_width: "add_rollups f ro = Inr ro' \<Longrightarrow> of_width width (tab ro) \<Longrightarrow> of_width width (tab ro')"
  by (erule (1) step_row) (simp add: of_width_tput)

lemma step_counter:
  assumes "add_rollups f ro = Inr ro'" and "of_width width (tab ro)" and "n < width"
  shows "counter (tab ro') k n = counter (tab ro) k n + (if key f = k then counters f ! n else 0)"
  by (rule step_row [OF assms(1,2)]) (use assms(3) in \<open>simp add: counter_def tget_tput\<close>)

lemma counted:
  assumes "add_rollups f ro = Inr ro'" and "of_width width (tab ro)" and "n < width" and "tget facts i = None"
  shows "counter (tab ro') k n - counter (tab ro) k n = fact_sum key counters k n (tput i f facts) - fact_sum key counters k n facts"
  using step_counter [OF assms(1-3)] assms(4) by (simp add: fact_sum_def tbl_simps)

end

lemma add_rollups_Inr:
  assumes "add_rollups f ro = Inr ro'"
  shows "upsert_add (session_totals_key f) (session_totals_counters f) (ro_session_totals ro) = Inr (ro_session_totals ro')"
    and "upsert_add (session_key 3600000 f) (session_counters f) (ro_session_hourly ro) = Inr (ro_session_hourly ro')"
    and "upsert_add (session_key 86400000 f) (session_counters f) (ro_session_daily ro) = Inr (ro_session_daily ro')"
    and "upsert_add (daily_key f) (daily_counters f) (ro_daily ro) = Inr (ro_daily ro')"
    and "upsert_add (analysis_key 3600000 f) (analysis_counters f) (ro_analysis_hourly ro) = Inr (ro_analysis_hourly ro')"
    and "upsert_add (analysis_key 86400000 f) (analysis_counters f) (ro_analysis_daily ro) = Inr (ro_analysis_daily ro')"
    and "upsert_add (dimensions_key 3600000 f) (dimensions_counters f) (ro_dimensions_hourly ro) = Inr (ro_dimensions_hourly ro')"
    and "upsert_add (dimensions_key 86400000 f) (dimensions_counters f) (ro_dimensions_daily ro) = Inr (ro_dimensions_daily ro')"
  using assms by (auto simp: add_rollups_def res_simps)

lemma counters_length [simp]:
  "length (session_totals_counters f) = 10" "length (session_counters f) = 9" "length (daily_counters f) = 3"
  "length (analysis_counters f) = 21" "length (dimensions_counters f) = 1"
  by (simp_all only: session_totals_counters_def session_counters_def daily_counters_def analysis_counters_def
      duration_buckets_def dimensions_counters_def length_append length_map list.size)

interpretation session_totals: additive_rollup ro_session_totals session_totals_key session_totals_counters 10
  by unfold_locales (simp_all only: add_rollups_Inr counters_length)

interpretation session_hourly: additive_rollup ro_session_hourly "session_key 3600000" session_counters 9
  by unfold_locales (simp_all only: add_rollups_Inr counters_length)

interpretation session_daily: additive_rollup ro_session_daily "session_key 86400000" session_counters 9
  by unfold_locales (simp_all only: add_rollups_Inr counters_length)

interpretation daily: additive_rollup ro_daily daily_key daily_counters 3
  by unfold_locales (simp_all only: add_rollups_Inr counters_length)

interpretation analysis_hourly: additive_rollup ro_analysis_hourly "analysis_key 3600000" analysis_counters 21
  by unfold_locales (simp_all only: add_rollups_Inr counters_length)

interpretation analysis_daily: additive_rollup ro_analysis_daily "analysis_key 86400000" analysis_counters 21
  by unfold_locales (simp_all only: add_rollups_Inr counters_length)

interpretation dimensions_hourly: additive_rollup ro_dimensions_hourly "dimensions_key 3600000" dimensions_counters 1
  by unfold_locales (simp_all only: add_rollups_Inr counters_length)

interpretation dimensions_daily: additive_rollup ro_dimensions_daily "dimensions_key 86400000" dimensions_counters 1
  by unfold_locales (simp_all only: add_rollups_Inr counters_length)

text \<open>All tables at once: the selector, key and counters of each, with the number of its columns.\<close>

definition rollup_tables :: "((rollups \<Rightarrow> rollup) \<times> (stats_fact \<Rightarrow> rollup_key) \<times> (stats_fact \<Rightarrow> int list) \<times> nat) list" where
  "rollup_tables =
     [(ro_session_totals, session_totals_key, session_totals_counters, 10),
      (ro_session_hourly, session_key 3600000, session_counters, 9),
      (ro_session_daily, session_key 86400000, session_counters, 9),
      (ro_daily, daily_key, daily_counters, 3),
      (ro_analysis_hourly, analysis_key 3600000, analysis_counters, 21),
      (ro_analysis_daily, analysis_key 86400000, analysis_counters, 21),
      (ro_dimensions_hourly, dimensions_key 3600000, dimensions_counters, 1),
      (ro_dimensions_daily, dimensions_key 86400000, dimensions_counters, 1)]"

lemma rollup_tables_additive: "(tab, key, counters, width) \<in> set rollup_tables \<Longrightarrow> additive_rollup tab key counters width"
  unfolding rollup_tables_def
  using session_totals.additive_rollup_axioms session_hourly.additive_rollup_axioms session_daily.additive_rollup_axioms
    daily.additive_rollup_axioms analysis_hourly.additive_rollup_axioms analysis_daily.additive_rollup_axioms
    dimensions_hourly.additive_rollup_axioms dimensions_daily.additive_rollup_axioms
  by auto

definition rollups_wf :: "rollups \<Rightarrow> bool" where
  "rollups_wf ro \<longleftrightarrow> (\<forall>(tab, key, counters, width) \<in> set rollup_tables. of_width width (tab ro))"

text \<open>From one database to a later one, every counter gained what the new facts add up to.\<close>

definition rollups_follow :: "job_db \<Rightarrow> job_db \<Rightarrow> bool" where
  "rollups_follow d d' \<longleftrightarrow> (rollups_wf (jd_rollups d) \<longrightarrow> rollups_wf (jd_rollups d') \<and>
     (\<forall>(tab, key, counters, width) \<in> set rollup_tables. \<forall>k. \<forall>n < width.
        counter (tab (jd_rollups d')) k n - counter (tab (jd_rollups d)) k n =
        fact_sum key counters k n (jd_facts d') - fact_sum key counters k n (jd_facts d)))"

lemma rollups_follow_same:
  "jd_rollups d' = jd_rollups d \<Longrightarrow> jd_facts d' = jd_facts d \<Longrightarrow> rollups_follow d d'"
  by (simp add: rollups_follow_def)

lemma rollups_followD:
  assumes "rollups_follow d d'" and "rollups_wf (jd_rollups d)"
  shows "rollups_wf (jd_rollups d')"
    and "(tab, key, counters, width) \<in> set rollup_tables \<Longrightarrow> n < width \<Longrightarrow>
      counter (tab (jd_rollups d')) k n - counter (tab (jd_rollups d)) k n =
      fact_sum key counters k n (jd_facts d') - fact_sum key counters k n (jd_facts d)"
  using assms unfolding rollups_follow_def by blast+

lemma rollups_followI:
  assumes "rollups_wf (jd_rollups d) \<Longrightarrow> rollups_wf (jd_rollups d')"
    and "\<And>tab key counters width k n. rollups_wf (jd_rollups d) \<Longrightarrow> (tab, key, counters, width) \<in> set rollup_tables \<Longrightarrow>
      n < width \<Longrightarrow> counter (tab (jd_rollups d')) k n - counter (tab (jd_rollups d)) k n =
      fact_sum key counters k n (jd_facts d') - fact_sum key counters k n (jd_facts d)"
  shows "rollups_follow d d'"
  using assms unfolding rollups_follow_def by blast

lemma rollups_follow_trans:
  assumes "rollups_follow d d'" and "rollups_follow d' d''"
  shows "rollups_follow d d''"
proof (rule rollups_followI)
  assume wf: "rollups_wf (jd_rollups d)"
  note wf' = rollups_followD(1) [OF assms(1) wf]
  show "rollups_wf (jd_rollups d'')" by (rule rollups_followD(1) [OF assms(2) wf'])
  fix tab key counters width k n
  assume "(tab, key, counters, width) \<in> set rollup_tables" and "n < (width :: nat)"
  from rollups_followD(2) [OF assms(1) wf this, of k] rollups_followD(2) [OF assms(2) wf' this, of k]
  show "counter (tab (jd_rollups d'')) k n - counter (tab (jd_rollups d)) k n =
      fact_sum key counters k n (jd_facts d'') - fact_sum key counters k n (jd_facts d)" by linarith
qed

lemma aggregate_follows:
  assumes "aggregate_terminal_generation_job b d i now = Inr d'"
  shows "rollups_follow d d'"
proof (rule aggregate_cases [OF assms])
  assume "d' = d"
  then show ?thesis by (simp add: rollups_follow_same)
next
  fix j f ro
  assume none: "tget (jd_facts d) i = None" and add: "add_rollups f (jd_rollups d) = Inr ro"
    and d': "d' = d\<lparr>jd_jobs := tput i (j\<lparr>j_stats_aggregated_at := Some now\<rparr>) (jd_jobs d), jd_facts := tput i f (jd_facts d),
         jd_rollups := ro\<rparr>"
  have w: "of_width width (tab (jd_rollups d))"
    if "rollups_wf (jd_rollups d)" "(tab, key, counters, width) \<in> set rollup_tables" for tab key counters width
    using that by (auto simp: rollups_wf_def)
  show ?thesis
  proof (rule rollups_followI)
    assume wf: "rollups_wf (jd_rollups d)"
    have "of_width width (tab (jd_rollups d'))" if t: "(tab, key, counters, width) \<in> set rollup_tables" for tab key counters width
      using additive_rollup.step_width [OF rollup_tables_additive [OF t] add w [OF wf t]] d' by simp
    then show "rollups_wf (jd_rollups d')" by (auto simp: rollups_wf_def)
    fix tab key counters width k n
    assume t: "(tab, key, counters, width) \<in> set rollup_tables" and "n < (width :: nat)"
    then show "counter (tab (jd_rollups d')) k n - counter (tab (jd_rollups d)) k n =
      fact_sum key counters k n (jd_facts d') - fact_sum key counters k n (jd_facts d)"
      using additive_rollup.counted [OF rollup_tables_additive [OF t] add w [OF wf t] _ none] d' by simp
  qed
qed

end
