(* ===== verification/Generation_Jobs.thy ===== *)
theory Generation_Jobs
  imports Generation_Rollups
begin

text \<open>
  The transactions on generation jobs (\<open>src/src/db/generation/jobs.rs\<close>, \<open>jobs/finish.rs\<close>,
  \<open>reconcile.rs\<close>, \<open>terminal.rs\<close>): a job reserves its price on admission, waits for its request to
  be archived, is leased by workers, submitted upstream and polled, and ends once, with the
  settlement of its reservation, an entry of the settlement feed, a statistics fact and an
  event in one transaction.

  A transaction is a function from the database to \<open>Inl\<close> (rolled back) or \<open>Inr\<close> (committed). One
  that appends an event is \<open>None\<close> if the allocation of the event cursor does not end. Where the
  code reads a view after its commit, the outcome of that reading is a result of its own.
\<close>

subsection \<open>Collaborators\<close>

text \<open>
  What is not part of the sources: the decimal parser, \<open>serde_json\<close> for the price snapshot, JSON
  values, manifests, provider references and resolutions, the text form of identifiers, and the
  BLAKE3 digests of the reconciliation.
\<close>

record quarantine_resolution =
  qr_resolution_id :: uuid
  qr_job_id :: uuid
  qr_tenant_external_id :: string
  qr_action :: string
  qr_upstream_job_id :: "string option"
  qr_evidence_digest :: string
  qr_resolved_by_service_id :: uuid
  qr_resulting_status :: string
  qr_delivery_confirmed_at :: "int option"
  qr_reconciliation_deadline_at :: "int option"
  qr_created_at :: int

record resolve_input =
  ri_tenant_external_id :: string
  ri_job_id :: uuid
  ri_actor_service_id :: uuid
  ri_actor_credential_generation :: int
  ri_idempotency_hash :: string
  ri_expected_revision :: string
  ri_action :: string
  ri_upstream_job_id :: "string option"
  ri_evidence_digest :: string

record job_env =
  je_backend :: backend
  je_decimal :: "string \<Rightarrow> decimal option"
  je_price :: "model_price \<Rightarrow> string option"
  je_uuid_text :: "uuid_bits \<Rightarrow> uuid"
  je_uuid_bits :: "uuid \<Rightarrow> uuid_bits option"
  je_json_text :: "json \<Rightarrow> string"
  je_json_value :: "string \<Rightarrow> json option"
  je_manifest_text :: "staged_assets \<Rightarrow> string"
  je_manifest_value :: "string \<Rightarrow> staged_assets option"
  je_reference_text :: "provider_asset list \<Rightarrow> string"
  je_reference_value :: "string \<Rightarrow> provider_asset list option"
  je_asset_views :: "json \<Rightarrow> asset_view list option"
  je_scopes :: "string \<Rightarrow> string list option"
  je_revision :: "uuid \<times> uuid \<times> int \<times> int \<times> int option \<Rightarrow> string"
  je_request_digest :: "resolve_input \<Rightarrow> string" \<comment> \<open>over all fields but the generation and the idempotency hash\<close>
  je_resolution_text :: "quarantine_resolution \<Rightarrow> string"
  je_resolution_value :: "string \<Rightarrow> quarantine_resolution option"

text \<open>What a transaction draws: its readings of the clock, new identifiers, random bits.\<close>

record fresh =
  fr_clock :: "nat \<Rightarrow> int"
  fr_reservation :: uuid
  fr_ledger :: uuid
  fr_allocations :: "nat \<Rightarrow> uuid"
  fr_draw :: "nat \<Rightarrow> uuid_bits"

abbreviation fr_now :: "fresh \<Rightarrow> int" where
  "fr_now fr \<equiv> fr_clock fr 0"

fun obind :: "'a res option \<Rightarrow> ('a \<Rightarrow> 'b res option) \<Rightarrow> 'b res option" where
  "obind None f = None"
| "obind (Some (Inl e)) f = Some (Inl e)"
| "obind (Some (Inr x)) f = f x"

lemma obind_Inr_iff: "obind r f = Some (Inr y) \<longleftrightarrow> (\<exists>x. r = Some (Inr x) \<and> f x = Some (Inr y))"
  by (cases "(r, f)" rule: obind.cases) auto

definition post_event :: "job_env \<Rightarrow> fresh \<Rightarrow> job_db \<Rightarrow> int \<Rightarrow> request_event \<Rightarrow> job_db res option" where
  "post_event e fr d now ev = obind (allocate_request_event_cursor (je_uuid_text e) (je_uuid_bits e) (fr_draw fr) (jd_log d) now
       (re_tenant_id ev, re_key_id ev, re_request_id ev)) (\<lambda>(lg, c). Some (Inr (d\<lparr>jd_log := insert_request_event lg c ev\<rparr>)))"

definition job_event :: "event_kind \<Rightarrow> uuid \<Rightarrow> job_row \<Rightarrow> int option \<Rightarrow> int option \<Rightarrow> int \<Rightarrow> string option \<Rightarrow> request_event" where
  "job_event kind i j status_code duration cost error =
     \<lparr>re_tenant_id = j_tenant_id j, re_key_id = j_key_id j, re_request_id = i, re_event_at = 0, re_kind = kind,
      re_protocol = ''generation'', re_model = j_public_model j, re_status_code = status_code, re_duration_ms = duration,
      re_input_tokens = 0, re_output_tokens = 0, re_cost_micros = cost, re_error_code = error\<rparr>"

subsection \<open>Views\<close>

definition job_view_of :: "job_env \<Rightarrow> uuid \<Rightarrow> job_row \<Rightarrow> job_view res" where
  "job_view_of e i j =
     rbind (case j_result_json j of None \<Rightarrow> Inr None
            | Some s \<Rightarrow> rbind (ok_or (je_json_value e s) (internal ''jobs_generation_job_view_1'')) (\<lambda>v. Inr (Some v))) (\<lambda>result.
     let result = map_option (jremove ''provider_reference'') result in
     rbind (case Option.bind result (jget ''assets'') of None \<Rightarrow> Inr []
            | Some v \<Rightarrow> ok_or (je_asset_views e v) (internal ''jobs_generation_job_view_2'')) (\<lambda>assets.
     Inr \<lparr>jv_job_id = i, jv_created_at = j_created_at j, jv_updated_at = j_updated_at j, jv_completed_at = j_completed_at j,
          jv_model = j_public_model j, jv_driver = j_driver j, jv_billing_unit = j_billing_unit j, jv_status = j_status j,
          jv_upstream_job_id = j_upstream_job_id j, jv_estimated_units = j_estimated_units j, jv_billed_units = j_billed_units j,
          jv_cost = micros_to_decimal_string (j_cost_micros j), jv_error_code = j_error_code j, jv_result = result,
          jv_assets = assets\<rparr>))"

definition generation_job :: "job_env \<Rightarrow> job_db \<Rightarrow> uuid \<Rightarrow> uuid \<Rightarrow> job_view res" where
  "generation_job e d k i = (case tget (jd_jobs d) i of
      Some j \<Rightarrow> if j_key_id j = k then job_view_of e i j else Inl NotFound
    | None \<Rightarrow> Inl NotFound)"

definition list_generation_jobs :: "job_env \<Rightarrow> job_db \<Rightarrow> uuid \<Rightarrow> int \<Rightarrow> job_view list res" where
  "list_generation_jobs e d k limit = collect (\<lambda>(i, j). job_view_of e i j)
     (take (nat (max 1 (min 200 limit))) (rev (sort_key (\<lambda>(i, j). (j_created_at j, i)) (filter (\<lambda>(i, j). j_key_id j = k) (jd_jobs d)))))"

subsection \<open>Admission\<close>

definition GENERATION_PREPARATION_LEASE_MILLIS :: int where
  "GENERATION_PREPARATION_LEASE_MILLIS = 15 * 60 * 1000"

definition GENERATION_REQUEST_METADATA :: string where
  "GENERATION_REQUEST_METADATA = ''metadata-only-json:{\"kind\":\"generation\",\"media_archived\":false}''"

record job_idempotency =
  gi_key :: string
  gi_request_hash :: string

definition validate_generation_job_idempotency :: "job_idempotency \<Rightarrow> unit res" where
  "validate_generation_job_idempotency g =
     rbind (validate_idempotency_key (gi_key g) ''Idempotency-Key'') (\<lambda>_.
     ensure (\<not> (length (gi_request_hash g) \<noteq> 64 \<or> \<not> list_all is_lower_hex (gi_request_hash g)))
       (BadRequest ''generation request hash must be a lowercase BLAKE3 hex digest''))"

definition is_ascii_hexdigit :: "byte \<Rightarrow> bool" where
  "is_ascii_hexdigit c \<longleftrightarrow> is_lower_hex c \<or> (65 \<le> (of_char c :: nat) \<and> (of_char c :: nat) \<le> 70)"

definition is_sha256_hex :: "string \<Rightarrow> bool" where
  "is_sha256_hex v \<longleftrightarrow> length v = 64 \<and> list_all is_ascii_hexdigit v"

definition serialize_media_routing_snapshot :: "job_env \<Rightarrow> json option \<Rightarrow> string option res" where
  "serialize_media_routing_snapshot e v =
     (let encoded = map_option (je_json_text e) v in
      rbind (ensure (\<not> (case encoded of None \<Rightarrow> False | Some s \<Rightarrow> 1024 * 1024 < length s))
        (BadRequest ''media routing snapshot exceeds 1 MiB'')) (\<lambda>_. Inr encoded))"

record start_input =
  si_routing_snapshot :: "json option"
  si_job_id :: uuid
  si_key :: authenticated_key
  si_model_route_id :: uuid
  si_upstream_account_id :: uuid
  si_reservation_price :: model_price
  si_public_model :: string
  si_upstream_model :: string
  si_driver :: string
  si_request_hash :: string
  si_estimated_units :: int
  si_billing_unit :: string
  si_micros_per_unit :: int

datatype start_result = JobCreated job_view | JobReplayed job_view

definition job_by_key :: "job_db \<Rightarrow> uuid \<Rightarrow> string \<Rightarrow> (uuid \<times> job_row) option" where
  "job_by_key d k ik = find (\<lambda>(i, j). j_key_id j = k \<and> j_idempotency_key j = Some ik) (jd_jobs d)"

definition preparation_expired :: "int \<Rightarrow> job_row \<Rightarrow> bool" where
  "preparation_expired now j \<longleftrightarrow> j_status j = Preparing \<and> (case j_lease_expires_at j of None \<Rightarrow> False | Some x \<Rightarrow> x \<le> now)"

abbreviation other_request :: app_error where
  "other_request \<equiv> BadRequest ''Idempotency-Key was already used for a different generation request''"

definition generation_job_by_idempotency :: "job_env \<Rightarrow> job_db \<Rightarrow> uuid \<Rightarrow> job_idempotency \<Rightarrow> int \<Rightarrow> job_view option res" where
  "generation_job_by_idempotency e d k g now =
     rbind (validate_generation_job_idempotency g) (\<lambda>_.
     case job_by_key d k (gi_key g) of
       None \<Rightarrow> Inr None
     | Some (i, j) \<Rightarrow>
         rbind (ensure (j_request_hash j = Some (gi_request_hash g)) other_request) (\<lambda>_.
         if preparation_expired now j then Inr None else rbind (job_view_of e i j) (\<lambda>v. Inr (Some v))))"

definition validate_start :: "job_env \<Rightarrow> start_input \<Rightarrow> job_idempotency option \<Rightarrow> string option res" where
  "validate_start e s g =
     rbind (serialize_media_routing_snapshot e (si_routing_snapshot s)) (\<lambda>snapshot.
     rbind (ensure (si_model_route_id s \<noteq> nil_uuid) (BadRequest ''generation model route snapshot is required'')) (\<lambda>_.
     rbind (ensure (\<not> (si_estimated_units s < 0 \<or> si_estimated_units s = 0 \<and>
         \<not> (si_billing_unit s = ''million_tokens'' \<and> policy_mode (ak_policy (si_key s)) = MeteredUnlimited)))
       (BadRequest ''generation requires a positive estimate or metered-unlimited native tokens'')) (\<lambda>_.
     rbind (ensure (is_sha256_hex (si_request_hash s)) (BadRequest ''generation request hash must be a SHA-256 digest'')) (\<lambda>_.
     rbind (case g of None \<Rightarrow> Inr ()
            | Some g \<Rightarrow> rbind (validate_generation_job_idempotency g) (\<lambda>_.
                ensure (gi_request_hash g = si_request_hash s)
                  (BadRequest ''generation request hash does not match its Idempotency-Key claim''))) (\<lambda>_.
     Inr snapshot)))))"

definition new_job :: "start_input \<Rightarrow> job_idempotency option \<Rightarrow> string option \<Rightarrow> uuid \<Rightarrow> int \<Rightarrow> job_row" where
  "new_job s g snapshot rid now =
     \<lparr>j_tenant_id = ak_tenant_id (si_key s), j_key_id = ak_key_id (si_key s), j_model_route_id = Some (si_model_route_id s),
      j_upstream_account_id = si_upstream_account_id s, j_reservation_id = rid, j_public_model = si_public_model s,
      j_upstream_model = si_upstream_model s, j_driver = si_driver s, j_status = Preparing, j_request_object = [],
      j_upstream_job_id = None, j_result_json = None, j_error_code = None, j_estimated_units = si_estimated_units s,
      j_billed_units = None, j_cost_micros = 0, j_attempt_count = 0, j_failure_count = 0, j_next_attempt_at = now,
      j_lease_owner = None, j_lease_expires_at = Some (sat (now + GENERATION_PREPARATION_LEASE_MILLIS)),
      j_created_at = now, j_updated_at = now, j_completed_at = None, j_billing_unit = si_billing_unit s,
      j_micros_per_unit = si_micros_per_unit s, j_idempotency_key = map_option gi_key g,
      j_request_hash = Some (si_request_hash s), j_stats_aggregated_at = None, j_submission_nonce = None,
      j_staged_assets_json = None, j_routing_snapshot = snapshot, j_delivery_confirmed_at = None,
      j_reconciliation_deadline_at = None\<rparr>"

definition new_job_view :: "start_input \<Rightarrow> int \<Rightarrow> job_view" where
  "new_job_view s now =
     \<lparr>jv_job_id = si_job_id s, jv_created_at = now, jv_updated_at = now, jv_completed_at = None, jv_model = si_public_model s,
      jv_driver = si_driver s, jv_billing_unit = si_billing_unit s, jv_status = Preparing, jv_upstream_job_id = None,
      jv_estimated_units = si_estimated_units s, jv_billed_units = None, jv_cost = ''0'', jv_error_code = None,
      jv_result = None, jv_assets = []\<rparr>"

definition release_request_staging :: "job_db \<Rightarrow> uuid \<Rightarrow> int \<Rightarrow> job_db" where
  "release_request_staging d i now = d\<lparr>jd_staging := cleanup_archive_staging_purpose (jd_staging d) (GenerationJob i) PRequest now\<rparr>"

text \<open>
  A request under an idempotency key that has a job: its own job is returned, and taken over if
  its preparation has expired.
\<close>

definition replay_start :: "job_env \<Rightarrow> fresh \<Rightarrow> job_db \<Rightarrow> uuid \<Rightarrow> job_idempotency \<Rightarrow> uuid \<Rightarrow> job_row \<Rightarrow> (job_db \<times> start_result) res" where
  "replay_start e fr d k g i j =
     rbind (ensure (j_request_hash j = Some (gi_request_hash g)) other_request) (\<lambda>_.
     rbind (job_view_of e i j) (\<lambda>v.
     if preparation_expired (fr_now fr) j
     then Inr (release_request_staging (d\<lparr>jd_jobs := tput i
            (j\<lparr>j_lease_expires_at := Some (sat (fr_now fr + GENERATION_PREPARATION_LEASE_MILLIS)), j_updated_at := fr_now fr\<rparr>)
            (jd_jobs d)\<rparr>) i (fr_clock fr 1), JobCreated v)
     else Inr (d, JobReplayed v)))"

text \<open>The insert of a job: its keys are the identifier, the reservation and the client's key.\<close>

definition insert_job :: "uuid \<Rightarrow> job_row \<Rightarrow> (uuid, job_row) table \<Rightarrow> (uuid, job_row) table res" where
  "insert_job i j t =
     rbind (ensure (\<not> list_ex (\<lambda>(_, x). j_reservation_id x = j_reservation_id j) t) (db_error ''database'')) (\<lambda>_.
     sql_insert i j t)"

text \<open>A writer that did not take the lock of the key may have won the race for the index.\<close>

definition start_conflict :: "job_env \<Rightarrow> fresh \<Rightarrow> job_db \<Rightarrow> uuid \<Rightarrow> job_idempotency option \<Rightarrow> (job_db \<times> start_result) res" where
  "start_conflict e fr d k g =
     rbind (ok_or g (internal ''jobs_site_1'')) (\<lambda>g.
     rbind (generation_job_by_idempotency e d k g (fr_clock fr 1)) (\<lambda>v.
     rbind (ok_or v (internal ''jobs_site_2'')) (\<lambda>v. Inr (d, JobReplayed v))))"

definition start_generation_job ::
  "job_env \<Rightarrow> fresh \<Rightarrow> job_db \<Rightarrow> start_input \<Rightarrow> job_idempotency option \<Rightarrow> (job_db \<times> start_result) res option" where
  "start_generation_job e fr d s g = obind (Some (validate_start e s g)) (\<lambda>snapshot.
     let now = fr_now fr; k = ak_key_id (si_key s) in
     obind (Some (ensure (g \<noteq> None \<and> je_backend e = Sqlite \<longrightarrow> tget (key_records (jd_billing d)) k \<noteq> None) NotFound)) (\<lambda>_.
     case Option.bind g (\<lambda>g. map_option (Pair g) (job_by_key d k (gi_key g))) of
       Some (g, i, j) \<Rightarrow> Some (replay_start e fr d k g i j)
     | None \<Rightarrow>
         obind (Some (reserve_usage_with_id_in_transaction (je_decimal e) (je_price e) (jd_billing d) (si_key s)
             (si_reservation_price s) 0 (si_estimated_units s) now (fr_reservation fr))) (\<lambda>(billing, reservation).
         let j = new_job s g snapshot (ur_id reservation) now in
         if (case g of None \<Rightarrow> False | Some g \<Rightarrow> job_by_key d k (gi_key g) \<noteq> None) then Some (start_conflict e fr d k g) else
         obind (Some (insert_job (si_job_id s) j (jd_jobs d))) (\<lambda>jobs.
         obind (post_event e fr (d\<lparr>jd_billing := billing, jd_jobs := jobs\<rparr>) now
             (job_event EventStarted (si_job_id s) j None None 0 None)) (\<lambda>d'.
         Some (Inr (d', JobCreated (new_job_view s now))))))))"

subsection \<open>Attaching the archived request\<close>

datatype attach_result = Attached job_view | Indeterminate

text \<open>
  How the database connection fared in one attempt: no fault; lost before the commit was sent;
  lost while committing, with the commit applied or not; or an error that the code returns at
  once, which is any rejection by the server and any error of the two statements that follow
  the update.
\<close>

datatype connection = Intact | LostBefore | LostCommitting bool | RejectedBy app_error

datatype attach_step = AttachCommit job_db | AttachRetry | AttachFail app_error

definition promoted_row :: "string \<Rightarrow> int \<Rightarrow> job_row \<Rightarrow> job_row" where
  "promoted_row object now j = j\<lparr>j_request_object := object, j_status := Queued, j_next_attempt_at := now, j_updated_at := now,
     j_lease_expires_at := None\<rparr>"

definition attachable :: "uuid \<Rightarrow> string \<Rightarrow> int \<Rightarrow> job_row \<Rightarrow> bool" where
  "attachable k hash now j \<longleftrightarrow> j_key_id j = k \<and> j_status j = Preparing \<and> j_request_object j = [] \<and> j_request_hash j = Some hash \<and>
     (case j_lease_expires_at j of None \<Rightarrow> False | Some x \<Rightarrow> now < x)"

text \<open>The statements of one attempt, up to the commit. \<open>now\<close> is the clock, \<open>db_now\<close> that of the database.\<close>

definition attach_attempt ::
  "job_db \<Rightarrow> uuid \<Rightarrow> uuid \<Rightarrow> string \<Rightarrow> string \<Rightarrow> write_lease \<Rightarrow> int \<Rightarrow> int \<Rightarrow> bool \<Rightarrow> attach_step" where
  "attach_attempt d k i hash object lease now db_now indeterminate =
     (let (jobs, promoted) = tupdate i (attachable k hash now) (promoted_row object now) (jd_jobs d);
          exact = (case tget (jd_jobs d) i of None \<Rightarrow> False
            | Some j \<Rightarrow> j_key_id j = k \<and> j_request_hash j = Some hash \<and> j_request_object j = object \<and> j_status j \<noteq> Preparing)
      in if \<not> promoted \<and> \<not> exact
         then if indeterminate then AttachRetry
              else AttachFail (Conflict ''generation request archive owner changed before queueing'')
         else case bind_archive_staging_attempt (jd_staging d) lease object db_now of
             Inl x \<Rightarrow> AttachFail x
           | Inr (staging, bound) \<Rightarrow>
               if bound then AttachCommit (d\<lparr>jd_jobs := jobs, jd_staging := staging\<rparr>)
               else AttachFail (Conflict ''generation request staging writer was fenced''))"

text \<open>
  The attempts, one for each element of the list. \<open>readable\<close> tells whether one of the four
  readings of the view after a commit got through.
\<close>

fun attach_attempts ::
  "job_env \<Rightarrow> (int \<times> int \<times> connection) list \<Rightarrow> bool \<Rightarrow> uuid \<Rightarrow> uuid \<Rightarrow> string \<Rightarrow> string \<Rightarrow> write_lease \<Rightarrow> bool \<Rightarrow> job_db \<Rightarrow>
   job_db \<times> attach_result res" where
  "attach_attempts e [] readable k i hash object lease indeterminate d =
     (d, if indeterminate then Inr Indeterminate else Inl (internal ''jobs_attach_generation_job_request_staged_1''))"
| "attach_attempts e ((now, db_now, con) # cs) readable k i hash object lease indeterminate d = (case con of
      LostBefore \<Rightarrow> attach_attempts e cs readable k i hash object lease True d
    | RejectedBy x \<Rightarrow> (d, Inl x)
    | _ \<Rightarrow> (case attach_attempt d k i hash object lease now db_now indeterminate of
        AttachFail x \<Rightarrow> (d, Inl x)
      | AttachRetry \<Rightarrow> attach_attempts e cs readable k i hash object lease indeterminate d
      | AttachCommit d' \<Rightarrow> (case con of
          LostCommitting applied \<Rightarrow> attach_attempts e cs readable k i hash object lease True (if applied then d' else d)
        | _ \<Rightarrow> (d', Inr (case generation_job e d' k i of
              Inr v \<Rightarrow> if readable then Attached v else Indeterminate
            | Inl _ \<Rightarrow> Indeterminate)))))"

definition attach_generation_job_request_staged ::
  "job_env \<Rightarrow> (nat \<Rightarrow> int \<times> int \<times> connection) \<Rightarrow> bool \<Rightarrow> job_db \<Rightarrow> uuid \<Rightarrow> uuid \<Rightarrow> string \<Rightarrow> string \<Rightarrow> write_lease \<Rightarrow>
   job_db \<times> attach_result res" where
  "attach_generation_job_request_staged e net readable d k i hash object lease =
     (if \<not> is_sha256_hex hash \<or> sk_owner (wl_key lease) \<noteq> GenerationJob i \<or> sk_purpose (wl_key lease) \<noteq> PRequest \<or>
         \<not> locator_matches_prefix object (canonical_prefix (wl_key lease))
      then (d, Inl (BadRequest ''generation request staging metadata is invalid''))
      else attach_attempts e (map net [0..<4]) readable k i hash object lease False d)"

subsection \<open>The end of a job\<close>

definition job_reservation :: "uuid \<Rightarrow> reservation_row \<Rightarrow> uuid \<Rightarrow> int \<Rightarrow> usage_reservation" where
  "job_reservation rid row k output_price =
     \<lparr>ur_id = rid, ur_account_id = rr_account_id row, ur_key_id = k, ur_mode = rr_mode row,
      ur_reserved_micros = rr_reserved_micros row, ur_input = 0, ur_output = output_price, ur_price_tiers = [],
      ur_rate_window_start = rr_rate_window_start row, ur_reserved_tokens = rr_reserved_tokens row\<rparr>"

definition joined_job :: "job_db \<Rightarrow> uuid \<Rightarrow> (job_row \<times> reservation_row) option" where
  "joined_job d i = Option.bind (tget (jd_jobs d) i) (\<lambda>j.
     map_option (Pair j) (tget (usage_reservations (jd_billing d)) (j_reservation_id j)))"

definition settle_job :: "job_env \<Rightarrow> fresh \<Rightarrow> job_db \<Rightarrow> usage_reservation \<Rightarrow> token_usage \<Rightarrow> (job_db \<times> int) res" where
  "settle_job e fr d r usage =
     rbind (settle_token_usage_in_transaction (je_decimal e) (jd_billing d) r usage (fr_now fr) (fr_ledger fr) (fr_allocations fr))
       (\<lambda>(billing, m). Inr (d\<lparr>jd_billing := billing\<rparr>, m))"

definition generation_source :: "job_db \<Rightarrow> uuid \<Rightarrow> settlement_source option" where
  "generation_source d i = Option.bind (joined_job d i) (\<lambda>(j, u). map_option (\<lambda>completed_at.
     \<lparr>so_request_id = i, so_request_kind = Generation, so_account_id = rr_account_id u, so_key_id = j_key_id j,
      so_model = j_public_model j, so_cost = j_cost_micros j, so_completed_at = completed_at, so_input_tokens = None,
      so_cached_input_tokens = None, so_cache_write_tokens = None, so_output_tokens = None, so_usage_basis = None,
      so_mode = rr_mode u, so_ledger = settled_entry (jd_billing d) (j_reservation_id j) u\<rparr>) (j_completed_at j))"

definition publish_generation_settlement :: "job_db \<Rightarrow> uuid \<Rightarrow> job_db res" where
  "publish_generation_settlement d i =
     rbind (publish_settlement_row (jd_billing d) (jd_feed d) (generation_source d i)) (\<lambda>(fd, _). Inr (d\<lparr>jd_feed := fd\<rparr>))"

definition publish_generation_terminal_effects :: "job_env \<Rightarrow> job_db \<Rightarrow> uuid \<Rightarrow> int \<Rightarrow> job_db res" where
  "publish_generation_terminal_effects e d i now =
     rbind (publish_generation_settlement d i) (\<lambda>d. aggregate_terminal_generation_job (je_backend e) d i now)"

definition validate_generation_preparation_error :: "string \<Rightarrow> unit res" where
  "validate_generation_preparation_error code =
     ensure (code \<in> {''generation_archive_failed'', ''generation_archive_attach_failed'', ''generation_archive_expired''})
       (BadRequest ''invalid generation preparation error code'')"

text \<open>The row of a job that ends without charge, and the finished event of such a job.\<close>

definition ended_row :: "job_status \<Rightarrow> string \<Rightarrow> int \<Rightarrow> job_row \<Rightarrow> job_row" where
  "ended_row st code now j = j\<lparr>j_status := st, j_billed_units := Some 0, j_cost_micros := 0, j_error_code := Some code,
     j_completed_at := Some now, j_updated_at := now, j_lease_owner := None, j_lease_expires_at := None,
     j_request_object := GENERATION_REQUEST_METADATA\<rparr>"

definition ended_event :: "uuid \<Rightarrow> job_row \<Rightarrow> int \<Rightarrow> int \<Rightarrow> string \<Rightarrow> request_event" where
  "ended_event i j status_code now code =
     job_event EventFinished i j (Some status_code) (Some (sat (now - j_created_at j))) 0 (Some code)"

text \<open>A hold that is still open is released; one that was settled must have cost nothing.\<close>

definition release_hold :: "job_env \<Rightarrow> fresh \<Rightarrow> job_db \<Rightarrow> job_row \<Rightarrow> reservation_row \<Rightarrow> app_error \<Rightarrow> job_db res" where
  "release_hold e fr d j row err =
     (if rr_status row = Reserved
      then rbind (settle_job e fr d (job_reservation (j_reservation_id j) row (j_key_id j) 0) default_usage) (\<lambda>(d, _). Inr d)
      else rbind (ensure (rr_actual_micros row = Some 0) err) (\<lambda>_. Inr d))"

definition fail_preparing_generation :: "job_env \<Rightarrow> fresh \<Rightarrow> job_db \<Rightarrow> uuid \<Rightarrow> string \<Rightarrow> (job_db \<times> bool) res option" where
  "fail_preparing_generation e fr d i code =
     obind (Some (validate_generation_preparation_error code)) (\<lambda>_.
     case joined_job d i of
       None \<Rightarrow> Some (Inr (d, False))
     | Some (j, row) \<Rightarrow>
         if j_status j \<noteq> Preparing then Some (Inr (d, False)) else
         obind (Some (release_hold e fr d j row (internal ''jobs_fail_preparing_generation_in_transaction_2''))) (\<lambda>d.
         let (jobs, failed) = tupdate i (\<lambda>j. j_status j = Preparing) (ended_row Failed code (fr_now fr)) (jd_jobs d) in
         obind (Some (ensure failed (Conflict ''generation request archive owner changed during failure settlement''))) (\<lambda>_.
         obind (Some (publish_generation_terminal_effects e (d\<lparr>jd_jobs := jobs\<rparr>) i (fr_now fr))) (\<lambda>d.
         obind (post_event e fr d (fr_now fr) (ended_event i j 502 (fr_now fr) code)) (\<lambda>d.
         Some (Inr (d, True)))))))"

definition fail_generation_job_preparation ::
  "job_env \<Rightarrow> fresh \<Rightarrow> job_db \<Rightarrow> uuid \<Rightarrow> uuid \<Rightarrow> string \<Rightarrow> (job_db \<times> job_view res) res option" where
  "fail_generation_job_preparation e fr d k i code =
     obind (Some (validate_generation_preparation_error code)) (\<lambda>_.
     obind (Some (ensure (case tget (jd_jobs d) i of None \<Rightarrow> False | Some j \<Rightarrow> j_key_id j = k \<and> j_status j = Preparing)
       (Conflict ''generation request archive owner changed before failure settlement''))) (\<lambda>_.
     obind (fail_preparing_generation e fr d i code) (\<lambda>(d, _).
     let d = release_request_staging d i (fr_clock fr 1) in Some (Inr (d, generation_job e d k i)))))"

text \<open>
  The reaper of preparations: the expired ones in the order of their leases, at most \<open>limit\<close> and
  without the rows that other transactions have locked (PostgreSQL). \<open>fr i\<close> is what the step for
  job \<open>i\<close> draws; all steps read the clock of the transaction.
\<close>

definition expired_preparations :: "job_db \<Rightarrow> int \<Rightarrow> int \<Rightarrow> (uuid \<Rightarrow> bool) \<Rightarrow> uuid list" where
  "expired_preparations d now limit locked = take (nat (max 1 (min 1000 limit))) (map fst
     (sort_key (\<lambda>(i, j). (case j_lease_expires_at j of None \<Rightarrow> 0 | Some x \<Rightarrow> x, i)) (filter (\<lambda>(i, j). preparation_expired now j \<and> \<not> locked i) (jd_jobs d))))"

fun expire_each :: "job_env \<Rightarrow> (uuid \<Rightarrow> fresh) \<Rightarrow> uuid list \<Rightarrow> job_db \<Rightarrow> nat \<Rightarrow> (job_db \<times> nat) res option" where
  "expire_each e fr [] d n = Some (Inr (d, n))"
| "expire_each e fr (i # is) d n = obind (fail_preparing_generation e (fr i) d i ''generation_archive_expired'') (\<lambda>(d, failed).
     if failed then expire_each e fr is (release_request_staging d i (fr_clock (fr i) 1)) (Suc n) else expire_each e fr is d n)"

definition expire_preparing_generation_jobs ::
  "job_env \<Rightarrow> (uuid \<Rightarrow> fresh) \<Rightarrow> job_db \<Rightarrow> int \<Rightarrow> int \<Rightarrow> (uuid \<Rightarrow> bool) \<Rightarrow> (job_db \<times> nat) res option" where
  "expire_preparing_generation_jobs e fr d now limit locked =
     expire_each e (\<lambda>i. (fr i)\<lparr>fr_clock := (fr_clock (fr i))(0 := now)\<rparr>) (expired_preparations d now limit locked) d 0"

definition cancelling_row :: "int \<Rightarrow> job_row \<Rightarrow> job_row" where
  "cancelling_row now j = j\<lparr>j_status := Cancelling, j_next_attempt_at := now, j_lease_owner := None, j_lease_expires_at := None,
     j_error_code := None, j_updated_at := now\<rparr>"

text \<open>The cancellation of a job no worker has taken up.\<close>

definition cancel_queued :: "job_env \<Rightarrow> fresh \<Rightarrow> job_db \<Rightarrow> uuid \<Rightarrow> job_row \<Rightarrow> reservation_row \<Rightarrow> job_db res option" where
  "cancel_queued e fr d i j row =
     obind (Some (ensure (\<not> (j_lease_owner j \<noteq> None \<and> (case j_lease_expires_at j of None \<Rightarrow> False | Some x \<Rightarrow> fr_now fr \<le> x)))
       (BadRequest ''generation job is currently being submitted upstream''))) (\<lambda>_.
     obind (Some (release_hold e fr d j row (BadRequest ''generation job usage has already been settled''))) (\<lambda>d.
     let (jobs, cancelled) = tupdate i (\<lambda>j. j_status j = Queued \<and> (case j_lease_expires_at j of None \<Rightarrow> True | Some x \<Rightarrow> x < fr_now fr))
           (ended_row Cancelled ''cancelled_by_user'' (fr_now fr)) (jd_jobs d) in
     obind (Some (ensure cancelled (BadRequest ''generation job is currently being submitted upstream''))) (\<lambda>_.
     obind (Some (publish_generation_terminal_effects e (release_request_staging (d\<lparr>jd_jobs := jobs\<rparr>) i (fr_clock fr 1)) i (fr_now fr))) (\<lambda>d.
     post_event e fr d (fr_now fr) (ended_event i j 499 (fr_now fr) ''cancelled_by_user'')))))"

definition cancel_generation_job ::
  "job_env \<Rightarrow> fresh \<Rightarrow> job_db \<Rightarrow> uuid \<Rightarrow> uuid \<Rightarrow> (job_db \<times> job_view res) res option" where
  "cancel_generation_job e fr d k i =
     (let reply = (\<lambda>d. Some (Inr (d, generation_job e d k i))) in
      case joined_job d i of
        None \<Rightarrow> Some (Inl NotFound)
      | Some (j, row) \<Rightarrow>
          if j_key_id j \<noteq> k then Some (Inl NotFound)
          else if j_status j = Cancelled then obind (Some (publish_generation_terminal_effects e d i (fr_now fr))) reply
          else if j_status j = Cancelling then reply d
          else if j_status j = Running then
            if j_staged_assets_json j \<noteq> None then Some (Inl (BadRequest ''generation result is already being finalized''))
            else reply (d\<lparr>jd_jobs := tput i (cancelling_row (fr_now fr) j) (jd_jobs d)\<rparr>)
          else if j_status j \<noteq> Queued then Some (Inl (BadRequest ''generation job cannot be cancelled in its current state''))
          else obind (cancel_queued e fr d i j row) reply)"

subsection \<open>Workers\<close>

abbreviation delivery_unknown :: string where
  "delivery_unknown \<equiv> ''shutdown_delivery_unknown''"

definition lease_free :: "int \<Rightarrow> job_row \<Rightarrow> bool" where
  "lease_free now j \<longleftrightarrow> (case j_lease_expires_at j of None \<Rightarrow> True | Some x \<Rightarrow> x < now)"

definition claimable_job :: "int \<Rightarrow> job_row \<Rightarrow> bool" where
  "claimable_job now j \<longleftrightarrow> workable (j_status j) \<and> j_error_code j \<noteq> Some delivery_unknown \<and> lease_free now j"

record job_work =
  jw_routing_snapshot :: "json option"
  jw_job_id :: uuid
  jw_created_at :: int
  jw_reconciliation_deadline_at :: "int option"
  jw_tenant_id :: uuid
  jw_key_id :: uuid
  jw_model_route_id :: "uuid option"
  jw_upstream_account_id :: uuid
  jw_reservation :: usage_reservation
  jw_public_model :: string
  jw_upstream_model :: string
  jw_driver :: string
  jw_status :: job_status
  jw_request_object :: string
  jw_upstream_job_id :: "string option"
  jw_submission_nonce :: "uuid option"
  jw_staged_assets :: "staged_assets option"
  jw_billing_unit :: string
  jw_estimated_units :: int
  jw_attempt_count :: int
  jw_failure_count :: int

definition unit_price :: "job_row \<Rightarrow> string \<Rightarrow> int res" where
  "unit_price j site = (if j_billing_unit j \<in> {''megapixel'', ''million_tokens''} then Inr (j_micros_per_unit j)
     else ok_or (checked (j_micros_per_unit j * 1000000)) (internal site))"

definition parsed :: "(string \<Rightarrow> 'a option) \<Rightarrow> string option \<Rightarrow> string \<Rightarrow> 'a option res" where
  "parsed f column site = (case column of None \<Rightarrow> Inr None
     | Some s \<Rightarrow> rbind (ok_or (f s) (internal site)) (\<lambda>v. Inr (Some v)))"

definition job_work_of :: "job_env \<Rightarrow> uuid \<Rightarrow> job_row \<Rightarrow> reservation_row \<Rightarrow> job_work res" where
  "job_work_of e i j row =
     rbind (parsed (je_manifest_value e) (j_staged_assets_json j) ''jobs_claim_generation_job_1'') (\<lambda>staged.
     rbind (parsed (je_json_value e) (j_routing_snapshot j) ''jobs_claim_generation_job_2'') (\<lambda>snapshot.
     rbind (unit_price j ''jobs_claim_generation_job_2'') (\<lambda>price.
     Inr \<lparr>jw_routing_snapshot = snapshot, jw_job_id = i, jw_created_at = j_created_at j,
          jw_reconciliation_deadline_at = j_reconciliation_deadline_at j, jw_tenant_id = j_tenant_id j, jw_key_id = j_key_id j,
          jw_model_route_id = j_model_route_id j, jw_upstream_account_id = j_upstream_account_id j,
          jw_reservation = job_reservation (j_reservation_id j) row (j_key_id j) price, jw_public_model = j_public_model j,
          jw_upstream_model = j_upstream_model j, jw_driver = j_driver j, jw_status = j_status j,
          jw_request_object = j_request_object j, jw_upstream_job_id = j_upstream_job_id j,
          jw_submission_nonce = j_submission_nonce j, jw_staged_assets = staged, jw_billing_unit = j_billing_unit j,
          jw_estimated_units = j_estimated_units j, jw_attempt_count = j_attempt_count j,
          jw_failure_count = j_failure_count j\<rparr>)))"

text \<open>\<open>locked\<close> are the rows that other transactions have locked, which PostgreSQL skips.\<close>

definition claim_candidate :: "job_db \<Rightarrow> int \<Rightarrow> (uuid \<Rightarrow> bool) \<Rightarrow> (uuid \<times> job_row) option" where
  "claim_candidate d now locked = (case sort_key (\<lambda>(i, j). (j_next_attempt_at j, j_created_at j, i))
       (filter (\<lambda>(i, j). claimable_job now j \<and> j_next_attempt_at j \<le> now \<and> \<not> locked i) (jd_jobs d)) of
     [] \<Rightarrow> None | x # _ \<Rightarrow> Some x)"

definition leased_row :: "string \<Rightarrow> int \<Rightarrow> job_row \<Rightarrow> job_row" where
  "leased_row w now j = j\<lparr>j_lease_owner := Some w, j_lease_expires_at := Some (sat (now + 60000)),
     j_attempt_count := j_attempt_count j + 1, j_updated_at := now\<rparr>"

definition claim_generation_job ::
  "job_env \<Rightarrow> int \<Rightarrow> (uuid \<Rightarrow> bool) \<Rightarrow> job_db \<Rightarrow> string \<Rightarrow> (job_db \<times> job_work option res) res" where
  "claim_generation_job e now locked d w = (case claim_candidate d now locked of
      None \<Rightarrow> Inr (d, Inr None)
    | Some (i, j) \<Rightarrow>
        if \<not> claimable_job now j then Inr (d, Inr None) else
        rbind (sql_int (j_attempt_count j + 1)) (\<lambda>_.
        let d = d\<lparr>jd_jobs := tput i (leased_row w now j) (jd_jobs d)\<rparr> in
        rbind (ok_or (joined_job d i) (db_error ''row_not_found'')) (\<lambda>(j, row).
        Inr (d, rbind (job_work_of e i j row) (\<lambda>work. Inr (Some work))))))"

text \<open>\<open>generation_update_claimed\<close>: an update that reaches no row is \<open>NotFound\<close>.\<close>

definition generation_update_claimed :: "job_db \<Rightarrow> uuid \<Rightarrow> (job_row \<Rightarrow> bool) \<Rightarrow> (job_row \<Rightarrow> job_row) \<Rightarrow> job_db res" where
  "generation_update_claimed d i P f =
     (let (jobs, updated) = tupdate i P f (jd_jobs d) in
      if updated then Inr (d\<lparr>jd_jobs := jobs\<rparr>) else Inl NotFound)"

definition mark_generation_submitting :: "int \<Rightarrow> job_db \<Rightarrow> uuid \<Rightarrow> string \<Rightarrow> uuid \<Rightarrow> job_db res" where
  "mark_generation_submitting now d i w nonce = generation_update_claimed d i
     (\<lambda>j. j_lease_owner j = Some w \<and> j_status j = Queued \<and> j_upstream_job_id j = None)
     (\<lambda>j. j\<lparr>j_status := Submitting, j_submission_nonce := Some nonce, j_updated_at := now\<rparr>)"

definition arm_generation_shutdown_quarantine :: "int \<Rightarrow> job_db \<Rightarrow> uuid \<Rightarrow> string \<Rightarrow> uuid \<Rightarrow> job_db res" where
  "arm_generation_shutdown_quarantine now d i w nonce = generation_update_claimed d i
     (\<lambda>j. j_lease_owner j = Some w \<and> j_status j = Submitting \<and> j_submission_nonce j = Some nonce \<and> j_upstream_job_id j = None \<and>
          (case j_lease_expires_at j of None \<Rightarrow> False | Some x \<Rightarrow> now \<le> x))
     (\<lambda>j. j\<lparr>j_error_code := Some delivery_unknown, j_updated_at := now\<rparr>)"

text \<open>Two readings of the clock: the next attempt is set from the first.\<close>

definition mark_generation_submitted :: "int \<Rightarrow> int \<Rightarrow> job_db \<Rightarrow> uuid \<Rightarrow> string \<Rightarrow> uuid \<Rightarrow> string \<Rightarrow> job_db res" where
  "mark_generation_submitted now now' d i w nonce upstream_id = generation_update_claimed d i
     (\<lambda>j. j_lease_owner j = Some w \<and> j_status j = Submitting \<and> j_submission_nonce j = Some nonce)
     (\<lambda>j. j\<lparr>j_status := Running, j_upstream_job_id := Some upstream_id, j_submission_nonce := None, j_failure_count := 0,
          j_error_code := None, j_next_attempt_at := sat (now + 2000), j_lease_owner := None, j_lease_expires_at := None,
          j_updated_at := now'\<rparr>)"

definition retain_generation_delivery_unknown :: "int \<Rightarrow> job_db \<Rightarrow> uuid \<Rightarrow> string \<Rightarrow> job_db \<times> bool" where
  "retain_generation_delivery_unknown now d i w =
     (let (jobs, updated) = tupdate i
            (\<lambda>j. j_lease_owner j = Some w \<and> j_status j = Submitting \<and> j_upstream_job_id j = None \<and>
                 j_error_code j = Some delivery_unknown)
            (\<lambda>j. j\<lparr>j_lease_owner := None, j_lease_expires_at := None, j_updated_at := now\<rparr>) (jd_jobs d)
      in (d\<lparr>jd_jobs := jobs\<rparr>, updated))"

definition reschedule_generation_job :: "int \<Rightarrow> job_db \<Rightarrow> uuid \<Rightarrow> string \<Rightarrow> int \<Rightarrow> string option \<Rightarrow> job_db res" where
  "reschedule_generation_job now d i w delay code =
     (let owns = (\<lambda>j. j_lease_owner j = Some w \<and> j_error_code j \<noteq> Some delivery_unknown);
          failures = (\<lambda>j. if code = None then 0 else j_failure_count j + 1) in
      rbind (case tget (jd_jobs d) i of None \<Rightarrow> Inr 0
             | Some j \<Rightarrow> if owns j then sql_int (failures j) else Inr 0) (\<lambda>_.
      generation_update_claimed d i owns
        (\<lambda>j. j\<lparr>j_next_attempt_at := sat (now + max delay 500), j_error_code := code, j_failure_count := failures j,
             j_lease_owner := None, j_lease_expires_at := None, j_updated_at := now\<rparr>)))"

definition renew_generation_lease :: "int \<Rightarrow> job_db \<Rightarrow> uuid \<Rightarrow> string \<Rightarrow> job_db res" where
  "renew_generation_lease now d i w = generation_update_claimed d i
     (\<lambda>j. j_lease_owner j = Some w \<and> workable (j_status j))
     (\<lambda>j. j\<lparr>j_lease_expires_at := Some (sat (now + 60000)), j_updated_at := now\<rparr>)"

subsection \<open>Assets\<close>

definition asset_row_of :: "uuid \<Rightarrow> int \<Rightarrow> archived_asset \<Rightarrow> asset_row" where
  "asset_row_of i now a = \<lparr>ga_job_id = Some i, ga_asset_index = aa_index a, ga_object_locator = aa_object_locator a,
     ga_mime_type = aa_mime_type a, ga_size_bytes = aa_size_bytes a, ga_filename = aa_filename a, ga_created_at = now\<rparr>"

definition asset_equal :: "uuid \<times> asset_row \<Rightarrow> archived_asset \<Rightarrow> bool" where
  "asset_equal = (\<lambda>(i, r) a. i = aa_asset_id a \<and> ga_object_locator r = aa_object_locator a \<and>
     ga_mime_type r = aa_mime_type a \<and> ga_size_bytes r = aa_size_bytes a \<and> ga_filename r = aa_filename a)"

definition asset_at :: "(uuid, asset_row) table \<Rightarrow> uuid \<Rightarrow> int \<Rightarrow> (uuid \<times> asset_row) option" where
  "asset_at t i index = find (\<lambda>(_, r). ga_job_id r = Some i \<and> ga_asset_index r = index) t"

definition generation_asset_matches :: "(uuid, asset_row) table \<Rightarrow> uuid \<Rightarrow> archived_asset \<Rightarrow> bool" where
  "generation_asset_matches t i a = (case asset_at t i (aa_index a) of None \<Rightarrow> False | Some x \<Rightarrow> asset_equal x a)"

fun insert_generation_assets :: "uuid \<Rightarrow> int \<Rightarrow> archived_asset list \<Rightarrow> (uuid, asset_row) table \<Rightarrow> (uuid, asset_row) table res" where
  "insert_generation_assets i now [] t = Inr t"
| "insert_generation_assets i now (a # as) t =
     rbind (ensure (0 \<le> aa_index a \<and> 0 \<le> aa_size_bytes a) (db_error ''database'')) (\<lambda>_.
     rbind (if asset_at t i (aa_index a) = None then sql_insert (aa_asset_id a) (asset_row_of i now a) t
            else rbind (ensure (generation_asset_matches t i a)
              (Conflict ''generation staged asset replay does not match archived metadata'')) (\<lambda>_. Inr t)) (\<lambda>t.
     insert_generation_assets i now as t))"

definition generation_assets_match :: "(uuid, asset_row) table \<Rightarrow> uuid \<Rightarrow> archived_asset list \<Rightarrow> bool" where
  "generation_assets_match t i expected =
     (let rows = sort_key (\<lambda>(k, r). (ga_asset_index r, k)) (filter (\<lambda>(_, r). ga_job_id r = Some i) t)
      in length rows = length expected \<and>
         list_all2 (\<lambda>x a. asset_equal x a \<and> ga_asset_index (snd x) = aa_index a) rows
           (sort_key (\<lambda>a. (aa_index a, aa_asset_id a)) expected))"

definition save_generation_staged_assets_staged ::
  "job_env \<Rightarrow> int \<Rightarrow> int \<Rightarrow> int \<Rightarrow> job_db \<Rightarrow> uuid \<Rightarrow> string \<Rightarrow> staged_assets \<Rightarrow> write_lease \<Rightarrow> (job_db \<times> bool) res" where
  "save_generation_staged_assets_staged e now now' db_now d i w staged lease =
     (let key = wl_key lease; prefix = canonical_prefix key in
      rbind (ensure (\<not> (sk_owner key \<noteq> GenerationJob i \<or> sk_purpose key \<noteq> PAssets \<or> sa_attempt_nonce staged \<noteq> sk_attempt_id key \<or>
          sa_assets staged = [] \<or> list_ex (\<lambda>a. \<not> locator_matches_prefix (aa_object_locator a) prefix) (sa_assets staged)))
        (BadRequest ''generation staged asset binding is invalid'')) (\<lambda>_.
      let manifest = je_manifest_text e staged;
          (jobs, saved) = tupdate i (\<lambda>j. j_lease_owner j = Some w \<and> j_status j = Running \<and> j_upstream_job_id j \<noteq> None \<and>
              j_staged_assets_json j = None) (\<lambda>j. j\<lparr>j_staged_assets_json := Some manifest, j_updated_at := now\<rparr>) (jd_jobs d);
          exact = Option.bind (tget (jd_jobs d) i) j_staged_assets_json = Some manifest \<and>
            generation_assets_match (jd_assets d) i (sa_assets staged) in
      if \<not> saved \<and> \<not> exact
      then Inr (d\<lparr>jd_staging := fst (cleanup_archive_staging_attempt (jd_staging d) key now')\<rparr>, False)
      else
        rbind (if saved then insert_generation_assets i now (sa_assets staged) (jd_assets d) else Inr (jd_assets d)) (\<lambda>assets.
        rbind (bind_archive_staging_attempt (jd_staging d) lease prefix db_now) (\<lambda>(staging, bound).
        rbind (ensure bound (Conflict ''generation asset staging writer was fenced'')) (\<lambda>_.
        Inr (d\<lparr>jd_jobs := jobs, jd_assets := assets, jd_staging := staging\<rparr>, True))))))"

subsection \<open>The supplier's receipt\<close>

definition receipt_json :: "provider_receipt \<Rightarrow> json" where
  "receipt_json r = jobject [(''task_id'', JStr (pr_task_id r)), (''status'', JStr (pr_status r)),
     (''total_tokens'', joption JInt (pr_total_tokens r)), (''quota'', joption JInt (pr_quota r)),
     (''supplier_usd_micros'', joption JInt (pr_supplier_usd_micros r)),
     (''provider_model_name'', joption JStr (pr_provider_model_name r))]"

definition receipt_evidence :: "provider_receipt \<Rightarrow> int \<Rightarrow> json" where
  "receipt_evidence r micros_per_unit = jobject
     [(''provider_usage'', receipt_json r),
      (''customer_price'', jobject [(''billing_unit'', JStr ''million_tokens''), (''usage_unit'', JStr ''token''),
         (''micros_per_unit'', JInt micros_per_unit)])]"

definition receipt_valid :: "provider_receipt \<Rightarrow> bool" where
  "receipt_valid r \<longleftrightarrow> \<not> (pr_status r \<notin> {''SUCCESS'', ''FAILURE''} \<or>
     (case pr_total_tokens r of None \<Rightarrow> False | Some v \<Rightarrow> v < 0) \<or> (case pr_quota r of None \<Rightarrow> False | Some v \<Rightarrow> v < 0) \<or>
     pr_supplier_usd_micros r \<noteq> Option.bind (pr_quota r) (\<lambda>v. checked (v * 2)) \<or>
     (case pr_provider_model_name r of None \<Rightarrow> False | Some v \<Rightarrow> v = [] \<or> 500 < length v))"

definition record_generation_provider_receipt :: "job_env \<Rightarrow> job_db \<Rightarrow> uuid \<Rightarrow> string \<Rightarrow> provider_receipt \<Rightarrow> job_db res" where
  "record_generation_provider_receipt e d i w r =
     rbind (ensure (receipt_valid r) (BadRequest ''invalid generation supplier receipt'')) (\<lambda>_.
     rbind (ok_or (tget (jd_jobs d) i) NotFound) (\<lambda>j.
     rbind (ensure (\<not> (j_upstream_job_id j \<noteq> Some (pr_task_id r) \<or> j_billing_unit j \<noteq> ''million_tokens''))
       (Conflict ''supplier receipt does not match generation task'')) (\<lambda>_.
     let expected = receipt_evidence r (j_micros_per_unit j) in
     rbind (parsed (je_json_value e) (j_result_json j) ''generation_receipt_json'') (\<lambda>existing.
     case existing of
       Some v \<Rightarrow> rbind (ensure (\<not> (jget ''provider_usage'' v \<noteq> jget ''provider_usage'' expected \<or>
           jget ''customer_price'' v \<noteq> jget ''customer_price'' expected))
         (Conflict ''generation supplier receipt is immutable'')) (\<lambda>_. Inr d)
     | None \<Rightarrow> rbind (ensure (\<not> (j_lease_owner j \<noteq> Some w \<or> j_status j \<notin> {Running, Cancelling})) NotFound) (\<lambda>_.
         Inr (d\<lparr>jd_jobs := tput i (j\<lparr>j_result_json := Some (je_json_text e expected)\<rparr>) (jd_jobs d)\<rparr>))))))"

subsection \<open>Finishing a job\<close>

record finish_input =
  fi_job_id :: uuid
  fi_worker_id :: string
  fi_status :: string
  fi_billed_units :: int
  fi_error_code :: "string option"
  fi_assets :: "archived_asset list"
  fi_staged_assets :: "staged_assets option"

definition terminal_status_of :: "string \<Rightarrow> job_status option" where
  "terminal_status_of s = (if s = ''succeeded'' then Some Succeeded else if s = ''failed'' then Some Failed
     else if s = ''cancelled'' then Some Cancelled else None)"

definition is_allowed_generation_error_code :: "string \<Rightarrow> bool" where
  "is_allowed_generation_error_code c \<longleftrightarrow> c \<in> set
     [''retry_exhausted'', ''generation_timeout'', ''generation_rejected'', ''submission_outcome_unknown'',
      ''generation_staging_lost'', ''generation_asset_bytes_exceeded'', ''generation_asset_unavailable'',
      ''upstream_usage_exceeds_contract'', ''seedance_generation_failed'', ''seedance_missing_asset'',
      ''seedance_invalid_asset'', ''comfyui_failed'', ''comfyui_execution_error'', ''comfyui_missing_assets'',
      ''comfyui_asset_limit_exceeded'', ''siliconflow_video_failed'', ''siliconflow_video_missing_asset'',
      ''siliconflow_video_asset_limit_exceeded'', ''siliconflow_video_invalid_asset'', ''wasu_wan_generation_failed'',
      ''tkmarket_video_generation_failed'', ''tkmarket_video_invalid_terminal'', ''wasu_wan_invalid_usage'',
      ''wasu_wan_missing_asset'', ''wasu_wan_invalid_asset'', ''cancelled_by_user'']"

fun any_pair :: "('a \<Rightarrow> 'a \<Rightarrow> bool) \<Rightarrow> 'a list \<Rightarrow> bool" where
  "any_pair P [] = False"
| "any_pair P (x # xs) = (list_ex (P x) xs \<or> any_pair P xs)"

definition archived_asset_invalid :: "archived_asset \<Rightarrow> bool" where
  "archived_asset_invalid a \<longleftrightarrow> aa_index a < 0 \<or> trim (aa_object_locator a) = [] \<or> trim (aa_mime_type a) = [] \<or>
     aa_size_bytes a \<le> 0 \<or> trim (aa_filename a) = []"

definition provider_asset_invalid :: "provider_asset \<Rightarrow> bool" where
  "provider_asset_invalid a \<longleftrightarrow> pa_index a < 0 \<or> trim (pa_url a) = [] \<or> 16 * 1024 < length (pa_url a) \<or>
     trim (pa_mime_type a) = [] \<or> 255 < length (pa_mime_type a) \<or> trim (pa_filename a) = [] \<or> 255 < length (pa_filename a) \<or>
     (case pa_expires_at a of None \<Rightarrow> False | Some x \<Rightarrow> x \<le> 0)"

definition validate_success :: "finish_input \<Rightarrow> provider_asset list option \<Rightarrow> unit res" where
  "validate_success f provided =
     rbind (ensure (\<not> (fi_billed_units f \<le> 0 \<or> fi_error_code f \<noteq> None \<or> provided = None \<and> fi_assets f = [] \<or>
         provided \<noteq> None \<and> (fi_assets f \<noteq> [] \<or> fi_staged_assets f \<noteq> None \<or> provided = Some [])))
       (BadRequest ''a successful generation requires billed units and one delivery source'')) (\<lambda>_.
     rbind (ensure (\<not> list_ex archived_asset_invalid (fi_assets f))
       (BadRequest ''a successful generation contains an invalid archived asset'')) (\<lambda>_.
     rbind (ensure (\<not> any_pair (\<lambda>a b. aa_asset_id b = aa_asset_id a \<or> aa_index b = aa_index a) (fi_assets f))
       (BadRequest ''a successful generation contains duplicate archived assets'')) (\<lambda>_.
     rbind (ensure (\<not> (case fi_staged_assets f of None \<Rightarrow> False
         | Some st \<Rightarrow> sa_billed_units st \<noteq> fi_billed_units f \<or> sa_assets st \<noteq> fi_assets f))
       (BadRequest ''a successful generation must match its staged asset manifest'')) (\<lambda>_.
     ensure (\<not> (case provided of None \<Rightarrow> False
         | Some as \<Rightarrow> list_ex provider_asset_invalid as \<or>
             any_pair (\<lambda>a b. pa_asset_id b = pa_asset_id a \<or> pa_index b = pa_index a) as))
       (BadRequest ''a successful generation contains an invalid provider asset reference'')))))"

definition validate_failure :: "finish_input \<Rightarrow> unit res" where
  "validate_failure f =
     ensure (\<not> (\<not> (fi_error_code f = Some ''upstream_usage_exceeds_contract'' \<and> 0 < fi_billed_units f) \<and> fi_billed_units f \<noteq> 0 \<or>
         fi_assets f \<noteq> [] \<or> \<not> (case fi_error_code f of None \<Rightarrow> False | Some c \<Rightarrow> is_allowed_generation_error_code c)))
       (BadRequest ''a failed generation requires a fixed error code and valid billing units'')"

definition validate_finish :: "finish_input \<Rightarrow> provider_asset list option \<Rightarrow> job_status res" where
  "validate_finish f provided =
     rbind (ok_or (terminal_status_of (fi_status f)) (BadRequest ''invalid terminal generation status'')) (\<lambda>st.
     rbind (if st = Succeeded then validate_success f provided else validate_failure f) (\<lambda>_. Inr st))"

text \<open>How many results the driver of a job may deliver, and of which type.\<close>

definition delivery_ok :: "string \<Rightarrow> archived_asset list \<Rightarrow> provider_asset list option \<Rightarrow> bool" where
  "delivery_ok driver assets provided =
     (let count = (case provided of None \<Rightarrow> length assets | Some as \<Rightarrow> length as);
          one_video = count = 1 \<and> (provided = None \<longrightarrow> take 6 (aa_mime_type (hd assets)) = ''video/'')
      in if driver = ''volcengine-seedance'' then one_video
         else if driver = ''comfyui'' then 1 \<le> count \<and> count \<le> 16
         else if driver = ''http-json'' then one_video else False)"

definition asset_view_json :: "asset_view \<Rightarrow> json" where
  "asset_view_json v = jobject [(''asset_id'', JStr (av_asset_id v)), (''index'', JInt (av_index v)),
     (''mime_type'', JStr (av_mime_type v)), (''size_bytes'', JInt (av_size_bytes v)), (''filename'', JStr (av_filename v))]"

definition PROVIDER_REFERENCE_PREFIX :: string where
  "PROVIDER_REFERENCE_PREFIX = ''provider-reference-json:''"

definition seal_provider_asset_reference :: "job_env \<Rightarrow> provider_asset list \<Rightarrow> string" where
  "seal_provider_asset_reference e as = PROVIDER_REFERENCE_PREFIX @ je_reference_text e as"

definition open_provider_asset_reference :: "job_env \<Rightarrow> string \<Rightarrow> provider_asset list res" where
  "open_provider_asset_reference e s =
     rbind (ok_or (strip_prefix PROVIDER_REFERENCE_PREFIX s) (internal ''generation_open_provider_asset_reference_1'')) (\<lambda>env.
     ok_or (je_reference_value e env) (internal ''plain_json_decode_1''))"

definition safe_generation_result ::
  "job_env \<Rightarrow> string \<Rightarrow> int \<Rightarrow> archived_asset list \<Rightarrow> provider_asset list option \<Rightarrow> json" where
  "safe_generation_result e driver billed_units assets provided =
     (let provider =
            (if driver = ''volcengine-seedance'' then jobject [(''status'', JStr ''succeeded''), (''duration'', JInt billed_units)]
             else if driver = ''comfyui'' then jobject [(''status'', JStr ''success'')]
             else if driver = ''http-json'' then jobject [(''status'', JStr ''Succeed'')]
             else jobject [(''status'', JStr ''succeeded'')])
      in case provided of
           None \<Rightarrow> jobject [(''provider'', provider), (''assets'', JArr (map (\<lambda>a. asset_view_json
             \<lparr>av_asset_id = aa_asset_id a, av_index = aa_index a, av_mime_type = aa_mime_type a,
              av_size_bytes = aa_size_bytes a, av_filename = aa_filename a\<rparr>) assets))]
         | Some as \<Rightarrow> jobject
             [(''provider'', provider),
              (''assets'', JArr (map (\<lambda>a. asset_view_json
                 \<lparr>av_asset_id = pa_asset_id a, av_index = pa_index a, av_mime_type = pa_mime_type a, av_size_bytes = 0,
                  av_filename = pa_filename a\<rparr>) as)),
              (''asset_expirations'', JArr (map (\<lambda>a. jobject [(''asset_id'', JStr (pa_asset_id a)),
                 (''expires_at'', joption JInt (pa_expires_at a))]) as)),
              (''provider_reference'', JStr (seal_provider_asset_reference e as)),
              (''media_archived'', JBool False)])"

definition provider_generation_result_matches ::
  "job_env \<Rightarrow> json option \<Rightarrow> json option \<Rightarrow> provider_asset list \<Rightarrow> bool res" where
  "provider_generation_result_matches e existing expected provided = (case (existing, expected) of
      (Some v, Some w) \<Rightarrow>
        rbind (ok_or (Option.bind (jget ''provider_reference'' v) as_str)
          (internal ''finish_provider_generation_result_matches_1'')) (\<lambda>reference.
        rbind (ok_or (jget ''provider_reference'' w) (internal ''finish_provider_generation_result_matches_2'')) (\<lambda>_.
        rbind (open_provider_asset_reference e reference) (\<lambda>assets.
        Inr (jremove ''provider_reference'' v = jremove ''provider_reference'' w \<and> assets = provided))))
    | _ \<Rightarrow> Inr False)"

definition carry_receipt :: "json option \<Rightarrow> json option \<Rightarrow> json option" where
  "carry_receipt persisted result = (case persisted of None \<Rightarrow> result
     | Some v \<Rightarrow> if jget ''provider_usage'' v = None then result
         else Some (fold (\<lambda>field r. jset field (jindex v field) r) [''provider_usage'', ''customer_price'']
           (case result of None \<Rightarrow> JObj [] | Some r \<Rightarrow> r)))"

definition receipt_covers :: "json option \<Rightarrow> int \<Rightarrow> bool" where
  "receipt_covers persisted units = (case persisted of None \<Rightarrow> False
     | Some v \<Rightarrow> Option.bind (Option.bind (jget ''provider_usage'' v) (jget ''total_tokens'')) as_i64 = Some units \<and>
         Option.bind (Option.bind (jget ''provider_usage'' v) (jget ''status'')) as_str = Some ''SUCCESS'')"

text \<open>What finishing computes from the row before it writes: charge, result and the stored manifest.\<close>

record finish_plan =
  fp_reservation :: usage_reservation
  fp_usage :: token_usage
  fp_cost :: int
  fp_result :: "json option"
  fp_persisted :: "json option"
  fp_staged :: "staged_assets option"

definition plan_finish ::
  "job_env \<Rightarrow> finish_input \<Rightarrow> provider_asset list option \<Rightarrow> job_status \<Rightarrow> job_row \<Rightarrow> reservation_row \<Rightarrow> finish_plan res" where
  "plan_finish e f provided st j row =
     rbind (parsed (je_manifest_value e) (j_staged_assets_json j) ''finish_site_1'') (\<lambda>staged.
     rbind (ensure (\<not> (j_estimated_units j < fi_billed_units f \<and>
         \<not> (j_billing_unit j = ''million_tokens'' \<and> j_estimated_units j = 0 \<and> rr_mode row = MeteredUnlimited)))
       (BadRequest ''generation billed units exceed the reserved estimate'')) (\<lambda>_.
     rbind (ensure (\<not> (st = Succeeded \<and> \<not> delivery_ok (j_driver j) (fi_assets f) provided))
       (BadRequest ''generation driver returned an invalid number of archived assets'')) (\<lambda>_.
     rbind (unit_price j ''finish_site_2'') (\<lambda>price.
     let reservation = job_reservation (j_reservation_id j) row (j_key_id j) price;
         usage = default_usage\<lparr>tu_output := fi_billed_units f\<rparr> in
     rbind (price_token_usage reservation usage) (\<lambda>cost.
     let result = (if st = Succeeded then Some (safe_generation_result e (j_driver j) (fi_billed_units f) (fi_assets f) provided)
                   else None) in
     rbind (parsed (je_json_value e) (j_result_json j) ''generation_receipt_json'') (\<lambda>persisted.
     rbind (ensure (\<not> (j_billing_unit j = ''million_tokens'' \<and> st = Succeeded \<and> \<not> receipt_covers persisted (fi_billed_units f)))
       (Conflict ''token settlement requires matching supplier usage'')) (\<lambda>_.
     Inr \<lparr>fp_reservation = reservation, fp_usage = usage, fp_cost = cost, fp_result = carry_receipt persisted result,
          fp_persisted = persisted, fp_staged = staged\<rparr>)))))))"

definition finish_replay ::
  "job_env \<Rightarrow> job_db \<Rightarrow> finish_input \<Rightarrow> provider_asset list option \<Rightarrow> job_status \<Rightarrow> job_row \<Rightarrow> reservation_row \<Rightarrow> finish_plan \<Rightarrow>
   (job_db \<times> int) res" where
  "finish_replay e d f provided st j row p =
     rbind (case provided of None \<Rightarrow> Inr (fp_persisted p = fp_result p)
            | Some as \<Rightarrow> provider_generation_result_matches e (fp_persisted p) (fp_result p) as) (\<lambda>exact_result.
     rbind (ensure (j_status j = st \<and> j_billed_units j = Some (fi_billed_units f) \<and> j_cost_micros j = fp_cost p \<and> exact_result \<and>
         j_error_code j = fi_error_code f \<and> (if st = Succeeded then fp_staged p = fi_staged_assets f else fp_staged p = None) \<and>
         rr_status row = Settled \<and> rr_actual_micros row = Some (j_cost_micros j) \<and>
         generation_assets_match (jd_assets d) (fi_job_id f) (fi_assets f))
       (Conflict ''generation job already has a different terminal result'')) (\<lambda>_.
     rbind (publish_generation_settlement d (fi_job_id f)) (\<lambda>d. Inr (d, j_cost_micros j))))"

definition finished_row :: "job_env \<Rightarrow> finish_input \<Rightarrow> job_status \<Rightarrow> int \<Rightarrow> json option \<Rightarrow> int \<Rightarrow> job_row \<Rightarrow> job_row" where
  "finished_row e f st cost result now j = j\<lparr>j_status := st, j_billed_units := Some (fi_billed_units f), j_cost_micros := cost,
     j_result_json := map_option (je_json_text e) result, j_error_code := fi_error_code f, j_completed_at := Some now,
     j_updated_at := now, j_lease_owner := None, j_lease_expires_at := None,
     j_staged_assets_json := (if st = Succeeded then j_staged_assets_json j else None),
     j_request_object := GENERATION_REQUEST_METADATA\<rparr>"

definition finish_assets :: "fresh \<Rightarrow> job_db \<Rightarrow> finish_input \<Rightarrow> provider_asset list option \<Rightarrow> job_status \<Rightarrow> job_db res" where
  "finish_assets fr d f provided st =
     (let i = fi_job_id f; owner = GenerationJob i; clean = (\<lambda>d. d\<lparr>jd_staging :=
          cleanup_archive_staging_purpose (jd_staging d) owner PAssets (fr_clock fr 1)\<rparr>) in
      if st = Succeeded then
        rbind (insert_generation_assets i (fr_now fr) (fi_assets f) (jd_assets d)) (\<lambda>assets.
        let d = d\<lparr>jd_assets := assets\<rparr> in Inr (if provided \<noteq> None then clean d else d))
      else
        let d = d\<lparr>jd_assets := filter (\<lambda>(_, r). ga_job_id r \<noteq> Some i) (jd_assets d)\<rparr> in
        case fi_staged_assets f of
          None \<Rightarrow> Inr (clean d)
        | Some staged \<Rightarrow> rbind (staging_key_new owner PAssets (sa_attempt_nonce staged)) (\<lambda>key.
            Inr (d\<lparr>jd_staging := fst (cleanup_archive_staging_attempt (jd_staging d) key (fr_clock fr 1))\<rparr>)))"

text \<open>What the transaction writes before the event of the end is logged.\<close>

definition finish_writes ::
  "job_env \<Rightarrow> fresh \<Rightarrow> job_db \<Rightarrow> finish_input \<Rightarrow> provider_asset list option \<Rightarrow> job_status \<Rightarrow> job_row \<Rightarrow> finish_plan \<Rightarrow>
   (job_db \<times> int) res" where
  "finish_writes e fr d f provided st j p =
     rbind (ensure (workable (j_status j)) (internal ''finish_site_4'')) (\<lambda>_.
     rbind (ensure (j_lease_owner j = Some (fi_worker_id f)) NotFound) (\<lambda>_.
     rbind (ensure (fp_staged p = fi_staged_assets f) NotFound) (\<lambda>_.
     rbind (settle_job e fr d (fp_reservation p) (fp_usage p)) (\<lambda>(d, cost).
     rbind (ensure (cost = fp_cost p) (Conflict ''generation reservation was settled for a different amount'')) (\<lambda>_.
     let i = fi_job_id f;
         (jobs, updated) = tupdate i
           (\<lambda>j. j_lease_owner j = Some (fi_worker_id f) \<and> workable (j_status j) \<and>
                j_staged_assets_json j = map_option (je_manifest_text e) (fi_staged_assets f))
           (finished_row e f st cost (fp_result p) (fr_now fr)) (jd_jobs d) in
     rbind (ensure updated NotFound) (\<lambda>_.
     rbind (finish_assets fr (d\<lparr>jd_jobs := jobs\<rparr>) f provided st) (\<lambda>d.
     rbind (publish_generation_terminal_effects e (release_request_staging d i (fr_clock fr 2)) i (fr_now fr)) (\<lambda>d.
     Inr (d, cost)))))))))"

definition finish_commit ::
  "job_env \<Rightarrow> fresh \<Rightarrow> job_db \<Rightarrow> finish_input \<Rightarrow> provider_asset list option \<Rightarrow> job_status \<Rightarrow> job_row \<Rightarrow> finish_plan \<Rightarrow>
   (job_db \<times> int) res option" where
  "finish_commit e fr d f provided st j p =
     obind (Some (finish_writes e fr d f provided st j p)) (\<lambda>(d, cost).
     obind (Some (sql_int (fr_now fr - j_created_at j))) (\<lambda>duration.
     obind (post_event e fr d (fr_now fr) (job_event EventFinished (fi_job_id f) j
         (Some (if st = Succeeded then 200 else if st = Cancelled then 499 else 502)) (Some duration) cost (fi_error_code f))) (\<lambda>d.
     Some (Inr (d, cost)))))"

definition finish_generation_job ::
  "job_env \<Rightarrow> fresh \<Rightarrow> job_db \<Rightarrow> finish_input \<Rightarrow> provider_asset list option \<Rightarrow> (job_db \<times> int) res option" where
  "finish_generation_job e fr d f provided =
     obind (Some (validate_finish f provided)) (\<lambda>st.
     obind (Some (ok_or (joined_job d (fi_job_id f)) NotFound)) (\<lambda>(j, row).
     obind (Some (plan_finish e f provided st j row)) (\<lambda>p.
     if terminal (j_status j) then Some (finish_replay e d f provided st j row p)
     else finish_commit e fr d f provided st j p)))"

subsection \<open>Reconciling a job whose delivery is unknown\<close>

definition quarantined :: "job_row \<Rightarrow> bool" where
  "quarantined j \<longleftrightarrow> j_status j = Submitting \<and> j_error_code j = Some delivery_unknown \<and> j_upstream_job_id j = None"

definition is_upstream_id_byte :: "byte \<Rightarrow> bool" where
  "is_upstream_id_byte c \<longleftrightarrow> is_ascii_digit c \<or> is_ascii_lower (ascii_lower c) \<or> c \<in> set ''-_.:''"

definition validate_resolution :: "resolve_input \<Rightarrow> unit res" where
  "validate_resolution r =
     rbind (ensure (\<not> (\<not> valid_digest (ri_expected_revision r) \<or> \<not> valid_digest (ri_evidence_digest r) \<or>
         \<not> valid_digest (ri_idempotency_hash r)))
       (BadRequest ''revision and evidence must be lowercase 64-character digests'')) (\<lambda>_.
     ensure (case ri_upstream_job_id r of None \<Rightarrow> False
         | Some u \<Rightarrow> ri_action r = ''confirmed_submitted'' \<and> u \<noteq> [] \<and> length u \<le> 256 \<and> u \<notin> {''.'', ''..''} \<and> list_all is_upstream_id_byte u)
       (BadRequest ''only confirmed_submitted with a valid upstream ID is supported; unknown or not-submitted delivery must remain quarantined''))"

definition SUPPORTED_SERVICE_SCOPES :: "string list" where
  "SUPPORTED_SERVICE_SCOPES =
     [''credits:read'', ''credits:write'', ''entitlements:read'', ''entitlements:write'', ''filter_assistant:execute'',
      ''generations:quarantine:read'', ''generations:reconcile'', ''generations:write'', ''keys:read'', ''keys:write'',
      ''metrics:read'', ''oauth:write'', ''plugins:read'', ''plugins:write'', ''prices:read'', ''prices:write'',
      ''providers:read'', ''providers:write'', ''requests:read'', ''settlements:adjust'', ''routes:read'', ''routes:write'',
      ''schemas:read'', ''service_tokens:read'', ''service_tokens:write'', ''tenants:read'', ''tenants:write'',
      ''upstreams:import:write'']"

definition validate_service_scopes :: "string list \<Rightarrow> unit res" where
  "validate_service_scopes scopes =
     rbind (ensure (\<not> (scopes = [] \<or> length SUPPORTED_SERVICE_SCOPES < length scopes))
       (BadRequest ''service token must contain a bounded set of supported scopes'')) (\<lambda>_.
     ensure (\<not> (list_ex (\<lambda>s. s \<notin> set SUPPORTED_SERVICE_SCOPES) scopes \<or> \<not> distinct scopes))
       (BadRequest ''service token scopes must be unique supported exact scopes''))"

text \<open>The actor must still be active under the credential it authenticated with, for this tenant.\<close>

definition authorize_resolution :: "job_env \<Rightarrow> job_db \<Rightarrow> resolve_input \<Rightarrow> unit res" where
  "authorize_resolution e d r =
     rbind (ensure (length (filter (\<lambda>(_, t, active). t = ri_tenant_external_id r \<and> active) (jd_tenants d)) = 1) Forbidden) (\<lambda>_.
     rbind (ensure (tget (jd_principals d) (ri_actor_service_id r) = Some (True, ri_actor_credential_generation r)) Forbidden) (\<lambda>_.
     rbind (ok_or (case tget (jd_credentials d) (ri_actor_service_id r, ri_actor_credential_generation r) of
         Some c \<Rightarrow> if sc_revoked_at c = None then Some c else None | None \<Rightarrow> None) Forbidden) (\<lambda>c.
     rbind (ok_or (je_scopes e (sc_scopes_json c)) (internal ''reconcile_resolve_generation_quarantine_2'')) (\<lambda>scopes.
     rbind (case validate_service_scopes scopes of Inl _ \<Rightarrow> Inl Forbidden | Inr u \<Rightarrow> Inr u) (\<lambda>_.
     ensure (\<not> (''generations:reconcile'' \<notin> set scopes \<or> sc_tenant_external_id c \<noteq> Some (ri_tenant_external_id r))) Forbidden)))))"

definition job_revision :: "job_env \<Rightarrow> uuid \<Rightarrow> job_row \<Rightarrow> uuid \<Rightarrow> string" where
  "job_revision e i j nonce = je_revision e (i, nonce, j_attempt_count j, j_updated_at j, j_lease_expires_at j)"

definition resolved_row :: "string option \<Rightarrow> int \<Rightarrow> job_row \<Rightarrow> job_row" where
  "resolved_row upstream_id now j = j\<lparr>j_status := Running, j_upstream_job_id := upstream_id, j_submission_nonce := None,
     j_error_code := None, j_failure_count := 0, j_next_attempt_at := now, j_lease_owner := None, j_lease_expires_at := None,
     j_updated_at := now, j_delivery_confirmed_at := Some now,
     j_reconciliation_deadline_at := Some (sat (now + 24 * 60 * 60 * 1000))\<rparr>"

definition resolution_conflict :: "resolution_row \<Rightarrow> (uuid, resolution_row) table \<Rightarrow> bool" where
  "resolution_conflict r t \<longleftrightarrow> list_ex (\<lambda>(_, x).
     rs_job_id x = rs_job_id r \<and> rs_submission_nonce x = rs_submission_nonce r \<or>
     rs_tenant_id x = rs_tenant_id r \<and> rs_actor_service_id x = rs_actor_service_id r \<and> rs_idempotency_hash x = rs_idempotency_hash r) t"

definition new_resolution :: "int \<Rightarrow> uuid \<Rightarrow> resolve_input \<Rightarrow> quarantine_resolution" where
  "new_resolution now new_id r =
     \<lparr>qr_resolution_id = new_id, qr_job_id = ri_job_id r, qr_tenant_external_id = ri_tenant_external_id r,
      qr_action = ri_action r, qr_upstream_job_id = ri_upstream_job_id r, qr_evidence_digest = ri_evidence_digest r,
      qr_resolved_by_service_id = ri_actor_service_id r, qr_resulting_status = ''running'',
      qr_delivery_confirmed_at = Some now, qr_reconciliation_deadline_at = Some (sat (now + 24 * 60 * 60 * 1000)),
      qr_created_at = now\<rparr>"

definition resolution_row_of :: "job_env \<Rightarrow> int \<Rightarrow> uuid \<Rightarrow> uuid \<Rightarrow> resolve_input \<Rightarrow> quarantine_resolution \<Rightarrow> resolution_row" where
  "resolution_row_of e now tenant nonce r result =
     \<lparr>rs_tenant_id = tenant, rs_job_id = ri_job_id r, rs_submission_nonce = nonce,
      rs_actor_service_id = ri_actor_service_id r, rs_idempotency_hash = ri_idempotency_hash r,
      rs_request_digest = je_request_digest e r, rs_expected_revision = ri_expected_revision r, rs_action = ri_action r,
      rs_evidence_digest = ri_evidence_digest r,
      rs_upstream_job_id = (case ri_upstream_job_id r of None \<Rightarrow> [] | Some u \<Rightarrow> u),
      rs_result_json = je_resolution_text e result, rs_created_at = now,
      rs_actor_credential_generation = ri_actor_credential_generation r\<rparr>"

definition resolve_pending ::
  "job_env \<Rightarrow> int \<Rightarrow> uuid \<Rightarrow> job_db \<Rightarrow> resolve_input \<Rightarrow> job_row \<Rightarrow> (job_db \<times> quarantine_resolution) res" where
  "resolve_pending e now new_id d r j =
     rbind (ensure (quarantined j) (Conflict ''job is not pending quarantine reconciliation'')) (\<lambda>_.
     rbind (ok_or (j_submission_nonce j) (db_error ''column_decode'')) (\<lambda>nonce.
     rbind (ensure (job_revision e (ri_job_id r) j nonce = ri_expected_revision r)
       (Conflict ''quarantine revision changed; read it again'')) (\<lambda>_.
     rbind (ensure (lease_free now j) (Conflict ''the submitting worker still has an active lease'')) (\<lambda>_.
     let result = new_resolution now new_id r; row = resolution_row_of e now (j_tenant_id j) nonce r result in
     rbind (ensure (tget (jd_resolutions d) new_id = None \<and> \<not> resolution_conflict row (jd_resolutions d))
       (Conflict ''submission or Idempotency-Key already resolved'')) (\<lambda>_.
     Inr (d\<lparr>jd_resolutions := tput new_id row (jd_resolutions d),
            jd_jobs := tput (ri_job_id r) (resolved_row (ri_upstream_job_id r) now j) (jd_jobs d)\<rparr>, result))))))"

definition resolve_generation_quarantine ::
  "job_env \<Rightarrow> int \<Rightarrow> uuid \<Rightarrow> job_db \<Rightarrow> resolve_input \<Rightarrow> (job_db \<times> quarantine_resolution) res" where
  "resolve_generation_quarantine e now new_id d r =
     rbind (validate_resolution r) (\<lambda>_.
     rbind (authorize_resolution e d r) (\<lambda>_.
     rbind (ok_or (case tget (jd_jobs d) (ri_job_id r) of None \<Rightarrow> None
         | Some j \<Rightarrow> if map_option fst (tget (jd_tenants d) (j_tenant_id j)) = Some (ri_tenant_external_id r) then Some j else None)
       NotFound) (\<lambda>j.
     case find (\<lambda>(_, x). rs_tenant_id x = j_tenant_id j \<and> rs_actor_service_id x = ri_actor_service_id r \<and>
         rs_idempotency_hash x = ri_idempotency_hash r) (jd_resolutions d) of
       Some (_, x) \<Rightarrow>
         rbind (ensure (rs_request_digest x = je_request_digest e r)
           (Conflict ''Idempotency-Key was used for a different resolution'')) (\<lambda>_.
         rbind (ok_or (je_resolution_value e (rs_result_json x)) (internal ''reconcile_resolve_generation_quarantine_3'')) (\<lambda>v.
         Inr (d, v)))
     | None \<Rightarrow> resolve_pending e now new_id d r j)))"

end
