(* ===== verification/Generation_Lifecycle.thy ===== *)
theory Generation_Lifecycle
  imports Generation_Jobs
begin

text \<open>
  The life of a generation job: the moves of its row as a state machine, how every transaction
  of \<open>Generation_Jobs\<close> is a move, an end or an admission, and what holds in every state these
  transactions reach together with the other users of the accounting tables.
\<close>

subsection \<open>Moves of an open job\<close>

datatype move =
    Takeover | Promote | RequestCancel | Claim | Submit | Arm | Submitted | Retain | Reschedule | Renew | SaveAssets
  | SaveReceipt | Resolve

inductive row_move :: "int \<Rightarrow> move \<Rightarrow> job_row \<Rightarrow> job_row \<Rightarrow> bool" for now where
  takeover: "preparation_expired now j \<Longrightarrow>
    row_move now Takeover j (j\<lparr>j_lease_expires_at := Some x, j_updated_at := now\<rparr>)"
| promote: "attachable k hash t j \<Longrightarrow> row_move now Promote j (promoted_row object t j)"
| request_cancel: "j_status j = Running \<Longrightarrow> row_move now RequestCancel j (cancelling_row now j)"
| claim: "claimable_job now j \<Longrightarrow> row_move now Claim j (leased_row w now j)"
| submit: "j_lease_owner j = Some w \<Longrightarrow> j_status j = Queued \<Longrightarrow> j_upstream_job_id j = None \<Longrightarrow>
    row_move now Submit j (j\<lparr>j_status := Submitting, j_submission_nonce := Some nonce, j_updated_at := now\<rparr>)"
| arm: "j_lease_owner j = Some w \<Longrightarrow> j_status j = Submitting \<Longrightarrow> j_submission_nonce j = Some nonce \<Longrightarrow>
    j_upstream_job_id j = None \<Longrightarrow> row_move now Arm j (j\<lparr>j_error_code := Some delivery_unknown, j_updated_at := now\<rparr>)"
| submitted: "j_lease_owner j = Some w \<Longrightarrow> j_status j = Submitting \<Longrightarrow> j_submission_nonce j = Some nonce \<Longrightarrow>
    row_move now Submitted j (j\<lparr>j_status := Running, j_upstream_job_id := Some u, j_submission_nonce := None, j_failure_count := 0,
      j_error_code := None, j_next_attempt_at := x, j_lease_owner := None, j_lease_expires_at := None, j_updated_at := y\<rparr>)"
| retain: "j_lease_owner j = Some w \<Longrightarrow> quarantined j \<Longrightarrow>
    row_move now Retain j (j\<lparr>j_lease_owner := None, j_lease_expires_at := None, j_updated_at := now\<rparr>)"
| reschedule: "j_lease_owner j = Some w \<Longrightarrow> j_error_code j \<noteq> Some delivery_unknown \<Longrightarrow>
    row_move now Reschedule j (j\<lparr>j_next_attempt_at := x, j_error_code := code, j_failure_count := n, j_lease_owner := None,
      j_lease_expires_at := None, j_updated_at := now\<rparr>)"
| renew: "j_lease_owner j = Some w \<Longrightarrow> workable (j_status j) \<Longrightarrow>
    row_move now Renew j (j\<lparr>j_lease_expires_at := Some x, j_updated_at := now\<rparr>)"
| save_assets: "j_lease_owner j = Some w \<Longrightarrow> j_status j = Running \<Longrightarrow>
    row_move now SaveAssets j (j\<lparr>j_staged_assets_json := Some s, j_updated_at := now\<rparr>)"
| save_receipt: "j_lease_owner j = Some w \<Longrightarrow> j_status j \<in> {Running, Cancelling} \<Longrightarrow> j_result_json j = None \<Longrightarrow>
    row_move now SaveReceipt j (j\<lparr>j_result_json := Some s\<rparr>)"
| resolve: "quarantined j \<Longrightarrow> lease_free now j \<Longrightarrow> row_move now Resolve j (resolved_row u now j)"

fun status_rank :: "job_status \<Rightarrow> nat" where
  "status_rank Preparing = 0"
| "status_rank Queued = 1"
| "status_rank Submitting = 2"
| "status_rank Running = 3"
| "status_rank Cancelling = 4"
| "status_rank _ = 5"

text \<open>What of a row is fixed at admission, and what of it is fixed once the job has ended.\<close>

definition job_identity :: "job_row \<Rightarrow> (uuid \<times> uuid \<times> uuid \<times> uuid option \<times> uuid) \<times> (string \<times> string \<times> string) \<times> (int \<times> string \<times> int) \<times> (string option \<times> string option \<times> int)" where
  "job_identity j = ((j_tenant_id j, j_key_id j, j_reservation_id j, j_model_route_id j, j_upstream_account_id j),
     (j_public_model j, j_upstream_model j, j_driver j), (j_estimated_units j, j_billing_unit j, j_micros_per_unit j),
     (j_idempotency_key j, j_request_hash j, j_created_at j))"

definition job_evolves :: "job_row \<Rightarrow> job_row \<Rightarrow> bool" where
  "job_evolves j j' \<longleftrightarrow> job_identity j' = job_identity j \<and> status_rank (j_status j) \<le> status_rank (j_status j') \<and>
     j_attempt_count j \<le> j_attempt_count j' \<and>
     (status_rank (j_status j) \<ge> 3 \<and> j_upstream_job_id j \<noteq> None \<longrightarrow> j_upstream_job_id j' = j_upstream_job_id j) \<and>
     (terminal (j_status j) \<longrightarrow> j' = j)"

definition quiet_row :: "job_row \<Rightarrow> job_row \<Rightarrow> bool" where
  "quiet_row j j' \<longleftrightarrow> j' = j \<or> \<not> terminal (j_status j) \<and> \<not> terminal (j_status j') \<and> job_evolves j j' \<and>
     j_completed_at j' = j_completed_at j \<and> j_stats_aggregated_at j' = j_stats_aggregated_at j"

interpretation job_rows: row_evolution job_evolves
  by unfold_locales (auto simp: job_evolves_def)

lemmas move_defs = preparation_expired_def attachable_def promoted_row_def cancelling_row_def claimable_job_def leased_row_def
  workable_def quarantined_def resolved_row_def

lemma row_move_fixed:
  assumes "row_move now l j j'"
  shows "job_identity j' = job_identity j \<and> j_attempt_count j \<le> j_attempt_count j' \<and> j_completed_at j' = j_completed_at j \<and>
    j_stats_aggregated_at j' = j_stats_aggregated_at j"
  using assms by (cases rule: row_move.cases) (simp_all add: job_identity_def move_defs)

lemma row_move_status:
  assumes "row_move now l j j'"
  shows "status_rank (j_status j) \<le> status_rank (j_status j') \<and> (terminal (j_status j') \<longrightarrow> terminal (j_status j)) \<and>
    (terminal (j_status j) \<longrightarrow> j_lease_owner j \<noteq> None) \<and>
    (3 \<le> status_rank (j_status j) \<longrightarrow> j_upstream_job_id j' = j_upstream_job_id j)"
  using assms by (cases rule: row_move.cases) (cases "j_status j"; simp add: terminal_def move_defs)+

lemma row_move_quiet:
  assumes "row_move now l j j'" and "terminal (j_status j) \<Longrightarrow> j_lease_owner j = None"
  shows "quiet_row j j'"
  using row_move_fixed [OF assms(1)] row_move_status [OF assms(1)] assms(2) by (auto simp: quiet_row_def job_evolves_def)

text \<open>A lease that has not expired passes to nobody else, and a quarantine ends only by its owner or a resolution.\<close>

lemma row_move_lease:
  assumes "row_move now l j j'" and "j_lease_owner j = Some w" and "\<not> lease_free now j"
  shows "j_lease_owner j' = Some w \<or> j_lease_owner j' = None"
  using assms by (induction rule: row_move.induct) (auto simp: move_defs)

lemma row_move_quarantine:
  assumes "row_move now l j j'" and "quarantined j" and "j_lease_owner j = None"
  shows "l = Resolve"
  using assms by (induction rule: row_move.induct) (auto simp: move_defs)

subsection \<open>Transactions that move a job\<close>

definition untouched :: "job_db \<Rightarrow> job_db \<Rightarrow> bool" where
  "untouched d d' \<longleftrightarrow> jd_billing d' = jd_billing d \<and> jd_feed d' = jd_feed d \<and> jd_facts d' = jd_facts d \<and> jd_rollups d' = jd_rollups d"

text \<open>A resolution leaves a record of the submission it decided on.\<close>

definition recorded :: "move \<Rightarrow> uuid \<Rightarrow> job_row \<Rightarrow> job_db \<Rightarrow> job_db \<Rightarrow> bool" where
  "recorded l i j d d' \<longleftrightarrow> (if l = Resolve
     then \<exists>s x. tget (jd_resolutions d) s = None \<and> jd_resolutions d' = tput s x (jd_resolutions d) \<and> rs_job_id x = i \<and>
       j_submission_nonce j = Some (rs_submission_nonce x)
     else jd_resolutions d' = jd_resolutions d)"

definition moved :: "int \<Rightarrow> job_db \<Rightarrow> job_db \<Rightarrow> bool" where
  "moved now d d' \<longleftrightarrow> untouched d d' \<and>
     (jd_jobs d' = jd_jobs d \<and> jd_resolutions d' = jd_resolutions d \<or>
      (\<exists>l i j j'. tget (jd_jobs d) i = Some j \<and> row_move now l j j' \<and> jd_jobs d' = tput i j' (jd_jobs d) \<and> recorded l i j d d'))"

lemma moved_still: "untouched d d' \<Longrightarrow> jd_jobs d' = jd_jobs d \<Longrightarrow> jd_resolutions d' = jd_resolutions d \<Longrightarrow> moved now d d'"
  by (simp add: moved_def)

lemma moved_row:
  "untouched d d' \<Longrightarrow> tget (jd_jobs d) i = Some j \<Longrightarrow> row_move now l j j' \<Longrightarrow> jd_jobs d' = tput i j' (jd_jobs d) \<Longrightarrow>
     recorded l i j d d' \<Longrightarrow> moved now d d'"
  unfolding moved_def by blast

lemma update_claimed_moved:
  assumes "generation_update_claimed d i P f = Inr d'"
    and "\<And>j. P j \<Longrightarrow> row_move now l j (f j)" and "l \<noteq> Resolve"
  shows "moved now d d'"
proof -
  obtain j where j: "tget (jd_jobs d) i = Some j" "P j" "d' = d\<lparr>jd_jobs := tput i (f j) (jd_jobs d)\<rparr>"
    using assms(1) by (auto simp: generation_update_claimed_def tupdate_def split: option.splits if_splits)
  show ?thesis
    by (rule moved_row [OF _ j(1) assms(2) [OF j(2)]]) (simp_all add: j(3) untouched_def recorded_def assms(3))
qed

lemma mark_submitting_moved: "mark_generation_submitting now d i w nonce = Inr d' \<Longrightarrow> moved now d d'"
  unfolding mark_generation_submitting_def by (erule update_claimed_moved) (auto intro: row_move.submit)

lemma arm_moved: "arm_generation_shutdown_quarantine now d i w nonce = Inr d' \<Longrightarrow> moved now d d'"
  unfolding arm_generation_shutdown_quarantine_def by (erule update_claimed_moved) (auto intro: row_move.arm)

lemma mark_submitted_moved: "mark_generation_submitted now now' d i w nonce u = Inr d' \<Longrightarrow> moved now d d'"
  unfolding mark_generation_submitted_def by (erule update_claimed_moved) (auto intro: row_move.submitted)

lemma renew_moved: "renew_generation_lease now d i w = Inr d' \<Longrightarrow> moved now d d'"
  unfolding renew_generation_lease_def by (erule update_claimed_moved) (auto intro: row_move.renew)

lemma reschedule_moved:
  assumes "reschedule_generation_job now d i w delay code = Inr d'"
  shows "moved now d d'"
proof -
  have "generation_update_claimed d i (\<lambda>j. j_lease_owner j = Some w \<and> j_error_code j \<noteq> Some delivery_unknown)
      (\<lambda>j. j\<lparr>j_next_attempt_at := sat (now + max delay 500), j_error_code := code,
         j_failure_count := if code = None then 0 else j_failure_count j + 1, j_lease_owner := None, j_lease_expires_at := None,
         j_updated_at := now\<rparr>) = Inr d'"
    using assms by (auto simp: reschedule_generation_job_def Let_def rbind_Inr_iff)
  then show ?thesis by (rule update_claimed_moved) (auto intro: row_move.reschedule)
qed

lemma retain_moved:
  assumes "retain_generation_delivery_unknown now d i w = (d', b)"
  shows "moved now d d'"
proof (cases "\<exists>j. tget (jd_jobs d) i = Some j \<and> j_lease_owner j = Some w \<and> quarantined j")
  case True
  then obtain j where j: "tget (jd_jobs d) i = Some j" "j_lease_owner j = Some w" "quarantined j" by blast
  then have d': "d' = d\<lparr>jd_jobs := tput i (j\<lparr>j_lease_owner := None, j_lease_expires_at := None, j_updated_at := now\<rparr>) (jd_jobs d)\<rparr>"
    using assms by (auto simp: retain_generation_delivery_unknown_def tupdate_def quarantined_def)
  show ?thesis by (rule moved_row [OF _ j(1) row_move.retain [OF j(2,3)]]) (simp_all add: d' untouched_def recorded_def)
next
  case False
  then have "jd_jobs d' = jd_jobs d \<and> untouched d d' \<and> jd_resolutions d' = jd_resolutions d"
    using assms by (auto simp: retain_generation_delivery_unknown_def tupdate_def quarantined_def untouched_def
        split: option.splits if_splits)
  then show ?thesis by (simp add: moved_still)
qed

lemma sort_key_head: "sort_key f xs = y # ys \<Longrightarrow> y \<in> set xs"
  by (metis list.set_intros(1) set_sort)

lemma claim_candidate_row:
  assumes "claim_candidate d now locked = Some (i, j)" and "wf_table (jd_jobs d)"
  shows "tget (jd_jobs d) i = Some j \<and> claimable_job now j \<and> j_next_attempt_at j \<le> now"
proof -
  obtain ys where "sort_key (\<lambda>(i, j). (j_next_attempt_at j, j_created_at j, i))
       (filter (\<lambda>(i, j). claimable_job now j \<and> j_next_attempt_at j \<le> now \<and> \<not> locked i) (jd_jobs d)) = (i, j) # ys"
    using assms(1) by (auto simp: claim_candidate_def split: list.splits)
  from sort_key_head [OF this] show ?thesis using assms(2) by (simp add: tget_def wf_table_def)
qed

lemma claim_moved:
  assumes "claim_generation_job e now locked d w = Inr (d', r)" and "wf_table (jd_jobs d)"
  shows "moved now d d'"
proof (cases "claim_candidate d now locked")
  case None
  then show ?thesis using assms(1) by (simp add: claim_generation_job_def moved_def untouched_def)
next
  case (Some x)
  obtain i j where x: "x = (i, j)" by force
  note c = claim_candidate_row [OF Some [unfolded x] assms(2)]
  then have d': "d' = d\<lparr>jd_jobs := tput i (leased_row w now j) (jd_jobs d)\<rparr>"
    using assms(1) Some x by (auto simp: claim_generation_job_def Let_def rbind_Inr_iff)
  show ?thesis by (rule moved_row [OF _ _ row_move.claim]) (use c in \<open>auto simp: d' untouched_def recorded_def\<close>)
qed

lemma save_assets_moved:
  assumes "save_generation_staged_assets_staged e now now' db_now d i w staged lease = Inr (d', b)"
  shows "moved now d d'"
proof -
  let ?P = "\<lambda>j. j_lease_owner j = Some w \<and> j_status j = Running \<and> j_upstream_job_id j \<noteq> None \<and> j_staged_assets_json j = None"
  show ?thesis
  proof (cases "\<exists>j. tget (jd_jobs d) i = Some j \<and> ?P j")
    case True
    then obtain j where j: "tget (jd_jobs d) i = Some j" "?P j" by blast
    then obtain assets staging where
      "d' = d\<lparr>jd_jobs := tput i (j\<lparr>j_staged_assets_json := Some (je_manifest_text e staged), j_updated_at := now\<rparr>) (jd_jobs d),
         jd_assets := assets, jd_staging := staging\<rparr>"
      using assms by (auto simp: save_generation_staged_assets_staged_def Let_def tupdate_def rbind_Inr_iff)
    then show ?thesis
      by (intro moved_row [OF _ j(1) row_move.save_assets]) (use j(2) in \<open>auto simp: untouched_def recorded_def\<close>)
  next
    case False
    then have "tupdate i ?P f (jd_jobs d) = (jd_jobs d, False)" for f
      by (auto simp: tupdate_def split: option.splits)
    then have "jd_jobs d' = jd_jobs d \<and> untouched d d' \<and> jd_resolutions d' = jd_resolutions d"
      using assms by (auto simp: save_generation_staged_assets_staged_def Let_def rbind_Inr_iff untouched_def split: if_splits)
    then show ?thesis by (simp add: moved_still)
  qed
qed

lemma receipt_moved:
  assumes "record_generation_provider_receipt e d i w r = Inr d'"
  shows "moved now d d'"
proof -
  obtain j where j: "tget (jd_jobs d) i = Some j"
    using assms by (auto simp: record_generation_provider_receipt_def rbind_Inr_iff ok_or_Inr_iff)
  note body = assms [unfolded record_generation_provider_receipt_def Let_def]
  show ?thesis
  proof (cases "j_result_json j")
    case None
    then have o: "j_lease_owner j = Some w" "j_status j \<in> {Running, Cancelling}"
      "d' = d\<lparr>jd_jobs := tput i (j\<lparr>j_result_json := Some (je_json_text e (receipt_evidence r (j_micros_per_unit j)))\<rparr>) (jd_jobs d)\<rparr>"
      using body j by (auto simp: rbind_Inr_iff ok_or_Inr_iff ensure_Inr_iff parsed_def)
    show ?thesis
      by (rule moved_row [OF _ j row_move.save_receipt [OF o(1,2) None]]) (simp_all add: o(3) untouched_def recorded_def)
  next
    case (Some s)
    then have "d' = d"
      using body j by (auto simp: rbind_Inr_iff ok_or_Inr_iff ensure_Inr_iff parsed_def)
    then show ?thesis by (simp add: moved_def untouched_def)
  qed
qed

lemma resolve_moved:
  assumes "resolve_generation_quarantine e now s d r = Inr (d', q)"
  shows "moved now d d'"
proof -
  from assms obtain j where j: "tget (jd_jobs d) (ri_job_id r) = Some j"
    and c: "d' = d \<or> resolve_pending e now s d r j = Inr (d', q)"
    by (auto simp: resolve_generation_quarantine_def res_simps split: option.splits if_splits)
  from c show ?thesis
  proof
    assume "d' = d"
    then show ?thesis by (simp add: moved_def untouched_def)
  next
    assume "resolve_pending e now s d r j = Inr (d', q)"
    then obtain nonce where o: "quarantined j" "lease_free now j" "j_submission_nonce j = Some nonce" "tget (jd_resolutions d) s = None"
      "d' = d\<lparr>jd_resolutions := tput s (resolution_row_of e now (j_tenant_id j) nonce r (new_resolution now s r)) (jd_resolutions d),
             jd_jobs := tput (ri_job_id r) (resolved_row (ri_upstream_job_id r) now j) (jd_jobs d)\<rparr>"
      unfolding resolve_pending_def Let_def
      by (auto simp: rbind_Inr_iff ensure_Inr_iff ok_or_Inr_iff)
    have "recorded Resolve (ri_job_id r) j d d'"
      by (auto simp: recorded_def o(3-5) resolution_row_of_def intro!: exI [of _ s])
    then show ?thesis
      by (rule moved_row [OF _ j row_move.resolve [OF o(1,2)], rotated 2]) (simp_all add: o(5) untouched_def)
  qed
qed

text \<open>Attaching the archived request: whatever happens to the connection, the row is promoted at most once.\<close>

definition same_rows :: "job_db \<Rightarrow> job_db \<Rightarrow> bool" where
  "same_rows d d' \<longleftrightarrow> untouched d d' \<and> jd_jobs d' = jd_jobs d \<and> jd_resolutions d' = jd_resolutions d"

lemma same_rows_refl [simp]: "same_rows d d"
  by (simp add: same_rows_def untouched_def)

lemma same_rows_moved: "same_rows d d' \<Longrightarrow> moved now d d'"
  by (simp add: same_rows_def moved_still)

lemma same_rows_trans: "same_rows d d1 \<Longrightarrow> same_rows d1 d2 \<Longrightarrow> same_rows d d2"
  by (simp add: same_rows_def untouched_def)

lemma moved_same_rows: "moved now d d1 \<Longrightarrow> same_rows d1 d2 \<Longrightarrow> moved now d d2"
  unfolding moved_def same_rows_def recorded_def untouched_def by metis

lemma same_rows_then_moved: "same_rows d d1 \<Longrightarrow> moved now d1 d2 \<Longrightarrow> moved now d d2"
  unfolding moved_def same_rows_def recorded_def untouched_def by metis

lemma attach_attempt_commit:
  assumes "attach_attempt d k i hash object lease t db_now ind = AttachCommit d1"
  obtains "same_rows d d1"
  | j where "tget (jd_jobs d) i = Some j" "attachable k hash t j" "jd_jobs d1 = tput i (promoted_row object t j) (jd_jobs d)"
      "untouched d d1" "jd_resolutions d1 = jd_resolutions d"
proof (cases "\<exists>j. tget (jd_jobs d) i = Some j \<and> attachable k hash t j")
  case True
  then obtain j where j: "tget (jd_jobs d) i = Some j" "attachable k hash t j" by blast
  then show thesis using assms
    by (intro that(2) [of j]) (auto simp: attach_attempt_def tupdate_def untouched_def split: sum.splits if_splits)
next
  case False
  then have "tupdate i (attachable k hash t) f (jd_jobs d) = (jd_jobs d, False)" for f
    by (auto simp: tupdate_def split: option.splits)
  then show thesis using assms
    by (intro that(1)) (auto simp: attach_attempt_def same_rows_def untouched_def Let_def split: sum.splits if_splits)
qed

lemma attach_attempts_settled:
  assumes "attach_attempts e cs readable k i hash object lease ind d = (d', r)"
    and "\<And>j. tget (jd_jobs d) i = Some j \<Longrightarrow> j_status j \<noteq> Preparing"
  shows "same_rows d d'"
  using assms
proof (induction cs arbitrary: ind d)
  case (Cons c cs)
  obtain t db_now con where c: "c = (t, db_now, con)" by (cases c)
  have step: "same_rows d d1" if "attach_attempt d k i hash object lease t db_now ind = AttachCommit d1" for d1
    using that Cons.prems(2) by (elim attach_attempt_commit) (auto simp: attachable_def)
  have next_one: "same_rows d d'" if "same_rows d d1" "attach_attempts e cs readable k i hash object lease ind' d1 = (d', r)" for d1 ind'
    by (rule same_rows_trans [OF that(1) Cons.IH [OF that(2)]]) (use Cons.prems(2) that(1) in \<open>simp add: same_rows_def\<close>)
  show ?case
    using Cons.prems(1) step next_one [OF same_rows_refl] next_one
    by (auto simp: c split: connection.splits attach_step.splits if_splits)
qed simp

lemma attach_commit_moved:
  assumes "attach_attempt d k i hash object lease t db_now ind = AttachCommit d1"
  shows "moved now d d1 \<and> (same_rows d d1 \<or> (\<forall>j. tget (jd_jobs d1) i = Some j \<longrightarrow> j_status j \<noteq> Preparing))"
  using assms
proof (cases rule: attach_attempt_commit)
  case 1
  then show ?thesis by (simp add: same_rows_moved)
next
  case (2 j)
  have "moved now d d1"
    by (rule moved_row [OF 2(4,1) row_move.promote [OF 2(2)] 2(3)]) (simp add: recorded_def 2(5))
  then show ?thesis by (simp add: 2(3) tbl_simps promoted_row_def)
qed

lemma attach_attempts_moved:
  assumes "attach_attempts e cs readable k i hash object lease ind d = (d', r)"
  shows "moved now d d'"
  using assms
proof (induction cs arbitrary: ind d)
  case (Cons c cs)
  obtain t db_now con where c: "c = (t, db_now, con)" by (cases c)
  have commit: "moved now d d'"
    if a: "attach_attempt d k i hash object lease t db_now ind = AttachCommit d1"
      and n: "attach_attempts e cs readable k i hash object lease ind' d1 = (d', r)" for d1 ind'
    using attach_commit_moved [OF a] Cons.IH [OF n] attach_attempts_settled [OF n]
    by (auto intro: same_rows_then_moved moved_same_rows)
  show ?case
    using Cons.prems Cons.IH commit attach_commit_moved [of d k i hash object lease t db_now ind]
    by (auto simp: c same_rows_moved split: connection.splits attach_step.splits if_splits)
qed (simp add: same_rows_moved)

lemma attach_moved:
  assumes "attach_generation_job_request_staged e net readable d k i hash object lease = (d', r)"
  shows "moved now d d'"
  using assms
  by (auto simp: attach_generation_job_request_staged_def same_rows_moved simp del: attach_attempts.simps
      split: if_splits intro: attach_attempts_moved)

text \<open>
  An error can hide a queued job: the commit of one attempt was applied but not acknowledged,
  and the next attempt ends with an error that is returned at once.
\<close>

lemma attach_error_after_commit:
  assumes "attach_attempt d k i hash object lease t db_now False = AttachCommit d'"
  shows "attach_attempts e ((t, db_now, LostCommitting True) # (t2, db_now2, RejectedBy x) # cs) readable k i hash object lease False d = (d', Inl x)"
  using assms by simp

lemma replay_start_moved:
  assumes "replay_start e fr d k g i j = Inr (d', r)" and "tget (jd_jobs d) i = Some j"
  shows "moved (fr_now fr) d d'"
proof (cases "preparation_expired (fr_now fr) j")
  case True
  then have d': "d' = release_request_staging (d\<lparr>jd_jobs := tput i
            (j\<lparr>j_lease_expires_at := Some (sat (fr_now fr + GENERATION_PREPARATION_LEASE_MILLIS)), j_updated_at := fr_now fr\<rparr>)
            (jd_jobs d)\<rparr>) i (fr_clock fr 1)"
    using assms(1) by (auto simp: replay_start_def rbind_Inr_iff)
  show ?thesis
    by (rule moved_row [OF _ assms(2) row_move.takeover [OF True]])
       (simp_all add: d' release_request_staging_def untouched_def recorded_def)
next
  case False
  then have "d' = d" using assms(1) by (auto simp: replay_start_def rbind_Inr_iff)
  then show ?thesis by (simp add: same_rows_moved)
qed

subsection \<open>The end of a job\<close>

text \<open>
  What every transaction that ends a job does: it settles the reservation of the job, writes
  the charge and the terminal status into its row, publishes the settlement, counts the job
  and touches nothing else but assets, staging attempts and the event log.
\<close>

definition ended_from :: "int \<Rightarrow> job_row \<Rightarrow> job_row \<Rightarrow> bool" where
  "ended_from m j j' \<longleftrightarrow> terminal (j_status j') \<and> j_cost_micros j' = m \<and> j_completed_at j' \<noteq> None \<and> j_billed_units j' \<noteq> None \<and>
     j_lease_owner j' = None \<and> j_stats_aggregated_at j' = j_stats_aggregated_at j \<and> job_identity j' = job_identity j \<and>
     j_attempt_count j' = j_attempt_count j \<and> j_upstream_job_id j' = j_upstream_job_id j"

definition endable :: "job_row \<Rightarrow> bool" where
  "endable j \<longleftrightarrow> j_status j \<in> {Preparing, Queued} \<or> j_lease_owner j \<noteq> None"

inductive ends :: "job_env \<Rightarrow> int \<Rightarrow> job_db \<Rightarrow> uuid \<Rightarrow> job_db \<Rightarrow> bool" for e now d i where
  ending: "tget (jd_jobs d) i = Some j \<Longrightarrow> \<not> terminal (j_status j) \<Longrightarrow> endable j \<Longrightarrow>
    tget (usage_reservations (jd_billing d)) (j_reservation_id j) = Some row \<Longrightarrow>
    settle_token_usage_with_explicit_charge (je_decimal e) (jd_billing d)
      (job_reservation (j_reservation_id j) row (j_key_id j) price) usage now None lid aid = Inr (b, m) \<Longrightarrow>
    ended_from m j j' \<Longrightarrow>
    publish_generation_terminal_effects e (d\<lparr>jd_billing := b, jd_jobs := tput i j' (jd_jobs d), jd_assets := assets,
      jd_staging := staging\<rparr>) i now = Inr d1 \<Longrightarrow>
    ends e now d i (d1\<lparr>jd_log := lg, jd_staging := staging'\<rparr>)"

text \<open>
  The invariant. The hold of an open job is there and reserved, and nothing was published or
  counted for it. An ended job is settled at its cost; a prepaid one is in the settlement feed,
  and each is counted once.
\<close>

definition open_job :: "job_db \<Rightarrow> uuid \<Rightarrow> job_row \<Rightarrow> bool" where
  "open_job d i j \<longleftrightarrow> \<not> terminal (j_status j) \<and> j_completed_at j = None \<and> j_stats_aggregated_at j = None \<and>
     (\<exists>row. tget (usage_reservations (jd_billing d)) (j_reservation_id j) = Some row \<and> rr_key_id row = j_key_id j \<and> rr_status row = Reserved) \<and>
     tget (jd_facts d) i = None \<and> feed_lookup (jd_feed d) Generation i = None"

definition ended_job :: "job_db \<Rightarrow> uuid \<Rightarrow> job_row \<Rightarrow> bool" where
  "ended_job d i j \<longleftrightarrow> terminal (j_status j) \<and> j_completed_at j \<noteq> None \<and> j_stats_aggregated_at j \<noteq> None \<and> j_lease_owner j = None \<and>
     (\<exists>row. tget (usage_reservations (jd_billing d)) (j_reservation_id j) = Some row \<and> rr_key_id row = j_key_id j \<and>
        rr_status row = Settled \<and> rr_actual_micros row = Some (j_cost_micros j) \<and>
        (rr_mode row = Prepaid \<longrightarrow> (\<exists>s f. tget (feed_rows (jd_feed d)) s = Some f \<and> fe_request_kind f = Generation \<and>
           fe_request_id f = i \<and> fe_account_id f = rr_account_id row \<and> fe_cost f = j_cost_micros j))) \<and>
     (\<exists>f. tget (jd_facts d) i = Some f \<and> sf_cost_micros f = j_cost_micros j \<and> j_billed_units j = Some (sf_billed_units f))"

definition job_inv :: "job_db \<Rightarrow> bool" where
  "job_inv d \<longleftrightarrow> billing_inv (jd_billing d) \<and> feed_inv (jd_feed d) \<and> wf_table (jd_jobs d) \<and>
     (\<forall>i j. tget (jd_jobs d) i = Some j \<longrightarrow> open_job d i j \<or> ended_job d i j) \<and>
     (\<forall>i. tget (jd_jobs d) i = None \<longrightarrow> tget (jd_facts d) i = None \<and> feed_lookup (jd_feed d) Generation i = None) \<and>
     (\<forall>i j i' j'. tget (jd_jobs d) i = Some j \<longrightarrow> tget (jd_jobs d) i' = Some j' \<longrightarrow> j_reservation_id j = j_reservation_id j' \<longrightarrow> i = i') \<and>
     (\<forall>i j i' j'. tget (jd_jobs d) i = Some j \<longrightarrow> tget (jd_jobs d) i' = Some j' \<longrightarrow> j_key_id j = j_key_id j' \<longrightarrow>
        j_idempotency_key j \<noteq> None \<longrightarrow> j_idempotency_key j = j_idempotency_key j' \<longrightarrow> i = i')"

lemma job_invD:
  assumes "job_inv d"
  shows "billing_inv (jd_billing d)" and "feed_inv (jd_feed d)" and "wf_table (jd_jobs d)"
    and "tget (jd_jobs d) i = Some j \<Longrightarrow> open_job d i j \<or> ended_job d i j"
    and "tget (jd_jobs d) i = None \<Longrightarrow> tget (jd_facts d) i = None \<and> feed_lookup (jd_feed d) Generation i = None"
    and "tget (jd_jobs d) i = Some j \<Longrightarrow> tget (jd_jobs d) i' = Some j' \<Longrightarrow> j_reservation_id j = j_reservation_id j' \<Longrightarrow> i = i'"
    and "tget (jd_jobs d) i = Some j \<Longrightarrow> tget (jd_jobs d) i' = Some j' \<Longrightarrow> j_key_id j = j_key_id j' \<Longrightarrow>
      j_idempotency_key j = Some ik \<Longrightarrow> j_idempotency_key j' = Some ik \<Longrightarrow> i = i'"
  using assms unfolding job_inv_def by (blast | metis option.distinct(1))+

lemma open_not_ended: "open_job d i j \<Longrightarrow> \<not> ended_job d i j"
  by (simp add: open_job_def ended_job_def)

lemma inv_open: "job_inv d \<Longrightarrow> tget (jd_jobs d) i = Some j \<Longrightarrow> \<not> terminal (j_status j) \<Longrightarrow> open_job d i j"
  using job_invD(4) by (fastforce simp: ended_job_def)

lemma inv_ended: "job_inv d \<Longrightarrow> tget (jd_jobs d) i = Some j \<Longrightarrow> terminal (j_status j) \<Longrightarrow> ended_job d i j"
  using job_invD(4) by (fastforce simp: open_job_def)

lemma job_identity_eq:
  assumes "job_identity j' = job_identity j"
  shows "j_reservation_id j' = j_reservation_id j" "j_key_id j' = j_key_id j" "j_idempotency_key j' = j_idempotency_key j"
  using assms by (simp_all add: job_identity_def)

lemma job_invI:
  assumes "billing_inv (jd_billing d)" and "feed_inv (jd_feed d)" and "wf_table (jd_jobs d)"
    and "\<And>i j. tget (jd_jobs d) i = Some j \<Longrightarrow> open_job d i j \<or> ended_job d i j"
    and "\<And>i. tget (jd_jobs d) i = None \<Longrightarrow> tget (jd_facts d) i = None \<and> feed_lookup (jd_feed d) Generation i = None"
    and "\<And>i j i' j'. tget (jd_jobs d) i = Some j \<Longrightarrow> tget (jd_jobs d) i' = Some j' \<Longrightarrow> j_reservation_id j = j_reservation_id j' \<Longrightarrow> i = i'"
    and "\<And>i j i' j' ik. tget (jd_jobs d) i = Some j \<Longrightarrow> tget (jd_jobs d) i' = Some j' \<Longrightarrow> j_key_id j = j_key_id j' \<Longrightarrow>
      j_idempotency_key j = Some ik \<Longrightarrow> j_idempotency_key j' = Some ik \<Longrightarrow> i = i'"
  shows "job_inv d"
proof -
  have "i = i'" if r: "tget (jd_jobs d) i = Some j" "tget (jd_jobs d) i' = Some j'" "j_key_id j = j_key_id j'"
      "j_idempotency_key j \<noteq> None" "j_idempotency_key j = j_idempotency_key j'" for i j i' j'
  proof -
    obtain ik where "j_idempotency_key j = Some ik" using r(4) by blast
    then show ?thesis using r(5) by (intro assms(7) [OF r(1-3)]) simp_all
  qed
  then show ?thesis unfolding job_inv_def using assms(1-6) by blast
qed

lemma job_inv_intro:
  assumes inv: "job_inv d" and "billing_inv (jd_billing d')" and "feed_inv (jd_feed d')" and "wf_table (jd_jobs d')"
    and rows: "\<And>i j'. tget (jd_jobs d') i = Some j' \<Longrightarrow>
      (\<exists>j. tget (jd_jobs d) i = Some j \<and> job_identity j' = job_identity j) \<and> (open_job d' i j' \<or> ended_job d' i j')"
    and none: "\<And>i. tget (jd_jobs d') i = None \<Longrightarrow> tget (jd_facts d') i = None \<and> feed_lookup (jd_feed d') Generation i = None"
  shows "job_inv d'"
proof -
  have old: "\<exists>j. tget (jd_jobs d) i = Some j \<and> j_reservation_id j' = j_reservation_id j \<and> j_key_id j' = j_key_id j \<and>
      j_idempotency_key j' = j_idempotency_key j" if "tget (jd_jobs d') i = Some j'" for i j'
    using rows [OF that] job_identity_eq by blast
  have "i = i'" if r: "tget (jd_jobs d') i = Some j" "tget (jd_jobs d') i' = Some j'" "j_reservation_id j = j_reservation_id j'" for i j i' j'
  proof -
    obtain k k' where k: "tget (jd_jobs d) i = Some k" "j_reservation_id j = j_reservation_id k"
      "tget (jd_jobs d) i' = Some k'" "j_reservation_id j' = j_reservation_id k'" using old [OF r(1)] old [OF r(2)] by blast
    show ?thesis by (rule job_invD(6) [OF inv k(1,3)]) (use k r(3) in simp)
  qed
  moreover have "i = i'" if r: "tget (jd_jobs d') i = Some j" "tget (jd_jobs d') i' = Some j'" "j_key_id j = j_key_id j'"
      "j_idempotency_key j = Some ik" "j_idempotency_key j' = Some ik" for i j i' j' ik
  proof -
    obtain k k' where k: "tget (jd_jobs d) i = Some k" "j_key_id j = j_key_id k" "j_idempotency_key j = j_idempotency_key k"
      "tget (jd_jobs d) i' = Some k'" "j_key_id j' = j_key_id k'" "j_idempotency_key j' = j_idempotency_key k'"
      using old [OF r(1)] old [OF r(2)] by blast
    then show ?thesis by (intro job_invD(7) [OF inv k(1,4), of ik]) (use k r(3-5) in simp_all)
  qed
  ultimately show ?thesis using assms(2-4) rows none by (intro job_invI) blast+
qed

lemma quiet_identity: "quiet_row j j' \<Longrightarrow> job_identity j' = job_identity j"
  by (auto simp: quiet_row_def job_evolves_def)

lemma quiet_evolves: "quiet_row j j' \<Longrightarrow> job_evolves j j'"
  by (auto simp: quiet_row_def job_rows.evolves_refl)

lemma quiet_open:
  assumes "untouched d d'" and "quiet_row j j'" and "open_job d i j"
  shows "open_job d' i j'"
  using assms(1,3) job_identity_eq [OF quiet_identity [OF assms(2)]] assms(2)
  by (auto simp: open_job_def untouched_def quiet_row_def)

lemma untouched_ended: "untouched d d' \<Longrightarrow> ended_job d i j \<Longrightarrow> ended_job d' i j"
  by (simp add: ended_job_def untouched_def)

lemma quiet_ended: "quiet_row j j' \<Longrightarrow> ended_job d i j \<Longrightarrow> j' = j"
  by (auto simp: quiet_row_def ended_job_def)

lemma moved_rows:
  assumes "moved now d d'" and "job_inv d"
  shows "rows_change quiet_row (jd_jobs d) (jd_jobs d')"
proof -
  have refl: "rows_change quiet_row (jd_jobs d) (jd_jobs d)" by (auto simp: rows_change_def rows_evolve_def quiet_row_def)
  have "rows_change quiet_row (jd_jobs d) (tput i j' (jd_jobs d))"
    if "tget (jd_jobs d) i = Some j" "row_move now l j j'" for l i j j'
  proof -
    have "terminal (j_status j) \<Longrightarrow> j_lease_owner j = None" using inv_ended [OF assms(2) that(1)] by (simp add: ended_job_def)
    from row_move_quiet [OF that(2) this] show ?thesis
      using that(1) by (auto simp: rows_change_def rows_evolve_def tget_tput quiet_row_def)
  qed
  then show ?thesis using assms(1) refl unfolding moved_def by auto
qed

lemma rows_change_inv:
  assumes "rows_change R t t'" and "tget t' k = Some r'"
  obtains r where "tget t k = Some r" "R r r'"
  using assms unfolding rows_change_def rows_evolve_def by (metis option.exhaust option.inject option.distinct(1))

lemma moved_inv:
  assumes "moved now d d'" and inv: "job_inv d"
  shows "job_inv d'"
proof (rule job_inv_intro [OF inv])
  have u: "untouched d d'" using assms(1) by (simp add: moved_def)
  note ch = moved_rows [OF assms]
  show "billing_inv (jd_billing d')" "feed_inv (jd_feed d')" using u job_invD(1,2) [OF inv] by (simp_all add: untouched_def)
  show "wf_table (jd_jobs d')" using ch job_invD(3) [OF inv] by (simp add: rows_change_def rows_evolve_def)
  fix i
  show "tget (jd_facts d') i = None \<and> feed_lookup (jd_feed d') Generation i = None" if "tget (jd_jobs d') i = None"
  proof -
    have "tget (jd_jobs d) i = None" using ch that unfolding rows_change_def rows_evolve_def by (metis option.exhaust option.distinct(1))
    then show ?thesis using job_invD(5) [OF inv] u by (simp add: untouched_def)
  qed
  fix j'
  assume "tget (jd_jobs d') i = Some j'"
  then obtain j where j: "tget (jd_jobs d) i = Some j" "quiet_row j j'" by (rule rows_change_inv [OF ch])
  then show "(\<exists>j. tget (jd_jobs d) i = Some j \<and> job_identity j' = job_identity j) \<and> (open_job d' i j' \<or> ended_job d' i j')"
    using job_invD(4) [OF inv j(1)] quiet_identity quiet_open [OF u] quiet_ended untouched_ended [OF u] by metis
qed

lemma moved_evolves: "moved now d d' \<Longrightarrow> job_inv d \<Longrightarrow> rows_evolve job_evolves (jd_jobs d) (jd_jobs d')"
  using moved_rows [of now d d'] quiet_evolves unfolding rows_change_def rows_evolve_def by blast

text \<open>Reaching another job: its hold is on another row, and feed and facts are kept per job.\<close>

lemma feed_lookup_added:
  assumes "feed_lookup fd kind request = None" and "fe_request_kind f \<noteq> kind' \<or> fe_request_id f \<noteq> request'" and "tget (feed_rows fd) s = None"
  shows "feed_lookup (fd\<lparr>feed_rows := tput s f (feed_rows fd), feed_sequences := q\<rparr>) kind' request' = feed_lookup fd kind' request'"
proof -
  have t: "tput s f (feed_rows fd) = feed_rows fd @ [(s, f)]" by (rule tput_fresh [OF assms(3)])
  show ?thesis
  proof (cases "find (\<lambda>(s, f). fe_request_kind f = kind' \<and> fe_request_id f = request') (feed_rows fd)")
    case None
    then show ?thesis using assms(2) by (auto simp: feed_lookup_def t find_None_append)
  next
    case (Some x)
    then show ?thesis by (simp add: feed_lookup_def t find_Some_append)
  qed
qed

lemma job_stays:
  assumes "open_job d i j \<or> ended_job d i j"
    and "tget (usage_reservations (jd_billing d')) (j_reservation_id j) = tget (usage_reservations (jd_billing d)) (j_reservation_id j)"
    and "feed_lookup (jd_feed d') Generation i = feed_lookup (jd_feed d) Generation i"
    and "tget (jd_facts d') i = tget (jd_facts d) i" and "feed_grows (jd_feed d) (jd_feed d')"
  shows "open_job d' i j \<or> ended_job d' i j"
  using assms(1)
proof
  assume "open_job d i j"
  then show ?thesis using assms(2-4) by (simp add: open_job_def)
next
  have keep: "tget (feed_rows (jd_feed d')) s = Some f" if "tget (feed_rows (jd_feed d)) s = Some f" for s f
    using assms(5) that by (simp add: feed_grows_def)
  assume "ended_job d i j"
  then have "ended_job d' i j" unfolding ended_job_def assms(2,4) using keep by blast
  then show ?thesis ..
qed

lemma published_fields:
  "fe_request_kind (published so l n) = so_request_kind so" "fe_request_id (published so l n) = so_request_id so"
  "fe_account_id (published so l n) = so_account_id so" "fe_cost (published so l n) = so_cost so"
  by (simp_all add: published_def)

lemma publish_new:
  assumes "feed_inv fd" and "publish_settlement_row db fd (Some so) = Inr (fd', b)" and "so_usage_basis so = None"
    and "feed_lookup fd (so_request_kind so) (so_request_id so) = None"
  shows "feed_inv fd' \<and> feed_grows fd fd' \<and>
    (so_mode so \<noteq> MeteredUnlimited \<longrightarrow> (\<exists>s f. tget (feed_rows fd') s = Some f \<and> fe_request_kind f = so_request_kind so \<and>
       fe_request_id f = so_request_id so \<and> fe_account_id f = so_account_id so \<and> fe_cost f = so_cost so)) \<and>
    (\<forall>kind r. kind \<noteq> so_request_kind so \<or> r \<noteq> so_request_id so \<longrightarrow> feed_lookup fd' kind r = feed_lookup fd kind r)"
proof (rule publish_cases [OF assms(2)])
  assume "fd' = fd" "\<And>so'. Some so = Some so' \<Longrightarrow> so_mode so' = MeteredUnlimited"
  then show ?thesis using assms(1) by (simp add: feed_grows_def)
next
  fix so' s l
  assume "Some so = Some so'" "feed_lookup fd (so_request_kind so') (so_request_id so') = Some s"
  then show ?thesis using assms(4) by simp
next
  fix so' s l
  let ?f = "published so l (feed_sequence fd (so_account_id so) + 1)"
  assume so: "Some so = Some so'" and c: "0 \<le> so_cost so'" and s: "tget (feed_rows fd) s = None"
    and fd': "fd' = fd\<lparr>feed_rows := tput s (published so' l (feed_sequence fd (so_account_id so') + 1)) (feed_rows fd),
         feed_sequences := tput (so_account_id so') (feed_sequence fd (so_account_id so') + 1) (feed_sequences fd)\<rparr>"
  have "feed_inv fd'" "feed_grows fd fd'"
    using publish_added_inv [OF assms(1) _ _ s assms(4), of fd' l] so c assms(3) fd' by (simp_all add: basis_ok_def)
  moreover have "tget (feed_rows fd') s = Some ?f" using so fd' by (simp add: tbl_simps)
  moreover have "feed_lookup fd' kind r = feed_lookup fd kind r" if k: "kind \<noteq> so_request_kind so \<or> r \<noteq> so_request_id so" for kind r
  proof -
    have "so' = so" using so by simp
    show ?thesis unfolding fd' \<open>so' = so\<close>
      by (rule feed_lookup_added [OF assms(4) _ s]) (use k in \<open>auto simp: published_fields\<close>)
  qed
  ultimately show ?thesis by (intro conjI impI exI [of _ s] exI [of _ ?f]) (simp_all add: published_fields)
qed

lemma effects_parts:
  assumes "publish_generation_terminal_effects e d i now = Inr d'"
  obtains fd b where "publish_settlement_row (jd_billing d) (jd_feed d) (generation_source d i) = Inr (fd, b)"
    "aggregate_terminal_generation_job (je_backend e) (d\<lparr>jd_feed := fd\<rparr>) i now = Inr d'"
  using assms by (auto simp: publish_generation_terminal_effects_def publish_generation_settlement_def rbind_Inr_iff)

text \<open>Publishing for a job that has ended already changes nothing.\<close>

lemma generation_source_row:
  assumes "tget (jd_jobs d) i = Some j" and "tget (usage_reservations (jd_billing d)) (j_reservation_id j) = Some row"
    and "j_completed_at j \<noteq> None"
  obtains so where "generation_source d i = Some so" "so_request_kind so = Generation" "so_request_id so = i"
    "so_account_id so = rr_account_id row" "so_cost so = j_cost_micros j" "so_mode so = rr_mode row" "so_usage_basis so = None"
  using assms by (auto simp: generation_source_def joined_job_def)

lemma publish_known:
  assumes "publish_settlement_row db fd (Some so) = Inr (fd', b)"
    and "so_mode so = MeteredUnlimited \<or> feed_lookup fd (so_request_kind so) (so_request_id so) \<noteq> None"
  shows "fd' = fd"
  by (rule publish_cases [OF assms(1)]) (use assms(2) in auto)

lemma publish_again:
  assumes "feed_inv (jd_feed d)" and "ended_job d i j" and "tget (jd_jobs d) i = Some j"
    and "publish_settlement_row (jd_billing d) (jd_feed d) (generation_source d i) = Inr (fd, b)"
  shows "fd = jd_feed d"
proof -
  obtain row where row: "tget (usage_reservations (jd_billing d)) (j_reservation_id j) = Some row" and c: "j_completed_at j \<noteq> None"
    and feed: "rr_mode row = Prepaid \<longrightarrow> (\<exists>s f. tget (feed_rows (jd_feed d)) s = Some f \<and> fe_request_kind f = Generation \<and> fe_request_id f = i)"
    using assms(2) unfolding ended_job_def by blast
  obtain so where so: "generation_source d i = Some so" "so_request_kind so = Generation" "so_request_id so = i" "so_mode so = rr_mode row"
    by (rule generation_source_row [OF assms(3) row c])
  have "feed_lookup (jd_feed d) Generation i \<noteq> None" if "rr_mode row = Prepaid"
    using feed that feed_lookup_Some [OF assms(1)] by fastforce
  then have "so_mode so = MeteredUnlimited \<or> feed_lookup (jd_feed d) (so_request_kind so) (so_request_id so) \<noteq> None"
    using so(2-4) by (cases "rr_mode row") simp_all
  then show ?thesis by (rule publish_known [OF assms(4) [unfolded so(1)]])
qed

lemma effects_again:
  assumes "job_inv d" and "tget (jd_jobs d) i = Some j" and "terminal (j_status j)"
    and "publish_generation_terminal_effects e d i now = Inr d'"
  shows "d' = d"
proof (rule effects_parts [OF assms(4)])
  fix fd b
  assume p: "publish_settlement_row (jd_billing d) (jd_feed d) (generation_source d i) = Inr (fd, b)"
    and a: "aggregate_terminal_generation_job (je_backend e) (d\<lparr>jd_feed := fd\<rparr>) i now = Inr d'"
  have ended: "ended_job d i j" by (rule inv_ended [OF assms(1-3)])
  have fd: "fd = jd_feed d" by (rule publish_again [OF job_invD(2) [OF assms(1)] ended assms(2) p])
  show ?thesis
    by (rule aggregate_cases [OF a]) (use ended assms(2) fd in \<open>auto simp: ended_job_def\<close>)
qed

lemma job_hold_matches:
  assumes "tget (usage_reservations db) rid = Some row" and "rr_key_id row = k"
  shows "reservation_matches db (job_reservation rid row k price)"
  using assms by (simp add: reservation_matches_def job_reservation_def)

lemma ends_settles:
  assumes "job_inv d" and "tget (jd_jobs d) i = Some j" and "\<not> terminal (j_status j)"
    and "tget (usage_reservations (jd_billing d)) (j_reservation_id j) = Some row"
    and "settle_token_usage_with_explicit_charge dp (jd_billing d) (job_reservation (j_reservation_id j) row (j_key_id j) price) usage now None lid aid = Inr (b, m)"
  obtains row' where "billing_inv b" "only_row (j_reservation_id j) (jd_billing d) b"
    "tget (usage_reservations b) (j_reservation_id j) = Some row'" "rr_status row' = Settled" "rr_actual_micros row' = Some m"
    "rr_key_id row' = j_key_id j" "rr_account_id row' = rr_account_id row" "rr_mode row' = rr_mode row"
proof -
  have k: "rr_key_id row = j_key_id j" using inv_open [OF assms(1-3)] assms(4) by (auto simp: open_job_def)
  let ?r = "job_reservation (j_reservation_id j) row (j_key_id j) price"
  have r: "ur_id ?r = j_reservation_id j" "ur_key_id ?r = j_key_id j" "ur_account_id ?r = rr_account_id row" "ur_mode ?r = rr_mode row"
    by (simp_all add: job_reservation_def)
  note settle = job_invD(1) [OF assms(1)] job_hold_matches [OF assms(4) k] assms(5)
  obtain row' where row': "tget (usage_reservations b) (j_reservation_id j) = Some row'" "rr_status row' = Settled"
    "rr_actual_micros row' = Some m" "rr_key_id row' = j_key_id j" "rr_account_id row' = rr_account_id row" "rr_mode row' = rr_mode row"
    by (rule settled_row [OF settle, unfolded r])
  show thesis
    by (rule that [OF _ _ row']) (use settle_effect [OF settle] settle_rows [OF settle] in \<open>simp_all only: r\<close>)
qed

lemma ends_effect:
  assumes inv: "job_inv d" and "ends e now d i d'"
  obtains j j1 where "tget (jd_jobs d) i = Some j" "\<not> terminal (j_status j)" "endable j" "ended_from (j_cost_micros j1) (j\<lparr>j_stats_aggregated_at := Some now\<rparr>) j1"
    "\<And>i'. tget (jd_jobs d') i' = (if i' = i then Some j1 else tget (jd_jobs d) i')" "wf_table (jd_jobs d')"
    "ended_job d' i j1" "billing_inv (jd_billing d')" "feed_inv (jd_feed d')" "feed_grows (jd_feed d) (jd_feed d')"
    "only_row (j_reservation_id j) (jd_billing d) (jd_billing d')"
    "\<And>i'. i' \<noteq> i \<Longrightarrow> feed_lookup (jd_feed d') Generation i' = feed_lookup (jd_feed d) Generation i'"
    "\<And>i'. i' \<noteq> i \<Longrightarrow> tget (jd_facts d') i' = tget (jd_facts d) i'"
    "rollups_follow d d'" "jd_resolutions d' = jd_resolutions d"
proof -
  obtain j row price usage lid aid b m j' assets staging d1 lg staging' where ending:
    "d' = d1\<lparr>jd_log := lg, jd_staging := staging'\<rparr>"
    "tget (jd_jobs d) i = Some j" "\<not> terminal (j_status j)" "endable j"
    "tget (usage_reservations (jd_billing d)) (j_reservation_id j) = Some row"
    "settle_token_usage_with_explicit_charge (je_decimal e) (jd_billing d)
      (job_reservation (j_reservation_id j) row (j_key_id j) price) usage now None lid aid = Inr (b, m)"
    "ended_from m j j'"
    "publish_generation_terminal_effects e (d\<lparr>jd_billing := b, jd_jobs := tput i j' (jd_jobs d), jd_assets := assets,
      jd_staging := staging\<rparr>) i now = Inr d1"
    using assms(2) by (rule ends.cases)
  let ?d0 = "d\<lparr>jd_billing := b, jd_jobs := tput i j' (jd_jobs d), jd_assets := assets, jd_staging := staging\<rparr>"
  have open_j: "open_job d i j" by (rule inv_open [OF inv ending(2,3)])
  obtain row' where row': "billing_inv b" "only_row (j_reservation_id j) (jd_billing d) b"
    "tget (usage_reservations b) (j_reservation_id j) = Some row'" "rr_status row' = Settled" "rr_actual_micros row' = Some m"
    "rr_key_id row' = j_key_id j" "rr_mode row' = rr_mode row"
    by (rule ends_settles [OF inv ending(2,3,5,6)])
  note j' = ending(7) [unfolded ended_from_def]
  note same = job_identity_eq [of j' j] 
  obtain fd bb where p: "publish_settlement_row b (jd_feed d) (generation_source ?d0 i) = Inr (fd, bb)"
    and a: "aggregate_terminal_generation_job (je_backend e) (?d0\<lparr>jd_feed := fd\<rparr>) i now = Inr d1"
    by (rule effects_parts [OF ending(8)]) auto
  have at: "tget (jd_jobs ?d0) i = Some j'" by (simp add: tbl_simps)
  obtain so where so: "generation_source ?d0 i = Some so" "so_request_kind so = Generation" "so_request_id so = i"
    "so_account_id so = rr_account_id row'" "so_cost so = m" "so_mode so = rr_mode row'" "so_usage_basis so = None"
    by (rule generation_source_row [OF at, of row']) (use row'(3) j' same in auto)
  have none: "feed_lookup (jd_feed d) (so_request_kind so) (so_request_id so) = None"
    using open_j by (simp add: so open_job_def)
  note feed = publish_new [OF job_invD(2) [OF inv] p [unfolded so(1)] so(7) none, unfolded so(2-6)]
  from a obtain f ro where f: "sf_cost_micros f = m" "j_billed_units j' = Some (sf_billed_units f)"
    "d1 = ?d0\<lparr>jd_feed := fd, jd_jobs := tput i (j'\<lparr>j_stats_aggregated_at := Some now\<rparr>) (tput i j' (jd_jobs d)),
       jd_facts := tput i f (jd_facts d), jd_rollups := ro\<rparr>"
  proof (cases rule: aggregate_cases [where n = "the (j_billed_units j')"])
    case idle
    then show thesis using j' open_j by (auto simp: tbl_simps open_job_def)
  next
    case (counted k f ro)
    then show thesis using j' by (intro that [of f ro]) (auto simp: tbl_simps)
  qed
  have follow: "rollups_follow d d'"
    using aggregate_follows [OF a] ending(1) by (simp add: rollups_follow_def)
  let ?j1 = "j'\<lparr>j_stats_aggregated_at := Some now\<rparr>"
  have d': "jd_jobs d' = tput i ?j1 (tput i j' (jd_jobs d))" "jd_billing d' = b" "jd_feed d' = fd"
    "jd_facts d' = tput i f (jd_facts d)" "jd_resolutions d' = jd_resolutions d"
    using ending(1) f(3) by simp_all
  have "ended_job d' i ?j1"
    unfolding ended_job_def d' using row' j' same feed f(1,2) by (auto simp: tbl_simps)
  then show thesis
    using ending(2-4) j' job_invD(3) [OF inv] row'(1,2) feed follow
    by (intro that [of j ?j1]) (auto simp: d' tbl_simps ended_from_def job_identity_def)
qed

lemma ends_inv:
  assumes inv: "job_inv d" and "ends e now d i d'"
  shows "job_inv d'"
proof (rule ends_effect [OF assms])
  fix j j1
  assume j: "tget (jd_jobs d) i = Some j" and j1: "ended_from (j_cost_micros j1) (j\<lparr>j_stats_aggregated_at := Some now\<rparr>) j1"
    and get: "\<And>i'. tget (jd_jobs d') i' = (if i' = i then Some j1 else tget (jd_jobs d) i')" and wf: "wf_table (jd_jobs d')"
    and ended: "ended_job d' i j1" and b: "billing_inv (jd_billing d')" and f: "feed_inv (jd_feed d')"
    and grows: "feed_grows (jd_feed d) (jd_feed d')" and row: "only_row (j_reservation_id j) (jd_billing d) (jd_billing d')"
    and look: "\<And>i'. i' \<noteq> i \<Longrightarrow> feed_lookup (jd_feed d') Generation i' = feed_lookup (jd_feed d) Generation i'"
    and facts: "\<And>i'. i' \<noteq> i \<Longrightarrow> tget (jd_facts d') i' = tget (jd_facts d) i'"
  have identity: "job_identity j1 = job_identity j" using j1 by (simp add: ended_from_def job_identity_def)
  show ?thesis
  proof (rule job_inv_intro [OF inv b f wf])
    fix i' k
    assume k: "tget (jd_jobs d') i' = Some k"
    show "(\<exists>j. tget (jd_jobs d) i' = Some j \<and> job_identity k = job_identity j) \<and> (open_job d' i' k \<or> ended_job d' i' k)"
    proof (cases "i' = i")
      case True
      then show ?thesis using k get j identity ended by simp
    next
      case False
      then have k0: "tget (jd_jobs d) i' = Some k" using k get by simp
      have "j_reservation_id k \<noteq> j_reservation_id j" using job_invD(6) [OF inv k0 j] False by blast
      then show ?thesis
        using k0 job_stays [OF job_invD(4) [OF inv k0] _ look [OF False] facts [OF False] grows] row
        by (simp add: only_row_def)
    qed
  next
    fix i' assume "tget (jd_jobs d') i' = None"
    then have "i' \<noteq> i" "tget (jd_jobs d) i' = None" using get by (auto split: if_splits)
    then show "tget (jd_facts d') i' = None \<and> feed_lookup (jd_feed d') Generation i' = None"
      using job_invD(5) [OF inv] look facts by simp
  qed
qed

lemma ended_from_evolves:
  assumes "ended_from m (j\<lparr>j_stats_aggregated_at := x\<rparr>) j1" and "\<not> terminal (j_status j)"
  shows "job_evolves j j1"
proof -
  have "status_rank (j_status j1) = 5" using assms(1) by (auto simp: ended_from_def terminal_def)
  moreover have "status_rank (j_status j) \<le> 5" by (cases "j_status j") simp_all
  ultimately show ?thesis using assms by (auto simp: job_evolves_def ended_from_def job_identity_def)
qed

text \<open>Releasing the hold of an open job costs nothing.\<close>

lemma price_nothing: "price_token_usage r default_usage = Inr m \<Longrightarrow> m = 0"
  by (auto simp: price_token_usage_def Let_def default_usage_def ok_or_Inr_iff priced_tokens_def checked_def)

lemma release_hold_settles:
  assumes inv: "job_inv d" and "tget (jd_jobs d) i = Some j" and "\<not> terminal (j_status j)"
    and "tget (usage_reservations (jd_billing d)) (j_reservation_id j) = Some row"
    and "release_hold e fr d j row err = Inr d1"
  obtains b where "settle_token_usage_with_explicit_charge (je_decimal e) (jd_billing d)
      (job_reservation (j_reservation_id j) row (j_key_id j) 0) default_usage (fr_now fr) None (fr_ledger fr) (fr_allocations fr) = Inr (b, 0)"
    "d1 = d\<lparr>jd_billing := b\<rparr>"
proof -
  have row: "rr_status row = Reserved" "rr_key_id row = j_key_id j"
    using inv_open [OF inv assms(2,3)] assms(4) by (auto simp: open_job_def)
  let ?r = "job_reservation (j_reservation_id j) row (j_key_id j) 0"
  obtain b m where s: "settle_token_usage_with_explicit_charge (je_decimal e) (jd_billing d) ?r default_usage (fr_now fr) None
      (fr_ledger fr) (fr_allocations fr) = Inr (b, m)" and d1: "d1 = d\<lparr>jd_billing := b\<rparr>"
    using assms(5) row(1)
    by (auto simp: release_hold_def settle_job_def settle_token_usage_in_transaction_def rbind_Inr_iff case_prod_beta)
  have id: "ur_id ?r = j_reservation_id j" by (simp add: job_reservation_def)
  obtain charge where "calculated_charge ?r default_usage None = Inr charge" "0 \<le> m" "m \<le> charge"
    using settle_effect [OF job_invD(1) [OF inv] job_hold_matches [OF assms(4) row(2)] s] assms(4) row(1) by (auto simp: id)
  then have "m = 0" using price_nothing [of ?r charge] by (simp add: calculated_charge_def)
  with s d1 show thesis by (intro that) simp_all
qed

lemma ended_row_from:
  "terminal st \<Longrightarrow> ended_from 0 j (ended_row st code now j)"
  by (simp add: ended_from_def ended_row_def job_identity_def)

lemma post_event_log:
  assumes "post_event e fr d now ev = Some (Inr d')"
  obtains lg where "d' = d\<lparr>jd_log := lg\<rparr>"
  using assms by (auto simp: post_event_def obind_Inr_iff)

lemma joined_job_row:
  assumes "joined_job d i = Some (j, row)"
  shows "tget (jd_jobs d) i = Some j" "tget (usage_reservations (jd_billing d)) (j_reservation_id j) = Some row"
  using assms by (auto simp: joined_job_def bind_eq_Some_conv)

lemma tupdate_hit: "tget t k = Some r \<Longrightarrow> snd (tupdate k P f t) \<Longrightarrow> fst (tupdate k P f t) = tput k (f r) t"
  by (auto simp: tupdate_def split: if_splits)

lemma fail_preparing_ends:
  assumes inv: "job_inv d" and "fail_preparing_generation e fr d i code = Some (Inr (d', b))"
  shows "\<not> b \<and> d' = d \<or> b \<and> ends e (fr_now fr) d i d'"
proof (cases "\<exists>j row. joined_job d i = Some (j, row) \<and> j_status j = Preparing")
  case False
  then show ?thesis using assms(2)
    by (auto simp: fail_preparing_generation_def obind_Inr_iff split: option.splits prod.splits if_splits)
next
  case True
  then obtain j row where jr: "joined_job d i = Some (j, row)" and st: "j_status j = Preparing" by blast
  note j = joined_job_row [OF jr]
  have nt: "\<not> terminal (j_status j)" by (simp add: st terminal_def)
  let ?j' = "ended_row Failed code (fr_now fr) j"
  from assms(2) jr st obtain d1 d2 d3 where
    h: "release_hold e fr d j row (internal ''jobs_fail_preparing_generation_in_transaction_2'') = Inr d1"
    and u: "snd (tupdate i (\<lambda>j. j_status j = Preparing) (ended_row Failed code (fr_now fr)) (jd_jobs d1))"
    and p: "publish_generation_terminal_effects e (d1\<lparr>jd_jobs := fst (tupdate i (\<lambda>j. j_status j = Preparing)
        (ended_row Failed code (fr_now fr)) (jd_jobs d1))\<rparr>) i (fr_now fr) = Inr d2"
    and ev: "post_event e fr d2 (fr_now fr) (ended_event i j 502 (fr_now fr) code) = Some (Inr d3)" and d': "d' = d3" "b"
    by (auto simp: fail_preparing_generation_def obind_Inr_iff ensure_Inr_iff case_prod_beta)
  obtain bl where s: "settle_token_usage_with_explicit_charge (je_decimal e) (jd_billing d)
      (job_reservation (j_reservation_id j) row (j_key_id j) 0) default_usage (fr_now fr) None (fr_ledger fr) (fr_allocations fr) = Inr (bl, 0)"
    and d1: "d1 = d\<lparr>jd_billing := bl\<rparr>"
    by (rule release_hold_settles [OF inv j(1) nt j(2) h])
  note jobs = tupdate_hit [OF _ u, of j, unfolded d1, simplified, OF j(1)]
  obtain lg where lg: "d3 = d2\<lparr>jd_log := lg\<rparr>" by (rule post_event_log [OF ev])
  have "ends e (fr_now fr) d i (d2\<lparr>jd_log := lg, jd_staging := jd_staging d2\<rparr>)"
    by (rule ends.ending [OF j(1) nt _ j(2) s ended_row_from [of Failed], where assets = "jd_assets d" and staging = "jd_staging d"])
       (use p d1 jobs in \<open>simp_all add: terminal_def endable_def st\<close>)
  then show ?thesis using d' lg by simp
qed

lemma cancel_queued_ends:
  assumes inv: "job_inv d" and jr: "joined_job d i = Some (j, row)" and st: "j_status j = Queued"
    and "cancel_queued e fr d i j row = Some (Inr d')"
  shows "ends e (fr_now fr) d i d'"
proof -
  note j = joined_job_row [OF jr]
  have nt: "\<not> terminal (j_status j)" by (simp add: st terminal_def)
  let ?P = "\<lambda>j. j_status j = Queued \<and> (case j_lease_expires_at j of None \<Rightarrow> True | Some x \<Rightarrow> x < fr_now fr)"
  from assms(4) obtain d1 d2 where
    h: "release_hold e fr d j row (BadRequest ''generation job usage has already been settled'') = Inr d1"
    and u: "snd (tupdate i ?P (ended_row Cancelled ''cancelled_by_user'' (fr_now fr)) (jd_jobs d1))"
    and p: "publish_generation_terminal_effects e (release_request_staging (d1\<lparr>jd_jobs :=
        fst (tupdate i ?P (ended_row Cancelled ''cancelled_by_user'' (fr_now fr)) (jd_jobs d1))\<rparr>) i (fr_clock fr 1)) i (fr_now fr) = Inr d2"
    and ev: "post_event e fr d2 (fr_now fr) (ended_event i j 499 (fr_now fr) ''cancelled_by_user'') = Some (Inr d')"
    by (auto simp: cancel_queued_def obind_Inr_iff ensure_Inr_iff case_prod_beta)
  obtain bl where s: "settle_token_usage_with_explicit_charge (je_decimal e) (jd_billing d)
      (job_reservation (j_reservation_id j) row (j_key_id j) 0) default_usage (fr_now fr) None (fr_ledger fr) (fr_allocations fr) = Inr (bl, 0)"
    and d1: "d1 = d\<lparr>jd_billing := bl\<rparr>"
    by (rule release_hold_settles [OF inv j(1) nt j(2) h])
  note jobs = tupdate_hit [OF _ u, of j, unfolded d1, simplified, OF j(1)]
  obtain lg where lg: "d' = d2\<lparr>jd_log := lg\<rparr>" by (rule post_event_log [OF ev])
  have "ends e (fr_now fr) d i (d2\<lparr>jd_log := lg, jd_staging := jd_staging d2\<rparr>)"
    by (rule ends.ending [OF j(1) nt _ j(2) s ended_row_from [of Cancelled], where assets = "jd_assets d"
        and staging = "cleanup_archive_staging_purpose (jd_staging d) (GenerationJob i) PRequest (fr_clock fr 1)"])
       (use p d1 jobs in \<open>simp_all add: terminal_def endable_def st release_request_staging_def\<close>)
  then show ?thesis using lg by simp
qed

lemma finish_assets_frame:
  assumes "finish_assets fr d f provided st = Inr d'"
  shows "d' = d\<lparr>jd_assets := jd_assets d', jd_staging := jd_staging d'\<rparr>"
  using assms by (auto simp: finish_assets_def Let_def rbind_Inr_iff split: if_splits option.splits)

lemma plan_finish_parts:
  assumes "plan_finish e f provided st j row = Inr p"
  obtains price where "fp_reservation p = job_reservation (j_reservation_id j) row (j_key_id j) price" "unit_price j ''finish_site_2'' = Inr price"
    "fp_usage p = default_usage\<lparr>tu_output := fi_billed_units f\<rparr>" "price_token_usage (fp_reservation p) (fp_usage p) = Inr (fp_cost p)"
  using assms by (auto simp: plan_finish_def Let_def rbind_Inr_iff ensure_Inr_iff)

lemma effects_cost:
  assumes "publish_generation_terminal_effects e d i now = Inr d'" and "tget (jd_jobs d) i = Some j"
  shows "\<exists>j'. tget (jd_jobs d') i = Some j' \<and> j_cost_micros j' = j_cost_micros j"
proof (rule effects_parts [OF assms(1)])
  fix fd b
  assume a: "aggregate_terminal_generation_job (je_backend e) (d\<lparr>jd_feed := fd\<rparr>) i now = Inr d'"
  show ?thesis by (rule aggregate_cases [OF a]) (use assms(2) in \<open>auto simp: tbl_simps\<close>)
qed

lemma finish_commit_ends:
  assumes inv: "job_inv d" and jr: "joined_job d (fi_job_id f) = Some (j, row)" and nt: "\<not> terminal (j_status j)" and st: "terminal st"
    and plan: "plan_finish e f provided st j row = Inr p"
    and "finish_commit e fr d f provided st j p = Some (Inr (d', cost))"
  shows "ends e (fr_now fr) d (fi_job_id f) d' \<and> cost = fp_cost p \<and> j_lease_owner j = Some (fi_worker_id f) \<and>
    (\<exists>j'. tget (jd_jobs d') (fi_job_id f) = Some j' \<and> j_cost_micros j' = cost)"
proof -
  note j = joined_job_row [OF jr]
  let ?i = "fi_job_id f"
  let ?P = "\<lambda>j. j_lease_owner j = Some (fi_worker_id f) \<and> workable (j_status j) \<and>
                j_staged_assets_json j = map_option (je_manifest_text e) (fi_staged_assets f)"
  let ?F = "finished_row e f st cost (fp_result p) (fr_now fr)"
  obtain price where r: "fp_reservation p = job_reservation (j_reservation_id j) row (j_key_id j) price" by (rule plan_finish_parts [OF plan])
  from assms(6) obtain d1 d2 d3 dur where
    h: "settle_job e fr d (fp_reservation p) (fp_usage p) = Inr (d1, cost)" and c: "cost = fp_cost p" and o: "j_lease_owner j = Some (fi_worker_id f)"
    and u: "snd (tupdate ?i ?P ?F (jd_jobs d1))"
    and a: "finish_assets fr (d1\<lparr>jd_jobs := fst (tupdate ?i ?P ?F (jd_jobs d1))\<rparr>) f provided st = Inr d2"
    and pe: "publish_generation_terminal_effects e (release_request_staging d2 ?i (fr_clock fr 2)) ?i (fr_now fr) = Inr d3"
    and ev: "post_event e fr d3 (fr_now fr) (job_event EventFinished ?i j
         (Some (if st = Succeeded then 200 else if st = Cancelled then 499 else 502)) (Some dur) cost (fi_error_code f)) = Some (Inr d')"
    unfolding finish_commit_def finish_writes_def Let_def
    by (auto simp: obind_Inr_iff rbind_Inr_iff ensure_Inr_iff case_prod_beta)
  obtain b where s: "settle_token_usage_with_explicit_charge (je_decimal e) (jd_billing d)
      (job_reservation (j_reservation_id j) row (j_key_id j) price) (fp_usage p) (fr_now fr) None (fr_ledger fr) (fr_allocations fr) = Inr (b, cost)"
    and d1: "d1 = d\<lparr>jd_billing := b\<rparr>"
    using h r by (auto simp: settle_job_def settle_token_usage_in_transaction_def rbind_Inr_iff)
  note jobs = tupdate_hit [OF _ u, of j, unfolded d1, simplified, OF j(1)]
  have ended: "ended_from cost j (?F j)" using st by (simp add: ended_from_def finished_row_def job_identity_def)
  have d2: "d2 = d1\<lparr>jd_jobs := tput ?i (?F j) (jd_jobs d), jd_assets := jd_assets d2, jd_staging := jd_staging d2\<rparr>"
    using finish_assets_frame [OF a] jobs d1 by simp
  obtain lg where lg: "d' = d3\<lparr>jd_log := lg\<rparr>" by (rule post_event_log [OF ev])
  have "ends e (fr_now fr) d ?i (d3\<lparr>jd_log := lg, jd_staging := jd_staging d3\<rparr>)"
    by (rule ends.ending [OF j(1) nt _ j(2) s ended, where assets = "jd_assets d2"
        and staging = "cleanup_archive_staging_purpose (jd_staging d2) (GenerationJob ?i) PRequest (fr_clock fr 2)"])
       (use o pe in \<open>simp add: endable_def, subst (asm) d2, simp add: release_request_staging_def d1\<close>)
  moreover have "tget (jd_jobs (release_request_staging d2 ?i (fr_clock fr 2))) ?i = Some (?F j)"
    by (subst d2) (simp add: release_request_staging_def tbl_simps)
  ultimately show ?thesis using effects_cost [OF pe] lg c o by (simp add: finished_row_def)
qed

subsection \<open>Admission\<close>

lemma job_by_key_row:
  assumes "job_by_key d k ik = Some (i, j)" and "wf_table (jd_jobs d)"
  shows "tget (jd_jobs d) i = Some j" "j_key_id j = k" "j_idempotency_key j = Some ik"
proof -
  obtain n where "n < length (jd_jobs d)" "jd_jobs d ! n = (i, j)" "j_key_id j = k \<and> j_idempotency_key j = Some ik"
    using assms(1) by (auto simp: job_by_key_def find_Some_iff)
  moreover from this have "(i, j) \<in> set (jd_jobs d)" by (metis nth_mem)
  ultimately show "tget (jd_jobs d) i = Some j" "j_key_id j = k" "j_idempotency_key j = Some ik"
    using assms(2) by (simp_all add: tget_def wf_table_def)
qed

lemma job_by_key_None:
  assumes "job_by_key d k ik = None" and "tget (jd_jobs d) i = Some j"
  shows "\<not> (j_key_id j = k \<and> j_idempotency_key j = Some ik)"
proof -
  have "(i, j) \<in> set (jd_jobs d)" using assms(2) by (simp add: tget_def map_of_SomeD)
  then show ?thesis using assms(1) by (auto simp: job_by_key_def find_None_iff)
qed

lemma insert_job_Inr:
  assumes "insert_job i j t = Inr t'"
  shows "tget t i = None" "t' = tput i j t" "tget t i' = Some j' \<Longrightarrow> j_reservation_id j' \<noteq> j_reservation_id j"
proof -
  show "tget t i = None" "t' = tput i j t" using assms by (auto simp: insert_job_def res_simps)
  show "j_reservation_id j' \<noteq> j_reservation_id j" if "tget t i' = Some j'"
    using assms tget_in_trows [OF that] by (auto simp: insert_job_def res_simps trows_def list_ex_iff)
qed

lemma start_cases:
  assumes "start_generation_job e fr d s g = Some (Inr (d', r))"
  obtains (replayed) i j g' where "g = Some g'" "job_by_key d (ak_key_id (si_key s)) (gi_key g') = Some (i, j)"
      "replay_start e fr d (ak_key_id (si_key s)) g' i j = Inr (d', r)"
  | (admitted) b h snapshot jobs lg where
      "\<And>g'. g = Some g' \<Longrightarrow> job_by_key d (ak_key_id (si_key s)) (gi_key g') = None"
      "reserve_usage_with_id_in_transaction (je_decimal e) (je_price e) (jd_billing d) (si_key s) (si_reservation_price s) 0
         (si_estimated_units s) (fr_now fr) (fr_reservation fr) = Inr (b, h)"
      "insert_job (si_job_id s) (new_job s g snapshot (ur_id h) (fr_now fr)) (jd_jobs d) = Inr jobs"
      "d' = d\<lparr>jd_billing := b, jd_jobs := jobs, jd_log := lg\<rparr>" "r = JobCreated (new_job_view s (fr_now fr))"
proof (cases "Option.bind g (\<lambda>g. map_option (Pair g) (job_by_key d (ak_key_id (si_key s)) (gi_key g)))")
  case (Some x)
  then obtain g' i j where "x = (g', i, j)" "g = Some g'" "job_by_key d (ak_key_id (si_key s)) (gi_key g') = Some (i, j)"
    by (auto simp: bind_eq_Some_conv)
  then show thesis using assms Some
    by (intro replayed) (auto simp: start_generation_job_def Let_def obind_Inr_iff)
next
  case None
  then have fresh: "\<And>g'. g = Some g' \<Longrightarrow> job_by_key d (ak_key_id (si_key s)) (gi_key g') = None"
    by (auto simp: bind_eq_None_conv)
  then have "\<not> (case g of None \<Rightarrow> False | Some g \<Rightarrow> job_by_key d (ak_key_id (si_key s)) (gi_key g) \<noteq> None)"
    by (auto split: option.splits)
  with assms None obtain snapshot b h jobs d1 where
    a: "reserve_usage_with_id_in_transaction (je_decimal e) (je_price e) (jd_billing d) (si_key s) (si_reservation_price s) 0
         (si_estimated_units s) (fr_now fr) (fr_reservation fr) = Inr (b, h)"
    "insert_job (si_job_id s) (new_job s g snapshot (ur_id h) (fr_now fr)) (jd_jobs d) = Inr jobs"
    and ev: "post_event e fr (d\<lparr>jd_billing := b, jd_jobs := jobs\<rparr>) (fr_now fr)
             (job_event EventStarted (si_job_id s) (new_job s g snapshot (ur_id h) (fr_now fr)) None None 0 None) = Some (Inr d1)"
    and d': "d' = d1" "r = JobCreated (new_job_view s (fr_now fr))"
    by (auto simp: start_generation_job_def Let_def obind_Inr_iff)
  obtain lg where "d1 = d\<lparr>jd_billing := b, jd_jobs := jobs, jd_log := lg\<rparr>" by (rule post_event_log [OF ev])
  then show thesis using fresh a d' by (intro admitted) auto
qed

lemma admission_hold:
  assumes "billing_inv db" and "reserve_usage_with_id_in_transaction dp ser db key price ic oc now rid = Inr (b, h)"
  obtains row where "billing_inv b" "ur_id h = rid" "tget (usage_reservations db) rid = None" "only_row rid db b"
    "tget (usage_reservations b) rid = Some row" "rr_key_id row = ak_key_id key" "rr_status row = Reserved"
proof (rule reserve_usage_effect [OF assms])
  fix snapshot micros tokens
  let ?c = "token_contract price micros tokens snapshot"
  assume c: "reserve_usage_contract_with_id_in_transaction dp db key ?c now rid = Inr (b, h)"
  obtain applied where rows: "usage_reservations b = tput rid (contract_row key ?c now applied) (usage_reservations db)"
    using reserve_contract_rows [OF c] ..
  show thesis
    by (rule that [of "contract_row key ?c now applied"])
       (use reserving.keeps_inv [OF assms(1) TrueI assms(2)] contract_reservation_of [OF c] contract_row_fresh [OF c] rows only_row_tput [OF rows]
        in \<open>simp_all add: contract_reservation_def contract_row_def tbl_simps\<close>)
qed

subsection \<open>What every transaction keeps\<close>

definition advances :: "job_db \<Rightarrow> job_db \<Rightarrow> bool" where
  "advances d d' \<longleftrightarrow> job_inv d' \<and> rows_evolve job_evolves (jd_jobs d) (jd_jobs d') \<and> rollups_follow d d' \<and>
     (\<forall>s x. tget (jd_resolutions d) s = Some x \<longrightarrow> tget (jd_resolutions d') s = Some x)"

text \<open>
  No transaction passes on a lease that has not expired at its clock, and none touches a job
  whose delivery is unknown and which nobody holds, except by a recorded resolution.
\<close>

definition lease_kept :: "int \<Rightarrow> job_db \<Rightarrow> job_db \<Rightarrow> bool" where
  "lease_kept now d d' \<longleftrightarrow> (\<forall>i j j' w. tget (jd_jobs d) i = Some j \<longrightarrow> j_lease_owner j = Some w \<longrightarrow> \<not> lease_free now j \<longrightarrow>
     tget (jd_jobs d') i = Some j' \<longrightarrow> j_lease_owner j' = Some w \<or> j_lease_owner j' = None)"

definition resolved_since :: "job_db \<Rightarrow> job_db \<Rightarrow> uuid \<Rightarrow> job_row \<Rightarrow> bool" where
  "resolved_since d d' i j \<longleftrightarrow> (\<exists>s x. tget (jd_resolutions d) s = None \<and> tget (jd_resolutions d') s = Some x \<and> rs_job_id x = i \<and>
     j_submission_nonce j = Some (rs_submission_nonce x))"

definition quarantine_kept :: "job_db \<Rightarrow> job_db \<Rightarrow> bool" where
  "quarantine_kept d d' \<longleftrightarrow> (\<forall>i j. tget (jd_jobs d) i = Some j \<longrightarrow> quarantined j \<longrightarrow> j_lease_owner j = None \<longrightarrow>
     tget (jd_jobs d') i = Some j \<or> resolved_since d d' i j)"

text \<open>The stronger form for transactions that end jobs or leave them alone, which composes.\<close>

definition closes :: "job_db \<Rightarrow> job_db \<Rightarrow> bool" where
  "closes d d' \<longleftrightarrow> advances d d' \<and>
     (\<forall>i j'. tget (jd_jobs d') i = Some j' \<longrightarrow> tget (jd_jobs d) i = Some j' \<or> j_lease_owner j' = None) \<and>
     (\<forall>i j. tget (jd_jobs d) i = Some j \<longrightarrow> quarantined j \<longrightarrow> j_lease_owner j = None \<longrightarrow> tget (jd_jobs d') i = Some j)"

lemma advances_trans: "advances d d1 \<Longrightarrow> advances d1 d2 \<Longrightarrow> advances d d2"
  unfolding advances_def using job_rows.evolve_trans rollups_follow_trans by blast

lemma closes_trans: "closes d d1 \<Longrightarrow> closes d1 d2 \<Longrightarrow> closes d d2"
  unfolding closes_def using advances_trans [of d d1 d2] by metis

lemma closes_kept: "closes d d' \<Longrightarrow> advances d d' \<and> lease_kept now d d' \<and> quarantine_kept d d'"
  unfolding closes_def lease_kept_def quarantine_kept_def by (metis option.inject)

lemma same_rows_closes:
  assumes "job_inv d" and "same_rows d d'"
  shows "closes d d'"
proof -
  have u: "untouched d d'" "jd_jobs d' = jd_jobs d" "jd_resolutions d' = jd_resolutions d"
    using assms(2) by (simp_all add: same_rows_def)
  have "rollups_follow d d'" using u(1) by (intro rollups_follow_same) (simp_all add: untouched_def)
  then show ?thesis
    using moved_inv [OF same_rows_moved [OF assms(2), of 0] assms(1)] u(2,3)
    by (simp add: closes_def advances_def job_rows.evolve_refl)
qed

lemma moved_kept:
  assumes "moved now d d'" and "job_inv d"
  shows "advances d d' \<and> lease_kept now d d' \<and> quarantine_kept d d'"
proof -
  have u: "untouched d d'" using assms(1) by (simp add: moved_def)
  have follow: "rollups_follow d d'" using u by (intro rollups_follow_same) (simp_all add: untouched_def)
  from assms(1) consider "jd_jobs d' = jd_jobs d" "jd_resolutions d' = jd_resolutions d"
    | l i j j' where "tget (jd_jobs d) i = Some j" "row_move now l j j'" "jd_jobs d' = tput i j' (jd_jobs d)" "recorded l i j d d'"
    unfolding moved_def by blast
  then show ?thesis
  proof cases
    case 1
    then show ?thesis using u by (intro closes_kept same_rows_closes [OF assms(2)]) (simp add: same_rows_def)
  next
    case (2 l i j j')
    have "\<forall>s x. tget (jd_resolutions d) s = Some x \<longrightarrow> tget (jd_resolutions d') s = Some x"
      using 2(4) by (auto simp: recorded_def tbl_simps split: if_splits)
    then have "advances d d'" using moved_inv [OF assms] moved_evolves [OF assms] follow by (simp add: advances_def)
    moreover have "lease_kept now d d'"
      using row_move_lease [OF 2(2)] 2(1) by (auto simp: lease_kept_def 2(3) tbl_simps split: if_splits)
    moreover have "resolved_since d d' i j" if "quarantined j" "j_lease_owner j = None"
    proof -
      have "l = Resolve" by (rule row_move_quarantine [OF 2(2) that])
      then obtain s x where "tget (jd_resolutions d) s = None" "jd_resolutions d' = tput s x (jd_resolutions d)" "rs_job_id x = i"
        "j_submission_nonce j = Some (rs_submission_nonce x)" using 2(4) by (auto simp: recorded_def)
      then show ?thesis unfolding resolved_since_def by (metis tget_tput)
    qed
    then have "quarantine_kept d d'" using 2(1) by (auto simp: quarantine_kept_def 2(3) tbl_simps)
    ultimately show ?thesis by simp
  qed
qed

lemma ends_closes:
  assumes "job_inv d" and "ends e now d i d'"
  shows "closes d d'"
proof (rule ends_effect [OF assms])
  fix j j1
  assume j: "tget (jd_jobs d) i = Some j" "\<not> terminal (j_status j)" "endable j"
    and j1: "ended_from (j_cost_micros j1) (j\<lparr>j_stats_aggregated_at := Some now\<rparr>) j1"
    and get: "\<And>i'. tget (jd_jobs d') i' = (if i' = i then Some j1 else tget (jd_jobs d) i')" and wf: "wf_table (jd_jobs d')"
    and f: "rollups_follow d d'" "jd_resolutions d' = jd_resolutions d"
  have "job_evolves j j1" by (rule ended_from_evolves [OF j1 j(2)])
  then have "rows_evolve job_evolves (jd_jobs d) (jd_jobs d')"
    using wf j(1) by (auto simp: rows_evolve_def get job_rows.evolves_refl)
  then have a: "advances d d'" using ends_inv [OF assms] f by (simp add: advances_def)
  have "j_lease_owner j1 = None" using j1 by (simp add: ended_from_def)
  moreover have "\<not> (quarantined j \<and> j_lease_owner j = None)" using j(3) by (auto simp: endable_def quarantined_def)
  ultimately show ?thesis using a j(1) unfolding closes_def get by (metis option.inject)
qed

lemma admitted_closes:
  assumes inv: "job_inv d" and fresh: "\<And>g'. g = Some g' \<Longrightarrow> job_by_key d (ak_key_id (si_key s)) (gi_key g') = None"
    and r: "reserve_usage_with_id_in_transaction dp ser (jd_billing d) (si_key s) price ic oc now rid = Inr (b, h)"
    and ins: "insert_job i (new_job s g snapshot (ur_id h) now) (jd_jobs d) = Inr jobs"
    and d': "d' = d\<lparr>jd_billing := b, jd_jobs := jobs, jd_log := lg\<rparr>"
  shows "closes d d'"
proof -
  let ?j = "new_job s g snapshot (ur_id h) now"
  obtain row where row: "billing_inv b" "ur_id h = rid" "tget (usage_reservations (jd_billing d)) rid = None" "only_row rid (jd_billing d) b"
    "tget (usage_reservations b) rid = Some row" "rr_key_id row = ak_key_id (si_key s)" "rr_status row = Reserved"
    by (rule admission_hold [OF job_invD(1) [OF inv] r])
  note job = insert_job_Inr [OF ins]
  have get: "tget (jd_jobs d') i' = (if i' = i then Some ?j else tget (jd_jobs d) i')" for i' by (simp add: d' job(2) tbl_simps)
  have new: "open_job d' i ?j"
    using row job_invD(5) [OF inv job(1)] by (simp add: open_job_def d' new_job_def terminal_def)
  have old: "open_job d' i' k \<or> ended_job d' i' k" if k: "tget (jd_jobs d) i' = Some k" for i' k
  proof -
    have "j_reservation_id k \<noteq> rid" using job(3) [OF k] row(2) by (simp add: new_job_def)
    then show ?thesis
      by (intro job_stays [OF job_invD(4) [OF inv k]]) (use row(4) in \<open>simp_all add: d' only_row_def feed_grows_def\<close>)
  qed
  have rows: "open_job d' i' k \<or> ended_job d' i' k" if "tget (jd_jobs d') i' = Some k" for i' k
    using that new old unfolding get by (auto split: if_splits)
  have res: "i1 = i2" if "tget (jd_jobs d') i1 = Some k1" "tget (jd_jobs d') i2 = Some k2" "j_reservation_id k1 = j_reservation_id k2" for i1 k1 i2 k2
    using that job(3) job_invD(6) [OF inv] unfolding get by (metis option.inject)
  have idem: "i1 = i2" if "tget (jd_jobs d') i1 = Some k1" "tget (jd_jobs d') i2 = Some k2" "j_key_id k1 = j_key_id k2"
      "j_idempotency_key k1 = Some ik" "j_idempotency_key k2 = Some ik" for i1 k1 i2 k2 ik
  proof -
    have clash: False if "tget (jd_jobs d) i' = Some k" "j_key_id k = j_key_id ?j" "j_idempotency_key k = Some ik" "j_idempotency_key ?j = Some ik" for i' k
      using job_by_key_None [OF fresh that(1)] that(2-4) by (auto simp: new_job_def)
    show ?thesis using that clash job_invD(7) [OF inv] unfolding get by (metis option.inject)
  qed
  have none: "tget (jd_facts d') i' = None \<and> feed_lookup (jd_feed d') Generation i' = None" if "tget (jd_jobs d') i' = None" for i'
    using that [unfolded get] job_invD(5) [OF inv, of i'] by (simp add: d' split: if_splits)
  have "job_inv d'"
  proof (rule job_invI)
    show "billing_inv (jd_billing d')" "feed_inv (jd_feed d')" "wf_table (jd_jobs d')"
      using row(1) job_invD(2,3) [OF inv] by (simp_all add: d' job(2))
  qed (fact rows none res idem)+
  moreover have "rows_evolve job_evolves (jd_jobs d) (jd_jobs d')" using job_rows.evolve_insert [OF job(1)] by (simp add: d' job(2))
  moreover have "rollups_follow d d'" by (rule rollups_follow_same) (simp_all add: d')
  moreover have "jd_resolutions d' = jd_resolutions d" by (simp add: d')
  ultimately show ?thesis using job(1)
    by (auto simp: closes_def advances_def get new_job_def split: if_splits)
qed

subsection \<open>The transactions\<close>

lemma start_kept:
  assumes "job_inv d" and "start_generation_job e fr d s g = Some (Inr (d', r))"
  shows "advances d d' \<and> lease_kept (fr_now fr) d d' \<and> quarantine_kept d d'"
  using assms(2)
proof (cases rule: start_cases)
  case (replayed i j g')
  have "tget (jd_jobs d) i = Some j" by (rule job_by_key_row [OF replayed(2) job_invD(3) [OF assms(1)]])
  then show ?thesis using replay_start_moved [OF replayed(3)] moved_kept [OF _ assms(1)] by blast
next
  case (admitted b h snapshot jobs lg)
  then show ?thesis by (intro closes_kept admitted_closes [OF assms(1)])
qed

lemma fail_preparing_closes:
  assumes "job_inv d" and "fail_preparing_generation e fr d i code = Some (Inr (d', b))"
  shows "closes d d'"
  using fail_preparing_ends [OF assms] ends_closes [OF assms(1)] same_rows_closes [OF assms(1) same_rows_refl] by blast

lemma closes_inv: "closes d d' \<Longrightarrow> job_inv d'"
  by (simp add: closes_def advances_def)

lemma release_staging_closes: "job_inv d \<Longrightarrow> closes d (release_request_staging d i now)"
  by (rule same_rows_closes) (simp_all add: release_request_staging_def same_rows_def untouched_def)

lemma fail_preparation_closes:
  assumes "job_inv d" and "fail_generation_job_preparation e fr d k i code = Some (Inr (d', v))"
  shows "closes d d'"
proof -
  obtain d1 b where f: "fail_preparing_generation e fr d i code = Some (Inr (d1, b))"
    and d': "d' = release_request_staging d1 i (fr_clock fr 1)"
    using assms(2) by (auto simp: fail_generation_job_preparation_def Let_def obind_Inr_iff case_prod_beta)
  note c = fail_preparing_closes [OF assms(1) f]
  show ?thesis unfolding d' by (rule closes_trans [OF c release_staging_closes [OF closes_inv [OF c]]])
qed

lemma expire_each_closes:
  assumes "job_inv d" and "expire_each e fr is d n = Some (Inr (d', m))"
  shows "closes d d'"
  using assms
proof (induction "is" arbitrary: d n)
  case Nil
  then show ?case using same_rows_closes [OF Nil(1) same_rows_refl] by simp
next
  case (Cons i "is")
  then obtain d1 b where f: "fail_preparing_generation e (fr i) d i ''generation_archive_expired'' = Some (Inr (d1, b))"
    and rest: "(if b then expire_each e fr is (release_request_staging d1 i (fr_clock (fr i) 1)) (Suc n) else expire_each e fr is d1 n) = Some (Inr (d', m))"
    by (auto simp: obind_Inr_iff)
  have c: "closes d d1" by (rule fail_preparing_closes [OF Cons.prems(1) f])
  note c' = closes_trans [OF c release_staging_closes [OF closes_inv [OF c]]]
  show ?case
  proof (cases b)
    case True
    then have "expire_each e fr is (release_request_staging d1 i (fr_clock (fr i) 1)) (Suc n) = Some (Inr (d', m))" using rest by simp
    from closes_trans [OF c' Cons.IH [OF closes_inv [OF c'] this]] show ?thesis .
  next
    case False
    then show ?thesis using rest Cons.IH [OF closes_inv [OF c]] closes_trans [OF c] by auto
  qed
qed

lemma cancel_kept:
  assumes inv: "job_inv d" and "cancel_generation_job e fr d k i = Some (Inr (d', v))"
  shows "advances d d' \<and> lease_kept (fr_now fr) d d' \<and> quarantine_kept d d'"
proof -
  obtain j row where jr: "joined_job d i = Some (j, row)" and k: "j_key_id j = k"
    using assms(2) by (auto simp: cancel_generation_job_def Let_def split: option.splits prod.splits if_splits)
  note j = joined_job_row [OF jr]
  consider "j_status j = Cancelled" | "j_status j = Cancelling" | "j_status j = Running" | "j_status j = Queued"
    using assms(2) jr k by (auto simp: cancel_generation_job_def Let_def split: if_splits)
  then show ?thesis
  proof cases
    case 1
    then have "publish_generation_terminal_effects e d i (fr_now fr) = Inr d'"
      using assms(2) jr k by (auto simp: cancel_generation_job_def Let_def obind_Inr_iff)
    from effects_again [OF inv j(1) _ this] have "d' = d" using 1 by (simp add: terminal_def)
    then show ?thesis using closes_kept [OF same_rows_closes [OF inv same_rows_refl]] by simp
  next
    case 2
    then have "d' = d" using assms(2) jr k by (auto simp: cancel_generation_job_def Let_def)
    then show ?thesis using closes_kept [OF same_rows_closes [OF inv same_rows_refl]] by simp
  next
    case 3
    then have d': "d' = d\<lparr>jd_jobs := tput i (cancelling_row (fr_now fr) j) (jd_jobs d)\<rparr>"
      using assms(2) jr k by (auto simp: cancel_generation_job_def Let_def split: if_splits)
    have "moved (fr_now fr) d d'"
      by (rule moved_row [OF _ j(1) row_move.request_cancel [OF 3]]) (simp_all add: d' untouched_def recorded_def)
    then show ?thesis by (rule moved_kept [OF _ inv])
  next
    case 4
    then have "cancel_queued e fr d i j row = Some (Inr d')"
      using assms(2) jr k by (auto simp: cancel_generation_job_def Let_def obind_Inr_iff)
    from ends_closes [OF inv cancel_queued_ends [OF inv jr 4 this]] show ?thesis by (rule closes_kept)
  qed
qed

lemma validate_finish_terminal: "validate_finish f provided = Inr st \<Longrightarrow> terminal st"
  by (auto simp: validate_finish_def rbind_Inr_iff ok_or_Inr_iff terminal_status_of_def terminal_def split: if_splits)

lemma finish_replay_same:
  assumes "job_inv d" and "tget (jd_jobs d) (fi_job_id f) = Some j" and "terminal (j_status j)"
    and "finish_replay e d f provided st j row p = Inr (d', m)"
  shows "d' = d \<and> m = j_cost_micros j \<and> m = fp_cost p"
proof -
  obtain fd b where p: "publish_settlement_row (jd_billing d) (jd_feed d) (generation_source d (fi_job_id f)) = Inr (fd, b)"
    and d': "d' = d\<lparr>jd_feed := fd\<rparr>" "m = j_cost_micros j" "m = fp_cost p"
    using assms(4) by (auto simp: finish_replay_def publish_generation_settlement_def rbind_Inr_iff ensure_Inr_iff)
  have "fd = jd_feed d" by (rule publish_again [OF job_invD(2) [OF assms(1)] inv_ended [OF assms(1-3)] assms(2) p])
  then show ?thesis using d' by simp
qed

lemma finish_cases:
  assumes inv: "job_inv d" and "finish_generation_job e fr d f provided = Some (Inr (d', m))"
  obtains (again) st j row p where "validate_finish f provided = Inr st" "joined_job d (fi_job_id f) = Some (j, row)"
      "plan_finish e f provided st j row = Inr p" "terminal (j_status j)" "d' = d" "m = j_cost_micros j" "m = fp_cost p"
  | (first) st j row p where "validate_finish f provided = Inr st" "joined_job d (fi_job_id f) = Some (j, row)"
      "plan_finish e f provided st j row = Inr p" "\<not> terminal (j_status j)" "j_lease_owner j = Some (fi_worker_id f)"
      "ends e (fr_now fr) d (fi_job_id f) d'" "m = fp_cost p" "\<And>j'. tget (jd_jobs d') (fi_job_id f) = Some j' \<Longrightarrow> j_cost_micros j' = m"
proof -
  obtain st j row p where a: "validate_finish f provided = Inr st" "joined_job d (fi_job_id f) = Some (j, row)"
    "plan_finish e f provided st j row = Inr p"
    and b: "(if terminal (j_status j) then Some (finish_replay e d f provided st j row p) else finish_commit e fr d f provided st j p) = Some (Inr (d', m))"
    using assms(2) by (auto simp: finish_generation_job_def obind_Inr_iff ok_or_Inr_iff)
  show thesis
  proof (cases "terminal (j_status j)")
    case True
    then show thesis using finish_replay_same [OF inv joined_job_row(1) [OF a(2)] True] b by (intro again [OF a True]) auto
  next
    case False
    then have "finish_commit e fr d f provided st j p = Some (Inr (d', m))" using b by simp
    from finish_commit_ends [OF inv a(2) False validate_finish_terminal [OF a(1)] a(3) this]
    show thesis by (intro first [OF a False]) auto
  qed
qed

lemma finish_closes:
  assumes "job_inv d" and "finish_generation_job e fr d f provided = Some (Inr (d', m))"
  shows "closes d d'"
  by (rule finish_cases [OF assms]) (use same_rows_closes [OF assms(1) same_rows_refl] ends_closes [OF assms(1)] in auto)

subsection \<open>The system\<close>

text \<open>
  One step is a transaction on jobs or a step of the rest of the system: an accounting call that
  does not concern the reservation of a job, the publication of a text settlement, and any
  change to the event log, to staging attempts and to tenants and service credentials.
\<close>

inductive job_step :: "job_env \<Rightarrow> int \<Rightarrow> job_db \<Rightarrow> job_db \<Rightarrow> bool" for e where
  start: "start_generation_job e fr d s g = Some (Inr (d', r)) \<Longrightarrow> job_step e (fr_now fr) d d'"
| attach: "attach_generation_job_request_staged e net readable d k i hash object lease = (d', a) \<Longrightarrow> job_step e now d d'"
| fail: "fail_generation_job_preparation e fr d k i code = Some (Inr (d', v)) \<Longrightarrow> job_step e (fr_now fr) d d'"
| expire: "expire_preparing_generation_jobs e frs d now limit locked = Some (Inr (d', n)) \<Longrightarrow> job_step e now d d'"
| cancel: "cancel_generation_job e fr d k i = Some (Inr (d', v)) \<Longrightarrow> job_step e (fr_now fr) d d'"
| claim: "claim_generation_job e now locked d w = Inr (d', work) \<Longrightarrow> job_step e now d d'"
| submitting: "mark_generation_submitting now d i w nonce = Inr d' \<Longrightarrow> job_step e now d d'"
| arm: "arm_generation_shutdown_quarantine now d i w nonce = Inr d' \<Longrightarrow> job_step e now d d'"
| submitted: "mark_generation_submitted now now' d i w nonce u = Inr d' \<Longrightarrow> job_step e now d d'"
| retain: "retain_generation_delivery_unknown now d i w = (d', held) \<Longrightarrow> job_step e now d d'"
| reschedule: "reschedule_generation_job now d i w delay c = Inr d' \<Longrightarrow> job_step e now d d'"
| renew: "renew_generation_lease now d i w = Inr d' \<Longrightarrow> job_step e now d d'"
| save: "save_generation_staged_assets_staged e now now' db_now d i w staged lease = Inr (d', saved) \<Longrightarrow> job_step e now d d'"
| receipt: "record_generation_provider_receipt e d i w evidence = Inr d' \<Longrightarrow> job_step e now d d'"
| finish: "finish_generation_job e fr d f provided = Some (Inr (d', m)) \<Longrightarrow> job_step e (fr_now fr) d d'"
| resolve: "resolve_generation_quarantine e now s' d ri = Inr (d', q) \<Longrightarrow> job_step e now d d'"
| accounting: "exec_billing cd now call (jd_billing d) = Inr (b, reply) \<Longrightarrow> holds_handle call (jd_billing d) \<Longrightarrow>
    \<forall>i j. tget (jd_jobs d) i = Some j \<longrightarrow> touched_row call \<noteq> Some (j_reservation_id j) \<Longrightarrow>
    job_step e now d (d\<lparr>jd_billing := b\<rparr>)"
| text_settlement: "publish_settlement_row (jd_billing d) (jd_feed d) (Some so) = Inr (fd, shown) \<Longrightarrow>
    so_request_kind so = Text \<Longrightarrow> basis_ok (so_usage_basis so) \<Longrightarrow> job_step e now d (d\<lparr>jd_feed := fd\<rparr>)"
| elsewhere: "job_step e now d (d\<lparr>jd_log := lg, jd_staging := staging, jd_tenants := ts, jd_principals := ps, jd_credentials := cs\<rparr>)"

inductive job_run :: "job_env \<Rightarrow> job_db \<Rightarrow> job_db \<Rightarrow> bool" for e d0 where
  start: "job_run e d0 d0"
| step: "job_run e d0 d \<Longrightarrow> job_step e now d d' \<Longrightarrow> job_run e d0 d'"

lemma frame_closes:
  assumes inv: "job_inv d" and "billing_inv b" and "feed_inv fd" and "feed_grows (jd_feed d) fd"
    and "\<And>i j. tget (jd_jobs d) i = Some j \<Longrightarrow>
      tget (usage_reservations b) (j_reservation_id j) = tget (usage_reservations (jd_billing d)) (j_reservation_id j)"
    and "\<And>i. feed_lookup fd Generation i = feed_lookup (jd_feed d) Generation i"
  shows "closes d (d\<lparr>jd_billing := b, jd_feed := fd\<rparr>)"
proof -
  let ?d = "d\<lparr>jd_billing := b, jd_feed := fd\<rparr>"
  have "job_inv ?d"
  proof (rule job_inv_intro [OF inv])
    fix i j assume j: "tget (jd_jobs ?d) i = Some j"
    then have "open_job ?d i j \<or> ended_job ?d i j"
      by (intro job_stays [OF job_invD(4) [OF inv]]) (use assms(4,6) assms(5) [of i j] in simp_all)
    then show "(\<exists>k. tget (jd_jobs d) i = Some k \<and> job_identity j = job_identity k) \<and> (open_job ?d i j \<or> ended_job ?d i j)"
      using j by simp
  qed (use assms(2,3,6) job_invD(3,5) [OF inv] in simp_all)
  moreover have "rollups_follow d ?d" by (rule rollups_follow_same) simp_all
  ultimately show ?thesis by (simp add: closes_def advances_def job_rows.evolve_refl)
qed

lemma accounting_closes:
  assumes inv: "job_inv d" and ok: "exec_billing cd now call (jd_billing d) = Inr (b, reply)" and pre: "holds_handle call (jd_billing d)"
    and "\<And>i j. tget (jd_jobs d) i = Some j \<Longrightarrow> touched_row call \<noteq> Some (j_reservation_id j)"
  shows "closes d (d\<lparr>jd_billing := b\<rparr>)"
proof -
  have "closes d (d\<lparr>jd_billing := b, jd_feed := jd_feed d\<rparr>)"
    by (rule frame_closes [OF inv call.keeps_inv [OF job_invD(1) [OF inv] pre ok] job_invD(2) [OF inv]])
       (use call.rows [OF job_invD(1) [OF inv] pre ok] assms(4) in \<open>auto simp: feed_grows_def\<close>)
  then show ?thesis by simp
qed

lemma text_settlement_closes:
  assumes inv: "job_inv d" and "publish_settlement_row (jd_billing d) (jd_feed d) (Some so) = Inr (fd, p)"
    and "so_request_kind so = Text" and "basis_ok (so_usage_basis so)"
  shows "closes d (d\<lparr>jd_feed := fd\<rparr>)"
proof -
  have "feed_inv fd \<and> feed_grows (jd_feed d) fd \<and> (\<forall>i. feed_lookup fd Generation i = feed_lookup (jd_feed d) Generation i)"
    using assms(2)
  proof (cases rule: publish_cases)
    case skipped
    then show ?thesis using job_invD(2) [OF inv] by (simp add: feed_grows_def)
  next
    case (replayed so' s l)
    then show ?thesis using job_invD(2) [OF inv] by (simp add: feed_grows_def)
  next
    case (added so' s l)
    have so': "so' = so" using added(1) by simp
    note fd = added(10) [unfolded so']
    have "feed_lookup fd Generation i = feed_lookup (jd_feed d) Generation i" for i
      unfolding fd by (rule feed_lookup_added [OF added(8) _ added(9)]) (simp add: published_fields so' assms(3))
    moreover have "feed_inv fd" "feed_grows (jd_feed d) fd"
      using publish_added_inv [OF job_invD(2) [OF inv] _ _ added(9) _, of so fd l] added(6,8) so' assms(4) fd by simp_all
    ultimately show ?thesis by simp
  qed
  then have "closes d (d\<lparr>jd_billing := jd_billing d, jd_feed := fd\<rparr>)"
    by (intro frame_closes [OF inv job_invD(1) [OF inv]]) simp_all
  then show ?thesis by simp
qed

text \<open>Every step keeps the invariant and all that was said of a single transaction.\<close>

lemma job_step_kept:
  assumes "job_step e now d d'" and inv: "job_inv d"
  shows "advances d d' \<and> lease_kept now d d' \<and> quarantine_kept d d'"
  using assms(1)
proof (cases rule: job_step.cases)
  case start
  then show ?thesis using start_kept [OF inv] by simp
next
  case fail
  then show ?thesis using closes_kept [OF fail_preparation_closes [OF inv]] by simp
next
  case expire
  then show ?thesis unfolding expire_preparing_generation_jobs_def by (intro closes_kept expire_each_closes [OF inv])
next
  case cancel
  then show ?thesis using cancel_kept [OF inv] by simp
next
  case finish
  then show ?thesis using closes_kept [OF finish_closes [OF inv]] by simp
next
  case accounting
  then show ?thesis using closes_kept [OF accounting_closes [OF inv]] by simp
next
  case text_settlement
  then show ?thesis using closes_kept [OF text_settlement_closes [OF inv]] by simp
next
  case elsewhere
  then show ?thesis by (intro closes_kept same_rows_closes [OF inv]) (simp add: same_rows_def untouched_def)
next
  case attach
  then show ?thesis by (rule moved_kept [OF attach_moved inv])
next
  case claim
  then show ?thesis by (rule moved_kept [OF claim_moved [OF _ job_invD(3) [OF inv]] inv])
next
  case submitting
  then show ?thesis by (rule moved_kept [OF mark_submitting_moved inv])
next
  case arm
  then show ?thesis by (rule moved_kept [OF arm_moved inv])
next
  case submitted
  then show ?thesis by (rule moved_kept [OF mark_submitted_moved inv])
next
  case retain
  then show ?thesis by (rule moved_kept [OF retain_moved inv])
next
  case reschedule
  then show ?thesis by (rule moved_kept [OF reschedule_moved inv])
next
  case renew
  then show ?thesis by (rule moved_kept [OF renew_moved inv])
next
  case save
  then show ?thesis by (rule moved_kept [OF save_assets_moved inv])
next
  case receipt
  then show ?thesis by (rule moved_kept [OF receipt_moved inv])
next
  case resolve
  then show ?thesis by (rule moved_kept [OF resolve_moved inv])
qed

lemma job_run_kept:
  assumes "job_run e d0 d" and "job_inv d0"
  shows "advances d0 d"
  using assms
proof (induction rule: job_run.induct)
  case start
  then show ?case using closes_kept [OF same_rows_closes [OF start same_rows_refl]] by simp
next
  case (step d now d')
  have a: "advances d0 d" by (rule step.IH [OF step.prems])
  then have "job_inv d" by (simp add: advances_def)
  then show ?case using job_step_kept [OF step.hyps(2)] advances_trans [OF a] by blast
qed

end
