(* ===== verification/Generation_Guarantees.thy ===== *)
theory Generation_Guarantees
  imports Generation_Lifecycle
begin

text \<open>
  What holds of generation jobs in every state that \<open>Generation_Lifecycle\<close> reaches: every job
  is settled once, at the price it was admitted with, is counted once, belongs to one worker
  at a time, and is not touched while its delivery is unknown.
\<close>

subsection \<open>Runs\<close>

lemma advances_resolutions: "advances d d' \<Longrightarrow> tget (jd_resolutions d) s = Some x \<Longrightarrow> tget (jd_resolutions d') s = Some x"
  by (simp add: advances_def)

lemma job_run_inv: "job_run e d0 d \<Longrightarrow> job_inv d0 \<Longrightarrow> job_inv d"
  using job_run_kept by (simp add: advances_def)

lemma job_run_quarantine:
  assumes "job_run e d0 d" and "job_inv d0" and "tget (jd_jobs d0) i = Some j" and "quarantined j" and "j_lease_owner j = None"
  shows "tget (jd_jobs d) i = Some j \<or> resolved_since d0 d i j"
  using assms(1)
proof (induction rule: job_run.induct)
  case start
  then show ?case using assms(3) by simp
next
  case (step d now d')
  have run: "advances d0 d" by (rule job_run_kept [OF step.hyps(1) assms(2)])
  note kept = job_step_kept [OF step.hyps(2) job_run_inv [OF step.hyps(1) assms(2)]]
  from step.IH show ?case
  proof
    assume "tget (jd_jobs d) i = Some j"
    then consider "tget (jd_jobs d') i = Some j" | "resolved_since d d' i j"
      using kept assms(4,5) by (auto simp: quarantine_kept_def)
    then show ?thesis
    proof cases
      case 2
      then have "resolved_since d0 d' i j"
        using advances_resolutions [OF run] unfolding resolved_since_def by (metis option.exhaust option.distinct(1))
      then show ?thesis ..
    qed simp
  next
    assume "resolved_since d0 d i j"
    then have "resolved_since d0 d' i j"
      using kept advances_resolutions [of d d'] unfolding resolved_since_def by blast
    then show ?thesis ..
  qed
qed

lemma tput_keys: "tget t k = Some r0 \<Longrightarrow> map fst (tput k r t) = map fst t"
  by (induction t) (auto simp: tget_def tput_def split: if_splits)

lemma start_twice:
  assumes "job_inv d" and "tget (jd_jobs d) i = Some j" and "j_key_id j = ak_key_id (si_key s)" and "j_idempotency_key j = Some (gi_key g)"
    and "start_generation_job e fr d s (Some g) = Some (Inr (d', r))"
  shows "jd_billing d' = jd_billing d \<and> map fst (jd_jobs d') = map fst (jd_jobs d) \<and> j_request_hash j = Some (gi_request_hash g) \<and>
    (case r of JobCreated v \<Rightarrow> jv_job_id v = i \<and> j_status j = Preparing | JobReplayed v \<Rightarrow> jv_job_id v = i \<and> d' = d)"
  using assms(5)
proof (cases rule: start_cases)
  case (replayed i' j' g')
  note row = job_by_key_row [OF replayed(2) job_invD(3) [OF assms(1)]]
  have g: "g' = g" using replayed(1) by simp
  have "i' = i" by (rule job_invD(7) [OF assms(1) row(1) assms(2)]) (use row(2,3) assms(3,4) g in simp_all)
  then have same: "i' = i" "j' = j" using row(1) assms(2) by simp_all
  obtain v where v: "job_view_of e i j = Inr v" "j_request_hash j = Some (gi_request_hash g)"
    using replayed(3) by (auto simp: replay_start_def same g rbind_Inr_iff ensure_Inr_iff)
  have vi: "jv_job_id v = i" using v(1) by (auto simp: job_view_of_def Let_def rbind_Inr_iff)
  have dom: "map fst (tput i x (jd_jobs d)) = map fst (jd_jobs d)" for x
    using assms(2) by (simp add: tput_keys)
  show ?thesis
    using replayed(3) v vi dom
    by (auto simp: replay_start_def same g ensure_def preparation_expired_def release_request_staging_def split: if_splits)
next
  case admitted
  then show ?thesis using job_by_key_None [OF _ assms(2)] assms(3,4) by blast
qed

subsection \<open>Properties\<close>

text \<open>
  C5. In every state the transactions on jobs reach, together with the other users of the
  accounting tables, a job has exactly one reservation of its key. While the job is open the
  reservation holds its amount, and nothing is published or counted for the job. Once it has
  ended the reservation is settled at exactly the cost of the job, the settlement feed of a
  prepaid account has it at that cost, and the statistics count it once at that cost.
\<close>

theorem generation_jobs_settled:
  assumes "job_run e d0 d" and "job_inv d0" and "tget (jd_jobs d) i = Some j"
  shows "\<exists>row. tget (usage_reservations (jd_billing d)) (j_reservation_id j) = Some row \<and> rr_key_id row = j_key_id j \<and>
    (\<forall>i' j'. tget (jd_jobs d) i' = Some j' \<and> j_reservation_id j' = j_reservation_id j \<longrightarrow> i' = i) \<and>
    (if terminal (j_status j)
     then rr_status row = Settled \<and> rr_actual_micros row = Some (j_cost_micros j) \<and> j_lease_owner j = None \<and>
       (rr_mode row = Prepaid \<longrightarrow> (\<exists>s f. tget (feed_rows (jd_feed d)) s = Some f \<and> fe_request_kind f = Generation \<and>
          fe_request_id f = i \<and> fe_account_id f = rr_account_id row \<and> fe_cost f = j_cost_micros j)) \<and>
       (\<exists>f. tget (jd_facts d) i = Some f \<and> sf_cost_micros f = j_cost_micros j)
     else rr_status row = Reserved \<and> feed_lookup (jd_feed d) Generation i = None \<and> tget (jd_facts d) i = None)"
proof -
  note inv = job_run_inv [OF assms(1,2)]
  have single: "\<forall>i' j'. tget (jd_jobs d) i' = Some j' \<and> j_reservation_id j' = j_reservation_id j \<longrightarrow> i' = i"
    using job_invD(6) [OF inv _ assms(3)] by blast
  show ?thesis
  proof (cases "terminal (j_status j)")
    case True
    then show ?thesis using inv_ended [OF inv assms(3) True] single unfolding ended_job_def by auto
  next
    case False
    then show ?thesis using inv_open [OF inv assms(3) False] single unfolding open_job_def by auto
  qed
qed

text \<open>
  C20. The row of a job never disappears, keeps what it was admitted with (key, reservation,
  contract, price and idempotency key), moves only forward through its states, never changes
  the upstream job it runs as, and does not change at all once the job has ended.
\<close>

theorem generation_rows_final:
  assumes "job_run e d0 d" and "job_inv d0" and "tget (jd_jobs d0) i = Some j"
  shows "\<exists>j'. tget (jd_jobs d) i = Some j' \<and> job_identity j' = job_identity j \<and> status_rank (j_status j) \<le> status_rank (j_status j') \<and>
    (3 \<le> status_rank (j_status j) \<and> j_upstream_job_id j \<noteq> None \<longrightarrow> j_upstream_job_id j' = j_upstream_job_id j) \<and>
    (terminal (j_status j) \<longrightarrow> j' = j)"
  using job_run_kept [OF assms(1,2)] assms(3) unfolding advances_def rows_evolve_def job_evolves_def by blast

text \<open>
  C21. A job that may or may not have been delivered to its provider and that no worker holds
  stays exactly as it is, with its reservation held, whatever runs, until an operator
  resolves this very submission.
\<close>

theorem generation_quarantine_holds:
  assumes "job_run e d0 d" and "job_inv d0" and "tget (jd_jobs d0) i = Some j" and "quarantined j" and "j_lease_owner j = None"
  shows "tget (jd_jobs d) i = Some j \<and>
      (\<exists>row. tget (usage_reservations (jd_billing d)) (j_reservation_id j) = Some row \<and> rr_status row = Reserved) \<or>
    (\<exists>s x. tget (jd_resolutions d0) s = None \<and> tget (jd_resolutions d) s = Some x \<and> rs_job_id x = i \<and>
       j_submission_nonce j = Some (rs_submission_nonce x))"
  using job_run_quarantine [OF assms]
proof
  assume j: "tget (jd_jobs d) i = Some j"
  have "\<not> terminal (j_status j)" using assms(4) by (simp add: quarantined_def terminal_def)
  from inv_open [OF job_run_inv [OF assms(1,2)] j this] j show ?thesis unfolding open_job_def by blast
qed (simp add: resolved_since_def)


text \<open>What a worker that does not hold the lease can do: nothing.\<close>

lemma update_fenced: "tget (jd_jobs d) i = Some j \<Longrightarrow> \<not> P j \<Longrightarrow> generation_update_claimed d i P f = Inl NotFound"
  by (simp add: generation_update_claimed_def tupdate_def)

lemma worker_updates_fenced:
  assumes "tget (jd_jobs d) i = Some j" and "j_lease_owner j \<noteq> Some w"
  shows "mark_generation_submitting now d i w nonce = Inl NotFound" "arm_generation_shutdown_quarantine now d i w nonce = Inl NotFound"
    "mark_generation_submitted now now' d i w nonce u = Inl NotFound" "reschedule_generation_job now d i w delay code = Inl NotFound"
    "renew_generation_lease now d i w = Inl NotFound" "retain_generation_delivery_unknown now d i w = (d, False)"
  using assms(2)
  by (simp_all add: mark_generation_submitting_def arm_generation_shutdown_quarantine_def mark_generation_submitted_def
      reschedule_generation_job_def renew_generation_lease_def retain_generation_delivery_unknown_def Let_def tupdate_def
      update_fenced [OF assms(1)] assms(1))

lemma save_fenced:
  assumes "tget (jd_jobs d) i = Some j" and "j_lease_owner j \<noteq> Some w"
    and "save_generation_staged_assets_staged e now now' db_now d i w staged lease = Inr (d', b)"
  shows "jd_jobs d' = jd_jobs d \<and> jd_assets d' = jd_assets d"
  using assms by (auto simp: save_generation_staged_assets_staged_def Let_def tupdate_def rbind_Inr_iff split: if_splits)

lemma receipt_fenced:
  assumes "tget (jd_jobs d) i = Some j" and "j_lease_owner j \<noteq> Some w" and "record_generation_provider_receipt e d i w r = Inr d'"
  shows "d' = d"
  using assms by (auto simp: record_generation_provider_receipt_def Let_def rbind_Inr_iff ensure_Inr_iff ok_or_Inr_iff split: option.splits)

lemma finish_fenced:
  assumes "job_inv d" and "tget (jd_jobs d) (fi_job_id f) = Some j" and "j_lease_owner j \<noteq> Some (fi_worker_id f)"
    and "finish_generation_job e fr d f provided = Some (Inr (d', m))"
  shows "d' = d"
  by (rule finish_cases [OF assms(1,4)]) (use assms(2,3) joined_job_row in fastforce)+

text \<open>
  C23. While the lease of a worker on a job has not expired, no step hands the job to another
  worker; and a worker that does not hold the lease, having lost it to another one say, can
  neither submit, reschedule, renew, quarantine, stage results, record a receipt nor finish.
\<close>

theorem generation_lease_exclusive:
  assumes "job_inv d" and "tget (jd_jobs d) i = Some j" and "j_lease_owner j = Some w" and "w' \<noteq> w"
  shows "(job_step e now d d' \<and> \<not> lease_free now j \<and> tget (jd_jobs d') i = Some j' \<longrightarrow> j_lease_owner j' \<in> {Some w, None}) \<and>
    mark_generation_submitting now d i w' nonce = Inl NotFound \<and>
    arm_generation_shutdown_quarantine now d i w' nonce = Inl NotFound \<and>
    mark_generation_submitted now now' d i w' nonce u = Inl NotFound \<and>
    reschedule_generation_job now d i w' delay code = Inl NotFound \<and>
    renew_generation_lease now d i w' = Inl NotFound \<and>
    retain_generation_delivery_unknown now d i w' = (d, False) \<and>
    (save_generation_staged_assets_staged e now now' db_now d i w' staged lease = Inr (d', b) \<longrightarrow>
       jd_jobs d' = jd_jobs d \<and> jd_assets d' = jd_assets d) \<and>
    (record_generation_provider_receipt e d i w' r = Inr d' \<longrightarrow> d' = d) \<and>
    (finish_generation_job e fr d f provided = Some (Inr (d', m)) \<and> fi_job_id f = i \<and> fi_worker_id f = w' \<longrightarrow> d' = d)"
proof -
  have other: "j_lease_owner j \<noteq> Some w'" using assms(3,4) by simp
  have "job_step e now d d' \<and> \<not> lease_free now j \<and> tget (jd_jobs d') i = Some j' \<longrightarrow> j_lease_owner j' \<in> {Some w, None}"
    using job_step_kept [OF _ assms(1)] assms(2,3) unfolding lease_kept_def by blast
  moreover have "d' = d" if "finish_generation_job e fr d f provided = Some (Inr (d', m)) \<and> fi_job_id f = i \<and> fi_worker_id f = w'"
    by (rule finish_fenced [OF assms(1)]) (use that assms(2) other in auto)
  ultimately show ?thesis
    using worker_updates_fenced [OF assms(2) other] save_fenced [OF assms(2) other] receipt_fenced [OF assms(2) other] by simp
qed

lemma job_price_row: "price_token_usage (job_reservation rid row k price) usage = price_token_usage (job_reservation rid row' k price) usage"
  by (simp add: price_token_usage_def job_reservation_def billed_tier_def fallback_tier_def)

text \<open>
  C24. A successful call to finish a job leaves the job ended and settled at the price of the
  units it reports, at the unit price fixed when the job was admitted. The first call comes
  from the worker that holds the lease; a repeated call changes nothing and returns the same charge.
\<close>

theorem generation_finish_charges:
  assumes "job_inv d" and "finish_generation_job e fr d f provided = Some (Inr (d', m))"
  shows "\<exists>j j' row price. tget (jd_jobs d) (fi_job_id f) = Some j \<and> tget (jd_jobs d') (fi_job_id f) = Some j' \<and>
    terminal (j_status j') \<and> j_cost_micros j' = m \<and> job_identity j' = job_identity j \<and>
    tget (usage_reservations (jd_billing d')) (j_reservation_id j) = Some row \<and> rr_status row = Settled \<and> rr_actual_micros row = Some m \<and>
    unit_price j ''finish_site_2'' = Inr price \<and>
    price_token_usage (job_reservation (j_reservation_id j) row (j_key_id j) price) (default_usage\<lparr>tu_output := fi_billed_units f\<rparr>) = Inr m \<and>
    (if terminal (j_status j) then d' = d else j_lease_owner j = Some (fi_worker_id f))"
proof (rule finish_cases [OF assms])
  fix st j row p
  assume a: "joined_job d (fi_job_id f) = Some (j, row)" "plan_finish e f provided st j row = Inr p" "terminal (j_status j)" "d' = d"
    "m = j_cost_micros j" "m = fp_cost p"
  note j = joined_job_row [OF a(1)]
  obtain price where p: "unit_price j ''finish_site_2'' = Inr price"
    "price_token_usage (job_reservation (j_reservation_id j) row (j_key_id j) price) (default_usage\<lparr>tu_output := fi_billed_units f\<rparr>) = Inr m"
    using plan_finish_parts [OF a(2)] a(6) by metis
  have "rr_status row = Settled" "rr_actual_micros row = Some m" using inv_ended [OF assms(1) j(1) a(3)] j(2) a(5) by (auto simp: ended_job_def)
  then show ?thesis using a(3-5) j p by (intro exI [of _ j] exI [of _ row] exI [of _ price]) simp
next
  fix st j row p
  assume a: "joined_job d (fi_job_id f) = Some (j, row)" "plan_finish e f provided st j row = Inr p" "\<not> terminal (j_status j)"
    "j_lease_owner j = Some (fi_worker_id f)" "ends e (fr_now fr) d (fi_job_id f) d'" "m = fp_cost p"
    and cost: "\<And>j'. tget (jd_jobs d') (fi_job_id f) = Some j' \<Longrightarrow> j_cost_micros j' = m"
  note j = joined_job_row [OF a(1)]
  obtain price where p: "unit_price j ''finish_site_2'' = Inr price"
    "price_token_usage (job_reservation (j_reservation_id j) row (j_key_id j) price) (default_usage\<lparr>tu_output := fi_billed_units f\<rparr>) = Inr m"
    using plan_finish_parts [OF a(2)] a(6) by metis
  obtain j' where j': "tget (jd_jobs d') (fi_job_id f) = Some j'" "ended_job d' (fi_job_id f) j'" "job_identity j' = job_identity j"
  proof (rule ends_effect [OF assms(1) a(5)])
    fix k k1
    assume "tget (jd_jobs d) (fi_job_id f) = Some k" "ended_from (j_cost_micros k1) (k\<lparr>j_stats_aggregated_at := Some (fr_now fr)\<rparr>) k1"
      "\<And>i'. tget (jd_jobs d') i' = (if i' = fi_job_id f then Some k1 else tget (jd_jobs d) i')" "ended_job d' (fi_job_id f) k1"
    then show thesis using j(1) by (intro that [of k1]) (simp_all add: ended_from_def job_identity_def)
  qed
  note same = job_identity_eq(1) [OF j'(3)]
  obtain row' where "tget (usage_reservations (jd_billing d')) (j_reservation_id j) = Some row'" "rr_status row' = Settled"
    "rr_actual_micros row' = Some m"
    using j'(2) cost [OF j'(1)] unfolding ended_job_def same by auto
  then show ?thesis using j(1) j' a(3,4) p cost [OF j'(1)] job_price_row [of "j_reservation_id j" row _ _ _ row']
    by (intro exI [of _ j] exI [of _ j'] exI [of _ row'] exI [of _ price]) (simp add: ended_job_def)
qed

definition started_job :: "start_result \<Rightarrow> uuid" where
  "started_job r = (case r of JobCreated v \<Rightarrow> jv_job_id v | JobReplayed v \<Rightarrow> jv_job_id v)"

definition job_for :: "job_db \<Rightarrow> uuid \<Rightarrow> uuid \<Rightarrow> job_idempotency \<Rightarrow> bool" where
  "job_for d i k g \<longleftrightarrow> (\<exists>j. tget (jd_jobs d) i = Some j \<and> j_key_id j = k \<and> j_idempotency_key j = Some (gi_key g) \<and>
     j_request_hash j = Some (gi_request_hash g))"

lemma start_hash:
  "start_generation_job e fr d s (Some g) = Some (Inr (d', r)) \<Longrightarrow> si_request_hash s = gi_request_hash g"
  by (auto simp: start_generation_job_def Let_def obind_Inr_iff validate_start_def rbind_Inr_iff ensure_Inr_iff)

lemma start_job_for:
  assumes "job_inv d" and "start_generation_job e fr d s (Some g) = Some (Inr (d', r))"
  shows "job_for d' (started_job r) (ak_key_id (si_key s)) g"
  using assms(2)
proof (cases rule: start_cases)
  case (replayed i j g')
  have g: "g' = g" using replayed(1) by simp
  note row = job_by_key_row [OF replayed(2) [unfolded g] job_invD(3) [OF assms(1)]]
  have t: "(case r of JobCreated v \<Rightarrow> jv_job_id v = i \<and> j_status j = Preparing | JobReplayed v \<Rightarrow> jv_job_id v = i \<and> d' = d)"
    "j_request_hash j = Some (gi_request_hash g)"
    using start_twice [OF assms(1) row(1-3) assms(2)] by simp_all
  have "started_job r = i" using t(1) by (simp add: started_job_def split: start_result.splits)
  moreover have "moved (fr_now fr) d d'" using replay_start_moved [OF replayed(3) row(1)] .
  then obtain j' where "tget (jd_jobs d') i = Some j'" "job_identity j' = job_identity j"
    using moved_evolves [OF _ assms(1)] row(1) unfolding rows_evolve_def job_evolves_def by blast
  then have "job_for d' i (ak_key_id (si_key s)) g" using row(2,3) t(2) by (simp add: job_for_def job_identity_def)
  ultimately show ?thesis by simp
next
  case (admitted b h snapshot jobs lg)
  then show ?thesis
    using insert_job_Inr(2) [OF admitted(3)] start_hash [OF assms(2)]
    by (simp add: job_for_def started_job_def new_job_view_def new_job_def tbl_simps)
qed

lemma job_for_kept:
  assumes "advances d d'" and "job_for d i k g"
  shows "job_for d' i k g"
  using assms unfolding advances_def rows_evolve_def job_evolves_def job_for_def by (fastforce simp: job_identity_def)

text \<open>
  C25. Once a job has been started under an idempotency key of a client, a later call under the
  key that succeeds, however many transactions lie in between, has the same request digest,
  returns the same job, inserts none and reserves nothing.
\<close>

theorem generation_start_once:
  assumes "job_inv d0" and "start_generation_job e fr d0 s (Some g) = Some (Inr (d1, r))" and "job_run e d1 d2"
    and "start_generation_job e fr' d2 s' (Some g') = Some (Inr (d3, r'))"
    and "ak_key_id (si_key s') = ak_key_id (si_key s)" and "gi_key g' = gi_key g"
  shows "started_job r' = started_job r \<and> gi_request_hash g' = gi_request_hash g \<and>
    jd_billing d3 = jd_billing d2 \<and> map fst (jd_jobs d3) = map fst (jd_jobs d2)"
proof -
  have inv1: "job_inv d1" using start_kept [OF assms(1,2)] by (simp add: advances_def)
  note inv2 = job_run_inv [OF assms(3) inv1]
  have "job_for d2 (started_job r) (ak_key_id (si_key s)) g"
    by (rule job_for_kept [OF job_run_kept [OF assms(3) inv1] start_job_for [OF assms(1,2)]])
  then obtain j where j: "tget (jd_jobs d2) (started_job r) = Some j" "j_key_id j = ak_key_id (si_key s')"
    "j_idempotency_key j = Some (gi_key g')" "j_request_hash j = Some (gi_request_hash g)"
    using assms(5,6) by (auto simp: job_for_def)
  then show ?thesis
    using start_twice [OF inv2 j(1-3) assms(4)] by (auto simp: started_job_def split: start_result.splits)
qed

subsection \<open>Witnesses\<close>

text \<open>One job on the account of the sample reservation, held by the worker \<open>w\<close>.\<close>

definition sample_job_env :: job_env where
  "sample_job_env = \<lparr>je_backend = Sqlite, je_decimal = sample_dp, je_price = sample_ser, je_uuid_text = hyphenated,
     je_uuid_bits = parse_hyphenated, je_json_text = (\<lambda>_. ''{}''), je_json_value = (\<lambda>_. Some (JObj [])),
     je_manifest_text = (\<lambda>_. ''m''), je_manifest_value = (\<lambda>_. None), je_reference_text = (\<lambda>_. ''r''), je_reference_value = (\<lambda>_. None),
     je_asset_views = (\<lambda>_. Some []), je_scopes = (\<lambda>_. None), je_revision = (\<lambda>_. ''v''), je_request_digest = (\<lambda>_. ''d''),
     je_resolution_text = (\<lambda>_. ''q''), je_resolution_value = (\<lambda>_. None)\<rparr>"

definition sample_job :: job_row where
  "sample_job = \<lparr>j_tenant_id = ''t'', j_key_id = ''k'', j_model_route_id = Some ''m'', j_upstream_account_id = ''u'',
     j_reservation_id = ''r1'', j_public_model = ''model'', j_upstream_model = ''up'', j_driver = ''comfyui'', j_status = Queued,
     j_request_object = ''o'', j_upstream_job_id = None, j_result_json = None, j_error_code = None, j_estimated_units = 2,
     j_billed_units = None, j_cost_micros = 0, j_attempt_count = 1, j_failure_count = 0, j_next_attempt_at = 120001,
     j_lease_owner = Some ''w'', j_lease_expires_at = Some 180001, j_created_at = 120001, j_updated_at = 120001, j_completed_at = None,
     j_billing_unit = ''megapixel'', j_micros_per_unit = 1, j_idempotency_key = Some ''i'', j_request_hash = Some ''h'',
     j_stats_aggregated_at = None, j_submission_nonce = None, j_staged_assets_json = None, j_routing_snapshot = None,
     j_delivery_confirmed_at = None, j_reconciliation_deadline_at = None\<rparr>"

definition empty_rollups :: rollups where
  "empty_rollups = \<lparr>ro_session_totals = [], ro_session_activity = [], ro_session_hourly = [], ro_session_daily = [], ro_daily = [],
     ro_analysis_hourly = [], ro_analysis_daily = [], ro_dimensions_hourly = [], ro_dimensions_daily = []\<rparr>"

definition sample_jobs :: "job_row \<Rightarrow> job_db" where
  "sample_jobs j = \<lparr>jd_billing = sample_open_db, jd_feed = \<lparr>feed_rows = [], feed_sequences = []\<rparr>, jd_log = \<lparr>lg_locators = [], lg_events = []\<rparr>,
     jd_staging = [], jd_jobs = [(''j'', j)], jd_assets = [], jd_facts = [], jd_rollups = empty_rollups, jd_resolutions = [],
     jd_tenants = [], jd_principals = [], jd_credentials = []\<rparr>"

definition sample_fresh :: fresh where
  "sample_fresh = \<lparr>fr_clock = (\<lambda>_. 130000), fr_reservation = ''r2'', fr_ledger = ''u1'', fr_allocations = sample_aid, fr_draw = (\<lambda>_. (0, 0))\<rparr>"

definition sample_finish :: finish_input where
  "sample_finish = \<lparr>fi_job_id = ''j'', fi_worker_id = ''w'', fi_status = ''failed'', fi_billed_units = 2,
     fi_error_code = Some ''upstream_usage_exceeds_contract'', fi_assets = [], fi_staged_assets = None\<rparr>"

lemma sample_jobs_inv:
  assumes "j_reservation_id j = ''r1''" and "j_key_id j = ''k''" and "\<not> terminal (j_status j)" and "j_completed_at j = None"
    and "j_stats_aggregated_at j = None"
  shows "job_inv (sample_jobs j)"
proof -
  have row: "tget (usage_reservations sample_open_db) ''r1'' = Some sample_row" by (simp add: sample_open_db_def sample_eval)
  have get: "tget (jd_jobs (sample_jobs j)) i = (if i = ''j'' then Some j else None)" for i by (simp add: sample_jobs_def tget_def)
  have look: "feed_lookup (jd_feed (sample_jobs j)) Generation i = None" for i by (simp add: sample_jobs_def feed_lookup_def)
  have facts: "tget (jd_facts (sample_jobs j)) i = None" for i by (simp add: sample_jobs_def tget_def)
  have "open_job (sample_jobs j) ''j'' j"
    unfolding open_job_def look facts using assms row by (simp add: sample_jobs_def sample_row_def)
  moreover have "feed_inv (jd_feed (sample_jobs j))"
    by (simp add: feed_inv_def sample_jobs_def tget_def wf_table_def sequences_of_def feed_sequence_def)
  ultimately show ?thesis
    using sample_open_inv by (intro job_invI) (auto simp: get look facts split: if_splits, auto simp: sample_jobs_def wf_table_def)
qed

definition sample_running_row :: job_row where
  "sample_running_row = sample_job\<lparr>j_status := Running, j_upstream_job_id := Some ''p''\<rparr>"

definition sample_running :: job_db where
  "sample_running = sample_jobs sample_running_row"

lemma sample_running_inv: "job_inv sample_running"
  unfolding sample_running_def by (rule sample_jobs_inv) (simp_all add: sample_running_row_def sample_job_def terminal_def)

definition sample_plan :: finish_plan where
  "sample_plan = \<lparr>fp_reservation = job_reservation ''r1'' sample_row ''k'' 1, fp_usage = default_usage\<lparr>tu_output := 2\<rparr>, fp_cost = 1,
     fp_result = None, fp_persisted = None, fp_staged = None\<rparr>"

lemma sample_finish_eval:
  "validate_finish sample_finish None = Inr Failed" "fi_job_id sample_finish = ''j''" "fr_now sample_fresh = 130000"
  "joined_job sample_running ''j'' = Some (sample_running_row, sample_row)" "\<not> terminal (j_status sample_running_row)"
  "j_created_at sample_running_row = 120001" "plan_finish sample_job_env sample_finish None Failed sample_running_row sample_row = Inr sample_plan"
  by code_simp+

lemma sample_finish_writes:
  "case finish_writes sample_job_env sample_fresh sample_running sample_finish None Failed sample_running_row sample_plan of Inl _ \<Rightarrow> False
   | Inr (d, m) \<Rightarrow> m = 1 \<and> jd_log d = \<lparr>lg_locators = [], lg_events = []\<rparr> \<and> map_option j_status (tget (jd_jobs d) ''j'') = Some Failed \<and>
       length (jd_facts d) = 1"
  by code_simp

lemma sample_posts:
  assumes "jd_log d = \<lparr>lg_locators = [], lg_events = []\<rparr>"
  shows "\<exists>lg. post_event sample_job_env sample_fresh d 130000 ev = Some (Inr (d\<lparr>jd_log := lg\<rparr>))"
proof -
  have none: "event_times (jd_log d) = {}" "lg_locators (jd_log d) = []" by (simp_all add: assms event_times_def)
  let ?owner = "(re_tenant_id ev, re_key_id ev, re_request_id ev)"
  obtain r where r: "allocate_request_event_cursor hyphenated parse_hyphenated (\<lambda>_. (0, 0)) (jd_log d) 130000 ?owner = Some r" "\<not> isl r"
    using rfc_text.allocate_ends [of "\<lambda>_. (0, 0)" "jd_log d" 130000 ?owner] by (force simp: none split: sum.splits)
  then obtain lg c where "allocate_request_event_cursor hyphenated parse_hyphenated (\<lambda>_. (0, 0)) (jd_log d) 130000 ?owner = Some (Inr (lg, c))"
    by (cases r) auto
  then have "post_event sample_job_env sample_fresh d 130000 ev = Some (Inr (d\<lparr>jd_log := insert_request_event lg c ev\<rparr>))"
    by (simp add: post_event_def sample_job_env_def sample_fresh_def)
  then show ?thesis by blast
qed

lemma sample_finishes:
  obtains d where "finish_generation_job sample_job_env sample_fresh sample_running sample_finish None = Some (Inr (d, 1))"
    "map_option j_status (tget (jd_jobs d) ''j'') = Some Failed" "length (jd_facts d) = 1"
proof -
  obtain d where w: "finish_writes sample_job_env sample_fresh sample_running sample_finish None Failed sample_running_row sample_plan = Inr (d, 1)"
    and d: "jd_log d = \<lparr>lg_locators = [], lg_events = []\<rparr>" "map_option j_status (tget (jd_jobs d) ''j'') = Some Failed" "length (jd_facts d) = 1"
    using sample_finish_writes
    by (cases "finish_writes sample_job_env sample_fresh sample_running sample_finish None Failed sample_running_row sample_plan") auto
  obtain lg where "post_event sample_job_env sample_fresh d 130000 (job_event EventFinished ''j'' sample_running_row (Some 502) (Some 9999) 1
      (fi_error_code sample_finish)) = Some (Inr (d\<lparr>jd_log := lg\<rparr>))"
    using sample_posts [OF d(1)] by blast
  then have "finish_generation_job sample_job_env sample_fresh sample_running sample_finish None = Some (Inr (d\<lparr>jd_log := lg\<rparr>, 1))"
    using w by (simp add: finish_generation_job_def finish_commit_def sample_finish_eval ok_or_def sql_int_def in_i64_def i64_bounds)
  then show thesis by (rule that) (use d(2,3) in simp_all)
qed

lemma sample_job_run:
  obtains d j where "job_run sample_job_env sample_running d" "tget (jd_jobs d) ''j'' = Some j" "j_status j = Failed"
    "tget (jd_jobs sample_running) ''j'' = Some sample_running_row" "length (jd_facts d) = 1"
proof (rule sample_finishes)
  fix d
  assume f: "finish_generation_job sample_job_env sample_fresh sample_running sample_finish None = Some (Inr (d, 1))"
    and j: "map_option j_status (tget (jd_jobs d) ''j'') = Some Failed" and n: "length (jd_facts d) = 1"
  have "job_run sample_job_env sample_running d" by (rule job_run.step [OF job_run.start job_step.finish [OF f]])
  then show thesis using j n joined_job_row(1) [OF sample_finish_eval(4)] by (auto intro: that)
qed

theorem generation_jobs_settled_witness:
  "\<exists>d j row. job_run sample_job_env sample_running d \<and> tget (jd_jobs d) ''j'' = Some j \<and> j_status j = Failed \<and>
     tget (usage_reservations (jd_billing d)) (j_reservation_id j) = Some row \<and> rr_status row = Settled \<and> rr_actual_micros row = Some (j_cost_micros j)"
proof (rule sample_job_run)
  fix d j
  assume a: "job_run sample_job_env sample_running d" "tget (jd_jobs d) ''j'' = Some j" "j_status j = Failed"
  from generation_jobs_settled [OF a(1) sample_running_inv a(2)] obtain row
    where "tget (usage_reservations (jd_billing d)) (j_reservation_id j) = Some row" "rr_status row = Settled" "rr_actual_micros row = Some (j_cost_micros j)"
    by (auto simp: a(3) terminal_def)
  with a show ?thesis by blast
qed

theorem generation_rows_final_witness:
  "\<exists>d j. job_run sample_job_env sample_running d \<and> tget (jd_jobs d) ''j'' = Some j \<and> j_status j = Failed \<and>
     job_identity j = job_identity sample_running_row \<and> j_upstream_job_id j = Some ''p''"
proof (rule sample_job_run)
  fix d j
  assume a: "job_run sample_job_env sample_running d" "tget (jd_jobs d) ''j'' = Some j" "j_status j = Failed"
    "tget (jd_jobs sample_running) ''j'' = Some sample_running_row"
  have "status_rank (j_status sample_running_row) = 3" "j_upstream_job_id sample_running_row = Some ''p''"
    by (simp_all add: sample_running_row_def)
  with generation_rows_final [OF a(1) sample_running_inv a(4)] a show ?thesis by auto
qed

definition sample_quarantined :: job_row where
  "sample_quarantined = sample_job\<lparr>j_status := Submitting, j_submission_nonce := Some ''n'', j_error_code := Some delivery_unknown,
     j_lease_owner := None, j_lease_expires_at := None\<rparr>"

theorem generation_quarantine_holds_witness:
  "\<exists>d. claim_generation_job sample_job_env 999999 (\<lambda>_. False) (sample_jobs sample_quarantined) ''w'' = Inr (d, Inr None) \<and>
     tget (jd_jobs d) ''j'' = Some sample_quarantined"
proof -
  let ?d = "sample_jobs sample_quarantined"
  have c: "claim_generation_job sample_job_env 999999 (\<lambda>_. False) ?d ''w'' = Inr (?d, Inr None)"
    by (simp add: claim_generation_job_def claim_candidate_def claimable_job_def sample_jobs_def sample_quarantined_def)
  have inv: "job_inv ?d" by (rule sample_jobs_inv) (simp_all add: sample_quarantined_def sample_job_def terminal_def)
  have q: "tget (jd_jobs ?d) ''j'' = Some sample_quarantined" "quarantined sample_quarantined" "j_lease_owner sample_quarantined = None"
    "jd_resolutions ?d = []" by (simp_all add: sample_jobs_def tget_def quarantined_def sample_quarantined_def sample_job_def)
  show ?thesis
    using generation_quarantine_holds [OF job_run.step [OF job_run.start job_step.claim [OF c]] inv q(1-3)] c q(4) by (auto simp: tget_def)
qed


theorem generation_lease_exclusive_witness:
  "\<exists>d. renew_generation_lease 130000 sample_running ''j'' ''w'' = Inr d \<and> map_option j_lease_owner (tget (jd_jobs d) ''j'') = Some (Some ''w'') \<and>
     renew_generation_lease 130000 sample_running ''j'' ''v'' = Inl NotFound"
proof -
  have row: "tget (jd_jobs sample_running) ''j'' = Some sample_running_row" by (rule joined_job_row [OF sample_finish_eval(4)])
  have own: "j_lease_owner sample_running_row = Some ''w''" "workable (j_status sample_running_row)"
    by (simp_all add: sample_running_row_def sample_job_def workable_def)
  have "renew_generation_lease 130000 sample_running ''j'' ''v'' = Inl NotFound"
    using generation_lease_exclusive [OF sample_running_inv row own(1), of "''v''"] by simp
  then show ?thesis
    using own by (simp add: renew_generation_lease_def generation_update_claimed_def tupdate_def row tbl_simps)
qed

theorem generation_finish_charges_witness:
  "\<exists>d j row. finish_generation_job sample_job_env sample_fresh sample_running sample_finish None = Some (Inr (d, 1)) \<and>
     tget (jd_jobs d) ''j'' = Some j \<and> j_cost_micros j = 1 \<and>
     tget (usage_reservations (jd_billing d)) ''r1'' = Some row \<and> rr_actual_micros row = Some 1"
proof (rule sample_finishes)
  fix d
  assume f: "finish_generation_job sample_job_env sample_fresh sample_running sample_finish None = Some (Inr (d, 1))"
  have row: "tget (jd_jobs sample_running) ''j'' = Some sample_running_row" by (rule joined_job_row [OF sample_finish_eval(4)])
  have "j_reservation_id sample_running_row = ''r1''" by (simp add: sample_running_row_def sample_job_def)
  then show ?thesis
    using generation_finish_charges [OF sample_running_inv f] f row by (auto simp: sample_finish_eval(2))
qed

definition sample_no_jobs :: job_db where
  "sample_no_jobs = (sample_jobs sample_job)\<lparr>jd_billing := sample_db, jd_jobs := []\<rparr>"

definition sample_claim :: job_idempotency where
  "sample_claim = \<lparr>gi_key = ''order-1'', gi_request_hash = replicate 64 (CHR ''a'')\<rparr>"

definition sample_start :: start_input where
  "sample_start = \<lparr>si_routing_snapshot = None, si_job_id = ''j'', si_key = sample_key, si_model_route_id = ''m'', si_upstream_account_id = ''u'',
     si_reservation_price = sample_price, si_public_model = ''model'', si_upstream_model = ''up'', si_driver = ''comfyui'',
     si_request_hash = replicate 64 (CHR ''a''), si_estimated_units = 2, si_billing_unit = ''megapixel'', si_micros_per_unit = 1\<rparr>"

lemma sample_no_jobs_inv: "job_inv sample_no_jobs"
  by (intro job_invI) (simp_all add: sample_no_jobs_def sample_jobs_def sample_db_inv feed_lookup_def tget_def wf_table_def feed_inv_def
      sequences_of_def feed_sequence_def)

lemma sample_start_eval:
  "validate_start sample_job_env sample_start (Some sample_claim) = Inr None"
  "tget (key_records (jd_billing sample_no_jobs)) (ak_key_id (si_key sample_start)) \<noteq> None"
  "job_by_key sample_no_jobs (ak_key_id (si_key sample_start)) (gi_key sample_claim) = None"
  by code_simp+

lemma sample_start_reserves:
  "\<exists>b h. reserve_usage_with_id_in_transaction sample_dp sample_ser sample_db sample_key sample_price 0 2 130000 ''r2'' = Inr (b, h) \<and>
     key_records b = key_records sample_db"
proof -
  have "usage_contract_amounts Prepaid sample_price 0 2 = Inr (1, 2)" by (simp add: sample_eval)
  moreover have "\<exists>b h. reserve_usage_contract_with_id_in_transaction sample_dp sample_db sample_key (token_contract sample_price 1 2 ''p'') 130000 ''r2'' = Inr (b, h) \<and>
      key_records b = key_records sample_db"
    by (simp add: reserve_usage_contract_with_id_in_transaction_def reserve_checks_def reserve_budget_check_def
      concurrency_check_def active_requests_def rate_window_admission_def rate_window_upsert_def
      hold_balance_def hold_key_budget_def insert_reservation_def contract_row_def contract_reservation_def
      token_contract_def contract_tpm_limit_def below_limit_def u64_as_i64_def sample_eval)
  ultimately show ?thesis
    by (simp add: reserve_usage_with_id_in_transaction_def reserve_usage_with_snapshot_in_transaction_def
      ok_or_def sample_ser_def sample_price_def sample_key_def sample_policy_def)
qed

lemma sample_starts:
  obtains d rid where "start_generation_job sample_job_env sample_fresh sample_no_jobs sample_start (Some sample_claim)
      = Some (Inr (d, JobCreated (new_job_view sample_start 130000)))"
    "jd_jobs d = [(''j'', new_job sample_start (Some sample_claim) None rid 130000)]"
    "tget (key_records (jd_billing d)) ''k'' \<noteq> None"
proof -
  obtain b h where r: "reserve_usage_with_id_in_transaction sample_dp sample_ser sample_db sample_key sample_price 0 2 130000 ''r2'' = Inr (b, h)"
    and k: "key_records b = key_records sample_db" using sample_start_reserves by blast
  let ?j = "new_job sample_start (Some sample_claim) None (ur_id h) 130000"
  let ?d = "sample_no_jobs\<lparr>jd_billing := b, jd_jobs := [(''j'', ?j)]\<rparr>"
  have "jd_log ?d = \<lparr>lg_locators = [], lg_events = []\<rparr>" by (simp add: sample_no_jobs_def sample_jobs_def)
  from sample_posts [OF this] obtain lg where
    "post_event sample_job_env sample_fresh ?d 130000 (job_event EventStarted ''j'' ?j None None 0 None) = Some (Inr (?d\<lparr>jd_log := lg\<rparr>))" by blast
  moreover have "insert_job ''j'' ?j [] = Inr [(''j'', ?j)]" by (simp add: insert_job_def ensure_def sql_insert_def tget_def tput_def)
  moreover have "je_backend sample_job_env = Sqlite" "je_decimal sample_job_env = sample_dp" "je_price sample_job_env = sample_ser" "fr_now sample_fresh = 130000"
    "fr_reservation sample_fresh = ''r2''" by (simp_all add: sample_job_env_def sample_fresh_def)
  moreover have "si_key sample_start = sample_key" "si_reservation_price sample_start = sample_price" "si_estimated_units sample_start = 2"
    "si_job_id sample_start = ''j''" "jd_billing sample_no_jobs = sample_db" "jd_jobs sample_no_jobs = []"
    by (simp_all add: sample_start_def sample_no_jobs_def)
  ultimately have "start_generation_job sample_job_env sample_fresh sample_no_jobs sample_start (Some sample_claim)
      = Some (Inr (?d\<lparr>jd_log := lg\<rparr>, JobCreated (new_job_view sample_start 130000)))"
    using r sample_start_eval by (simp add: start_generation_job_def Let_def ensure_def)
  moreover have "tget (key_records b) ''k'' \<noteq> None" by (simp add: k sample_db_def tget_def)
  ultimately show thesis by (intro that [of "?d\<lparr>jd_log := lg\<rparr>" "ur_id h"]) auto
qed


theorem generation_start_once_witness:
  "\<exists>d r. start_generation_job sample_job_env sample_fresh sample_no_jobs sample_start (Some sample_claim)
       = Some (Inr (d, JobCreated (new_job_view sample_start 130000))) \<and>
     start_generation_job sample_job_env sample_fresh d sample_start (Some sample_claim) = Some (Inr (d, JobReplayed r)) \<and> jv_job_id r = ''j''"
proof (rule sample_starts)
  fix d rid
  assume a: "start_generation_job sample_job_env sample_fresh sample_no_jobs sample_start (Some sample_claim)
      = Some (Inr (d, JobCreated (new_job_view sample_start 130000)))"
    and jobs: "jd_jobs d = [(''j'', new_job sample_start (Some sample_claim) None rid 130000)]"
    and k: "tget (key_records (jd_billing d)) ''k'' \<noteq> None"
  let ?j = "new_job sample_start (Some sample_claim) None rid 130000"
  have key: "ak_key_id (si_key sample_start) = ''k''" "fr_now sample_fresh = 130000"
    by (simp_all add: sample_start_def sample_key_def sample_fresh_def)
  have find: "job_by_key d ''k'' (gi_key sample_claim) = Some (''j'', ?j)" by (simp add: job_by_key_def jobs new_job_def key)
  obtain v where v: "job_view_of sample_job_env ''j'' ?j = Inr v" by (simp add: job_view_of_def new_job_def)
  have "\<not> preparation_expired 130000 ?j" "j_request_hash ?j = Some (gi_request_hash sample_claim)"
    by (simp_all add: preparation_expired_def new_job_def GENERATION_PREPARATION_LEASE_MILLIS_def sat_def i64_bounds sample_start_def sample_claim_def)
  then have b: "start_generation_job sample_job_env sample_fresh d sample_start (Some sample_claim) = Some (Inr (d, JobReplayed v))"
    using sample_start_eval(1) find v k by (simp add: start_generation_job_def Let_def ensure_def key replay_start_def)
  have "started_job (JobReplayed v) = started_job (JobCreated (new_job_view sample_start 130000))"
    using generation_start_once [OF sample_no_jobs_inv a job_run.start b refl refl] by simp
  then show ?thesis using a b by (auto simp: started_job_def new_job_view_def sample_start_def)
qed

end
