(* ===== verification/Sse_Framer.thy ===== *)
theory Sse_Framer
  imports Rust_Strings
begin

text \<open>
  The bounded framer of server-sent events (\<open>src/src/api/sse/framer.rs\<close>): it cuts the bytes an
  upstream sends, chunk by chunk, into events, keeps the original bytes, treats CR, LF and
  CRLF as line endings even across chunks, and bounds everything it retains. Lengths are
  natural numbers: the saturating additions of the source are additions of vector lengths,
  which never reach \<open>usize::MAX\<close>.
\<close>

subsection \<open>Limits\<close>

record sse_limits =
  event_bytes :: nat
  framed_bytes :: nat
  terminal_hold_bytes :: nat

definition default_sse_limits :: sse_limits where
  "default_sse_limits = \<lparr>event_bytes = 8 * 1024 * 1024, framed_bytes = 8 * 1024 * 1024 + 64 * 1024,
     terminal_hold_bytes = 8 * 1024 * 1024 + 64 * 1024\<rparr>"

definition max_frames_per_chunk :: nat where
  "max_frames_per_chunk = 4096"

definition max_fields_per_event :: nat where
  "max_fields_per_event = 4096"

definition max_metadata_per_chunk :: nat where
  "max_metadata_per_chunk = 16 * 1024"

subsection \<open>Data\<close>

abbreviation LF :: byte where "LF \<equiv> CHR 0x0A"
abbreviation CR :: byte where "CR \<equiv> CHR 0x0D"

datatype sse_rejection = EventLimit | BatchLimit

definition rejection_error_code :: "sse_rejection \<Rightarrow> string" where
  "rejection_error_code r = (case r of
      EventLimit \<Rightarrow> ''upstream_response_event_too_large''
    | BatchLimit \<Rightarrow> ''upstream_response_event_batch_too_large'')"

datatype idle_control = Comment | IdOrRetry

datatype crlf_target = Terminator | LastLine

record sse_line =
  sl_value :: string
  sl_ending :: string

record sse_event =
  ev_bytes :: string
  ev_lines :: "sse_line list"
  ev_terminator :: string
  ev_continuation :: bool
  ev_idle :: "idle_control option"

record pending_event = sse_event +
  pe_target :: crlf_target

record frame_batch =
  fb_events :: "sse_event list"
  fb_rejection :: "sse_rejection option"
  fb_framed :: nat
  fb_metadata :: nat

record framer =
  fr_limits :: sse_limits
  fr_event :: string
  fr_line :: string
  fr_lines :: "sse_line list"
  fr_discarding :: bool
  fr_discarding_data :: bool
  fr_skip_lf :: bool
  fr_emit_lf :: bool
  fr_emitted_cr :: nat
  fr_completed :: "pending_event option"
  fr_rejected :: bool

definition with_limits :: "sse_limits \<Rightarrow> framer" where
  "with_limits l = \<lparr>fr_limits = l, fr_event = [], fr_line = [], fr_lines = [], fr_discarding = False,
     fr_discarding_data = False, fr_skip_lf = False, fr_emit_lf = False, fr_emitted_cr = 0,
     fr_completed = None, fr_rejected = False\<rparr>"

definition empty_batch :: frame_batch where
  "empty_batch = \<lparr>fb_events = [], fb_rejection = None, fb_framed = 0, fb_metadata = 0\<rparr>"

subsection \<open>Lines\<close>

definition starts_with :: "string \<Rightarrow> string \<Rightarrow> bool" where
  "starts_with p s \<longleftrightarrow> strip_prefix p s \<noteq> None"

definition is_sse_field_line :: "string \<Rightarrow> string \<Rightarrow> bool" where
  "is_sse_field_line line field \<longleftrightarrow> line = field \<or>
     (case strip_prefix field line of None \<Rightarrow> False | Some rest \<Rightarrow> starts_with '':'' rest)"

definition idle_control_kind :: "string \<Rightarrow> idle_control option" where
  "idle_control_kind line =
     (if starts_with '':'' line then Some Comment
      else if is_sse_field_line line ''id'' \<or> is_sse_field_line line ''retry'' then Some IdOrRetry
      else None)"

datatype metadata_policy = DataOnly | ValidatedEventNames

definition safe_heartbeat :: string where
  "safe_heartbeat = '': heartbeat''"

fun redact_lines :: "metadata_policy \<Rightarrow> sse_line list \<Rightarrow> string" where
  "redact_lines p [] = []"
| "redact_lines p (l # ls) =
     (if starts_with '':'' (sl_value l) then safe_heartbeat @ sl_ending l @ redact_lines p ls
      else if is_sse_field_line (sl_value l) ''data'' \<or>
          (p = ValidatedEventNames \<and> is_sse_field_line (sl_value l) ''event'')
        then sl_value l @ sl_ending l @ redact_lines p ls
      else redact_lines p ls)"

definition redacted_sse_event_bytes :: "'a sse_event_scheme \<Rightarrow> metadata_policy \<Rightarrow> string" where
  "redacted_sse_event_bytes e p = redact_lines p (ev_lines e) @ ev_terminator e"

subsection \<open>The batch\<close>

definition reject :: "frame_batch \<Rightarrow> sse_rejection \<Rightarrow> frame_batch" where
  "reject b r = (if r = BatchLimit \<or> fb_rejection b = None then b\<lparr>fb_rejection := Some r\<rparr> else b)"

definition reserve_metadata_item :: "frame_batch \<Rightarrow> frame_batch \<times> bool" where
  "reserve_metadata_item b =
     (if max_metadata_per_chunk \<le> fb_metadata b then (reject b BatchLimit, False)
      else (b\<lparr>fb_metadata := fb_metadata b + 1\<rparr>, True))"

definition emit :: "frame_batch \<Rightarrow> pending_event \<Rightarrow> sse_limits \<Rightarrow> frame_batch" where
  "emit b p l =
     (if max_frames_per_chunk \<le> length (fb_events b) \<or> framed_bytes l < fb_framed b + length (ev_bytes p)
      then reject b BatchLimit
      else case reserve_metadata_item b of
        (b, False) \<Rightarrow> b
      | (b, True) \<Rightarrow> b\<lparr>fb_framed := fb_framed b + length (ev_bytes p),
           fb_events := fb_events b @ [sse_event.truncate p]\<rparr>)"

subsection \<open>One byte\<close>

definition clear_event :: "framer \<Rightarrow> framer" where
  "clear_event f = f\<lparr>fr_event := [], fr_line := [], fr_lines := []\<rparr>"

definition start_discarding :: "framer \<Rightarrow> bool \<Rightarrow> bool \<Rightarrow> framer" where
  "start_discarding f d hasdata = clear_event (f\<lparr>fr_discarding := d, fr_discarding_data := hasdata\<rparr>)"

definition push_field_byte :: "framer \<Rightarrow> byte \<Rightarrow> frame_batch \<Rightarrow> framer \<times> frame_batch" where
  "push_field_byte f c b =
     (if fr_discarding f then (f\<lparr>fr_discarding_data := True\<rparr>, b)
      else if event_bytes (fr_limits f) \<le> length (fr_event f)
        then (start_discarding f True True, reject b EventLimit)
      else (f\<lparr>fr_event := fr_event f @ [c], fr_line := fr_line f @ [c]\<rparr>, b))"

definition complete :: "framer \<Rightarrow> pending_event \<Rightarrow> byte \<Rightarrow> frame_batch \<Rightarrow> framer \<times> frame_batch" where
  "complete f p c b = (if c = CR then (f\<lparr>fr_completed := Some p\<rparr>, b) else (f, emit b p (fr_limits f)))"

text \<open>A line has ended with the byte \<open>c\<close>, which is CR or LF.\<close>

definition finish_event :: "framer \<Rightarrow> byte \<Rightarrow> frame_batch \<Rightarrow> framer \<times> frame_batch" where
  "finish_event f c b =
     complete (f\<lparr>fr_event := [], fr_lines := []\<rparr>)
       \<lparr>ev_bytes = fr_event f, ev_lines = fr_lines f, ev_terminator = [c], ev_continuation = False,
        ev_idle = None, pe_target = Terminator\<rparr> c b"

definition finish_field :: "framer \<Rightarrow> byte \<Rightarrow> frame_batch \<Rightarrow> framer \<times> frame_batch" where
  "finish_field f c b =
     (if max_fields_per_event \<le> length (fr_lines f) then (start_discarding f True False, reject b EventLimit)
      else let line = \<lparr>sl_value = fr_line f, sl_ending = [c]\<rparr>; (b', ok) = reserve_metadata_item b in
        if \<not> ok then (clear_event f, b')
        else case (fr_lines f, idle_control_kind (fr_line f)) of
          ([], Some k) \<Rightarrow>
            complete (f\<lparr>fr_line := [], fr_event := []\<rparr>)
              \<lparr>ev_bytes = fr_event f, ev_lines = [line], ev_terminator = [], ev_continuation = False,
               ev_idle = Some k, pe_target = LastLine\<rparr> c b'
        | _ \<Rightarrow> (f\<lparr>fr_line := [], fr_lines := fr_lines f @ [line]\<rparr>, b'))"

definition finish_line :: "framer \<Rightarrow> byte \<Rightarrow> frame_batch \<Rightarrow> framer \<times> frame_batch" where
  "finish_line f c b =
     (if fr_discarding f then
        (f\<lparr>fr_discarding := (if fr_discarding_data f then fr_discarding f else False), fr_discarding_data := False\<rparr>, b)
      else if event_bytes (fr_limits f) < length (fr_event f) + 1 then
        (start_discarding f (fr_line f \<noteq> []) False, reject b EventLimit)
      else let f = f\<lparr>fr_event := fr_event f @ [c]\<rparr> in
        if fr_line f = [] then finish_event f c b else finish_field f c b)"

definition reset_cr :: "framer \<Rightarrow> framer" where
  "reset_cr f = f\<lparr>fr_skip_lf := False, fr_emit_lf := False, fr_emitted_cr := 0\<rparr>"

definition append_lf :: "pending_event \<Rightarrow> pending_event" where
  "append_lf p = (let p = p\<lparr>ev_bytes := ev_bytes p @ [LF]\<rparr> in
     case pe_target p of
       Terminator \<Rightarrow> p\<lparr>ev_terminator := ev_terminator p @ [LF]\<rparr>
     | LastLine \<Rightarrow> (if ev_lines p = [] then p
         else p\<lparr>ev_lines := butlast (ev_lines p) @
             [(last (ev_lines p))\<lparr>sl_ending := sl_ending (last (ev_lines p)) @ [LF]\<rparr>]\<rparr>))"

definition continuation_event :: pending_event where
  "continuation_event = \<lparr>ev_bytes = [LF], ev_lines = [], ev_terminator = [LF], ev_continuation = True,
     ev_idle = None, pe_target = Terminator\<rparr>"

text \<open>The LF of a CRLF whose CR has been handled already.\<close>

definition lf_after_cr :: "framer \<Rightarrow> frame_batch \<Rightarrow> framer \<times> frame_batch" where
  "lf_after_cr f b =
     (if fr_discarding f then (f, b)
      else if fr_lines f \<noteq> [] then
        (if event_bytes (fr_limits f) \<le> length (fr_event f) then (start_discarding f True False, reject b EventLimit)
         else (f\<lparr>fr_lines := butlast (fr_lines f) @
                  [(last (fr_lines f))\<lparr>sl_ending := sl_ending (last (fr_lines f)) @ [LF]\<rparr>],
                fr_event := fr_event f @ [LF], fr_emit_lf := False, fr_emitted_cr := 0\<rparr>, b))
      else (f\<lparr>fr_emit_lf := False, fr_emitted_cr := 0\<rparr>,
        if \<not> fr_emit_lf f then b
        else if event_bytes (fr_limits f) \<le> fr_emitted_cr f then reject b EventLimit
        else emit b continuation_event (fr_limits f)))"

definition dispatch_byte :: "framer \<Rightarrow> byte \<Rightarrow> frame_batch \<Rightarrow> framer \<times> frame_batch" where
  "dispatch_byte f c b =
     (if c = LF then finish_line f c b
      else if c = CR then (case finish_line f c b of (f, b) \<Rightarrow> (f\<lparr>fr_skip_lf := True\<rparr>, b))
      else push_field_byte f c b)"

definition push_settled :: "framer \<Rightarrow> byte \<Rightarrow> frame_batch \<Rightarrow> framer \<times> frame_batch" where
  "push_settled f c b =
     (if fr_skip_lf f then
        (if c = LF then lf_after_cr (f\<lparr>fr_skip_lf := False\<rparr>) b
         else dispatch_byte (f\<lparr>fr_skip_lf := False, fr_emitted_cr := 0\<rparr>) c b)
      else dispatch_byte f c b)"

definition push_byte :: "framer \<Rightarrow> byte \<Rightarrow> frame_batch \<Rightarrow> framer \<times> frame_batch" where
  "push_byte f c b = (case fr_completed f of
      None \<Rightarrow> push_settled f c b
    | Some p \<Rightarrow>
        let g = reset_cr (f\<lparr>fr_completed := None\<rparr>) in
        if fr_skip_lf f \<and> c = LF then
          (if event_bytes (fr_limits f) \<le> length (ev_bytes p) then (g, reject b EventLimit)
           else (g, emit b (append_lf p) (fr_limits f)))
        else push_settled g c (emit b p (fr_limits f)))"

subsection \<open>One chunk\<close>

fun push_bytes :: "framer \<Rightarrow> string \<Rightarrow> frame_batch \<Rightarrow> framer \<times> frame_batch" where
  "push_bytes f [] b = (f, b)"
| "push_bytes f (c # cs) b =
     (if fb_rejection b = Some BatchLimit then (f\<lparr>fr_rejected := True\<rparr>, b)
      else case push_byte f c b of (f, b) \<Rightarrow> push_bytes f cs b)"

definition flush_completed :: "framer \<Rightarrow> frame_batch \<Rightarrow> framer \<times> frame_batch" where
  "flush_completed f b = (case fr_completed f of
      None \<Rightarrow> (f, b)
    | Some p \<Rightarrow> (f\<lparr>fr_completed := None, fr_emitted_cr := length (ev_bytes p), fr_emit_lf := True\<rparr>,
        emit b p (fr_limits f)))"

definition push :: "framer \<Rightarrow> string \<Rightarrow> framer \<times> frame_batch" where
  "push f chunk =
     (if fr_rejected f then (f, reject empty_batch BatchLimit)
      else case push_bytes f chunk empty_batch of (f, b) \<Rightarrow>
        case flush_completed f b of (f, b) \<Rightarrow>
          (if fb_rejection b = Some BatchLimit then f\<lparr>fr_rejected := True\<rparr> else f, b))"

definition is_complete :: "framer \<Rightarrow> bool" where
  "is_complete f \<longleftrightarrow> \<not> fr_discarding f \<and> fr_event f = [] \<and> fr_line f = []"

definition has_pending_crlf_continuation :: "framer \<Rightarrow> bool" where
  "has_pending_crlf_continuation f = fr_skip_lf f"

text \<open>A response read to its end: one batch per network chunk.\<close>

fun push_all :: "framer \<Rightarrow> string list \<Rightarrow> framer \<times> frame_batch list" where
  "push_all f [] = (f, [])"
| "push_all f (c # cs) = (case push f c of (f, b) \<Rightarrow> case push_all f cs of (f, bs) \<Rightarrow> (f, b # bs))"

subsection \<open>Invariants\<close>

definition line_text :: "sse_line \<Rightarrow> string" where
  "line_text l = sl_value l @ sl_ending l"

definition lines_text :: "sse_line list \<Rightarrow> string" where
  "lines_text ls = concat (map line_text ls)"

definition no_line_end :: "string \<Rightarrow> bool" where
  "no_line_end s \<longleftrightarrow> LF \<notin> set s \<and> CR \<notin> set s"

definition is_ending :: "string \<Rightarrow> bool" where
  "is_ending s \<longleftrightarrow> s = [LF] \<or> s = [CR] \<or> s = [CR, LF]"

definition line_ok :: "sse_line \<Rightarrow> bool" where
  "line_ok l \<longleftrightarrow> sl_value l \<noteq> [] \<and> no_line_end (sl_value l) \<and> is_ending (sl_ending l)"

text \<open>
  What an event is: its bytes are its lines and its terminator, nothing else; a line is a
  field or comment and a line ending; an event of fields ends with an empty line, an idle
  control is a single line of its own, and a continuation is the LF of a CRLF that a chunk
  boundary has split.
\<close>

definition event_ok :: "'a sse_event_scheme \<Rightarrow> bool" where
  "event_ok e \<longleftrightarrow> ev_bytes e = lines_text (ev_lines e) @ ev_terminator e \<and> list_all line_ok (ev_lines e) \<and>
     length (ev_lines e) \<le> max_fields_per_event \<and>
     (case ev_idle e of
        Some k \<Rightarrow> ev_terminator e = [] \<and> \<not> ev_continuation e \<and>
          (\<exists>l. ev_lines e = [l] \<and> idle_control_kind (sl_value l) = Some k)
      | None \<Rightarrow> is_ending (ev_terminator e) \<and> (ev_continuation e \<longrightarrow> ev_lines e = [] \<and> ev_terminator e = [LF]))"

text \<open>An event that a CR has ended, and that may still take the LF of a CRLF.\<close>

definition pending_ok :: "pending_event \<Rightarrow> bool" where
  "pending_ok p \<longleftrightarrow> event_ok p \<and> \<not> ev_continuation p \<and>
     (case pe_target p of
        Terminator \<Rightarrow> ev_idle p = None \<and> ev_terminator p = [CR]
      | LastLine \<Rightarrow> (\<exists>l k. ev_idle p = Some k \<and> ev_lines p = [l] \<and> sl_ending l = [CR]))"

definition framer_ok :: "framer \<Rightarrow> bool" where
  "framer_ok f \<longleftrightarrow> fr_event f = lines_text (fr_lines f) @ fr_line f \<and> length (fr_event f) \<le> event_bytes (fr_limits f) \<and>
     list_all line_ok (fr_lines f) \<and> no_line_end (fr_line f) \<and> length (fr_lines f) \<le> max_fields_per_event \<and>
     (fr_discarding f \<longrightarrow> fr_event f = []) \<and>
     (fr_skip_lf f \<longrightarrow> fr_line f = [] \<and> (fr_lines f \<noteq> [] \<longrightarrow> sl_ending (last (fr_lines f)) = [CR])) \<and>
     (\<forall>p. fr_completed f = Some p \<longrightarrow> pending_ok p \<and> length (ev_bytes p) \<le> event_bytes (fr_limits f) \<and>
        fr_event f = [] \<and> \<not> fr_discarding f \<and> fr_skip_lf f)"

definition batch_ok :: "sse_limits \<Rightarrow> frame_batch \<Rightarrow> bool" where
  "batch_ok l b \<longleftrightarrow> length (fb_events b) \<le> max_frames_per_chunk \<and> fb_metadata b \<le> max_metadata_per_chunk \<and>
     fb_framed b = length (concat (map ev_bytes (fb_events b))) \<and> fb_framed b \<le> framed_bytes l \<and>
     list_all (\<lambda>e. event_ok e \<and> length (ev_bytes e) \<le> event_bytes l) (fb_events b)"

subsection \<open>Lemmas\<close>

lemma lines_text_simps [simp]:
  "lines_text [] = []" "lines_text (l # ls) = line_text l @ lines_text ls" "lines_text (ls @ ls') = lines_text ls @ lines_text ls'"
  by (simp_all add: lines_text_def)

lemma lines_text_Nil_iff: "list_all line_ok ls \<Longrightarrow> lines_text ls = [] \<longleftrightarrow> ls = []"
  by (cases ls) (auto simp: line_ok_def line_text_def)

lemma framer_ok_lines_Nil: "framer_ok f \<Longrightarrow> fr_event f = [] \<Longrightarrow> fr_lines f = [] \<and> fr_line f = []"
  using lines_text_Nil_iff by (auto simp: framer_ok_def)

lemma truncate_simps [simp]:
  "ev_bytes (sse_event.truncate p) = ev_bytes p" "ev_lines (sse_event.truncate p) = ev_lines p"
  "ev_terminator (sse_event.truncate p) = ev_terminator p" "ev_idle (sse_event.truncate p) = ev_idle p"
  "ev_continuation (sse_event.truncate p) = ev_continuation p"
  by (simp_all add: sse_event.truncate_def)

lemma event_ok_truncate [simp]: "event_ok (sse_event.truncate p) = event_ok p"
  by (simp add: event_ok_def split: option.split)

lemma reject_frame [simp]:
  "fb_events (reject b r) = fb_events b" "fb_framed (reject b r) = fb_framed b" "fb_metadata (reject b r) = fb_metadata b"
  "fb_rejection (reject b r) \<noteq> None"
  by (auto simp: reject_def)

lemma batch_ok_reject [simp]: "batch_ok l (reject b r) = batch_ok l b"
  by (simp add: batch_ok_def)

lemma batch_ok_metadata: "batch_ok l b \<Longrightarrow> reserve_metadata_item b = (b', ok) \<Longrightarrow> batch_ok l b'"
  by (auto simp: reserve_metadata_item_def batch_ok_def split: if_splits)

lemma batch_ok_emit:
  assumes "batch_ok l b" and "event_ok p" and "length (ev_bytes p) \<le> event_bytes l"
  shows "batch_ok l (emit b p l)"
  using assms by (auto simp: emit_def reserve_metadata_item_def batch_ok_def)

lemma event_ok_continuation: "event_ok continuation_event"
  by (simp add: event_ok_def continuation_event_def is_ending_def max_fields_per_event_def)

lemma pending_append_lf:
  assumes "pending_ok p"
  shows "event_ok (append_lf p)" and "ev_bytes (append_lf p) = ev_bytes p @ [LF]"
proof -
  show "event_ok (append_lf p)"
  proof (cases "pe_target p")
    case Terminator
    with assms show ?thesis by (auto simp: pending_ok_def append_lf_def event_ok_def is_ending_def Let_def)
  next
    case LastLine
    with assms obtain l k where "ev_idle p = Some k" "ev_lines p = [l]" "sl_ending l = [CR]" by (auto simp: pending_ok_def)
    with assms LastLine show ?thesis
      by (auto simp: pending_ok_def append_lf_def event_ok_def is_ending_def Let_def line_ok_def line_text_def)
  qed
  show "ev_bytes (append_lf p) = ev_bytes p @ [LF]" by (simp add: append_lf_def Let_def split: crlf_target.split)
qed

lemma framer_ok_update [simp]:
  "framer_ok (f\<lparr>fr_discarding_data := x\<rparr>) = framer_ok f" "framer_ok (f\<lparr>fr_emit_lf := x\<rparr>) = framer_ok f"
  "framer_ok (f\<lparr>fr_emitted_cr := n\<rparr>) = framer_ok f" "framer_ok (f\<lparr>fr_rejected := x\<rparr>) = framer_ok f"
  by (simp_all add: framer_ok_def)

lemma framer_ok_discard [simp]:
  assumes "framer_ok f" and "fr_completed f = None"
  shows "framer_ok (start_discarding f d h)"
  using assms by (simp add: framer_ok_def start_discarding_def clear_event_def no_line_end_def)

text \<open>Every step keeps both invariants, and leaves the limits alone.\<close>

abbreviation step_ok :: "framer \<Rightarrow> framer \<times> frame_batch \<Rightarrow> bool" where
  "step_ok f r \<equiv> framer_ok (fst r) \<and> batch_ok (fr_limits f) (snd r) \<and> fr_limits (fst r) = fr_limits f"

lemma push_field_byte_ok:
  assumes "framer_ok f" and "batch_ok (fr_limits f) b" and "fr_completed f = None" and "\<not> fr_skip_lf f"
    and "c \<noteq> LF" and "c \<noteq> CR"
  shows "step_ok f (push_field_byte f c b)"
proof -
  have "framer_ok (f\<lparr>fr_event := fr_event f @ [c], fr_line := fr_line f @ [c]\<rparr>)"
    if "\<not> fr_discarding f" "length (fr_event f) < event_bytes (fr_limits f)"
    using assms that by (auto simp: framer_ok_def no_line_end_def)
  then show ?thesis
    using assms(1-3) by (auto simp: push_field_byte_def start_discarding_def clear_event_def
        intro!: framer_ok_discard [unfolded start_discarding_def clear_event_def])
qed

lemma complete_ok:
  assumes "framer_ok f" and "batch_ok (fr_limits f) b" and "fr_completed f = None" and "fr_event f = []"
    and "\<not> fr_discarding f" and "event_ok p" and "c = CR \<Longrightarrow> pending_ok p" and "length (ev_bytes p) \<le> event_bytes (fr_limits f)"
    and "complete f p c b = (f', b')"
  shows "framer_ok (f'\<lparr>fr_skip_lf := c = CR\<rparr>)" and "batch_ok (fr_limits f) b'" and "fr_limits f' = fr_limits f"
  using assms framer_ok_lines_Nil [OF assms(1,4)]
  by (auto simp: complete_def batch_ok_emit split: if_splits)
    (auto simp: framer_ok_def)
lemma framer_ok_settle:
  "framer_ok f \<Longrightarrow> fr_completed f = None \<Longrightarrow> framer_ok (f\<lparr>fr_skip_lf := False\<rparr>)"
  "framer_ok f \<Longrightarrow> framer_ok (reset_cr (f\<lparr>fr_completed := None\<rparr>))"
  "framer_ok f \<Longrightarrow> framer_ok (f\<lparr>fr_completed := None\<rparr>)"
  "framer_ok f \<Longrightarrow> fr_discarding f \<Longrightarrow> framer_ok (f\<lparr>fr_discarding := d\<rparr>)"
  by (auto simp: framer_ok_def reset_cr_def)

lemma finish_event_ok:
  assumes "framer_ok (f\<lparr>fr_event := butlast (fr_event f)\<rparr>)" and "fr_event f = lines_text (fr_lines f) @ [c]" and "fr_line f = []"
    and "batch_ok (fr_limits f) b" and "fr_completed f = None" and "\<not> fr_discarding f" and "c = LF \<or> c = CR"
    and "length (fr_event f) \<le> event_bytes (fr_limits f)" and "finish_event f c b = (f', b')"
  shows "framer_ok (f'\<lparr>fr_skip_lf := c = CR\<rparr>) \<and> batch_ok (fr_limits f) b' \<and> fr_limits f' = fr_limits f"
proof -
  let ?p = "\<lparr>ev_bytes = fr_event f, ev_lines = fr_lines f, ev_terminator = [c], ev_continuation = False,
        ev_idle = None, pe_target = Terminator\<rparr>"
  have "event_ok ?p" using assms by (auto simp: event_ok_def framer_ok_def is_ending_def)
  moreover have "c = CR \<Longrightarrow> pending_ok ?p" using \<open>event_ok ?p\<close> by (simp add: pending_ok_def)
  moreover have "framer_ok (f\<lparr>fr_event := [], fr_lines := []\<rparr>)"
    using assms by (auto simp: framer_ok_def no_line_end_def)
  ultimately show ?thesis
    using complete_ok [of "f\<lparr>fr_event := [], fr_lines := []\<rparr>" b ?p c f' b'] assms(4-9) by (simp add: finish_event_def)
qed

lemma finish_field_ok:
  assumes "framer_ok (f\<lparr>fr_event := butlast (fr_event f)\<rparr>)" and "fr_event f = lines_text (fr_lines f) @ fr_line f @ [c]"
    and "fr_line f \<noteq> []" and "batch_ok (fr_limits f) b" and "fr_completed f = None" and "\<not> fr_discarding f" and "c = LF \<or> c = CR"
    and "length (fr_event f) \<le> event_bytes (fr_limits f)" and "finish_field f c b = (f', b')"
  shows "framer_ok (f'\<lparr>fr_skip_lf := c = CR\<rparr>) \<and> batch_ok (fr_limits f) b' \<and> fr_limits f' = fr_limits f"
proof (cases "max_fields_per_event \<le> length (fr_lines f)")
  case True
  with assms show ?thesis
    by (auto simp: finish_field_def start_discarding_def clear_event_def framer_ok_def no_line_end_def)
next
  case False
  let ?line = "\<lparr>sl_value = fr_line f, sl_ending = [c]\<rparr>"
  obtain b1 ok where res: "reserve_metadata_item b = (b1, ok)" by force
  have b1: "batch_ok (fr_limits f) b1" by (rule batch_ok_metadata [OF assms(4) res])
  have lines: "list_all line_ok (fr_lines f)" "no_line_end (fr_line f)" using assms(1) by (auto simp: framer_ok_def)
  have line: "line_ok ?line" "line_text ?line = fr_line f @ [c]"
    using assms(3,7) lines by (auto simp: line_ok_def is_ending_def line_text_def)
  show ?thesis
  proof (cases "ok \<and> fr_lines f = [] \<and> idle_control_kind (fr_line f) \<noteq> None")
    case True
    then obtain k where k: "idle_control_kind (fr_line f) = Some k" by auto
    let ?p = "\<lparr>ev_bytes = fr_event f, ev_lines = [?line], ev_terminator = [], ev_continuation = False,
               ev_idle = Some k, pe_target = LastLine\<rparr>"
    have "event_ok ?p"
      using True assms(2) line k by (simp add: event_ok_def max_fields_per_event_def)
    moreover have "c = CR \<Longrightarrow> pending_ok ?p" using \<open>event_ok ?p\<close> by (simp add: pending_ok_def)
    moreover have "framer_ok (f\<lparr>fr_line := [], fr_event := []\<rparr>)"
      using True assms by (auto simp: framer_ok_def no_line_end_def)
    ultimately show ?thesis
      using complete_ok [of "f\<lparr>fr_line := [], fr_event := []\<rparr>" b1 ?p c f' b'] True False k b1 assms(4-9) res
      by (simp add: finish_field_def)
  next
    case no: False
    then have "(f', b') = (if ok then f\<lparr>fr_line := [], fr_lines := fr_lines f @ [?line]\<rparr> else clear_event f, b1)"
      using assms(9) False res by (auto simp: finish_field_def Let_def split: list.splits option.splits)
    moreover have "framer_ok ((f\<lparr>fr_line := [], fr_lines := fr_lines f @ [?line]\<rparr>)\<lparr>fr_skip_lf := c = CR\<rparr>)"
      using assms lines line False by (auto simp: framer_ok_def no_line_end_def)
    moreover have "framer_ok ((clear_event f)\<lparr>fr_skip_lf := c = CR\<rparr>)"
      using assms by (auto simp: framer_ok_def clear_event_def no_line_end_def)
    ultimately show ?thesis using b1 by (auto simp: clear_event_def)
  qed
qed

lemma finish_line_ok:
  assumes "framer_ok f" and "batch_ok (fr_limits f) b" and "fr_completed f = None" and "\<not> fr_skip_lf f" and "c = LF \<or> c = CR"
    and "finish_line f c b = (f', b')"
  shows "framer_ok (f'\<lparr>fr_skip_lf := c = CR\<rparr>) \<and> batch_ok (fr_limits f) b' \<and> fr_limits f' = fr_limits f"
proof -
  consider (discarding) "fr_discarding f" | (full) "\<not> fr_discarding f" "event_bytes (fr_limits f) < length (fr_event f) + 1"
    | (event) "\<not> fr_discarding f" "length (fr_event f) + 1 \<le> event_bytes (fr_limits f)" "fr_line f = []"
    | (field) "\<not> fr_discarding f" "length (fr_event f) + 1 \<le> event_bytes (fr_limits f)" "fr_line f \<noteq> []"
    by fastforce
  then show ?thesis
  proof cases
    case discarding
    then have "fr_event f = []" using assms(1) unfolding framer_ok_def by blast
    with framer_ok_lines_Nil [OF assms(1)] have n: "fr_event f = []" "fr_lines f = []" "fr_line f = []" by simp_all
    moreover have "f' = f\<lparr>fr_discarding := (if fr_discarding_data f then fr_discarding f else False), fr_discarding_data := False\<rparr>" "b' = b"
      using assms(6) discarding by (auto simp: finish_line_def)
    ultimately show ?thesis using assms(2,3) by (simp add: framer_ok_def no_line_end_def)
  next
    case full
    with assms show ?thesis
      by (auto simp: finish_line_def start_discarding_def clear_event_def framer_ok_def no_line_end_def)
  next
    case event
    let ?g = "f\<lparr>fr_event := fr_event f @ [c]\<rparr>"
    have "fr_event f = lines_text (fr_lines f)" using assms(1) event(3) by (simp add: framer_ok_def)
    moreover have "framer_ok (?g\<lparr>fr_event := butlast (fr_event ?g)\<rparr>)" using assms(1) by simp
    moreover have "finish_event ?g c b = (f', b')" using assms(6) event by (simp add: finish_line_def Let_def)
    ultimately show ?thesis using finish_event_ok [of ?g c b f' b'] event assms(2-5) by simp
  next
    case field
    let ?g = "f\<lparr>fr_event := fr_event f @ [c]\<rparr>"
    have "fr_event f = lines_text (fr_lines f) @ fr_line f" using assms(1) by (simp add: framer_ok_def)
    moreover have "framer_ok (?g\<lparr>fr_event := butlast (fr_event ?g)\<rparr>)" using assms(1) by simp
    moreover have "finish_field ?g c b = (f', b')" using assms(6) field by (simp add: finish_line_def Let_def)
    ultimately show ?thesis using finish_field_ok [of ?g c b f' b'] field assms(2-5) by simp
  qed
qed

lemma finish_line_skip: "fr_skip_lf (fst (finish_line f c b)) = fr_skip_lf f"
  by (simp add: finish_line_def start_discarding_def clear_event_def finish_event_def finish_field_def complete_def
      Let_def split: prod.split list.split option.split)

lemma dispatch_byte_ok:
  assumes "framer_ok f" and "batch_ok (fr_limits f) b" and "fr_completed f = None" and "\<not> fr_skip_lf f"
  shows "step_ok f (dispatch_byte f c b)"
proof (cases "c = LF \<or> c = CR")
  case True
  obtain f' b' where r: "finish_line f c b = (f', b')" by force
  have "framer_ok (f'\<lparr>fr_skip_lf := c = CR\<rparr>) \<and> batch_ok (fr_limits f) b' \<and> fr_limits f' = fr_limits f"
    by (rule finish_line_ok [OF assms True r])
  moreover have "f' = f'\<lparr>fr_skip_lf := False\<rparr>" using finish_line_skip [of f c b] assms(4) by (simp add: r)
  ultimately show ?thesis using True r by (cases "c = LF") (simp_all add: dispatch_byte_def)
qed (use assms push_field_byte_ok in \<open>simp add: dispatch_byte_def\<close>)

lemma lf_after_cr_ok:
  assumes "framer_ok f" and "batch_ok (fr_limits f) b" and "fr_completed f = None" and "fr_skip_lf f"
  shows "step_ok f (lf_after_cr (f\<lparr>fr_skip_lf := False\<rparr>) b)"
proof -
  let ?g = "f\<lparr>fr_skip_lf := False\<rparr>"
  have g: "framer_ok ?g" using assms(1,3) by (rule framer_ok_settle)
  consider (discarding) "fr_discarding f" | (line) "\<not> fr_discarding f" "fr_lines f \<noteq> []" | (none) "\<not> fr_discarding f" "fr_lines f = []"
    by blast
  then show ?thesis
  proof cases
    case discarding
    with g assms show ?thesis by (simp add: lf_after_cr_def)
  next
    case line
    let ?l = "last (fr_lines f)"
    have l: "line_ok ?l" "sl_ending ?l = [CR]" and ls: "list_all line_ok (butlast (fr_lines f))"
      "fr_lines f = butlast (fr_lines f) @ [?l]" and e: "fr_event f = lines_text (butlast (fr_lines f) @ [?l])" "fr_line f = []"
      using assms(1,4) line(2) by (auto simp: framer_ok_def list_all_iff dest: in_set_butlastD)
    have whole: "lines_text (fr_lines f) = lines_text (butlast (fr_lines f)) @ sl_value ?l @ [CR]"
      using arg_cong [OF ls(2), of lines_text] l(2) by (simp add: line_text_def)
    let ?h = "f\<lparr>fr_skip_lf := False, fr_lines := butlast (fr_lines f) @ [?l\<lparr>sl_ending := sl_ending ?l @ [LF]\<rparr>],
        fr_event := fr_event f @ [LF], fr_emit_lf := False, fr_emitted_cr := 0\<rparr>"
    have "framer_ok ?h" if "length (fr_event f) < event_bytes (fr_limits f)"
      using that assms(1,3) line l ls(1) e whole
      by (auto simp: framer_ok_def no_line_end_def line_text_def line_ok_def is_ending_def)
    with g line assms show ?thesis
      by (auto simp: lf_after_cr_def start_discarding_def clear_event_def
          intro!: framer_ok_discard [unfolded start_discarding_def clear_event_def])
  next
    case none
    have "length (ev_bytes continuation_event) \<le> event_bytes (fr_limits f)" if "fr_emitted_cr f < event_bytes (fr_limits f)"
      using that by (simp add: continuation_event_def)
    with g none assms(2) show ?thesis
      by (auto simp: lf_after_cr_def intro!: batch_ok_emit event_ok_continuation)
  qed
qed

lemma push_settled_ok:
  assumes "framer_ok f" and "batch_ok (fr_limits f) b" and "fr_completed f = None"
  shows "step_ok f (push_settled f c b)"
proof -
  have "framer_ok (f\<lparr>fr_skip_lf := False, fr_emitted_cr := 0\<rparr>)" using framer_ok_settle(1) [OF assms(1,3)] by simp
  then show ?thesis
    using assms lf_after_cr_ok [OF assms] dispatch_byte_ok [OF assms]
      dispatch_byte_ok [of "f\<lparr>fr_skip_lf := False, fr_emitted_cr := 0\<rparr>" b c]
    by (auto simp: push_settled_def)
qed

lemma push_byte_ok:
  assumes "framer_ok f" and "batch_ok (fr_limits f) b"
  shows "step_ok f (push_byte f c b)"
proof (cases "fr_completed f")
  case None
  with assms push_settled_ok show ?thesis by (simp add: push_byte_def)
next
  case (Some p)
  let ?g = "reset_cr (f\<lparr>fr_completed := None\<rparr>)"
  have p: "pending_ok p" "length (ev_bytes p) \<le> event_bytes (fr_limits f)" "fr_event f = []"
    using assms(1) Some unfolding framer_ok_def by blast+
  have g: "framer_ok ?g" "fr_limits ?g = fr_limits f" "fr_completed ?g = None"
    using framer_ok_settle(2) [OF assms(1)] by (simp_all add: reset_cr_def)
  have "batch_ok (fr_limits f) (emit b p (fr_limits f))"
    using p assms(2) by (intro batch_ok_emit) (auto simp: pending_ok_def)
  then have "step_ok ?g (push_settled ?g c (emit b p (fr_limits f)))" using g by (intro push_settled_ok) simp_all
  moreover have "batch_ok (fr_limits f) (emit b (append_lf p) (fr_limits f))" if "length (ev_bytes p) < event_bytes (fr_limits f)"
    using that p assms(2) by (intro batch_ok_emit) (simp_all add: pending_append_lf)
  ultimately show ?thesis using g assms(2) Some by (auto simp: push_byte_def Let_def)
qed

lemma push_bytes_ok:
  "framer_ok f \<Longrightarrow> batch_ok (fr_limits f) b \<Longrightarrow> step_ok f (push_bytes f cs b)"
proof (induction f cs b rule: push_bytes.induct)
  case (2 f c cs b)
  obtain f1 b1 where r: "push_byte f c b = (f1, b1)" by force
  have "step_ok f (f1, b1)" using push_byte_ok [OF "2.prems", of c] by (simp add: r)
  then show ?case using "2.IH" [OF _ r [symmetric]] "2.prems" by (simp add: r)
qed simp

lemma batch_ok_empty [simp]: "batch_ok l empty_batch"
  by (simp add: batch_ok_def empty_batch_def)

lemma flush_completed_ok:
  assumes "framer_ok f" and "batch_ok (fr_limits f) b"
  shows "step_ok f (flush_completed f b)"
proof (cases "fr_completed f")
  case (Some p)
  then have "batch_ok (fr_limits f) (emit b p (fr_limits f))"
    using assms by (intro batch_ok_emit) (auto simp: framer_ok_def pending_ok_def)
  with Some framer_ok_settle(3) [OF assms(1)] show ?thesis by (simp add: flush_completed_def)
qed (use assms in \<open>simp add: flush_completed_def\<close>)

lemma push_ok: "framer_ok f \<Longrightarrow> step_ok f (push f chunk)"
  using push_bytes_ok [of f empty_batch chunk] flush_completed_ok
  by (force simp: push_def split: prod.split)
paragraph \<open>Losslessness\<close>

definition delivered :: "frame_batch \<Rightarrow> string" where
  "delivered b = concat (map ev_bytes (fb_events b))"

definition retained :: "framer \<Rightarrow> string" where
  "retained f = (case fr_completed f of None \<Rightarrow> [] | Some p \<Rightarrow> ev_bytes p) @ fr_event f"

text \<open>A framer that has not dropped anything knows where the LF of a pending CRLF belongs.\<close>

definition clean :: "framer \<Rightarrow> bool" where
  "clean f \<longleftrightarrow> framer_ok f \<and> \<not> fr_discarding f \<and>
     (fr_skip_lf f \<and> fr_completed f = None \<and> fr_lines f = [] \<longrightarrow> fr_emit_lf f)"

lemma delivered_reject [simp]: "delivered (reject b r) = delivered b"
  by (simp add: delivered_def)

lemma reserve_accepted:
  "reserve_metadata_item b = (b', ok) \<Longrightarrow> fb_rejection b' = None \<Longrightarrow>
     ok \<and> fb_rejection b = None \<and> delivered b' = delivered b \<and> fb_events b' = fb_events b"
  by (auto simp: reserve_metadata_item_def delivered_def split: if_splits)

lemma emit_accepted:
  assumes "fb_rejection (emit b p l) = None"
  shows "fb_rejection b = None" and "fb_events (emit b p l) = fb_events b @ [sse_event.truncate p]"
    and "delivered (emit b p l) = delivered b @ ev_bytes p"
  using assms by (auto simp: emit_def reserve_metadata_item_def delivered_def split: if_splits)

lemma complete_accepted:
  assumes "complete f p c b = (f', b')" and "fb_rejection b' = None" and "fr_completed f = None" and "fr_event f = []"
  shows "fb_rejection b = None \<and> delivered b' @ retained f' = delivered b @ ev_bytes p \<and> fr_discarding f' = fr_discarding f \<and>
    (c = CR \<longrightarrow> fr_completed f' \<noteq> None) \<and> fr_emit_lf f' = fr_emit_lf f"
  using assms emit_accepted [of b p "fr_limits f"] by (auto simp: complete_def retained_def split: if_splits)

lemma reserve_metadata_cases:
  "reserve_metadata_item b = (b', ok) \<Longrightarrow> if ok then b' = b\<lparr>fb_metadata := fb_metadata b + 1\<rparr> \<and> delivered b' = delivered b
     else fb_rejection b' \<noteq> None"
  by (auto simp: reserve_metadata_item_def delivered_def reject_def split: if_splits)

lemma finish_field_eq:
  assumes "length (fr_lines f) < max_fields_per_event" and "reserve_metadata_item b = (b', ok)"
  shows "finish_field f c b = (if \<not> ok then (clear_event f, b')
    else if fr_lines f = [] \<and> idle_control_kind (fr_line f) \<noteq> None then
      complete (f\<lparr>fr_line := [], fr_event := []\<rparr>)
        \<lparr>ev_bytes = fr_event f, ev_lines = [\<lparr>sl_value = fr_line f, sl_ending = [c]\<rparr>], ev_terminator = [],
         ev_continuation = False, ev_idle = idle_control_kind (fr_line f), pe_target = LastLine\<rparr> c b'
    else (f\<lparr>fr_line := [], fr_lines := fr_lines f @ [\<lparr>sl_value = fr_line f, sl_ending = [c]\<rparr>]\<rparr>, b'))"
  using assms by (auto simp: finish_field_def Let_def split: list.split option.split)

lemma finish_line_accepted:
  assumes "finish_line f c b = (f', b')" and "fb_rejection b' = None" and "fr_completed f = None" and "\<not> fr_discarding f"
  shows "fb_rejection b = None \<and> delivered b' @ retained f' = delivered b @ fr_event f @ [c] \<and> \<not> fr_discarding f' \<and>
    (c = CR \<longrightarrow> fr_completed f' \<noteq> None \<or> fr_lines f' \<noteq> []) \<and> fr_emit_lf f' = fr_emit_lf f"
proof -
  let ?g = "f\<lparr>fr_event := fr_event f @ [c]\<rparr>"
  have r: "(if fr_line f = [] then finish_event ?g c b else finish_field ?g c b) = (f', b')"
    using assms by (auto simp: finish_line_def Let_def split: if_splits)
  show ?thesis
  proof (cases "fr_line f = []")
    case True
    with r assms complete_accepted show ?thesis by (fastforce simp: finish_event_def)
  next
    case False
    obtain b1 ok where res: "reserve_metadata_item b = (b1, ok)" by force
    let ?line = "\<lparr>sl_value = fr_line f, sl_ending = [c]\<rparr>"
    have few: "length (fr_lines f) < max_fields_per_event"
      using False r assms(2) by (auto simp: finish_field_def not_less split: if_splits)
    note r' = r [unfolded finish_field_eq [of ?g, simplified, OF few res]]
    have ok: "ok" "fb_rejection b1 = fb_rejection b" "delivered b1 = delivered b"
      using r' False assms(2) reserve_metadata_cases [OF res] by (auto split: if_splits)
    show ?thesis
    proof (cases "fr_lines f = [] \<and> idle_control_kind (fr_line f) \<noteq> None")
      case True
      then obtain k where k: "idle_control_kind (fr_line f) = Some k" by auto
      have "complete (?g\<lparr>fr_line := [], fr_event := []\<rparr>)
              \<lparr>ev_bytes = fr_event f @ [c], ev_lines = [?line], ev_terminator = [], ev_continuation = False,
               ev_idle = Some k, pe_target = LastLine\<rparr> c b1 = (f', b')"
        using True False r' ok k by simp
      from complete_accepted [OF this assms(2)] assms(3,4) ok show ?thesis by auto
    next
      case no: False
      then have "(f', b') = (?g\<lparr>fr_line := [], fr_lines := fr_lines f @ [?line]\<rparr>, b1)"
        using False r' ok by (auto split: if_splits)
      with assms ok show ?thesis by (simp add: retained_def)
    qed
  qed
qed

text \<open>What a step that rejects nothing does: no byte is lost, none is added, none changes place.\<close>

definition conveys :: "framer \<Rightarrow> frame_batch \<Rightarrow> string \<Rightarrow> framer \<times> frame_batch \<Rightarrow> bool" where
  "conveys f b s r \<longleftrightarrow> (fb_rejection (snd r) = None \<longrightarrow>
     clean (fst r) \<and> fb_rejection b = None \<and> delivered (snd r) @ retained (fst r) = delivered b @ retained f @ s)"

lemma conveys_trans:
  "conveys f b s (f1, b1) \<Longrightarrow> (clean f1 \<Longrightarrow> conveys f1 b1 s' r) \<Longrightarrow> (fb_rejection (snd r) = None \<Longrightarrow> fb_rejection b1 = None) \<Longrightarrow>
     conveys f b (s @ s') r"
  by (auto simp: conveys_def)

lemma dispatch_byte_conveys:
  assumes f: "framer_ok f" "\<not> fr_discarding f" "fr_completed f = None" "\<not> fr_skip_lf f" and b: "batch_ok (fr_limits f) b"
  shows "conveys f b [c] (dispatch_byte f c b)"
proof -
  have ok: "framer_ok (fst (dispatch_byte f c b))" using dispatch_byte_ok [OF f(1) b f(3,4)] by blast
  show ?thesis
  proof (cases "c = LF \<or> c = CR")
    case True
    obtain f1 b1 where r: "finish_line f c b = (f1, b1)" by force
    have d: "dispatch_byte f c b = (f1\<lparr>fr_skip_lf := c = CR\<rparr>, b1)"
    proof (cases "c = LF")
      case True
      moreover have "f1 = f1\<lparr>fr_skip_lf := False\<rparr>" using finish_line_skip [of f c b] f(4) by (simp add: r)
      ultimately show ?thesis using r by (simp add: dispatch_byte_def)
    qed (use True r in \<open>simp add: dispatch_byte_def\<close>)
    show ?thesis
      unfolding conveys_def d fst_conv snd_conv
    proof
      assume none: "fb_rejection b1 = None"
      from finish_line_accepted [OF r none f(3,2)] ok
      show "clean (f1\<lparr>fr_skip_lf := c = CR\<rparr>) \<and> fb_rejection b = None \<and>
          delivered b1 @ retained (f1\<lparr>fr_skip_lf := c = CR\<rparr>) = delivered b @ retained f @ [c]"
        using f(3) by (auto simp: d clean_def retained_def)
    qed
  next
    case False
    with ok f show ?thesis
      by (auto simp: conveys_def dispatch_byte_def push_field_byte_def clean_def retained_def start_discarding_def
          clear_event_def)
  qed
qed

lemma lf_after_cr_conveys:
  assumes f: "clean f" "fr_completed f = None" "fr_skip_lf f" and b: "batch_ok (fr_limits f) b"
  shows "conveys f b [LF] (lf_after_cr (f\<lparr>fr_skip_lf := False\<rparr>) b)"
proof -
  let ?g = "f\<lparr>fr_skip_lf := False\<rparr>"
  have fok: "framer_ok f" and nd: "\<not> fr_discarding f" using f(1) by (auto simp: clean_def)
  have ok: "framer_ok (fst (lf_after_cr ?g b))" using lf_after_cr_ok [OF fok b f(2,3)] by blast
  show ?thesis
  proof (cases "fr_lines f = []")
    case True
    then have emit: "fr_emit_lf f" and "fr_event f = []" using f fok by (auto simp: clean_def framer_ok_def)
    with True nd ok f(2) show ?thesis
      using emit_accepted [of b continuation_event "fr_limits f"]
      by (auto simp: conveys_def lf_after_cr_def clean_def retained_def continuation_event_def)
  next
    case False
    with nd ok f(2) show ?thesis
      by (auto simp: conveys_def lf_after_cr_def clean_def retained_def start_discarding_def clear_event_def)
  qed
qed

lemma push_settled_conveys:
  assumes "clean f" "fr_completed f = None" "batch_ok (fr_limits f) b"
  shows "conveys f b [c] (push_settled f c b)"
proof (cases "fr_skip_lf f")
  case True
  let ?g = "f\<lparr>fr_skip_lf := False, fr_emitted_cr := 0\<rparr>"
  have "framer_ok ?g" using assms framer_ok_settle(1) by (simp add: clean_def)
  then have "conveys ?g b [c] (dispatch_byte ?g c b)" using assms by (intro dispatch_byte_conveys) (auto simp: clean_def)
  moreover have "retained ?g = retained f" by (simp add: retained_def)
  ultimately have "conveys f b [c] (dispatch_byte ?g c b)" by (simp add: conveys_def)
  then show ?thesis using True lf_after_cr_conveys [OF assms(1,2) True assms(3)] by (simp add: push_settled_def)
next
  case False
  with assms show ?thesis by (simp add: push_settled_def dispatch_byte_conveys clean_def)
qed

lemma push_byte_conveys:
  assumes "clean f" "batch_ok (fr_limits f) b"
  shows "conveys f b [c] (push_byte f c b)"
proof (cases "fr_completed f")
  case None
  with assms show ?thesis by (simp add: push_byte_def push_settled_conveys)
next
  case (Some p)
  let ?g = "reset_cr (f\<lparr>fr_completed := None\<rparr>)" and ?b = "emit b p (fr_limits f)"
  have fok: "framer_ok f" and nd: "\<not> fr_discarding f" using assms(1) by (auto simp: clean_def)
  have p: "pending_ok p" "length (ev_bytes p) \<le> event_bytes (fr_limits f)" "fr_event f = []" "fr_skip_lf f"
    using fok Some unfolding framer_ok_def by blast+
  have g: "clean ?g" "fr_limits ?g = fr_limits f" "fr_completed ?g = None" "retained ?g = []" "retained f = ev_bytes p"
    using framer_ok_settle(2) [OF fok] nd p(3) Some by (simp_all add: clean_def reset_cr_def retained_def)
  have b: "batch_ok (fr_limits f) ?b" using p assms(2) by (intro batch_ok_emit) (auto simp: pending_ok_def)
  show ?thesis
  proof (cases "c = LF")
    case True
    with Some p g show ?thesis
      using emit_accepted [of b "append_lf p" "fr_limits f"] pending_append_lf(2) [OF p(1)]
      by (auto simp: push_byte_def Let_def conveys_def)
  next
    case False
    have "conveys ?g ?b [c] (push_settled ?g c ?b)" using g b by (intro push_settled_conveys) simp_all
    with False Some g show ?thesis
      using emit_accepted [of b p "fr_limits f"] by (auto simp: push_byte_def Let_def conveys_def)
  qed
qed

text \<open>A rejection is never taken back.\<close>

lemma complete_rejected: "fb_rejection (snd (complete f p c b)) = None \<Longrightarrow> fb_rejection b = None"
  by (auto simp: complete_def dest: emit_accepted(1) split: if_splits)

lemma finish_line_rejected:
  assumes "fb_rejection (snd (finish_line f c b)) = None"
  shows "fb_rejection b = None"
proof -
  let ?g = "f\<lparr>fr_event := fr_event f @ [c]\<rparr>"
  obtain b1 ok where res: "reserve_metadata_item b = (b1, ok)" by force
  have field: "fb_rejection (snd (finish_field ?g c b)) = None \<Longrightarrow> fb_rejection b = None"
    using reserve_metadata_cases [OF res] finish_field_eq [OF _ res, of ?g c]
    by (cases "max_fields_per_event \<le> length (fr_lines f)")
      (auto simp: finish_field_def [of ?g] not_le dest: complete_rejected split: if_splits)
  have "fb_rejection (snd (finish_event ?g c b)) = None \<Longrightarrow> fb_rejection b = None"
    by (auto simp: finish_event_def dest: complete_rejected)
  with field assms show ?thesis by (auto simp: finish_line_def Let_def split: if_splits)
qed

lemma dispatch_byte_rejected: "fb_rejection (snd (dispatch_byte f c b)) = None \<Longrightarrow> fb_rejection b = None"
  using finish_line_rejected [of f c b]
  by (auto simp: dispatch_byte_def push_field_byte_def split: if_splits prod.splits)

lemma lf_after_cr_rejected: "fb_rejection (snd (lf_after_cr f b)) = None \<Longrightarrow> fb_rejection b = None"
  by (auto simp: lf_after_cr_def dest: emit_accepted(1) split: if_splits)

lemma push_settled_rejected: "fb_rejection (snd (push_settled f c b)) = None \<Longrightarrow> fb_rejection b = None"
  unfolding push_settled_def by (simp split: if_splits) (blast dest: dispatch_byte_rejected lf_after_cr_rejected)+

lemma push_byte_rejected:
  assumes "fb_rejection b \<noteq> None"
  shows "fb_rejection (snd (push_byte f c b)) \<noteq> None"
proof
  assume none: "fb_rejection (snd (push_byte f c b)) = None"
  show False
  proof (cases "fr_completed f")
    case None
    with none have "fb_rejection (snd (push_settled f c b)) = None" by (simp add: push_byte_def)
    from push_settled_rejected [OF this] assms show False by simp
  next
    case (Some p)
    with none have "fb_rejection (emit b (append_lf p) (fr_limits f)) = None \<or>
        fb_rejection (emit b p (fr_limits f)) = None"
      by (auto simp: push_byte_def Let_def dest: push_settled_rejected split: if_splits)
    with assms emit_accepted(1) show False by auto
  qed
qed

lemma push_bytes_rejected: "fb_rejection b \<noteq> None \<Longrightarrow> fb_rejection (snd (push_bytes f cs b)) \<noteq> None"
proof (induction f cs b rule: push_bytes.induct)
  case (2 f c cs b)
  obtain f1 b1 where r: "push_byte f c b = (f1, b1)" by force
  have "fb_rejection b1 \<noteq> None" using push_byte_rejected [OF "2.prems", of f c] by (simp add: r)
  with "2.IH" [OF _ r [symmetric]] "2.prems" show ?case by (simp add: r)
qed simp

lemma push_bytes_conveys:
  "clean f \<Longrightarrow> batch_ok (fr_limits f) b \<Longrightarrow> fb_rejection b = None \<Longrightarrow> conveys f b cs (push_bytes f cs b)"
proof (induction f cs b rule: push_bytes.induct)
  case (1 f b)
  then show ?case by (simp add: conveys_def)
next
  case (2 f c cs b)
  obtain f1 b1 where r: "push_byte f c b = (f1, b1)" by force
  have step: "conveys f b [c] (f1, b1)" using push_byte_conveys [OF "2.prems"(1,2), of c] by (simp add: r)
  have ok: "batch_ok (fr_limits f1) b1" using push_byte_ok [of f b c] "2.prems"(1,2) by (simp add: r clean_def)
  show ?case
  proof (cases "fb_rejection b1")
    case None
    then have "clean f1" using step by (simp add: conveys_def)
    with ok None "2.IH" [OF _ r [symmetric]] "2.prems"(3) have "conveys f1 b1 cs (push_bytes f1 cs b1)" by simp
    with step None "2.prems"(3) show ?thesis by (simp add: r conveys_def)
  next
    case (Some x)
    have "fb_rejection (snd (push_bytes f1 cs b1)) \<noteq> None" by (rule push_bytes_rejected) (simp add: Some)
    with "2.prems"(3) show ?thesis by (auto simp: r conveys_def)
  qed
qed

lemma flush_completed_conveys:
  assumes "clean f" and "batch_ok (fr_limits f) b"
  shows "conveys f b [] (flush_completed f b)"
proof (cases "fr_completed f")
  case None
  with assms show ?thesis by (simp add: flush_completed_def conveys_def)
next
  case (Some p)
  then have "fr_event f = []" using assms(1) unfolding clean_def framer_ok_def by blast
  with Some assms framer_ok_settle(3) [of f] show ?thesis
    using emit_accepted [of b p "fr_limits f"]
    by (auto simp: flush_completed_def conveys_def clean_def retained_def)
qed

lemma push_conveys:
  assumes "clean f" and "fb_rejection (snd (push f chunk)) = None" and that: "fr_completed f = None"
  shows "clean (fst (push f chunk))" and "delivered (snd (push f chunk)) @ fr_event (fst (push f chunk)) = fr_event f @ chunk"
proof -
  obtain f1 b1 where 1: "push_bytes f chunk empty_batch = (f1, b1)" by force
  obtain f2 b2 where 2: "flush_completed f1 b1 = (f2, b2)" by force
  have nr: "\<not> fr_rejected f" "fb_rejection b2 = None" using assms(2) by (auto simp: push_def 1 2 split: if_splits)
  have p: "push f chunk = (f2, b2)" using nr by (simp add: push_def 1 2)
  have c1: "conveys f empty_batch chunk (f1, b1)"
    using push_bytes_conveys [OF assms(1), of empty_batch chunk] by (simp add: 1) (simp add: empty_batch_def)
  have ok1: "batch_ok (fr_limits f1) b1" "framer_ok f1"
    using push_bytes_ok [of f empty_batch chunk] assms(1) by (simp_all add: 1 clean_def)
  have "fb_rejection b1 = None"
    using nr(2) 2 by (auto simp: flush_completed_def dest: emit_accepted(1) split: option.splits)
  then have cl: "clean f1" using c1 by (simp add: conveys_def)
  have c2: "conveys f1 b1 [] (f2, b2)" using flush_completed_conveys [OF cl ok1(1)] by (simp add: 2)
  have "fr_completed f2 = None" using 2 by (auto simp: flush_completed_def split: option.splits)
  then show "clean (fst (push f chunk))" and "delivered (snd (push f chunk)) @ fr_event (fst (push f chunk)) = fr_event f @ chunk"
    using c1 c2 nr(2) \<open>fb_rejection b1 = None\<close> that
    by (auto simp: p conveys_def retained_def delivered_def empty_batch_def)
qed

lemma push_completed: "fr_completed f = None \<Longrightarrow> fr_completed (fst (push f chunk)) = None"
  by (auto simp: push_def flush_completed_def split: prod.split option.split)

lemma with_limits_clean: "clean (with_limits l)"
  by (simp add: clean_def framer_ok_def with_limits_def no_line_end_def)
paragraph \<open>Chunk boundaries\<close>

text \<open>
  The batch a byte is added to influences nothing but whether it is rejected: what fits
  into a fuller batch has the same effect on an emptier one.
\<close>

definition fits :: "sse_event list \<Rightarrow> frame_batch \<Rightarrow> frame_batch \<Rightarrow> bool" where
  "fits es b0 b \<longleftrightarrow> fb_events b = es @ fb_events b0 \<and> fb_framed b0 \<le> fb_framed b \<and> fb_metadata b0 \<le> fb_metadata b \<and>
     fb_rejection b0 = None"

definition same_effect :: "sse_event list \<Rightarrow> framer \<times> frame_batch \<Rightarrow> framer \<times> frame_batch \<Rightarrow> bool" where
  "same_effect es r0 r \<longleftrightarrow> (fb_rejection (snd r) = None \<longrightarrow> fst r0 = fst r \<and> fits es (snd r0) (snd r))"

lemma emit_fits:
  assumes "fits es b0 b" and "fb_rejection (emit b p l) = None"
  shows "fits es (emit b0 p l) (emit b p l)"
  using assms by (auto simp: fits_def emit_def reserve_metadata_item_def split: if_splits)

lemma complete_fits:
  "fits es b0 b \<Longrightarrow> same_effect es (complete f p c b0) (complete f p c b)"
  by (auto simp: same_effect_def complete_def intro: emit_fits)

lemma finish_field_fits:
  assumes "fits es b0 b"
  shows "same_effect es (finish_field f c b0) (finish_field f c b)"
proof (cases "max_fields_per_event \<le> length (fr_lines f) \<or> max_metadata_per_chunk \<le> fb_metadata b")
  case True
  then show ?thesis
    by (auto simp: same_effect_def finish_field_def reserve_metadata_item_def Let_def)
next
  case False
  let ?inc = "\<lambda>b. b\<lparr>fb_metadata := fb_metadata b + 1\<rparr>"
  have "reserve_metadata_item b = (?inc b, True)" "reserve_metadata_item b0 = (?inc b0, True)"
    using False assms by (auto simp: reserve_metadata_item_def fits_def)
  moreover have "fits es (?inc b0) (?inc b)" using assms by (simp add: fits_def)
  ultimately show ?thesis
    using False complete_fits [of es "?inc b0" "?inc b"] by (auto simp: finish_field_eq same_effect_def)
qed

lemma finish_line_fits:
  assumes "fits es b0 b"
  shows "same_effect es (finish_line f c b0) (finish_line f c b)"
  using finish_field_fits [OF assms, of "f\<lparr>fr_event := fr_event f @ [c]\<rparr>" c]
    complete_fits [OF assms, of "f\<lparr>fr_event := [], fr_lines := []\<rparr>" _ c] assms
  by (simp add: finish_line_def finish_event_def Let_def) (auto simp: same_effect_def)

lemma dispatch_byte_fits:
  assumes "fits es b0 b"
  shows "same_effect es (dispatch_byte f c b0) (dispatch_byte f c b)"
  using finish_line_fits [OF assms, of f c] assms
  by (auto simp: dispatch_byte_def push_field_byte_def same_effect_def split: prod.splits)

lemma push_settled_fits:
  assumes "fits es b0 b"
  shows "same_effect es (push_settled f c b0) (push_settled f c b)"
proof -
  have "same_effect es (lf_after_cr f b0) (lf_after_cr f b)" for f
    using assms by (auto simp: same_effect_def lf_after_cr_def intro: emit_fits)
  then show ?thesis using dispatch_byte_fits [OF assms] by (simp add: push_settled_def)
qed

lemma push_byte_fits:
  assumes "fits es b0 b"
  shows "same_effect es (push_byte f c b0) (push_byte f c b)"
proof (cases "fr_completed f")
  case None
  then show ?thesis using push_settled_fits [OF assms] by (simp add: push_byte_def)
next
  case (Some p)
  let ?g = "reset_cr (f\<lparr>fr_completed := None\<rparr>)"
  have "same_effect es (push_settled ?g c (emit b0 p (fr_limits f))) (push_settled ?g c (emit b p (fr_limits f)))"
  proof (cases "fb_rejection (emit b p (fr_limits f)) = None")
    case True
    then show ?thesis by (intro push_settled_fits emit_fits assms)
  next
    case False
    then have "fb_rejection (snd (push_settled ?g c (emit b p (fr_limits f)))) \<noteq> None"
      using push_settled_rejected by metis
    then show ?thesis by (auto simp: same_effect_def)
  qed
  with Some show ?thesis using assms emit_fits [OF assms, of "append_lf p" "fr_limits f"]
    by (simp add: push_byte_def Let_def) (auto simp: same_effect_def)
qed

lemma push_bytes_fits:
  "fits es b0 b \<Longrightarrow> fb_rejection b = None \<Longrightarrow> same_effect es (push_bytes f cs b0) (push_bytes f cs b)"
proof (induction f cs b arbitrary: b0 rule: push_bytes.induct)
  case (1 f b)
  then show ?case by (simp add: same_effect_def)
next
  case (2 f c cs b)
  obtain f1 b1 f0 b01 where r: "push_byte f c b = (f1, b1)" "push_byte f c b0 = (f0, b01)" by force
  have none: "fb_rejection b0 = None" using "2.prems"(1) by (simp add: fits_def)
  show ?case
  proof (cases "fb_rejection b1 = None")
    case True
    then have "f0 = f1" "fits es b01 b1" using push_byte_fits [OF "2.prems"(1), of f c] by (simp_all add: r same_effect_def)
    then show ?thesis using "2.IH" [OF _ r(1) [symmetric], of b01] True "2.prems"(2) none by (simp add: r)
  next
    case False
    then have "fb_rejection (snd (push_bytes f1 cs b1)) \<noteq> None" by (rule push_bytes_rejected)
    then show ?thesis using "2.prems"(2) by (auto simp: same_effect_def r)
  qed
qed

lemma push_bytes_append:
  "fb_rejection (snd (push_bytes f xs b)) = None \<Longrightarrow>
     push_bytes f (xs @ ys) b = (case push_bytes f xs b of (f1, b1) \<Rightarrow> push_bytes f1 ys b1)"
proof (induction f xs b rule: push_bytes.induct)
  case (2 f c cs b)
  obtain f1 b1 where r: "push_byte f c b = (f1, b1)" by force
  show ?case
  proof (cases "fb_rejection b = Some BatchLimit")
    case False
    then show ?thesis using "2.IH" [OF False r [symmetric]] "2.prems" by (simp add: r)
  qed (use "2.prems" in simp)
qed simp

text \<open>Only a CR leaves an event waiting for its LF.\<close>

lemma push_byte_completed:
  assumes "c \<noteq> CR" and "fr_completed f = None"
  shows "fr_completed (fst (dispatch_byte f c b)) = None"
  using assms
  by (simp add: dispatch_byte_def finish_line_def finish_event_def finish_field_def complete_def push_field_byte_def
      start_discarding_def clear_event_def Let_def split: prod.split list.split option.split)

lemma push_bytes_completed:
  "xs \<noteq> [] \<Longrightarrow> last xs \<noteq> CR \<Longrightarrow> fb_rejection (snd (push_bytes f xs b)) = None \<Longrightarrow>
     fr_completed (fst (push_bytes f xs b)) = None"
proof (induction f xs b rule: push_bytes.induct)
  case (2 f c cs b)
  obtain f1 b1 where r: "push_byte f c b = (f1, b1)" by force
  have nb: "fb_rejection b \<noteq> Some BatchLimit"
    using "2.prems"(3) by (cases "fb_rejection b = Some BatchLimit") auto
  have one: "fr_completed f1 = None" if "c \<noteq> CR"
  proof -
    have "fr_completed (fst (push_settled g c b)) = None" if "fr_completed g = None" for g b
      using push_byte_completed [OF \<open>c \<noteq> CR\<close>] that
      by (simp add: push_settled_def lf_after_cr_def start_discarding_def clear_event_def)
    then have "fr_completed (fst (push_byte f c b)) = None"
      by (simp add: push_byte_def reset_cr_def Let_def split: option.split)
    then show ?thesis by (simp add: r)
  qed
  show ?case
  proof (cases "cs = []")
    case True
    with one "2.prems"(2) nb show ?thesis by (simp add: r)
  next
    case False
    with "2.IH" [OF nb r [symmetric]] "2.prems" nb show ?thesis by (simp add: r)
  qed
qed simp
lemma push_bytes_prefix:
  "fb_rejection (snd (push_bytes f (xs @ ys) b)) = None \<Longrightarrow> fb_rejection (snd (push_bytes f xs b)) = None"
proof (induction f xs b rule: push_bytes.induct)
  case (1 f b)
  then show ?case using push_bytes_rejected [of b f ys] by (cases "fb_rejection b") auto
next
  case (2 f c cs b)
  obtain f1 b1 where r: "push_byte f c b = (f1, b1)" by force
  show ?case
  proof (cases "fb_rejection b = Some BatchLimit")
    case False
    then show ?thesis using "2.IH" [OF False r [symmetric]] "2.prems" by (simp add: r)
  qed (use "2.prems" in simp)
qed

lemma push_byte_not_rejected: "fr_rejected (fst (push_byte f c b)) = fr_rejected f"
proof -
  have d: "fr_rejected (fst (dispatch_byte g c b)) = fr_rejected g" for g b
    by (simp add: dispatch_byte_def finish_line_def finish_event_def finish_field_def complete_def push_field_byte_def
        start_discarding_def clear_event_def Let_def split: prod.split list.split option.split)
  then have "fr_rejected (fst (push_settled g c b)) = fr_rejected g" for g b
    by (simp add: push_settled_def lf_after_cr_def start_discarding_def clear_event_def)
  then show ?thesis by (simp add: push_byte_def reset_cr_def Let_def split: option.split)
qed

lemma push_bytes_not_rejected:
  "fb_rejection (snd (push_bytes f xs b)) = None \<Longrightarrow> fr_rejected (fst (push_bytes f xs b)) = fr_rejected f"
proof (induction f xs b rule: push_bytes.induct)
  case (2 f c cs b)
  obtain f1 b1 where r: "push_byte f c b = (f1, b1)" by force
  have "fr_rejected f1 = fr_rejected f" using push_byte_not_rejected [of f c b] by (simp add: r)
  then show ?case using "2.IH" [OF _ r [symmetric]] "2.prems"
    by (cases "fb_rejection b = Some BatchLimit") (simp_all add: r)
qed simp

paragraph \<open>Whole responses\<close>

lemma push_all_ok:
  "push_all f cs = (f', bs) \<Longrightarrow> framer_ok f \<Longrightarrow> framer_ok f' \<and> fr_limits f' = fr_limits f \<and> (\<forall>b \<in> set bs. batch_ok (fr_limits f) b)"
proof (induction f cs arbitrary: f' bs rule: push_all.induct)
  case (2 f c cs)
  obtain f1 b1 where 1: "push f c = (f1, b1)" by force
  obtain f2 bs2 where 2: "push_all f1 cs = (f2, bs2)" by force
  have "step_ok f (f1, b1)" using push_ok [OF "2.prems"(2), of c] by (simp add: 1)
  with "2.IH" [OF 1 [symmetric] 2] "2.prems"(1) show ?case by (auto simp: 1 2)
qed simp

lemma push_all_conveys:
  "push_all f cs = (f', bs) \<Longrightarrow> clean f \<Longrightarrow> fr_completed f = None \<Longrightarrow> \<forall>b \<in> set bs. fb_rejection b = None \<Longrightarrow>
     clean f' \<and> concat (map delivered bs) @ fr_event f' = fr_event f @ concat cs"
proof (induction f cs arbitrary: f' bs rule: push_all.induct)
  case (2 f c cs)
  obtain f1 b1 where 1: "push f c = (f1, b1)" by force
  obtain f2 bs2 where 2: "push_all f1 cs = (f2, bs2)" by force
  have bs: "bs = b1 # bs2" "f' = f2" using "2.prems"(1) by (simp_all add: 1 2)
  have "clean f1" "delivered b1 @ fr_event f1 = fr_event f @ c"
    using push_conveys [OF "2.prems"(2), of c] "2.prems"(3,4) by (simp_all add: 1 bs)
  moreover have "fr_completed f1 = None" using push_completed [OF "2.prems"(3), of c] by (simp add: 1)
  ultimately have "clean f2" and rest: "concat (map delivered bs2) @ fr_event f2 = fr_event f1 @ concat cs"
    and head: "delivered b1 @ fr_event f1 = fr_event f @ c"
    using "2.IH" [OF 1 [symmetric] 2] "2.prems"(4) by (auto simp: bs)
  have "concat (map delivered bs) @ fr_event f' = (delivered b1 @ fr_event f1) @ concat cs" by (simp add: bs rest)
  with \<open>clean f2\<close> head show ?case by (simp add: bs)
qed simp

subsection \<open>Properties\<close>

text \<open>
  C34. The framer loses nothing and invents nothing: as long as no chunk is rejected, the
  bytes of the events delivered so far followed by the bytes of the unfinished event are
  exactly the bytes received, whatever the chunk boundaries; and when the framer is complete
  at the end of the stream, every byte has been delivered.
\<close>

theorem sse_lossless:
  assumes "push_all (with_limits l) chunks = (f, bs)" and "\<forall>b \<in> set bs. fb_rejection b = None"
  shows "concat (map delivered bs) @ fr_event f = concat chunks \<and>
    (is_complete f \<longrightarrow> concat (map delivered bs) = concat chunks)"
  using push_all_conveys [OF assms(1) with_limits_clean _ assms(2)] by (auto simp: with_limits_def is_complete_def)

text \<open>
  C35. Everything the framer hands out is bounded and well-formed, whatever the upstream sends
  and also when it rejects: a chunk yields at most 4096 events of at most the framed-bytes
  limit in total, an event has at most 4096 lines and at most the event limit of bytes and
  consists of exactly its lines and its terminator, and the unfinished event stays within
  the event limit.
\<close>

theorem sse_bounded:
  assumes "push_all (with_limits l) chunks = (f, bs)"
  shows "length (fr_event f) \<le> event_bytes l \<and>
    (\<forall>b \<in> set bs. length (fb_events b) \<le> 4096 \<and> length (delivered b) \<le> framed_bytes l \<and>
      (\<forall>e \<in> set (fb_events b). event_ok e \<and> length (ev_bytes e) \<le> event_bytes l \<and> length (ev_lines e) \<le> 4096))"
proof -
  have "framer_ok (with_limits l)" using with_limits_clean by (simp add: clean_def)
  then have f: "framer_ok f" "fr_limits f = l" and bs: "\<forall>b \<in> set bs. batch_ok l b"
    using push_all_ok [OF assms] by (auto simp: with_limits_def)
  have "length (ev_lines e) \<le> 4096" if "event_ok e" for e :: sse_event
    using that by (simp add: event_ok_def max_fields_per_event_def)
  with bs have "\<forall>b \<in> set bs. length (fb_events b) \<le> 4096 \<and> length (delivered b) \<le> framed_bytes l \<and>
      (\<forall>e \<in> set (fb_events b). event_ok e \<and> length (ev_bytes e) \<le> event_bytes l \<and> length (ev_lines e) \<le> 4096)"
    by (auto simp: batch_ok_def max_frames_per_chunk_def delivered_def list_all_iff)
  moreover have "length (fr_event f) \<le> event_bytes l" using f unfolding framer_ok_def by blast
  ultimately show ?thesis by blast
qed

text \<open>
  C39. Where the network cuts a chunk does not matter: a chunk that is accepted may be
  delivered in two parts, cut anywhere but behind a CR, and gives the same events in the
  same order and leaves the framer in the same state.
\<close>

theorem sse_chunking:
  assumes "push f (xs @ ys) = (f', b)" and "fb_rejection b = None" and "xs \<noteq> []" and "last xs \<noteq> CR"
  shows "\<exists>f1 b1 b2. push f xs = (f1, b1) \<and> push f1 ys = (f', b2) \<and> fb_rejection b1 = None \<and> fb_rejection b2 = None \<and>
    fb_events b = fb_events b1 @ fb_events b2"
proof -
  obtain g bg where all: "push_bytes f (xs @ ys) empty_batch = (g, bg)" by force
  obtain f1 b1 where 1: "push_bytes f xs empty_batch = (f1, b1)" by force
  have nr: "\<not> fr_rejected f" and fl: "flush_completed g bg = (f', b)" and bg: "fb_rejection bg = None"
    using assms(1,2) by (auto simp: push_def all flush_completed_def dest: emit_accepted(1) split: if_splits prod.splits option.splits)
  have b1: "fb_rejection b1 = None"
    using push_bytes_prefix [of f xs ys empty_batch] bg by (simp add: all 1)
  have rest: "push_bytes f1 ys b1 = (g, bg)" using push_bytes_append [of f xs empty_batch ys] b1 all by (simp add: 1)
  have c1: "fr_completed f1 = None" using push_bytes_completed [OF assms(3,4), of f empty_batch] b1 by (simp add: 1)
  have p1: "push f xs = (f1, b1)" using nr b1 by (simp add: push_def 1 flush_completed_def c1)
  have "fits (fb_events b1) empty_batch b1" by (simp add: fits_def empty_batch_def)
  from push_bytes_fits [OF this b1, of f1 ys] obtain b2 where 2: "push_bytes f1 ys empty_batch = (g, b2)"
    and fit: "fits (fb_events b1) b2 bg" using bg by (auto simp: rest same_effect_def) (metis prod.collapse)
  have nr1: "\<not> fr_rejected f1" using push_bytes_not_rejected [of f xs empty_batch] nr b1 by (simp add: 1)
  obtain b3 where 3: "flush_completed g b2 = (f', b3)" and fit3: "fits (fb_events b1) b3 b"
    using fl fit assms(2) emit_fits [OF fit] by (auto simp: flush_completed_def split: option.splits)
  have "push f1 ys = (f', b3)" using nr1 fit3 by (simp add: push_def 2 3 fits_def)
  with p1 b1 fit3 show ?thesis by (auto simp: fits_def)
qed
text \<open>
  Redaction lets through data and nothing else: the redacted event is a sequence of
  lines, each of them the fixed heartbeat comment, a data field of the event or, under the
  policy that validates event names, its event field; the data fields all pass, unchanged
  and in order, and no id, retry or unknown field does.
\<close>

theorem sse_redaction_safe:
  "\<exists>ls. redacted_sse_event_bytes e p = lines_text ls @ ev_terminator e \<and>
    (\<forall>l \<in> set ls. sl_value l = safe_heartbeat \<or>
       (l \<in> set (ev_lines e) \<and> (is_sse_field_line (sl_value l) ''data'' \<or>
          p = ValidatedEventNames \<and> is_sse_field_line (sl_value l) ''event''))) \<and>
    filter (\<lambda>l. is_sse_field_line (sl_value l) ''data'') ls =
      filter (\<lambda>l. is_sse_field_line (sl_value l) ''data'') (ev_lines e)"
  unfolding redacted_sse_event_bytes_def
proof (induction "ev_lines e" arbitrary: e)
  case Nil
  then show ?case by (intro exI [of _ "[]"]) simp
next
  case (Cons l ls e)
  let ?d = "\<lambda>l. is_sse_field_line (sl_value l) ''data''" and ?e = "e\<lparr>ev_lines := ls\<rparr>"
  obtain ks where ks: "redact_lines p ls = lines_text ks"
    and mem: "\<forall>l \<in> set ks. sl_value l = safe_heartbeat \<or> (l \<in> set ls \<and> (?d l \<or>
        p = ValidatedEventNames \<and> is_sse_field_line (sl_value l) ''event''))"
    and keep: "filter ?d ks = filter ?d ls"
    using Cons(1) [of ?e] by auto
  have colon: "\<not> ?d l" if "starts_with '':'' (sl_value l)" for l
    using that by (cases "sl_value l") (auto simp: starts_with_def is_sse_field_line_def)
  have hb: "\<not> is_sse_field_line safe_heartbeat ''data''"
    by (simp add: safe_heartbeat_def is_sse_field_line_def)
  note e = Cons(2) [symmetric]
  consider (comment) "starts_with '':'' (sl_value l)"
    | (keep) "\<not> starts_with '':'' (sl_value l)" "?d l \<or> p = ValidatedEventNames \<and> is_sse_field_line (sl_value l) ''event''"
    | (skip) "\<not> starts_with '':'' (sl_value l)" "\<not> (?d l \<or> p = ValidatedEventNames \<and> is_sse_field_line (sl_value l) ''event'')"
    by blast
  then show ?case
  proof cases
    case comment
    then show ?thesis
      using ks mem keep colon hb e
      by (intro exI [of _ "l\<lparr>sl_value := safe_heartbeat\<rparr> # ks"]) (auto simp: line_text_def)
  next
    case keep
    then show ?thesis
      using ks mem \<open>filter ?d ks = filter ?d ls\<close> e by (intro exI [of _ "l # ks"]) (auto simp: line_text_def)
  next
    case skip
    then show ?thesis using ks mem keep e by (intro exI [of _ ks]) auto
  qed
qed

subsection \<open>A concrete response\<close>

text \<open>One event whose CRLF a chunk boundary splits, and a heartbeat comment.\<close>

definition sample_limits :: sse_limits where
  "sample_limits = \<lparr>event_bytes = 64, framed_bytes = 128, terminal_hold_bytes = 128\<rparr>"

definition sample_chunks :: "string list" where
  "sample_chunks = [''data:x'' @ [CR], [LF, CR], [LF] @ '':hi'' @ [LF]]"

lemmas sse_eval = push_def push_byte_def push_settled_def dispatch_byte_def push_field_byte_def finish_line_def
  finish_event_def finish_field_def complete_def lf_after_cr_def append_lf_def continuation_event_def flush_completed_def
  emit_def reserve_metadata_item_def reject_def reset_cr_def empty_batch_def with_limits_def sample_limits_def
  idle_control_kind_def is_sse_field_line_def starts_with_def max_frames_per_chunk_def max_fields_per_event_def
  max_metadata_per_chunk_def sse_event.truncate_def Let_def

lemma sample_run:
  "\<exists>f bs. push_all (with_limits sample_limits) sample_chunks = (f, bs) \<and> (\<forall>b \<in> set bs. fb_rejection b = None) \<and> is_complete f"
  by (simp add: sample_chunks_def sse_eval is_complete_def)

theorem sse_lossless_witness:
  "\<exists>f bs. push_all (with_limits sample_limits) sample_chunks = (f, bs) \<and> concat (map delivered bs) = concat sample_chunks"
proof -
  obtain f bs where run: "push_all (with_limits sample_limits) sample_chunks = (f, bs)" "\<forall>b \<in> set bs. fb_rejection b = None"
    "is_complete f" using sample_run by blast
  with sse_lossless [OF run(1,2)] show ?thesis by blast
qed

theorem sse_bounded_witness:
  "\<exists>f bs. push_all (with_limits sample_limits) sample_chunks = (f, bs) \<and> length (fr_event f) \<le> 64 \<and>
     (\<forall>b \<in> set bs. length (delivered b) \<le> 128)"
proof -
  obtain f bs where run: "push_all (with_limits sample_limits) sample_chunks = (f, bs)" using sample_run by blast
  from sse_bounded [OF run] run show ?thesis by (auto simp: sample_limits_def)
qed

theorem sse_chunking_witness:
  "\<exists>f1 b1 f2 b2. push (with_limits sample_limits) ''data:'' = (f1, b1) \<and> push f1 (''x'' @ [LF, LF]) = (f2, b2) \<and>
     length (fb_events b1 @ fb_events b2) = 1"
proof -
  obtain f b where run: "push (with_limits sample_limits) (''data:'' @ (''x'' @ [LF, LF])) = (f, b)"
    and ok: "fb_rejection b = None" "length (fb_events b) = 1"
    by (simp add: sse_eval)
  from sse_chunking [OF run ok(1)] ok(2) show ?thesis by fastforce
qed
text \<open>
  The batch limit is final: once a chunk has exceeded it, every later chunk is answered
  with the same rejection and no events, and the framer does not change any more.
\<close>

theorem sse_batch_limit_final:
  assumes "push f chunk = (f', b)" and "fb_rejection b = Some BatchLimit"
  shows "push f' later = (f', \<lparr>fb_events = [], fb_rejection = Some BatchLimit, fb_framed = 0, fb_metadata = 0\<rparr>)"
proof -
  have "fr_rejected f'" using assms by (auto simp: push_def split: if_splits prod.splits)
  then show ?thesis by (simp add: push_def empty_batch_def reject_def)
qed

theorem sse_batch_limit_final_witness:
  "\<exists>f b. push (with_limits \<lparr>event_bytes = 4, framed_bytes = 1, terminal_hold_bytes = 1\<rparr>) [LF, LF] = (f, b) \<and>
     fb_events (snd (push f ''data'')) = []"
proof -
  obtain f b where run: "push (with_limits \<lparr>event_bytes = 4, framed_bytes = 1, terminal_hold_bytes = 1\<rparr>) [LF, LF] = (f, b)"
    and "fb_rejection b = Some BatchLimit" by (simp add: sse_eval)
  with sse_batch_limit_final [OF run, of "''data''"] show ?thesis by (auto intro: exI [of _ f])
qed


definition sample_id_event :: sse_event where
  "sample_id_event = \<lparr>ev_bytes = ''id:7'' @ [LF] @ ''data:x'' @ [LF, LF],
     ev_lines = [\<lparr>sl_value = ''id:7'', sl_ending = [LF]\<rparr>, \<lparr>sl_value = ''data:x'', sl_ending = [LF]\<rparr>],
     ev_terminator = [LF], ev_continuation = False, ev_idle = None\<rparr>"

theorem sse_redaction_safe_witness:
  "\<exists>ls. redacted_sse_event_bytes sample_id_event DataOnly = lines_text ls @ [LF] \<and>
    filter (\<lambda>l. is_sse_field_line (sl_value l) ''data'') ls = [\<lparr>sl_value = ''data:x'', sl_ending = [LF]\<rparr>]"
proof -
  have e: "ev_terminator sample_id_event = [LF]"
    "filter (\<lambda>l. is_sse_field_line (sl_value l) ''data'') (ev_lines sample_id_event) = [\<lparr>sl_value = ''data:x'', sl_ending = [LF]\<rparr>]"
    by (simp_all add: sample_id_event_def is_sse_field_line_def starts_with_def)
  from sse_redaction_safe [of sample_id_event DataOnly] show ?thesis unfolding e by blast
qed

end
