(* ===== verification/Memory_Budget.thy ===== *)
theory Memory_Budget
  imports Rust_Strings
begin

text \<open>
  The process-wide memory budget of the proxy (\<open>src/src/gateway_body/memory.rs\<close>): every request
  holds a reservation that charges the bytes it retains to a semaphore of 64 KiB units, a
  quarter of which is a partition for retained requests. Admission never waits: it succeeds
  at once or leaves everything as it was. Sizes are natural numbers with the checks of
  \<open>usize\<close> and \<open>u32\<close> written out; a poisoned mutex, which needs a panic inside these short
  sections, is not modelled. A permit is the number of units it stands for; dropping it gives
  them back to its semaphore.
\<close>

subsection \<open>Arithmetic\<close>

definition unit_bytes :: nat where "unit_bytes = 64 * 1024"
definition request_memory_weight :: nat where "request_memory_weight = 3"
definition capture_memory_weight :: nat where "capture_memory_weight = 3"
definition max_buffered_response_bytes :: nat where "max_buffered_response_bytes = 64 * 1024 * 1024"
definition sse_streaming_memory_weight :: nat where "sse_streaming_memory_weight = 2"

definition usize_max :: nat where "usize_max = 18446744073709551615"
definition u32_max :: nat where "u32_max = 4294967295"

definition checked_usize :: "nat \<Rightarrow> nat option" where
  "checked_usize n = (if n \<le> usize_max then Some n else None)"

definition sat_usize :: "nat \<Rightarrow> nat" where
  "sat_usize n = min n usize_max"

definition as_u32 :: "nat \<Rightarrow> nat option" where
  "as_u32 n = (if n \<le> u32_max then Some n else None)"

definition units :: "nat \<Rightarrow> nat" where
  "units n = (n + (unit_bytes - 1)) div unit_bytes" \<comment> \<open>\<open>n.div_ceil(UNIT_BYTES)\<close>\<close>

subsection \<open>The scanner\<close>

record json_scanner =
  js_quoted :: bool
  js_escaped :: bool
  js_nodes :: nat

definition new_scanner :: json_scanner where
  "new_scanner = \<lparr>js_quoted = False, js_escaped = False, js_nodes = 0\<rparr>"

definition scan_byte :: "json_scanner \<Rightarrow> byte \<Rightarrow> json_scanner" where
  "scan_byte s c =
     (if js_quoted s then
        (if js_escaped s then s\<lparr>js_escaped := False\<rparr>
         else if c = CHR 0x5C then s\<lparr>js_escaped := True\<rparr>
         else if c = CHR 0x22 then s\<lparr>js_quoted := False\<rparr> else s)
      else if c = CHR 0x22 then s\<lparr>js_quoted := True, js_nodes := sat_usize (js_nodes s + 1)\<rparr>
      else if c \<in> {CHR ''['', CHR ''{'', CHR '','', CHR '':''} then s\<lparr>js_nodes := sat_usize (js_nodes s + 1)\<rparr>
      else s)"

definition observe :: "json_scanner \<Rightarrow> string \<Rightarrow> json_scanner \<times> nat" where
  "observe s body = (let s = foldl scan_byte s body in (s, sat_usize (js_nodes s + 1)))"

definition json_nodes :: "string \<Rightarrow> nat" where
  "json_nodes body = snd (observe new_scanner body)"

subsection \<open>Semaphores, permits and reservations\<close>

record budget =
  bg_capacity :: nat
  bg_permits :: nat \<comment> \<open>available units\<close>
  bg_retained :: nat \<comment> \<open>available units of the retained partition\<close>

record reservation =
  rs_held :: nat
  rs_permit :: "nat option"
  rs_response_reserved :: bool
  rs_response_bytes :: nat
  rs_retained :: "nat option"
  rs_json_body_ceiling :: nat
  rs_json_node_ceiling :: nat
  rs_json_reserved :: nat

definition supports :: "nat \<Rightarrow> bool" where
  "supports bytes \<longleftrightarrow> bytes \<le> usize_max \<and> bytes div unit_bytes \<le> u32_max \<and>
     bytes div unit_bytes \<le> usize_max div 8" \<comment> \<open>\<open>Semaphore::MAX_PERMITS\<close>\<close>

definition new_budget :: "nat \<Rightarrow> budget res" where
  "new_budget bytes =
     (if supports bytes then Inr \<lparr>bg_capacity = bytes, bg_permits = bytes div unit_bytes,
        bg_retained = bytes div 4 div unit_bytes\<rparr>
      else Inl (Panicked ''memory budget exceeds counter representation''))"

definition new_reservation :: reservation where
  "new_reservation = \<lparr>rs_held = 0, rs_permit = None, rs_response_reserved = False, rs_response_bytes = 0,
     rs_retained = None, rs_json_body_ceiling = 0, rs_json_node_ceiling = 0, rs_json_reserved = 0\<rparr>"

definition snapshot :: "budget \<Rightarrow> nat \<times> nat \<times> nat \<times> nat" where
  "snapshot g = (let lifecycle = bg_capacity g div unit_bytes * unit_bytes;
       retained = bg_capacity g div 4 div unit_bytes * unit_bytes in
     (lifecycle - bg_permits g * unit_bytes, lifecycle, retained - bg_retained g * unit_bytes, retained))"

definition merge_permit :: "nat option \<Rightarrow> nat \<Rightarrow> nat option" where
  "merge_permit p n = (case p of None \<Rightarrow> Some n | Some m \<Rightarrow> Some (m + n))"

definition split_permit :: "nat option \<Rightarrow> nat \<Rightarrow> nat option" where
  "split_permit p n = (case p of None \<Rightarrow> None | Some m \<Rightarrow> if n \<le> m then Some n else None)"

definition less_permit :: "nat option \<Rightarrow> nat \<Rightarrow> nat option" where
  "less_permit p n = map_option (\<lambda>m. m - n) p"

definition permit_units :: "nat option \<Rightarrow> nat" where
  "permit_units p = (case p of None \<Rightarrow> 0 | Some m \<Rightarrow> m)"

text \<open>One immediate try on a semaphore; \<open>drop_split\<close> is \<open>drop(permit.split(n))\<close>.\<close>

definition acquire :: "budget \<Rightarrow> nat \<Rightarrow> budget option" where
  "acquire g n = (if n \<le> bg_permits g then Some (g\<lparr>bg_permits := bg_permits g - n\<rparr>) else None)"

definition acquire_retained :: "budget \<Rightarrow> nat \<Rightarrow> budget option" where
  "acquire_retained g n = (if n \<le> bg_retained g then Some (g\<lparr>bg_retained := bg_retained g - n\<rparr>) else None)"

definition drop_split :: "budget \<Rightarrow> reservation \<Rightarrow> nat \<Rightarrow> budget \<times> reservation" where
  "drop_split g r n = (case split_permit (rs_permit r) n of
      None \<Rightarrow> (g, r)
    | Some n \<Rightarrow> (g\<lparr>bg_permits := bg_permits g + n\<rparr>, r\<lparr>rs_permit := less_permit (rs_permit r) n\<rparr>))"

definition set_retained :: "budget \<Rightarrow> reservation \<Rightarrow> nat option \<Rightarrow> budget \<times> reservation" where
  "set_retained g r p = (g\<lparr>bg_retained := bg_retained g + permit_units (rs_retained r)\<rparr>, r\<lparr>rs_retained := p\<rparr>)"

subsection \<open>Growing and releasing\<close>

type_synonym 'a mem_op = "budget \<times> reservation \<times> 'a"

definition try_grow :: "budget \<Rightarrow> reservation \<Rightarrow> nat \<Rightarrow> nat \<Rightarrow> bool mem_op" where
  "try_grow g r bytes weight =
     (case checked_usize (bytes * weight) of None \<Rightarrow> (g, r, False) | Some weighted \<Rightarrow>
      case checked_usize (rs_held r + weighted) of None \<Rightarrow> (g, r, False) | Some new_total \<Rightarrow>
      case as_u32 (units new_total - units (rs_held r)) of None \<Rightarrow> (g, r, False) | Some n \<Rightarrow>
      case acquire g n of None \<Rightarrow> (g, r, False) | Some g \<Rightarrow>
        (g, r\<lparr>rs_permit := merge_permit (rs_permit r) n, rs_held := new_total\<rparr>, True))"

definition temporary :: "budget \<Rightarrow> nat \<Rightarrow> (budget \<times> reservation) res" where
  "temporary g bytes = (case try_grow g new_reservation bytes 1 of
      (g, r, True) \<Rightarrow> Inr (g, r)
    | (_, _, False) \<Rightarrow> Inl (Capacity ''proxy_memory_temporary'' (no_facts\<lparr>ef_bytes := Some bytes\<rparr>)))"

definition release :: "budget \<Rightarrow> reservation \<Rightarrow> nat \<Rightarrow> nat \<Rightarrow> budget \<times> reservation" where
  "release g r bytes weight =
     (let new_total = rs_held r - sat_usize (bytes * weight); n = units (rs_held r) - units new_total;
          (g, r) = drop_split g r n; r = r\<lparr>rs_held := new_total\<rparr> in
      case rs_retained r of
        None \<Rightarrow> (g, r)
      | Some m \<Rightarrow> (g\<lparr>bg_retained := bg_retained g + min n m\<rparr>, r\<lparr>rs_retained := Some (m - min n m)\<rparr>))"

definition try_reserve_ingress_bytes :: "budget \<Rightarrow> nat \<Rightarrow> budget \<times> nat option" where
  "try_reserve_ingress_bytes g bytes = (case as_u32 (units bytes) of None \<Rightarrow> (g, None)
     | Some n \<Rightarrow> (case acquire g n of None \<Rightarrow> (g, None) | Some g \<Rightarrow> (g, Some n)))"

text \<open>
  A streaming envelope or an archive output is the number of bytes it has grown the
  reservation by; dropping it releases exactly these.
\<close>

definition try_reserve_sse_streaming :: "budget \<Rightarrow> reservation \<Rightarrow> nat \<Rightarrow> nat option mem_op" where
  "try_reserve_sse_streaming g r framed =
     (case checked_usize (framed * sse_streaming_memory_weight) of None \<Rightarrow> (g, r, None) | Some bytes \<Rightarrow>
      case try_grow g r bytes 1 of (g, r, ok) \<Rightarrow> (g, r, if ok then Some bytes else None))"

definition try_reserve_archive_output :: "budget \<Rightarrow> reservation \<Rightarrow> nat \<Rightarrow> nat option mem_op" where
  "try_reserve_archive_output g r bytes0 =
     (let bytes = max bytes0 256 in
      case try_grow g r bytes 1 of (g, r, ok) \<Rightarrow> (g, r, if ok then Some bytes else None))"

definition weighted_json_bytes :: "nat \<Rightarrow> string \<Rightarrow> nat option" where
  "weighted_json_bytes weight body =
     (case checked_usize (length body * weight) of None \<Rightarrow> None | Some text_bytes \<Rightarrow>
      case checked_usize (json_nodes body * 256) of None \<Rightarrow> None | Some node_bytes \<Rightarrow>
      checked_usize (text_bytes + node_bytes))"

definition try_reserve_archive_json_transform :: "budget \<Rightarrow> reservation \<Rightarrow> string \<Rightarrow> nat option mem_op" where
  "try_reserve_archive_json_transform g r body = (case weighted_json_bytes 6 body of
      None \<Rightarrow> (g, r, None) | Some bytes \<Rightarrow> try_reserve_archive_output g r bytes)"

definition drop_memory :: "budget \<Rightarrow> reservation \<Rightarrow> nat \<Rightarrow> budget \<times> reservation" where
  "drop_memory g r bytes = release g r bytes 1"

definition try_reserve_json :: "budget \<Rightarrow> reservation \<Rightarrow> string \<Rightarrow> bool mem_op" where
  "try_reserve_json g r body = (case weighted_json_bytes 3 body of None \<Rightarrow> (g, r, False) | Some required \<Rightarrow>
     (case try_grow g r required 1 of
        (g, r, False) \<Rightarrow> (g, r, False)
      | (g, r, True) \<Rightarrow> (g, r\<lparr>rs_json_body_ceiling := length body, rs_json_node_ceiling := json_nodes body,
           rs_json_reserved := rs_json_reserved r + required\<rparr>, True)))"

definition release_conversation_working_copies :: "budget \<Rightarrow> reservation \<Rightarrow> nat \<Rightarrow> budget \<times> reservation" where
  "release_conversation_working_copies g r bytes = release g r bytes (request_memory_weight - 1)"

definition release_source_backed_conversation_working_copies ::
  "budget \<Rightarrow> reservation \<Rightarrow> nat \<Rightarrow> budget \<times> reservation" where
  "release_source_backed_conversation_working_copies g r bytes =
     release g (r\<lparr>rs_json_reserved := 0\<rparr>) (max (rs_json_reserved r) (sat_usize (bytes * request_memory_weight))) 1"

definition release_unretained_json :: "budget \<Rightarrow> reservation \<Rightarrow> budget \<times> reservation" where
  "release_unretained_json g r = release g (r\<lparr>rs_json_reserved := 0\<rparr>) (rs_json_reserved r) 1"

subsection \<open>The retained partition\<close>

definition finalize_request :: "budget \<Rightarrow> reservation \<Rightarrow> bool mem_op" where
  "finalize_request g r =
     (case as_u32 (units (rs_held r)) of None \<Rightarrow> (g, r, False) | Some n \<Rightarrow>
      case acquire_retained g n of None \<Rightarrow> (g, r, False) | Some g \<Rightarrow>
      case set_retained g r (Some n) of (g, r) \<Rightarrow> (g, r, True))"

definition release_retained_request_for_stream :: "budget \<Rightarrow> reservation \<Rightarrow> budget \<times> reservation" where
  "release_retained_request_for_stream g r = set_retained g r None"

definition reserve_unexpected_buffered_request :: "budget \<Rightarrow> reservation \<Rightarrow> nat \<Rightarrow> nat \<Rightarrow> bool mem_op" where
  "reserve_unexpected_buffered_request g r projection weight =
     (case checked_usize (projection * weight) of None \<Rightarrow> (g, r, False) | Some p \<Rightarrow>
      case checked_usize (rs_held r + p) of None \<Rightarrow> (g, r, False) | Some bytes \<Rightarrow>
      case as_u32 (units bytes) of None \<Rightarrow> (g, r, False) | Some n \<Rightarrow>
      case acquire_retained g n of None \<Rightarrow> (g, r, False) | Some g' \<Rightarrow>
        if rs_retained r \<noteq> None then (g, r, True) \<comment> \<open>the new permit is dropped\<close>
        else (g', r\<lparr>rs_retained := Some n\<rparr>, True))"

subsection \<open>Buffered responses\<close>

definition add_response :: "reservation \<Rightarrow> nat \<Rightarrow> reservation" where
  "add_response r n = r\<lparr>rs_held := rs_held r + n * unit_bytes, rs_permit := merge_permit (rs_permit r) n,
     rs_response_reserved := True, rs_response_bytes := n * unit_bytes\<rparr>"

definition reserve_buffered_response :: "budget \<Rightarrow> reservation \<Rightarrow> nat \<Rightarrow> bool mem_op" where
  "reserve_buffered_response g r maximum =
     (if max_buffered_response_bytes < maximum then (g, r, False)
      else if rs_response_reserved r then (g, r, True)
      else let n = units (max (sat_usize (maximum * capture_memory_weight)) unit_bytes) in
        case acquire g n of None \<Rightarrow> (g, r, False) | Some g \<Rightarrow> (g, add_response r n, True))"

definition reserve_buffered_response_with_projection ::
  "budget \<Rightarrow> reservation \<Rightarrow> nat \<Rightarrow> nat \<Rightarrow> nat \<Rightarrow> nat option mem_op" where
  "reserve_buffered_response_with_projection g r maximum projection weight =
     (if rs_response_reserved r \<or> max_buffered_response_bytes < maximum then (g, r, None)
      else case as_u32 (units (max (sat_usize (maximum * capture_memory_weight)) unit_bytes)) of
        None \<Rightarrow> (g, r, None) | Some n \<Rightarrow>
      case checked_usize (projection * weight) of None \<Rightarrow> (g, r, None) | Some p \<Rightarrow>
      case as_u32 (units p) of None \<Rightarrow> (g, r, None) | Some m \<Rightarrow>
      case as_u32 (n + m) of None \<Rightarrow> (g, r, None) | Some k \<Rightarrow>
      case acquire g k of None \<Rightarrow> (g, r, None) | Some g' \<Rightarrow>
        if usize_max < rs_held r + n * unit_bytes then (g, r, None) \<comment> \<open>both permits are dropped\<close>
        else (g', add_response r n, Some m))"

definition resize_buffered_response :: "budget \<Rightarrow> reservation \<Rightarrow> nat \<Rightarrow> bool \<Rightarrow> bool mem_op" where
  "resize_buffered_response g r required0 shrink =
     (if \<not> rs_response_reserved r then (g, r, False)
      else case checked_usize (units (max required0 unit_bytes) * unit_bytes) of None \<Rightarrow> (g, r, False) | Some required \<Rightarrow>
      let previous = rs_response_bytes r in
      if previous < required then
        (case checked_usize (rs_held r + (required - previous)) of None \<Rightarrow> (g, r, False) | Some new_total \<Rightarrow>
         case as_u32 ((required - previous) div unit_bytes) of None \<Rightarrow> (g, r, False) | Some n \<Rightarrow>
         case acquire g n of None \<Rightarrow> (g, r, False) | Some g \<Rightarrow>
           (g, r\<lparr>rs_permit := merge_permit (rs_permit r) n, rs_held := new_total, rs_response_bytes := required\<rparr>, True))
      else if shrink then
        (case drop_split g r ((previous - required) div unit_bytes) of (g, r) \<Rightarrow>
           (g, r\<lparr>rs_held := rs_held r - (previous - required), rs_response_bytes := required\<rparr>, True))
      else (g, r, True))"

definition grow_buffered_response :: "budget \<Rightarrow> reservation \<Rightarrow> nat \<Rightarrow> bool mem_op" where
  "grow_buffered_response g r capacity =
     (if max_buffered_response_bytes < capacity then (g, r, False)
      else resize_buffered_response g r (capacity * capture_memory_weight) False)"

definition shrink_buffered_response_capacity :: "budget \<Rightarrow> reservation \<Rightarrow> nat \<Rightarrow> budget \<times> reservation" where
  "shrink_buffered_response_capacity g r capacity =
     (if capacity \<le> max_buffered_response_bytes then
        case resize_buffered_response g r (capacity * capture_memory_weight) True of (g, r, _) \<Rightarrow> (g, r)
      else (g, r))"

definition buffered_response_json_bytes :: "string \<Rightarrow> nat option" where
  "buffered_response_json_bytes body = (case weighted_json_bytes 2 body of None \<Rightarrow> None | Some tree \<Rightarrow>
     (case checked_usize (length body * capture_memory_weight) of None \<Rightarrow> None | Some raw \<Rightarrow> Some (max raw tree)))"

definition reserve_response_json :: "budget \<Rightarrow> reservation \<Rightarrow> string \<Rightarrow> bool mem_op" where
  "reserve_response_json g r body =
     (if max_buffered_response_bytes < length body then (g, r, False)
      else case buffered_response_json_bytes body of None \<Rightarrow> (g, r, False)
        | Some required \<Rightarrow> resize_buffered_response g r required False)"

definition shrink_buffered_response :: "budget \<Rightarrow> reservation \<Rightarrow> string \<Rightarrow> budget \<times> reservation" where
  "shrink_buffered_response g r body = (case buffered_response_json_bytes body of None \<Rightarrow> (g, r)
     | Some required \<Rightarrow> (case resize_buffered_response g r required True of (g, r, _) \<Rightarrow> (g, r)))"

definition release_buffered_response :: "budget \<Rightarrow> reservation \<Rightarrow> budget \<times> reservation" where
  "release_buffered_response g r =
     (let released = rs_response_bytes r in
      case drop_split g r (released div unit_bytes) of (g, r) \<Rightarrow>
        (g, r\<lparr>rs_held := rs_held r - released, rs_response_bytes := 0, rs_response_reserved := False\<rparr>))"

definition take_response_envelope :: "budget \<Rightarrow> reservation \<Rightarrow> nat option mem_op" where
  "take_response_envelope g r =
     (let previous = rs_response_bytes r in
      case split_permit (rs_permit r) (previous div unit_bytes) of None \<Rightarrow> (g, r, None)
      | Some n \<Rightarrow> (g, r\<lparr>rs_permit := less_permit (rs_permit r) n, rs_held := rs_held r - previous,
          rs_response_bytes := 0, rs_response_reserved := False\<rparr>, Some n))"

text \<open>The permit comes back on failure too: the caller drops it then, outside of this function.\<close>

definition restore_response_envelope :: "reservation \<Rightarrow> nat \<Rightarrow> reservation \<times> bool" where
  "restore_response_envelope r n =
     (if rs_response_reserved r then (r, False)
      else (r\<lparr>rs_held := rs_held r + n * unit_bytes, rs_permit := merge_permit (rs_permit r) n,
          rs_response_bytes := n * unit_bytes, rs_response_reserved := True\<rparr>, True))"

text \<open>The permit of the payload: part of the envelope, or the envelope and what is missing.\<close>

definition payload_permit :: "budget \<Rightarrow> reservation \<Rightarrow> nat \<Rightarrow> nat \<Rightarrow> (budget \<times> reservation) option" where
  "payload_permit g r n m =
     (if n = 0 then Some (g, r)
      else if n \<le> m then
        (case split_permit (rs_permit r) n of None \<Rightarrow> None
         | Some _ \<Rightarrow> Some (g, r\<lparr>rs_permit := less_permit (rs_permit r) n\<rparr>))
      else case acquire g (n - m) of None \<Rightarrow> None | Some g' \<Rightarrow>
        if m = 0 then Some (g', r)
        else case split_permit (rs_permit r) m of None \<Rightarrow> None
          | Some _ \<Rightarrow> Some (g', r\<lparr>rs_permit := less_permit (rs_permit r) m\<rparr>))"

definition own_response_bytes :: "budget \<Rightarrow> reservation \<Rightarrow> nat \<Rightarrow> nat option mem_op" where
  "own_response_bytes g r len =
     (case checked_usize (len * capture_memory_weight) of None \<Rightarrow> (g, r, None) | Some required \<Rightarrow>
      case as_u32 (units required) of None \<Rightarrow> (g, r, None) | Some n \<Rightarrow>
      let previous = rs_response_bytes r; m = previous div unit_bytes in
      case payload_permit g r n m of None \<Rightarrow> (g, r, None) | Some (g1, r1) \<Rightarrow>
        if n < m \<and> rs_permit r1 = None then (g, r, None)
        else case (if n < m then drop_split g1 r1 (m - n) else (g1, r1)) of (g2, r2) \<Rightarrow>
          (g2, r2\<lparr>rs_held := rs_held r2 - previous, rs_response_bytes := 0, rs_response_reserved := False\<rparr>, Some n))"

definition reserve_conversation_projection :: "budget \<Rightarrow> nat \<Rightarrow> nat \<Rightarrow> budget \<times> nat option" where
  "reserve_conversation_projection g bytes weight =
     (case checked_usize (bytes * weight) of None \<Rightarrow> (g, None) | Some weighted \<Rightarrow>
      case as_u32 (units weighted) of None \<Rightarrow> (g, None) | Some n \<Rightarrow>
      case acquire g n of None \<Rightarrow> (g, None) | Some g \<Rightarrow> (g, Some n))"

definition release_rejected_request :: "budget \<Rightarrow> reservation \<Rightarrow> budget \<times> reservation" where
  "release_rejected_request g r =
     (g\<lparr>bg_permits := bg_permits g + permit_units (rs_permit r), bg_retained := bg_retained g + permit_units (rs_retained r)\<rparr>,
      new_reservation)"

definition bounded_json_fits :: "string \<Rightarrow> nat \<Rightarrow> bool" where
  "bounded_json_fits body limit \<longleftrightarrow>
     sat_usize (sat_usize (length body * 2) + sat_usize (json_nodes body * 256)) \<le> limit"

subsection \<open>The contract of an operation\<close>

text \<open>
  A reservation is in order when its permit covers exactly the bytes it charges, in whole
  units, and the buffered response is a part of them.
\<close>

definition res_ok :: "reservation \<Rightarrow> bool" where
  "res_ok r \<longleftrightarrow> permit_units (rs_permit r) = units (rs_held r) \<and> rs_response_bytes r \<le> rs_held r \<and>
     unit_bytes dvd rs_response_bytes r \<and> (rs_response_reserved r \<longleftrightarrow> 0 < rs_response_bytes r)"

text \<open>No operation creates or loses a unit: what leaves a semaphore is in a permit.\<close>

definition conserves :: "budget \<Rightarrow> reservation \<Rightarrow> budget \<Rightarrow> reservation \<Rightarrow> nat \<Rightarrow> bool" where
  "conserves g r g' r' n \<longleftrightarrow> bg_capacity g' = bg_capacity g \<and>
     bg_permits g' + permit_units (rs_permit r') + n = bg_permits g + permit_units (rs_permit r) \<and>
     bg_retained g' + permit_units (rs_retained r') = bg_retained g + permit_units (rs_retained r)"

named_theorems mem_simps "unfolding of permits and checked sizes"

lemma unit_bytes_pos [simp]: "0 < unit_bytes"
  by (simp add: unit_bytes_def)

lemma checked_usize_Some [mem_simps]: "checked_usize n = Some m \<longleftrightarrow> m = n \<and> n \<le> usize_max"
  by (auto simp: checked_usize_def)

lemma as_u32_Some [mem_simps]: "as_u32 n = Some m \<longleftrightarrow> m = n \<and> n \<le> u32_max"
  by (auto simp: as_u32_def)

lemma acquire_Some [mem_simps]: "acquire g n = Some g' \<longleftrightarrow> n \<le> bg_permits g \<and> g' = g\<lparr>bg_permits := bg_permits g - n\<rparr>"
  by (auto simp: acquire_def)

lemma acquire_retained_Some [mem_simps]:
  "acquire_retained g n = Some g' \<longleftrightarrow> n \<le> bg_retained g \<and> g' = g\<lparr>bg_retained := bg_retained g - n\<rparr>"
  by (auto simp: acquire_retained_def)

lemma permit_units_simps [mem_simps]:
  "permit_units None = 0" "permit_units (Some n) = n" "permit_units (merge_permit p n) = permit_units p + n"
  by (auto simp: permit_units_def merge_permit_def split: option.split)

lemma split_permit_Some [mem_simps]: "split_permit p n = Some m \<longleftrightarrow> m = n \<and> (\<exists>k. p = Some k \<and> n \<le> k)"
  by (auto simp: split_permit_def split: option.splits if_splits)

lemma less_permit_units [mem_simps]: "permit_units (less_permit p n) = permit_units p - n"
  by (auto simp: less_permit_def permit_units_def split: option.split)

lemma units_mono: "m \<le> n \<Longrightarrow> units m \<le> units n"
  by (simp add: units_def div_le_mono)

lemma units_add_unit: "units (n + m * unit_bytes) = units n + m"
proof -
  have "n + m * unit_bytes + (unit_bytes - 1) = n + (unit_bytes - 1) + m * unit_bytes" by simp
  then show ?thesis unfolding units_def by (simp only: div_mult_self1) simp
qed

lemma units_sub_unit:
  assumes "unit_bytes dvd d" and "d \<le> n"
  shows "units (n - d) = units n - d div unit_bytes"
  using assms units_add_unit [of "n - d" "d div unit_bytes"] by simp

lemma units_covers: "n \<le> units n * unit_bytes"
proof -
  have "n + (unit_bytes - 1) = (n + (unit_bytes - 1)) div unit_bytes * unit_bytes + (n + (unit_bytes - 1)) mod unit_bytes"
    by (simp add: div_mult_mod_eq)
  moreover have "(n + (unit_bytes - 1)) mod unit_bytes \<le> unit_bytes - 1"
    using mod_less_divisor [of unit_bytes "n + (unit_bytes - 1)"] by (simp add: unit_bytes_def)
  ultimately show ?thesis unfolding units_def by linarith
qed

lemma drop_split_ok:
  assumes "n \<le> permit_units (rs_permit r)" and "drop_split g r n = (g', r')"
  shows "\<exists>p. g' = g\<lparr>bg_permits := bg_permits g + n\<rparr> \<and> r' = r\<lparr>rs_permit := p\<rparr> \<and> permit_units p = permit_units (rs_permit r) - n"
proof (cases "rs_permit r")
  case None
  with assms have "n = 0" by (simp add: mem_simps)
  with assms(2) None have "g' = g\<lparr>bg_permits := bg_permits g + n\<rparr>" "r' = r\<lparr>rs_permit := None\<rparr>"
    by (simp_all add: drop_split_def split_permit_def)
  with None show ?thesis by (auto simp: mem_simps)
next
  case (Some k)
  with assms have "g' = g\<lparr>bg_permits := bg_permits g + n\<rparr> \<and> r' = r\<lparr>rs_permit := Some (k - n)\<rparr>"
    by (auto simp: drop_split_def split_permit_def mem_simps less_permit_def)
  with Some show ?thesis by (auto simp: mem_simps)
qed

subsection \<open>The interface\<close>

text \<open>
  What the budget relies on in each operation of a reservation, under the caller's
  obligation \<open>may\<close>: it conserves units and leaves the reservation in order. The operation
  returns the units it hands out as a permit of their own.
\<close>

locale charging =
  fixes run :: "budget \<Rightarrow> reservation \<Rightarrow> budget \<times> reservation \<times> nat"
    and may :: "reservation \<Rightarrow> bool"
  assumes run_conserves: "res_ok r \<Longrightarrow> may r \<Longrightarrow> run g r = (g', r', n) \<Longrightarrow> conserves g r g' r' n"
    and run_ok: "res_ok r \<Longrightarrow> may r \<Longrightarrow> run g r = (g', r', n) \<Longrightarrow> res_ok r'"

text \<open>The process: its budget, the live reservations and the permits that live on their own.\<close>

record memory_system =
  ms_budget :: budget
  ms_reservations :: "(nat, reservation) table"
  ms_loose :: "nat list"

definition held_units :: "memory_system \<Rightarrow> int" where
  "held_units s = tsum (\<lambda>_ r. int (permit_units (rs_permit r))) (ms_reservations s) + int (sum_list (ms_loose s))"

definition retained_units :: "memory_system \<Rightarrow> int" where
  "retained_units s = tsum (\<lambda>_ r. int (permit_units (rs_retained r))) (ms_reservations s)"

definition memory_inv :: "memory_system \<Rightarrow> bool" where
  "memory_inv s \<longleftrightarrow> wf_table (ms_reservations s) \<and>
     held_units s + int (bg_permits (ms_budget s)) = int (bg_capacity (ms_budget s) div unit_bytes) \<and>
     retained_units s + int (bg_retained (ms_budget s)) = int (bg_capacity (ms_budget s) div 4 div unit_bytes) \<and>
     (\<forall>i r. tget (ms_reservations s) i = Some r \<longrightarrow> res_ok r)"

context charging
begin

lemma run_inv:
  assumes inv: "memory_inv s" and r: "tget (ms_reservations s) i = Some r" "may r"
    and run: "run (ms_budget s) r = (g', r', n)"
  shows "memory_inv (s\<lparr>ms_budget := g', ms_reservations := tput i r' (ms_reservations s), ms_loose := n # ms_loose s\<rparr>)"
proof -
  have ok: "res_ok r" using inv r(1) by (simp add: memory_inv_def)
  have c: "conserves (ms_budget s) r g' r' n" and ok': "res_ok r'"
    by (rule run_conserves [OF ok r(2) run], rule run_ok [OF ok r(2) run])
  show ?thesis
    using inv c ok' r(1)
    by (auto simp: memory_inv_def held_units_def retained_units_def conserves_def tbl_simps alist_table.total_put_old)
qed

end
subsection \<open>The operations meet the contract\<close>

text \<open>How the result of an operation counts: only a permit that is handed out leaves the reservation.\<close>

fun keeping :: "'a mem_op \<Rightarrow> budget \<times> reservation \<times> nat" where
  "keeping (g, r, _) = (g, r, 0)"

fun handing :: "nat option mem_op \<Rightarrow> budget \<times> reservation \<times> nat" where
  "handing (g, r, p) = (g, r, permit_units p)"

fun plain :: "budget \<times> reservation \<Rightarrow> budget \<times> reservation \<times> nat" where
  "plain (g, r) = (g, r, 0)"

lemmas contract_simps = conserves_def res_ok_def mem_simps

lemma conserves_refl [simp]: "conserves g r g r 0"
  by (simp add: conserves_def)

lemma try_grow_cases:
  "try_grow g r b w = (g', r', ok) \<Longrightarrow>
     (\<not> ok \<and> g' = g \<and> r' = r) \<or>
     (ok \<and> rs_held r + b * w \<le> usize_max \<and> units (rs_held r + b * w) - units (rs_held r) \<le> bg_permits g \<and>
      g' = g\<lparr>bg_permits := bg_permits g - (units (rs_held r + b * w) - units (rs_held r))\<rparr> \<and>
      r' = r\<lparr>rs_permit := merge_permit (rs_permit r) (units (rs_held r + b * w) - units (rs_held r)), rs_held := rs_held r + b * w\<rparr>)"
  by (auto simp: try_grow_def mem_simps split: option.splits)

lemma grow_contract:
  assumes "res_ok r" and "try_grow g r b w = (g', r', ok)"
  shows "conserves g r g' r' 0" and "res_ok r'"
  using try_grow_cases [OF assms(2)] assms(1) units_mono [of "rs_held r" "rs_held r + b * w"]
  by (auto simp: contract_simps)

interpretation grow: charging "\<lambda>g r. keeping (try_grow g r b w)" "\<lambda>_. True" for b w
  using grow_contract by unfold_locales (auto elim!: keeping.elims)

text \<open>Releasing is for what the request has grown by: it never eats into the buffered response.\<close>

lemma release_contract:
  assumes ok: "res_ok r" and le: "b * w \<le> rs_held r - rs_response_bytes r" and run: "release g r b w = (g', r')"
  shows "conserves g r g' r' 0" and "res_ok r'"
proof -
  define d where "d = sat_usize (b * w)"
  define h where "h = rs_held r - d"
  define n where "n = units (rs_held r) - units h"
  have un: "units h + n = units (rs_held r)" by (simp add: n_def h_def units_mono)
  have "d \<le> rs_held r - rs_response_bytes r" using le by (simp add: d_def sat_usize_def)
  moreover have resp: "rs_response_bytes r \<le> rs_held r" using ok by (simp add: res_ok_def)
  ultimately have held: "rs_response_bytes r \<le> h" unfolding h_def by linarith
  obtain g1 r1 where ds: "drop_split g r n = (g1, r1)" by force
  have le: "n \<le> permit_units (rs_permit r)" using ok un by (simp add: res_ok_def)
  from drop_split_ok [OF this ds] obtain p where g1: "g1 = g\<lparr>bg_permits := bg_permits g + n\<rparr>" "r1 = r\<lparr>rs_permit := p\<rparr>"
    and p: "permit_units p = permit_units (rs_permit r) - n" by blast
  have pn: "permit_units p + n = permit_units (rs_permit r)" using p le by simp
  have ph: "permit_units p = units h" using pn un ok by (simp add: res_ok_def)
  have run': "(g', r') = (case rs_retained r of None \<Rightarrow> (g1, r1\<lparr>rs_held := h\<rparr>)
      | Some m \<Rightarrow> (g1\<lparr>bg_retained := bg_retained g1 + min n m\<rparr>, r1\<lparr>rs_held := h, rs_retained := Some (m - min n m)\<rparr>))"
    using run by (simp add: release_def ds Let_def g1 flip: d_def h_def n_def split: option.splits)
  show "conserves g r g' r' 0" using run' pn by (auto simp: g1 conserves_def mem_simps split: option.splits)
  show "res_ok r'" using run' ph held ok by (auto simp: g1 res_ok_def split: option.splits)
qed

interpretation releasing: charging "\<lambda>g r. plain (release g r b w)" "\<lambda>r. b * w \<le> rs_held r - rs_response_bytes r" for b w
  using release_contract by unfold_locales (auto elim!: plain.elims)

interpretation dropping: charging "\<lambda>g r. plain (drop_memory g r b)" "\<lambda>r. b \<le> rs_held r - rs_response_bytes r" for b
  using release_contract [of _ b 1] by unfold_locales (auto simp: drop_memory_def elim!: plain.elims)

interpretation sse_streaming: charging "\<lambda>g r. keeping (try_reserve_sse_streaming g r n)" "\<lambda>_. True" for n
  using grow_contract
  by unfold_locales (auto simp: try_reserve_sse_streaming_def elim!: keeping.elims split: option.splits prod.splits)

interpretation archive_output: charging "\<lambda>g r. keeping (try_reserve_archive_output g r n)" "\<lambda>_. True" for n
  using grow_contract
  by unfold_locales (auto simp: try_reserve_archive_output_def Let_def elim!: keeping.elims split: prod.splits)

interpretation archive_json: charging "\<lambda>g r. keeping (try_reserve_archive_json_transform g r body)" "\<lambda>_. True" for body
  using archive_output.run_conserves archive_output.run_ok
  by unfold_locales (auto simp: try_reserve_archive_json_transform_def split: option.splits)

lemma res_ok_json [simp]:
  "res_ok (r\<lparr>rs_json_reserved := n\<rparr>) = res_ok r" "res_ok (r\<lparr>rs_json_body_ceiling := m, rs_json_node_ceiling := k\<rparr>) = res_ok r"
  "conserves g (r\<lparr>rs_json_reserved := n\<rparr>) g' r' j = conserves g r g' r' j"
  "conserves g r g' (r'\<lparr>rs_json_body_ceiling := m, rs_json_node_ceiling := k, rs_json_reserved := n\<rparr>) j = conserves g r g' r' j"
  by (simp_all add: res_ok_def conserves_def)

interpretation reserve_json: charging "\<lambda>g r. keeping (try_reserve_json g r body)" "\<lambda>_. True" for body
  using grow_contract
  by unfold_locales (auto simp: try_reserve_json_def elim!: keeping.elims split: option.splits prod.splits bool.splits)

interpretation working_copies: charging "\<lambda>g r. plain (release_conversation_working_copies g r b)"
    "\<lambda>r. b * 2 \<le> rs_held r - rs_response_bytes r" for b
  using release_contract [of _ b 2]
  by unfold_locales (auto simp: release_conversation_working_copies_def request_memory_weight_def elim!: plain.elims)

interpretation source_backed: charging "\<lambda>g r. plain (release_source_backed_conversation_working_copies g r b)"
    "\<lambda>r. max (rs_json_reserved r) (b * 3) \<le> rs_held r - rs_response_bytes r" for b
proof
  fix r :: reservation and g g' :: budget and r' :: reservation and n :: nat
  let ?r = "r\<lparr>rs_json_reserved := 0\<rparr>" and ?d = "max (rs_json_reserved r) (sat_usize (b * 3))"
  assume ok: "res_ok r" and le: "max (rs_json_reserved r) (b * 3) \<le> rs_held r - rs_response_bytes r"
    and run: "plain (release_source_backed_conversation_working_copies g r b) = (g', r', n)"
  have "?d * 1 \<le> rs_held ?r - rs_response_bytes ?r" using le by (auto simp: sat_usize_def min_def)
  moreover have "release g ?r ?d 1 = (g', r')" "n = 0"
    using run by (auto simp: release_source_backed_conversation_working_copies_def request_memory_weight_def elim!: plain.elims)
  ultimately show "conserves g r g' r' n" "res_ok r'" using release_contract [of ?r ?d 1 g g' r'] ok by simp_all
qed

interpretation unretained_json: charging "\<lambda>g r. plain (release_unretained_json g r)"
    "\<lambda>r. rs_json_reserved r \<le> rs_held r - rs_response_bytes r"
proof
  fix r :: reservation and g g' :: budget and r' :: reservation and n :: nat
  assume "res_ok r" "rs_json_reserved r \<le> rs_held r - rs_response_bytes r" "plain (release_unretained_json g r) = (g', r', n)"
  then show "conserves g r g' r' n" "res_ok r'"
    using release_contract [of "r\<lparr>rs_json_reserved := 0\<rparr>" "rs_json_reserved r" 1 g g' r']
    by (auto simp: release_unretained_json_def elim!: plain.elims)
qed

paragraph \<open>The retained partition\<close>

interpretation finalize: charging "\<lambda>g r. keeping (finalize_request g r)" "\<lambda>_. True"
  by unfold_locales (auto simp: finalize_request_def set_retained_def contract_simps elim!: keeping.elims
      split: option.splits prod.splits)

interpretation retained_for_stream: charging "\<lambda>g r. plain (release_retained_request_for_stream g r)" "\<lambda>_. True"
  by unfold_locales (auto simp: release_retained_request_for_stream_def set_retained_def contract_simps elim!: plain.elims)

interpretation unexpected: charging "\<lambda>g r. keeping (reserve_unexpected_buffered_request g r p w)" "\<lambda>_. True" for p w
  by unfold_locales (auto simp: reserve_unexpected_buffered_request_def contract_simps elim!: keeping.elims
      split: option.splits if_splits)
paragraph \<open>Buffered responses\<close>

lemma add_response_contract:
  assumes "res_ok r" and "\<not> rs_response_reserved r" and "0 < n" and "n + m \<le> bg_permits g"
  shows "conserves g r (g\<lparr>bg_permits := bg_permits g - (n + m)\<rparr>) (add_response r n) m" and "res_ok (add_response r n)"
  using assms by (simp_all add: add_response_def contract_simps units_add_unit)

lemma response_units_pos: "0 < units (max k unit_bytes)"
  by (auto simp: units_def unit_bytes_def div_greater_zero_iff)

interpretation buffered: charging "\<lambda>g r. keeping (reserve_buffered_response g r n)" "\<lambda>_. True" for n
proof
  fix r :: reservation and g g' :: budget and r' :: reservation and k :: nat
  let ?n = "units (max (sat_usize (n * capture_memory_weight)) unit_bytes)"
  assume ok: "res_ok r" and run: "keeping (reserve_buffered_response g r n) = (g', r', k)"
  then have "(g', r', k) = (g, r, 0) \<or> (\<not> rs_response_reserved r \<and> ?n \<le> bg_permits g \<and>
      (g', r', k) = (g\<lparr>bg_permits := bg_permits g - ?n\<rparr>, add_response r ?n, 0))"
    by (auto simp: reserve_buffered_response_def Let_def mem_simps split: if_splits option.splits)
  then show "conserves g r g' r' k" "res_ok r'"
    using ok add_response_contract [OF ok _ response_units_pos, where m = 0 and g = g] by auto
qed

interpretation buffered_projection: charging "\<lambda>g r. handing (reserve_buffered_response_with_projection g r n p w)" "\<lambda>_. True"
  for n p w
proof
  fix r :: reservation and g g' :: budget and r' :: reservation and k :: nat
  let ?n = "units (max (sat_usize (n * capture_memory_weight)) unit_bytes)" and ?m = "units (p * w)"
  assume ok: "res_ok r" and run: "handing (reserve_buffered_response_with_projection g r n p w) = (g', r', k)"
  then have "(g', r', k) = (g, r, 0) \<or> (\<not> rs_response_reserved r \<and> ?n + ?m \<le> bg_permits g \<and>
      (g', r', k) = (g\<lparr>bg_permits := bg_permits g - (?n + ?m)\<rparr>, add_response r ?n, ?m))"
    by (auto simp: reserve_buffered_response_with_projection_def mem_simps split: if_splits option.splits)
  then show "conserves g r g' r' k" "res_ok r'"
    using ok add_response_contract [OF ok _ response_units_pos, where m = ?m and g = g] by auto
qed

lemma resize_cases:
  assumes "resize_buffered_response g r k shrink = (g', r', b)"
    and "req = units (max k unit_bytes) * unit_bytes" and "prev = rs_response_bytes r"
  obtains (same) "g' = g" "r' = r"
    | (grow) "rs_response_reserved r" "prev < req" "(req - prev) div unit_bytes \<le> bg_permits g"
      "g' = g\<lparr>bg_permits := bg_permits g - (req - prev) div unit_bytes\<rparr>"
      "r' = r\<lparr>rs_permit := merge_permit (rs_permit r) ((req - prev) div unit_bytes), rs_held := rs_held r + (req - prev),
        rs_response_bytes := req\<rparr>"
    | (shrink) g1 r1 where "rs_response_reserved r" "req \<le> prev" "drop_split g r ((prev - req) div unit_bytes) = (g1, r1)"
      "g' = g1" "r' = r1\<lparr>rs_held := rs_held r1 - (prev - req), rs_response_bytes := req\<rparr>"
proof (cases "rs_response_reserved r \<and> req \<le> usize_max")
  case True
  show ?thesis
  proof (cases "prev < req")
    case less: True
    show ?thesis
    proof (cases "rs_held r + (req - prev) \<le> usize_max \<and> (req - prev) div unit_bytes \<le> u32_max \<and>
        (req - prev) div unit_bytes \<le> bg_permits g")
      case fits: True
      show ?thesis
        using assms(1) True less fits
        by (intro grow) (simp_all add: resize_buffered_response_def checked_usize_def as_u32_def acquire_def flip: assms(2,3))
    next
      case False
      then show ?thesis
        using assms(1) True less
        by (intro same)
          (auto simp: resize_buffered_response_def checked_usize_def as_u32_def acquire_def simp flip: assms(2,3) split: if_splits)
    qed
  next
    case ge: False
    show ?thesis
    proof (cases shrink)
      case True
      obtain g1 r1 where "drop_split g r ((prev - req) div unit_bytes) = (g1, r1)" by force
      with assms(1) \<open>rs_response_reserved r \<and> req \<le> usize_max\<close> ge True show ?thesis
        by (intro that(3)) (auto simp: resize_buffered_response_def checked_usize_def simp flip: assms(2,3))
    next
      case False
      with assms(1) True ge show ?thesis
        by (intro same) (auto simp: resize_buffered_response_def checked_usize_def simp flip: assms(2,3))
    qed
  qed
next
  case False
  with assms(1) show ?thesis
    by (intro same) (auto simp: resize_buffered_response_def checked_usize_def simp flip: assms(2,3) split: if_splits)
qed

lemma resize_contract:
  assumes ok: "res_ok r" and run: "resize_buffered_response g r k shrink = (g', r', b)"
  shows "conserves g r g' r' 0" and "res_ok r'"
proof -
  let ?req = "units (max k unit_bytes) * unit_bytes" and ?prev = "rs_response_bytes r"
  have "conserves g r g' r' 0 \<and> res_ok r'"
  proof (cases rule: resize_cases [OF run refl refl])
    case 1
    with ok show ?thesis by simp
  next
    case 2
    define n where "n = (?req - ?prev) div unit_bytes"
    define h where "h = rs_held r + (?req - ?prev)"
    have "unit_bytes dvd ?req - ?prev" using ok by (simp add: res_ok_def dvd_diff_nat)
    then have "h = rs_held r + n * unit_bytes" by (simp add: h_def n_def)
    then have u: "units h = units (rs_held r) + n" by (simp add: units_add_unit)
    have "?prev \<le> rs_held r" using ok by (simp add: res_ok_def)
    then have le: "?req \<le> h" using 2(2) unfolding h_def by linarith
    have "0 < ?req" using response_units_pos [of k] by simp
    with 2(1,3-5) u le ok show ?thesis unfolding n_def [symmetric] h_def [symmetric] by (simp add: contract_simps)
  next
    case (3 g1 r1)
    define d where "d = ?prev - ?req"
    define n where "n = d div unit_bytes"
    have d: "unit_bytes dvd d" "d \<le> rs_held r" using ok by (auto simp: res_ok_def dvd_diff_nat d_def)
    have "rs_held r = rs_held r - d + n * unit_bytes" using d by (simp add: n_def)
    then have u: "units (rs_held r) = units (rs_held r - d) + n" using units_add_unit by metis
    then have np: "n \<le> permit_units (rs_permit r)" using ok by (simp add: res_ok_def)
    from drop_split_ok [OF this 3(3) [folded d_def n_def]] obtain p where g1: "g1 = g\<lparr>bg_permits := bg_permits g + n\<rparr>"
      "r1 = r\<lparr>rs_permit := p\<rparr>" and p: "permit_units p = permit_units (rs_permit r) - n" by blast
    have p': "permit_units p + n = permit_units (rs_permit r)" "permit_units p = units (rs_held r - d)"
      using p np u ok by (simp_all add: res_ok_def)
    have "?prev \<le> rs_held r" using ok by (simp add: res_ok_def)
    then have le: "?req \<le> rs_held r - d" using 3(2) unfolding d_def by linarith
    have "0 < ?req" using response_units_pos [of k] by simp
    with 3(1,4,5) p' le ok g1 show ?thesis unfolding d_def [symmetric] by (simp add: contract_simps)
  qed
  then show "conserves g r g' r' 0" "res_ok r'" by auto
qed

interpretation grow_buffered: charging "\<lambda>g r. keeping (grow_buffered_response g r n)" "\<lambda>_. True" for n
  using resize_contract by unfold_locales (auto simp: grow_buffered_response_def elim!: keeping.elims split: if_splits)

interpretation shrink_capacity: charging "\<lambda>g r. plain (shrink_buffered_response_capacity g r n)" "\<lambda>_. True" for n
  using resize_contract
  by unfold_locales (auto simp: shrink_buffered_response_capacity_def elim!: plain.elims split: if_splits prod.splits)

interpretation response_json: charging "\<lambda>g r. keeping (reserve_response_json g r body)" "\<lambda>_. True" for body
  using resize_contract
  by unfold_locales (auto simp: reserve_response_json_def elim!: keeping.elims split: if_splits option.splits)

interpretation shrink_buffered: charging "\<lambda>g r. plain (shrink_buffered_response g r body)" "\<lambda>_. True" for body
  using resize_contract
  by unfold_locales (auto simp: shrink_buffered_response_def elim!: plain.elims split: option.splits prod.splits)
lemma drop_response:
  assumes "res_ok r"
  shows "rs_response_bytes r div unit_bytes \<le> permit_units (rs_permit r)"
    and "units (rs_held r - rs_response_bytes r) = units (rs_held r) - rs_response_bytes r div unit_bytes"
proof -
  have d: "unit_bytes dvd rs_response_bytes r" "rs_response_bytes r \<le> rs_held r" using assms by (auto simp: res_ok_def)
  show u: "units (rs_held r - rs_response_bytes r) = units (rs_held r) - rs_response_bytes r div unit_bytes"
    by (rule units_sub_unit [OF d])
  have "rs_response_bytes r div unit_bytes \<le> units (rs_response_bytes r)" by (simp add: units_def div_le_mono)
  also have "\<dots> \<le> units (rs_held r)" by (rule units_mono [OF d(2)])
  finally show "rs_response_bytes r div unit_bytes \<le> permit_units (rs_permit r)" using assms by (simp add: res_ok_def)
qed

interpretation release_buffered: charging "\<lambda>g r. plain (release_buffered_response g r)" "\<lambda>_. True"
proof
  fix r :: reservation and g g' :: budget and r' :: reservation and k :: nat
  assume ok: "res_ok r" and run: "plain (release_buffered_response g r) = (g', r', k)"
  obtain g1 r1 where ds: "drop_split g r (rs_response_bytes r div unit_bytes) = (g1, r1)" by force
  from drop_split_ok [OF drop_response(1) [OF ok] ds]
  obtain p where "g1 = g\<lparr>bg_permits := bg_permits g + rs_response_bytes r div unit_bytes\<rparr>" "r1 = r\<lparr>rs_permit := p\<rparr>"
    "permit_units p = permit_units (rs_permit r) - rs_response_bytes r div unit_bytes" by blast
  then show "conserves g r g' r' k" "res_ok r'"
    using run ok drop_response [OF ok] by (auto simp: release_buffered_response_def ds Let_def contract_simps)
qed

interpretation take_envelope: charging "\<lambda>g r. handing (take_response_envelope g r)" "\<lambda>_. True"
proof
  fix r :: reservation and g g' :: budget and r' :: reservation and k :: nat
  assume ok: "res_ok r" and run: "handing (take_response_envelope g r) = (g', r', k)"
  show "conserves g r g' r' k" "res_ok r'"
    using run ok drop_response [OF ok]
    by (auto simp: take_response_envelope_def Let_def contract_simps split: option.splits)
qed

lemma payload_permit_Some:
  assumes "payload_permit g r n m = Some (g1, r1)" and "m \<le> permit_units (rs_permit r)"
  shows "\<exists>p. r1 = r\<lparr>rs_permit := p\<rparr> \<and> permit_units p = permit_units (rs_permit r) - min n m \<and>
    bg_permits g1 + (n - m) = bg_permits g \<and> bg_retained g1 = bg_retained g \<and> bg_capacity g1 = bg_capacity g \<and>
    (p = None \<longrightarrow> rs_permit r = None)"
proof -
  consider "n = 0" | "0 < n" "n \<le> m" | "m < n" "m = 0" | "m < n" "0 < m" by linarith
  then show ?thesis
  proof cases
    case 1
    with assms show ?thesis by (intro exI [of _ "rs_permit r"]) (simp add: payload_permit_def)
  next
    case 2
    with assms show ?thesis
      by (intro exI [of _ "less_permit (rs_permit r) n"])
        (auto simp: payload_permit_def mem_simps less_permit_def split: option.splits)
  next
    case 3
    with assms show ?thesis
      by (intro exI [of _ "rs_permit r"]) (auto simp: payload_permit_def mem_simps split: option.splits)
  next
    case 4
    with assms show ?thesis
      by (intro exI [of _ "less_permit (rs_permit r) m"])
        (auto simp: payload_permit_def mem_simps less_permit_def split: option.splits)
  qed
qed

interpretation own_bytes: charging "\<lambda>g r. handing (own_response_bytes g r len)" "\<lambda>_. True" for len
proof
  fix r :: reservation and g g' :: budget and r' :: reservation and k :: nat
  assume ok: "res_ok r" and run: "handing (own_response_bytes g r len) = (g', r', k)"
  let ?n = "units (len * capture_memory_weight)" and ?m = "rs_response_bytes r div unit_bytes"
  note resp = drop_response [OF ok]
  have "conserves g r g' r' k \<and> res_ok r'"
  proof (cases "(g', r', k) = (g, r, 0)")
    case True
    with ok show ?thesis by simp
  next
    case False
    then obtain g1 r1 where pay: "payload_permit g r ?n ?m = Some (g1, r1)"
      using run by (auto simp: own_response_bytes_def Let_def mem_simps split: option.splits)
    from payload_permit_Some [OF pay resp(1)] obtain p where r1: "r1 = r\<lparr>rs_permit := p\<rparr>"
      and p: "permit_units p = permit_units (rs_permit r) - min ?n ?m" and g1: "bg_permits g1 + (?n - ?m) = bg_permits g"
        "bg_retained g1 = bg_retained g" "bg_capacity g1 = bg_capacity g" by blast
    obtain g2 r2 where ds: "drop_split g1 r1 (?m - ?n) = (g2, r2)" by force
    have "?m - ?n \<le> permit_units (rs_permit r1)" using p resp(1) by (simp add: r1)
    from drop_split_ok [OF this ds] obtain q where g2: "g2 = g1\<lparr>bg_permits := bg_permits g1 + (?m - ?n)\<rparr>"
      "r2 = r1\<lparr>rs_permit := q\<rparr>" "permit_units q = permit_units (rs_permit r1) - (?m - ?n)" by blast
    have k: "k = ?n \<and> (g', r') = (if ?n < ?m then g2 else g1, (if ?n < ?m then r2 else r1)
        \<lparr>rs_held := rs_held r - rs_response_bytes r, rs_response_bytes := 0, rs_response_reserved := False\<rparr>)"
      using run False pay ds g2 r1 by (auto simp: own_response_bytes_def Let_def mem_simps split: option.splits if_splits)
    show ?thesis
    proof (cases "?n < ?m")
      case True
      with k have "k = ?n" "g' = g2" "r' = r2\<lparr>rs_held := rs_held r - rs_response_bytes r, rs_response_bytes := 0, rs_response_reserved := False\<rparr>"
        by simp_all
      with True ok resp p g1 g2 r1 show ?thesis by (simp add: contract_simps)
    next
      case ge: False
      with k have "k = ?n" "g' = g1" "r' = r1\<lparr>rs_held := rs_held r - rs_response_bytes r, rs_response_bytes := 0, rs_response_reserved := False\<rparr>"
        by simp_all
      with ge ok resp p g1 r1 show ?thesis by (simp add: contract_simps)
    qed
  qed
  then show "conserves g r g' r' k" "res_ok r'" by auto
qed

lemma new_reservation_ok [simp]: "res_ok new_reservation"
  by (simp add: contract_simps new_reservation_def units_def unit_bytes_def)

interpretation rejected: charging "\<lambda>g r. plain (release_rejected_request g r)" "\<lambda>_. True"
  by unfold_locales (auto simp: release_rejected_request_def conserves_def mem_simps new_reservation_def
      elim!: plain.elims, simp add: contract_simps units_def unit_bytes_def)
subsection \<open>The process\<close>

text \<open>
  The calls a request makes on its reservation, with the obligation its caller has: a release
  gives back at most what the request has grown by outside of the buffered response.
\<close>

datatype mem_call =
    Grow nat nat | SseStreaming nat | ArchiveOutput nat | ArchiveJson string | ReserveJson string
  | Release nat nat | DropMemory nat | ReleaseWorkingCopies nat | ReleaseSourceBacked nat | ReleaseJson
  | FinalizeRequest | ReleaseRetained | UnexpectedBuffered nat nat
  | BufferedResponse nat | BufferedWithProjection nat nat nat | GrowBuffered nat | ShrinkCapacity nat
  | ResponseJson string | ShrinkBuffered string | ReleaseBuffered | TakeEnvelope | OwnBytes nat | ReleaseRejected

fun exec_call :: "mem_call \<Rightarrow> budget \<Rightarrow> reservation \<Rightarrow> budget \<times> reservation \<times> nat" where
  "exec_call (Grow b w) g r = keeping (try_grow g r b w)"
| "exec_call (SseStreaming n) g r = keeping (try_reserve_sse_streaming g r n)"
| "exec_call (ArchiveOutput n) g r = keeping (try_reserve_archive_output g r n)"
| "exec_call (ArchiveJson body) g r = keeping (try_reserve_archive_json_transform g r body)"
| "exec_call (ReserveJson body) g r = keeping (try_reserve_json g r body)"
| "exec_call (Release b w) g r = plain (release g r b w)"
| "exec_call (DropMemory b) g r = plain (drop_memory g r b)"
| "exec_call (ReleaseWorkingCopies b) g r = plain (release_conversation_working_copies g r b)"
| "exec_call (ReleaseSourceBacked b) g r = plain (release_source_backed_conversation_working_copies g r b)"
| "exec_call ReleaseJson g r = plain (release_unretained_json g r)"
| "exec_call FinalizeRequest g r = keeping (finalize_request g r)"
| "exec_call ReleaseRetained g r = plain (release_retained_request_for_stream g r)"
| "exec_call (UnexpectedBuffered p w) g r = keeping (reserve_unexpected_buffered_request g r p w)"
| "exec_call (BufferedResponse n) g r = keeping (reserve_buffered_response g r n)"
| "exec_call (BufferedWithProjection n p w) g r = handing (reserve_buffered_response_with_projection g r n p w)"
| "exec_call (GrowBuffered n) g r = keeping (grow_buffered_response g r n)"
| "exec_call (ShrinkCapacity n) g r = plain (shrink_buffered_response_capacity g r n)"
| "exec_call (ResponseJson body) g r = keeping (reserve_response_json g r body)"
| "exec_call (ShrinkBuffered body) g r = plain (shrink_buffered_response g r body)"
| "exec_call ReleaseBuffered g r = plain (release_buffered_response g r)"
| "exec_call TakeEnvelope g r = handing (take_response_envelope g r)"
| "exec_call (OwnBytes n) g r = handing (own_response_bytes g r n)"
| "exec_call ReleaseRejected g r = plain (release_rejected_request g r)"

fun may_call :: "mem_call \<Rightarrow> reservation \<Rightarrow> bool" where
  "may_call (Release b w) r \<longleftrightarrow> b * w \<le> rs_held r - rs_response_bytes r"
| "may_call (DropMemory b) r \<longleftrightarrow> b \<le> rs_held r - rs_response_bytes r"
| "may_call (ReleaseWorkingCopies b) r \<longleftrightarrow> b * 2 \<le> rs_held r - rs_response_bytes r"
| "may_call (ReleaseSourceBacked b) r \<longleftrightarrow> max (rs_json_reserved r) (b * 3) \<le> rs_held r - rs_response_bytes r"
| "may_call ReleaseJson r \<longleftrightarrow> rs_json_reserved r \<le> rs_held r - rs_response_bytes r"
| "may_call _ r \<longleftrightarrow> True"

text \<open>Every call meets the contract, so the consequences of the interface hold for all of them.\<close>

lemma charging_cong:
  assumes "\<And>g r. run' g r = run g r" and "\<And>r. may' r = may r" and "charging run may"
  shows "charging run' may'"
  using assms by (simp add: charging_def)

lemmas call_axioms = grow.charging_axioms sse_streaming.charging_axioms archive_output.charging_axioms
  archive_json.charging_axioms reserve_json.charging_axioms releasing.charging_axioms dropping.charging_axioms
  working_copies.charging_axioms source_backed.charging_axioms unretained_json.charging_axioms finalize.charging_axioms
  retained_for_stream.charging_axioms unexpected.charging_axioms buffered.charging_axioms
  buffered_projection.charging_axioms grow_buffered.charging_axioms shrink_capacity.charging_axioms
  response_json.charging_axioms shrink_buffered.charging_axioms release_buffered.charging_axioms
  take_envelope.charging_axioms own_bytes.charging_axioms rejected.charging_axioms

interpretation call: charging "exec_call c" "may_call c" for c
  by (cases c; hypsubst; rule charging_cong; (rule exec_call.simps | rule may_call.simps | rule call_axioms))

text \<open>
  What happens to the process: a request begins and ends, calls on its reservation, permits
  that live on their own come and go, and a response envelope that was taken comes back.
\<close>

definition take_nth :: "nat \<Rightarrow> 'a list \<Rightarrow> 'a list" where
  "take_nth k xs = take k xs @ drop (Suc k) xs"

inductive mem_step :: "memory_system \<Rightarrow> memory_system \<Rightarrow> bool" where
  begin_request: "tget (ms_reservations s) i = None \<Longrightarrow>
    mem_step s (s\<lparr>ms_reservations := tput i new_reservation (ms_reservations s)\<rparr>)"
| on_call: "tget (ms_reservations s) i = Some r \<Longrightarrow> may_call c r \<Longrightarrow> exec_call c (ms_budget s) r = (g', r', n) \<Longrightarrow>
    mem_step s (s\<lparr>ms_budget := g', ms_reservations := tput i r' (ms_reservations s), ms_loose := n # ms_loose s\<rparr>)"
| ingress: "try_reserve_ingress_bytes (ms_budget s) b = (g', Some n) \<Longrightarrow>
    mem_step s (s\<lparr>ms_budget := g', ms_loose := n # ms_loose s\<rparr>)"
| projection: "reserve_conversation_projection (ms_budget s) b w = (g', Some n) \<Longrightarrow>
    mem_step s (s\<lparr>ms_budget := g', ms_loose := n # ms_loose s\<rparr>)"
| drop_permit: "k < length (ms_loose s) \<Longrightarrow>
    mem_step s (s\<lparr>ms_budget := (ms_budget s)\<lparr>bg_permits := bg_permits (ms_budget s) + ms_loose s ! k\<rparr>,
      ms_loose := take_nth k (ms_loose s)\<rparr>)"
| restore: "tget (ms_reservations s) i = Some r \<Longrightarrow> k < length (ms_loose s) \<Longrightarrow> 0 < ms_loose s ! k \<Longrightarrow>
    restore_response_envelope r (ms_loose s ! k) = (r', True) \<Longrightarrow>
    mem_step s (s\<lparr>ms_reservations := tput i r' (ms_reservations s), ms_loose := take_nth k (ms_loose s)\<rparr>)"
| end_request: "tget (ms_reservations s) i = Some r \<Longrightarrow> release_rejected_request (ms_budget s) r = (g', r') \<Longrightarrow>
    mem_step s (s\<lparr>ms_budget := g', ms_reservations := tdel i (ms_reservations s)\<rparr>)"

definition initial_memory :: "budget \<Rightarrow> memory_system" where
  "initial_memory g = \<lparr>ms_budget = g, ms_reservations = [], ms_loose = []\<rparr>"

inductive mem_reachable :: "nat \<Rightarrow> memory_system \<Rightarrow> bool" for bytes where
  start: "new_budget bytes = Inr g \<Longrightarrow> mem_reachable bytes (initial_memory g)"
| after: "mem_reachable bytes s \<Longrightarrow> mem_step s s' \<Longrightarrow> mem_reachable bytes s'"

inductive_cases mem_stepE: "mem_step s s'"

lemma sum_take_nth: "k < length xs \<Longrightarrow> xs ! k + sum_list (take_nth k xs) = sum_list (xs :: nat list)"
proof -
  assume "k < length xs"
  then have "sum_list xs = sum_list (take k xs @ xs ! k # drop (Suc k) xs)" by (simp only: id_take_nth_drop [symmetric])
  then show ?thesis by (simp add: take_nth_def)
qed

lemma restore_contract:
  assumes "res_ok r" and "0 < n" and "restore_response_envelope r n = (r', True)"
  shows "permit_units (rs_permit r') = permit_units (rs_permit r) + n" and "rs_retained r' = rs_retained r" and "res_ok r'"
  using assms by (auto simp: restore_response_envelope_def contract_simps units_add_unit split: if_splits)

lemma mem_step_inv:
  assumes "memory_inv s" and "mem_step s s'"
  shows "memory_inv s'"
  using assms(2)
proof cases
  case (begin_request i)
  with assms(1) show ?thesis
    by (auto simp: memory_inv_def held_units_def retained_units_def tbl_simps)
      (simp_all add: new_reservation_def mem_simps)
next
  case (on_call i r c g' r' n)
  show ?thesis unfolding on_call(1) by (rule call.run_inv [OF assms(1) on_call(2,3,4)])
next
  case (ingress b g' n)
  with assms(1) show ?thesis
    by (auto simp: memory_inv_def held_units_def retained_units_def try_reserve_ingress_bytes_def mem_simps split: option.splits)
next
  case (projection b w g' n)
  with assms(1) show ?thesis
    by (auto simp: memory_inv_def held_units_def retained_units_def reserve_conversation_projection_def mem_simps
        split: option.splits)
next
  case (drop_permit k)
  with assms(1) sum_take_nth [OF drop_permit(2)] show ?thesis
    by (simp add: memory_inv_def held_units_def retained_units_def)
next
  case (restore i r k r')
  have "res_ok r" using assms(1) restore(2) by (simp add: memory_inv_def)
  note c = restore_contract [OF this restore(4,5)]
  show ?thesis
    using assms(1) sum_take_nth [OF restore(3)] c restore(2)
    by (auto simp: restore(1) memory_inv_def held_units_def retained_units_def tbl_simps)
next
  case (end_request i r g' r')
  have wf: "wf_table (ms_reservations s)" using assms(1) by (simp add: memory_inv_def)
  show ?thesis
    using assms(1) end_request(2,3) wf
    by (auto simp: end_request(1) memory_inv_def held_units_def retained_units_def tbl_simps release_rejected_request_def)
qed

lemma mem_reachable_inv: "mem_reachable bytes s \<Longrightarrow> memory_inv s \<and> bg_capacity (ms_budget s) = bytes"
proof (induction rule: mem_reachable.induct)
  case (start g)
  then show ?case
    by (auto simp: new_budget_def initial_memory_def memory_inv_def held_units_def retained_units_def tbl_simps
        split: if_splits)
next
  case (after s s')
  have "bg_capacity (ms_budget s') = bg_capacity (ms_budget s)"
    using after(2)
  proof cases
    case (on_call i r c g' r' n)
    have "res_ok r" using after(3) on_call(2) by (simp add: memory_inv_def)
    from call.run_conserves [OF this on_call(3,4)] show ?thesis by (simp add: on_call(1) conserves_def)
  qed (auto simp: try_reserve_ingress_bytes_def reserve_conversation_projection_def release_rejected_request_def mem_simps
      split: option.splits)
  moreover have "memory_inv s'" using after(2,3) by (blast intro: mem_step_inv)
  ultimately show ?case using after(3) by simp
qed
lemma tsum_scale: "tsum (\<lambda>k r. f k r * c) t = tsum f t * c"
  by (induction t) (auto simp: tsum_def algebra_simps)

lemma tsum_mono: "(\<And>k r. (k, r) \<in> trows t \<Longrightarrow> f k r \<le> g k r) \<Longrightarrow> tsum f t \<le> tsum g t"
  by (induction t) (auto simp: tsum_def trows_def intro!: add_mono)

subsection \<open>Properties\<close>

text \<open>
  C33. The process never promises more memory than it has: in every state that requests,
  responses and streams can reach by admissions, releases, hand-overs and drops in any order,
  the bytes charged by all live reservations and all permits that live on their own are
  within the configured budget, the retained requests are within their quarter of it, and the
  usage reported to operators is exactly what is charged.
\<close>

theorem memory_within_budget:
  assumes "mem_reachable bytes s"
  shows "tsum (\<lambda>_ r. int (rs_held r)) (ms_reservations s) + int (sum_list (ms_loose s)) * int unit_bytes \<le> int bytes \<and>
    retained_units s * int unit_bytes \<le> int bytes div 4 \<and>
    int (fst (snapshot (ms_budget s))) = held_units s * int unit_bytes"
proof -
  have inv: "memory_inv s" and cap: "bg_capacity (ms_budget s) = bytes" using mem_reachable_inv [OF assms] by auto
  have "int (rs_held r) \<le> int (permit_units (rs_permit r)) * int unit_bytes" if "(i, r) \<in> trows (ms_reservations s)" for i r
  proof -
    have "res_ok r" using inv that by (auto simp: memory_inv_def dest: trows_tget)
    then have "rs_held r \<le> permit_units (rs_permit r) * unit_bytes" using units_covers [of "rs_held r"] by (simp add: res_ok_def)
    then show ?thesis by (metis of_nat_le_iff of_nat_mult)
  qed
  then have "tsum (\<lambda>_ r. int (rs_held r)) (ms_reservations s)
      \<le> tsum (\<lambda>_ r. int (permit_units (rs_permit r)) * int unit_bytes) (ms_reservations s)"
    by (intro tsum_mono)
  also have "\<dots> = tsum (\<lambda>_ r. int (permit_units (rs_permit r))) (ms_reservations s) * int unit_bytes" by (rule tsum_scale)
  finally have charged: "tsum (\<lambda>_ r. int (rs_held r)) (ms_reservations s) + int (sum_list (ms_loose s)) * int unit_bytes
      \<le> held_units s * int unit_bytes" by (simp add: held_units_def algebra_simps)
  have held: "held_units s + int (bg_permits (ms_budget s)) = int (bytes div unit_bytes)"
    and ret: "retained_units s + int (bg_retained (ms_budget s)) = int (bytes div 4 div unit_bytes)"
    using inv cap by (auto simp: memory_inv_def)
  have "held_units s * int unit_bytes \<le> int (bytes div unit_bytes) * int unit_bytes"
    using held by (intro mult_right_mono) auto
  also have "\<dots> \<le> int bytes" by (metis div_times_less_eq_dividend of_nat_le_iff of_nat_mult)
  finally have "held_units s * int unit_bytes \<le> int bytes" .
  moreover have "retained_units s * int unit_bytes \<le> int (bytes div 4 div unit_bytes) * int unit_bytes"
    using ret by (intro mult_right_mono) auto
  moreover have "int (bytes div 4 div unit_bytes) * int unit_bytes \<le> int bytes div 4"
    by (metis div_times_less_eq_dividend of_nat_le_iff of_nat_mult of_nat_numeral zdiv_int)
  moreover have "int (fst (snapshot (ms_budget s))) = held_units s * int unit_bytes"
  proof -
    have "bg_permits (ms_budget s) \<le> bytes div unit_bytes"
    proof -
      have "0 \<le> held_units s" unfolding held_units_def by (simp add: tsum_nonneg)
      with held show ?thesis by linarith
    qed
    then have "bg_permits (ms_budget s) * unit_bytes \<le> bytes div unit_bytes * unit_bytes" by (rule mult_le_mono1)
    then have "int (fst (snapshot (ms_budget s))) =
        (int (bytes div unit_bytes) - int (bg_permits (ms_budget s))) * int unit_bytes"
      by (simp add: snapshot_def cap Let_def of_nat_diff left_diff_distrib)
    moreover have "int (bytes div unit_bytes) - int (bg_permits (ms_budget s)) = held_units s" using held by simp
    ultimately show ?thesis by simp
  qed
  ultimately show ?thesis using charged by linarith
qed

text \<open>
  Admission is all or nothing: whenever an admission is refused, neither the semaphores
  nor the reservation have changed, so a refused request holds no partial permits.
\<close>

theorem memory_admission_atomic:
  "(try_grow g r b w = (g', r', False) \<longrightarrow> g' = g \<and> r' = r) \<and>
   (try_reserve_sse_streaming g r b = (g', r', None) \<longrightarrow> g' = g \<and> r' = r) \<and>
   (try_reserve_archive_json_transform g r body = (g', r', None) \<longrightarrow> g' = g \<and> r' = r) \<and>
   (try_reserve_json g r body = (g', r', False) \<longrightarrow> g' = g \<and> r' = r) \<and>
   (finalize_request g r = (g', r', False) \<longrightarrow> g' = g \<and> r' = r) \<and>
   (reserve_unexpected_buffered_request g r b w = (g', r', False) \<longrightarrow> g' = g \<and> r' = r) \<and>
   (reserve_buffered_response g r n = (g', r', False) \<longrightarrow> g' = g \<and> r' = r) \<and>
   (reserve_buffered_response_with_projection g r n b w = (g', r', None) \<longrightarrow> g' = g \<and> r' = r) \<and>
   (grow_buffered_response g r n = (g', r', False) \<longrightarrow> g' = g \<and> r' = r) \<and>
   (reserve_response_json g r body = (g', r', False) \<longrightarrow> g' = g \<and> r' = r) \<and>
   (take_response_envelope g r = (g', r', None) \<longrightarrow> g' = g \<and> r' = r) \<and>
   (own_response_bytes g r n = (g', r', None) \<longrightarrow> g' = g \<and> r' = r)"
proof -
  have grow: "try_grow g r b w = (g', r', False) \<Longrightarrow> g' = g \<and> r' = r" for b w
    using try_grow_cases by blast
  have resize: "resize_buffered_response g r k False = (g', r', False) \<Longrightarrow> g' = g \<and> r' = r" for k
    by (auto simp: resize_buffered_response_def Let_def split: if_splits option.splits)
  have a0: "g' = g \<and> r' = r" if "try_reserve_sse_streaming g r b = (g', r', None)"
    using that by (auto simp: try_reserve_sse_streaming_def dest!: grow split: option.splits prod.splits if_splits bool.splits)
  have a1: "g' = g \<and> r' = r" if "try_reserve_archive_json_transform g r body = (g', r', None)"
    using that by (auto simp: try_reserve_archive_json_transform_def try_reserve_archive_output_def Let_def dest!: grow split: option.splits prod.splits if_splits bool.splits)
  have a2: "g' = g \<and> r' = r" if "try_reserve_json g r body = (g', r', False)"
    using that by (auto simp: try_reserve_json_def dest!: grow split: option.splits prod.splits if_splits bool.splits)
  have a3: "g' = g \<and> r' = r" if "finalize_request g r = (g', r', False)"
    using that by (auto simp: finalize_request_def set_retained_def split: option.splits prod.splits if_splits bool.splits)
  have a4: "g' = g \<and> r' = r" if "reserve_unexpected_buffered_request g r b w = (g', r', False)"
    using that by (auto simp: reserve_unexpected_buffered_request_def split: option.splits prod.splits if_splits bool.splits)
  have a5: "g' = g \<and> r' = r" if "reserve_buffered_response g r n = (g', r', False)"
    using that by (auto simp: reserve_buffered_response_def Let_def split: option.splits prod.splits if_splits bool.splits)
  have a6: "g' = g \<and> r' = r" if "reserve_buffered_response_with_projection g r n b w = (g', r', None)"
    using that by (auto simp: reserve_buffered_response_with_projection_def split: option.splits prod.splits if_splits bool.splits)
  have a7: "g' = g \<and> r' = r" if "grow_buffered_response g r n = (g', r', False)"
    using that by (auto simp: grow_buffered_response_def dest!: resize split: option.splits prod.splits if_splits bool.splits)
  have a8: "g' = g \<and> r' = r" if "reserve_response_json g r body = (g', r', False)"
    using that by (auto simp: reserve_response_json_def dest!: resize split: option.splits prod.splits if_splits bool.splits)
  have a9: "g' = g \<and> r' = r" if "take_response_envelope g r = (g', r', None)"
    using that by (auto simp: take_response_envelope_def Let_def split: option.splits prod.splits if_splits bool.splits)
  have a10: "g' = g \<and> r' = r" if "own_response_bytes g r n = (g', r', None)"
    using that by (auto simp: own_response_bytes_def Let_def split: option.splits prod.splits if_splits bool.splits)
  show ?thesis using grow a0 a1 a2 a3 a4 a5 a6 a7 a8 a9 a10 by blast
qed

text \<open>
  Growing and releasing are inverse: a request that has grown by some bytes and releases
  them charges what it charged before and has returned every unit it took.
\<close>

theorem memory_grow_release:
  assumes "res_ok r" and "rs_retained r = None" and "try_grow g r b w = (g1, r1, True)"
  shows "release g1 r1 b w = (g, r\<lparr>rs_permit := Some (permit_units (rs_permit r))\<rparr>)"
proof -
  let ?n = "units (rs_held r + b * w) - units (rs_held r)"
  have g1: "?n \<le> bg_permits g" "rs_held r + b * w \<le> usize_max" "g1 = g\<lparr>bg_permits := bg_permits g - ?n\<rparr>"
    and r1: "r1 = r\<lparr>rs_permit := merge_permit (rs_permit r) ?n, rs_held := rs_held r + b * w\<rparr>"
    using try_grow_cases [OF assms(3)] by auto
  have m: "merge_permit (rs_permit r) ?n = Some (permit_units (rs_permit r) + ?n)"
    by (simp add: merge_permit_def permit_units_def split: option.split)
  show ?thesis
    using g1(1,2) assms(2)
    by (simp add: release_def r1 g1(3) m sat_usize_def drop_split_def split_permit_def less_permit_def)
qed

text \<open>
  The partition works: a request alone in the process, with the permits of finished work
  dropped, is always given its buffered response of up to 64 MiB when the budget leaves 192 MiB
  beside what it already charges.
\<close>

theorem memory_response_progress:
  assumes "mem_reachable bytes s" and "ms_reservations s = [(i, r)]" and "ms_loose s = []"
    and "n \<le> max_buffered_response_bytes" and "units (rs_held r) + 3072 \<le> bytes div unit_bytes"
  shows "\<exists>g' r'. reserve_buffered_response (ms_budget s) r n = (g', r', True) \<and> rs_response_reserved r'"
proof (cases "rs_response_reserved r")
  case False
  let ?k = "units (max (sat_usize (n * capture_memory_weight)) unit_bytes)"
  have inv: "memory_inv s" "bg_capacity (ms_budget s) = bytes" using mem_reachable_inv [OF assms(1)] by auto
  have "res_ok r" using inv(1) assms(2) by (simp add: memory_inv_def tget_def)
  then have "held_units s = int (units (rs_held r))" using assms(2,3) by (simp add: held_units_def tsum_def res_ok_def)
  then have "3072 \<le> bg_permits (ms_budget s)" using inv assms(5) by (simp add: memory_inv_def)
  moreover have "?k \<le> units (192 * 1024 * 1024)"
    using assms(4) by (intro units_mono)
      (auto simp: sat_usize_def capture_memory_weight_def max_buffered_response_bytes_def unit_bytes_def)
  then have "?k \<le> 3072" by (simp add: units_def unit_bytes_def)
  ultimately have "acquire (ms_budget s) ?k \<noteq> None" by (auto simp: acquire_def)
  then obtain g' where "acquire (ms_budget s) ?k = Some g'" by blast
  with False assms(4) show ?thesis
    by (intro exI [of _ g'] exI [of _ "add_response r ?k"]) (simp add: reserve_buffered_response_def add_response_def Let_def)
qed (use assms(4) in \<open>simp add: reserve_buffered_response_def\<close>)
paragraph \<open>The scanner and JSON trees\<close>

text \<open>
  JSON values and their texts, with white space wherever the grammar allows it. A number or
  literal is any text without quotes, brackets, braces, commas and colons; inside a string a
  backslash takes the next byte with it.
\<close>

datatype json = JScalar | JString | JArray "json list" | JObject "json list"

fun tree_nodes :: "json \<Rightarrow> nat" where
  "tree_nodes JScalar = 1"
| "tree_nodes JString = 1"
| "tree_nodes (JArray vs) = 1 + sum_list (map tree_nodes vs)"
| "tree_nodes (JObject vs) = 1 + sum_list (map (\<lambda>v. 1 + tree_nodes v) vs)" \<comment> \<open>a key and a value each\<close>

definition inert :: "string \<Rightarrow> bool" where
  "inert s \<longleftrightarrow> set s \<inter> {CHR 0x22, CHR ''['', CHR ''{'', CHR '','', CHR '':''} = {}"

inductive string_tail :: "string \<Rightarrow> bool" where \<comment> \<open>behind the opening quote, closing quote included\<close>
  "string_tail [CHR 0x22]"
| "c \<noteq> CHR 0x22 \<Longrightarrow> c \<noteq> CHR 0x5C \<Longrightarrow> string_tail s \<Longrightarrow> string_tail (c # s)"
| "string_tail s \<Longrightarrow> string_tail (CHR 0x5C # c # s)"

inductive json_text :: "json \<Rightarrow> string \<Rightarrow> bool"
  and json_elements :: "json list \<Rightarrow> string \<Rightarrow> bool"
  and json_members :: "json list \<Rightarrow> string \<Rightarrow> bool" where
  "inert s \<Longrightarrow> json_text JScalar s"
| "inert a \<Longrightarrow> string_tail s \<Longrightarrow> inert z \<Longrightarrow> json_text JString (a @ CHR 0x22 # s @ z)"
| "inert a \<Longrightarrow> inert z \<Longrightarrow> json_text (JArray []) (a @ CHR ''['' # z)"
| "inert a \<Longrightarrow> json_elements vs s \<Longrightarrow> inert z \<Longrightarrow> json_text (JArray vs) (a @ CHR ''['' # s @ z)"
| "inert a \<Longrightarrow> inert z \<Longrightarrow> json_text (JObject []) (a @ CHR ''{'' # z)"
| "inert a \<Longrightarrow> json_members vs s \<Longrightarrow> inert z \<Longrightarrow> json_text (JObject vs) (a @ CHR ''{'' # s @ z)"
| "json_text v s \<Longrightarrow> json_elements [v] s"
| "json_text v s \<Longrightarrow> json_elements vs t \<Longrightarrow> json_elements (v # vs) (s @ CHR '','' # t)"
| "inert a \<Longrightarrow> string_tail k \<Longrightarrow> inert z \<Longrightarrow> json_text v s \<Longrightarrow> json_members [v] (a @ CHR 0x22 # k @ z @ CHR '':'' # s)"
| "inert a \<Longrightarrow> string_tail k \<Longrightarrow> inert z \<Longrightarrow> json_text v s \<Longrightarrow> json_members vs t \<Longrightarrow>
     json_members (v # vs) (a @ CHR 0x22 # k @ z @ CHR '':'' # s @ CHR '','' # t)"

text \<open>Outside of strings the scanner only adds, and stops adding at the largest count.\<close>

definition scans :: "string \<Rightarrow> nat \<Rightarrow> bool" where
  "scans s n \<longleftrightarrow> (\<forall>sc. \<not> js_quoted sc \<longrightarrow> \<not> js_escaped sc \<longrightarrow> js_nodes sc \<le> usize_max \<longrightarrow>
     foldl scan_byte sc s = sc\<lparr>js_nodes := sat_usize (js_nodes sc + n)\<rparr>)"

lemma scans_Nil: "scans [] 0"
  by (simp add: scans_def sat_usize_def)

lemma scans_append: "scans s n \<Longrightarrow> scans t m \<Longrightarrow> scans (s @ t) (n + m)"
  by (simp add: scans_def sat_usize_def)

lemma scans_inert: "inert s \<Longrightarrow> scans s 0"
proof (induction s)
  case (Cons c s)
  then have "scans s 0" by (simp add: inert_def)
  with Cons.prems show ?case by (auto simp: scans_def inert_def scan_byte_def)
qed (rule scans_Nil)

lemma scans_mark: "c \<in> {CHR ''['', CHR ''{'', CHR '','', CHR '':''} \<Longrightarrow> scans [c] 1"
  by (auto simp: scans_def scan_byte_def)

lemma string_tail_scan:
  "string_tail s \<Longrightarrow> js_quoted sc \<Longrightarrow> \<not> js_escaped sc \<Longrightarrow> foldl scan_byte sc s = sc\<lparr>js_quoted := False\<rparr>"
  by (induction arbitrary: sc rule: string_tail.induct) (auto simp: scan_byte_def)

lemma scans_string: "string_tail s \<Longrightarrow> scans (CHR 0x22 # s) 1"
  by (auto simp: scans_def scan_byte_def string_tail_scan)

lemmas scans_intros = scans_append scans_inert scans_mark scans_string

lemma json_scans:
  "json_text v s \<Longrightarrow> \<exists>n. scans s n \<and> tree_nodes v \<le> n + 1"
  "json_elements vs s \<Longrightarrow> \<exists>n. scans s n \<and> vs \<noteq> [] \<and> sum_list (map tree_nodes vs) \<le> n + 1"
  "json_members vs s \<Longrightarrow> \<exists>n. scans s n \<and> vs \<noteq> [] \<and> sum_list (map (\<lambda>v. 1 + tree_nodes v) vs) \<le> n"
proof (induction rule: json_text_json_elements_json_members.inducts)
  case (1 s)
  then show ?case by (intro exI [of _ 0]) (simp add: scans_inert)
next
  case (2 a s z)
  have "scans (a @ (CHR 0x22 # s) @ z) (0 + (1 + 0))" by (intro scans_intros 2)
  then show ?case by (intro exI [of _ 1]) simp
next
  case (3 a z)
  have "scans (a @ [CHR ''[''] @ z) (0 + (1 + 0))" by (intro scans_intros 3) simp
  then show ?case by (intro exI [of _ 1]) simp
next
  case (4 a vs s z)
  then obtain n where n: "scans s n" "sum_list (map tree_nodes vs) \<le> n + 1" by blast
  have "scans (a @ [CHR ''[''] @ s @ z) (0 + (1 + (n + 0)))" by (intro scans_intros 4 n) simp
  with n show ?case by (intro exI [of _ "1 + n"]) simp
next
  case (5 a z)
  have "scans (a @ [CHR ''{''] @ z) (0 + (1 + 0))" by (intro scans_intros 5) simp
  then show ?case by (intro exI [of _ 1]) simp
next
  case (6 a vs s z)
  then obtain n where n: "scans s n" "sum_list (map (\<lambda>v. 1 + tree_nodes v) vs) \<le> n" by blast
  have "scans (a @ [CHR ''{''] @ s @ z) (0 + (1 + (n + 0)))" by (intro scans_intros 6 n) simp
  with n show ?case by (intro exI [of _ "1 + n"]) simp
next
  case (7 v s)
  then show ?case by simp
next
  case (8 v s vs t)
  then obtain n m where n: "scans s n" "tree_nodes v \<le> n + 1" and m: "scans t m" "sum_list (map tree_nodes vs) \<le> m + 1" by blast
  have "scans (s @ [CHR '',''] @ t) (n + (1 + m))" by (intro scans_intros n m) simp
  with n m show ?case by (intro exI [of _ "n + (1 + m)"]) simp
next
  case (9 a k z v s)
  then obtain n where n: "scans s n" "tree_nodes v \<le> n + 1" by blast
  have "scans (a @ (CHR 0x22 # k) @ z @ [CHR '':''] @ s) (0 + (1 + (0 + (1 + n))))" by (intro scans_intros 9 n) simp
  with n show ?case by (intro exI [of _ "2 + n"]) simp
next
  case (10 a k z v s vs t)
  then obtain n m where n: "scans s n" "tree_nodes v \<le> n + 1" and m: "scans t m" "sum_list (map (\<lambda>v. 1 + tree_nodes v) vs) \<le> m"
    by blast
  have "scans (a @ (CHR 0x22 # k) @ z @ [CHR '':''] @ s @ [CHR '',''] @ t) (0 + (1 + (0 + (1 + (n + (1 + m))))))"
    by (intro scans_intros 10 n m) simp_all
  with n m show ?case by (intro exI [of _ "Suc (Suc (Suc (m + n)))"]) (simp add: ac_simps)
qed

text \<open>
  The preflight scanner never undercounts: for every JSON value and every text of it, the
  number of nodes it reports is at least the number of values and keys of the parsed tree
  (or the largest count there is), so the memory charged covers the tree before it is built.
\<close>

theorem json_scanner_covers_tree:
  assumes "json_text v s"
  shows "min (tree_nodes v) usize_max \<le> json_nodes s"
proof -
  obtain n where n: "scans s n" "tree_nodes v \<le> n + 1" using json_scans(1) [OF assms] by blast
  have "foldl scan_byte new_scanner s = new_scanner\<lparr>js_nodes := sat_usize n\<rparr>"
    using n(1) by (simp add: scans_def new_scanner_def)
  then show ?thesis using n(2) by (simp add: json_nodes_def observe_def Let_def sat_usize_def min_def)
qed

text \<open>Scanning chunk by chunk is scanning the whole body.\<close>

lemma observe_append: "fst (observe (fst (observe sc xs)) ys) = fst (observe sc (xs @ ys))"
  by (simp add: observe_def Let_def)

subsection \<open>Concrete runs\<close>

lemma sample_budget: "new_budget 1048576 = Inr \<lparr>bg_capacity = 1048576, bg_permits = 16, bg_retained = 4\<rparr>"
  by (simp add: new_budget_def supports_def unit_bytes_def u32_max_def usize_max_def)

definition sample_memory :: memory_system where
  "sample_memory = \<lparr>ms_budget = \<lparr>bg_capacity = 1048576, bg_permits = 14, bg_retained = 4\<rparr>,
     ms_reservations = [(0, new_reservation\<lparr>rs_held := 70000, rs_permit := Some 2\<rparr>)], ms_loose = [0]\<rparr>"

lemma sample_memory_reachable: "mem_reachable 1048576 sample_memory"
proof -
  let ?g = "\<lparr>bg_capacity = 1048576, bg_permits = 16, bg_retained = 4\<rparr>"
  let ?s = "initial_memory ?g"
  let ?s1 = "?s\<lparr>ms_reservations := tput 0 new_reservation (ms_reservations ?s)\<rparr>"
  have "mem_reachable 1048576 ?s" by (rule mem_reachable.start [OF sample_budget])
  moreover have "mem_step ?s ?s1" by (rule mem_step.begin_request) (simp add: initial_memory_def tget_def)
  ultimately have r1: "mem_reachable 1048576 ?s1" by (rule mem_reachable.after)
  have "exec_call (Grow 35000 2) (ms_budget ?s1) new_reservation =
      (\<lparr>bg_capacity = 1048576, bg_permits = 14, bg_retained = 4\<rparr>, new_reservation\<lparr>rs_held := 70000, rs_permit := Some 2\<rparr>, 0)"
    by (simp add: try_grow_def checked_usize_def as_u32_def acquire_def units_def unit_bytes_def usize_max_def u32_max_def
        merge_permit_def new_reservation_def initial_memory_def)
  then have "mem_step ?s1 (?s1\<lparr>ms_budget := \<lparr>bg_capacity = 1048576, bg_permits = 14, bg_retained = 4\<rparr>,
      ms_reservations := tput 0 (new_reservation\<lparr>rs_held := 70000, rs_permit := Some 2\<rparr>) (ms_reservations ?s1),
      ms_loose := 0 # ms_loose ?s1\<rparr>)"
    by (intro mem_step.on_call [where c = "Grow 35000 2" and r = new_reservation]) (simp_all add: tbl_simps initial_memory_def)
  then have "mem_step ?s1 sample_memory" by (simp add: sample_memory_def initial_memory_def tput_def)
  with r1 show ?thesis by (rule mem_reachable.after)
qed

theorem memory_within_budget_witness:
  "tsum (\<lambda>_ r. int (rs_held r)) (ms_reservations sample_memory) \<le> 1048576 \<and> fst (snapshot (ms_budget sample_memory)) = 131072"
proof -
  have "held_units sample_memory * int unit_bytes = 131072"
    by (simp add: held_units_def sample_memory_def tsum_def mem_simps unit_bytes_def)
  with memory_within_budget [OF sample_memory_reachable] show ?thesis by (simp add: sample_memory_def)
qed

theorem memory_admission_atomic_witness:
  "\<exists>g' r'. try_grow \<lparr>bg_capacity = 1048576, bg_permits = 0, bg_retained = 4\<rparr> new_reservation 1 1 = (g', r', False) \<and>
     g' = \<lparr>bg_capacity = 1048576, bg_permits = 0, bg_retained = 4\<rparr> \<and> r' = new_reservation"
proof -
  let ?g = "\<lparr>bg_capacity = 1048576, bg_permits = 0, bg_retained = 4\<rparr>"
  obtain g' r' where run: "try_grow ?g new_reservation 1 1 = (g', r', False)"
    by (simp add: try_grow_def checked_usize_def as_u32_def acquire_def units_def unit_bytes_def usize_max_def u32_max_def
        new_reservation_def)
  with memory_admission_atomic [of ?g new_reservation 1 1 g' r'] show ?thesis by blast
qed

theorem memory_grow_release_witness:
  "\<exists>g1 r1. try_grow \<lparr>bg_capacity = 1048576, bg_permits = 16, bg_retained = 4\<rparr> new_reservation 35000 2 = (g1, r1, True) \<and>
     bg_permits (fst (release g1 r1 35000 2)) = 16"
proof -
  let ?g = "\<lparr>bg_capacity = 1048576, bg_permits = 16, bg_retained = 4\<rparr>"
  obtain g1 r1 where run: "try_grow ?g new_reservation 35000 2 = (g1, r1, True)"
    by (simp add: try_grow_def checked_usize_def as_u32_def acquire_def units_def unit_bytes_def usize_max_def u32_max_def
        new_reservation_def)
  have "rs_retained new_reservation = None" by (simp add: new_reservation_def)
  from memory_grow_release [OF new_reservation_ok this run] run show ?thesis by simp
qed

theorem json_scanner_covers_tree_witness:
  "4 \<le> json_nodes ''[1,{}, 2]''"
proof -
  have i: "inert ''1''" "inert ''}''" "inert '' 2''" "inert []" "inert '']''" by (simp_all add: inert_def)
  have "json_elements [JScalar, JObject [], JScalar] (''1'' @ CHR '','' # ([] @ CHR ''{'' # ''}'') @ CHR '','' # '' 2'')"
    by (intro json_text_json_elements_json_members.intros i)
  then have "json_text (JArray [JScalar, JObject [], JScalar])
      ([] @ CHR ''['' # (''1'' @ CHR '','' # ([] @ CHR ''{'' # ''}'') @ CHR '','' # '' 2'') @ '']'')"
    by (intro json_text_json_elements_json_members.intros(4) i)
  from json_scanner_covers_tree [OF this] show ?thesis by (simp add: usize_max_def)
qed

theorem memory_response_progress_witness:
  "\<exists>g' r'. reserve_buffered_response \<lparr>bg_capacity = 268435456, bg_permits = 4096, bg_retained = 1024\<rparr> new_reservation 67108864
     = (g', r', True)"
proof -
  let ?g = "\<lparr>bg_capacity = 268435456, bg_permits = 4096, bg_retained = 1024\<rparr>"
  let ?s = "\<lparr>ms_budget = ?g, ms_reservations = [(0, new_reservation)], ms_loose = []\<rparr>"
  have "new_budget 268435456 = Inr ?g"
    by (simp add: new_budget_def supports_def unit_bytes_def u32_max_def usize_max_def)
  then have "mem_reachable 268435456 (initial_memory ?g)" by (rule mem_reachable.start)
  moreover have "mem_step (initial_memory ?g) ((initial_memory ?g)\<lparr>ms_reservations :=
      tput 0 new_reservation (ms_reservations (initial_memory ?g))\<rparr>)"
    by (rule mem_step.begin_request) (simp add: initial_memory_def tget_def)
  ultimately have "mem_reachable 268435456 ?s"
    using mem_reachable.after by (fastforce simp: initial_memory_def tput_def)
  then show ?thesis
    using memory_response_progress [of 268435456 ?s 0 new_reservation 67108864]
    by (auto simp: max_buffered_response_bytes_def units_def unit_bytes_def new_reservation_def)
qed

end
