(* ===== verification/Spec2Isabelle.thy ===== *)
theory Spec2Isabelle
  imports Billing_System Settlement_Adjust Subscription_Entitlements Archive_Staging Settlement_Feed Request_Events Generation_Guarantees Sse_Framer Memory_Budget
begin

text \<open>
  The accounting core of the token center, a gateway that sells access to language models: a
  request reserves money from a prepaid account, is forwarded to a provider, and is settled
  for what it used; an asynchronous generation job is such a request whose work lasts from
  minutes to hours. This library models the transactions that move money, the life of
  generation jobs, the transactions that keep archived objects, and two pure data paths of
  the gateway, and shows what makes them correct.

  \<^bold>\<open>Parts of the program and where they are modelled.\<close>
  \<^item> \<open>MTC_Prelude\<close>: 64-bit integers as bounded \<open>int\<close> with checked and saturating operations,
    errors as sums (\<open>rbind\<close>, \<open>ensure\<close>, \<open>ok_or\<close>), tables as keyed lists, truncating division,
    and the locale \<open>row_evolution\<close> for tables whose rows only move forward. \<open>App_Error\<close> is
    \<open>src/src/error.rs\<close>, \<open>Rust_Strings\<close> the string functions of the standard library that the
    code uses, \<open>Money\<close> the amounts of \<open>src/src/model.rs\<close> and \<open>src/src/db/validation.rs\<close>.
  \<^item> \<open>Billing_Tables\<close>: the rows of the accounting tables (\<open>src/migrations\<close>), the state
    \<open>billing_db\<close>, the accounting invariant \<open>billing_inv\<close> and the relation \<open>posts\<close>, by which an
    operation says how it moves one account.
  \<^item> \<open>Usage_Pricing\<close>, \<open>Reserve_Usage\<close>, \<open>Settle_Usage\<close>, \<open>Usage_Maintenance\<close>:
    \<open>src/src/db/requests/settlement.rs\<close>, from prices and ceilings over reservation, budgets and
    rate windows to settlement, subscription allocation and retention.
  \<^item> \<open>Ledger_Grants\<close>: \<open>src/src/db/billing/ledger.rs\<close>. \<open>Settlement_Adjust\<close>: rebates,
    \<open>src/src/db/billing/settlement_adjustments\<close>. \<open>Subscription_Entitlements\<close>:
    \<open>src/src/db/billing/entitlements.rs\<close>. \<open>Settlement_Feed\<close>: \<open>src/src/db/billing/settlements.rs\<close>.
  \<^item> \<open>Billing_System\<close>: the transactions of the files above as one system, interleaved in any
    order, and an abstract bank that specifies them.
  \<^item> \<open>Archive_Staging\<close>: \<open>src/src/archive_staging.rs\<close>, \<open>src/src/db/archive_staging.rs\<close>, the clean-up
    statements of \<open>src/src/db/generation/mod.rs\<close> and \<open>src/src/archive_reaper.rs\<close>.
  \<^item> \<open>Request_Events\<close>: the event cursor of \<open>src/src/db/requests/lifecycle.rs\<close>.
  \<^item> \<open>Generation_Tables\<close>, \<open>Generation_Rollups\<close>, \<open>Generation_Jobs\<close>: the rows and structures of
    generation jobs, the statistics of \<open>src/src/db/generation/aggregation.rs\<close>, and the
    transactions of \<open>jobs.rs\<close>, \<open>jobs/finish.rs\<close>, \<open>reconcile.rs\<close> and \<open>terminal.rs\<close> in
    \<open>src/src/db/generation\<close>. They call reservation, settlement, feed, event cursor and staging.
    \<open>Generation_Lifecycle\<close> gives the state machine of a job (\<open>row_move\<close>, \<open>ends\<close>), shows that
    each transaction is a move, an end or an admission, and composes them with the other
    users of the tables (\<open>job_step\<close>, \<open>job_run\<close>); \<open>Generation_Guarantees\<close> states what follows.
  \<^item> \<open>Sse_Framer\<close>: \<open>src/src/api/sse/framer.rs\<close>. \<open>Memory_Budget\<close>: \<open>src/src/gateway_body/memory.rs\<close>.

  \<^bold>\<open>How the code is rendered.\<close> A transaction is a function from the tables it may touch to an
  error, which rolls everything back, or to the new tables and its result. Every early
  return and every failing statement is a branch; an overflow of a \<open>BIGINT\<close> expression fails
  the statement (\<open>sql_int\<close>), \<open>checked_\<close> and \<open>saturating_\<close> operations are \<open>checked\<close> and \<open>sat\<close>.
  Transactions are serial, which row locks and \<open>BEGIN IMMEDIATE\<close> provide; a lock appears in the
  model only where the code checks that the row exists. Clocks and freshly drawn identifiers
  are arguments, so a theorem holds for any clock and any draw. Code that is not in the
  repository is a parameter: the decimal parser, JSON serialisation, digests, the text form of
  UUIDs, the object store. How the connection fares in each attempt to attach a request is an
  argument too, lost acknowledgements included.

  \<^bold>\<open>What is shown.\<close>
  \<^item> Accounting: every transaction keeps the invariant that an account holds what its ledger
    says and reserves the sum of its open holds, moves exactly the amount it reports, and is
    idempotent where the code means it to be; the whole system refines the abstract bank and
    charges a reservation once. Budgets and rate limits bound what is admitted and charged.
  \<^item> Rebates and subscriptions: cumulative rebates stay within the cost and versions never
    go back; a cycle is funded as requested and a replaced subscription is final.
  \<^item> Feed and events: settlements are numbered without gaps and a client following the pages
    misses none; an event cursor is always found and lies behind every earlier event.
  \<^item> Generation: whatever clients, workers, reapers and operators do in whatever order, a job
    has one reservation, held while the job is open and settled at its cost when it ends, is
    published and counted once, belongs to one worker at a time, is started once under an
    idempotency key, and stays as it is while its delivery is unknown; the counters of the
    usage tables are the sums of the facts.
  \<^item> Staging: an object of an attempt that is being written or is bound is never deleted, in
    any interleaving of writers and reapers with expired leases; rows follow the shape of the
    schema; the reaper makes progress.
  \<^item> Data paths: the framer loses no byte, keeps its limits and does not depend on chunking;
    the memory budget is never exceeded and a refused request changes nothing.

  \<^bold>\<open>Termination, bounds and fuel.\<close> Loops over rows and bytes are structural recursion. The
  loop of the event cursor is a partial function whose value \<open>None\<close> means that it does not end;
  it is shown to end. Page reading takes the number of pages as its fuel, and says what is
  read for every number. The reaper makes at most four claims in one pass, and attaching a
  request makes at most four attempts, as in the code.

  \<^bold>\<open>Not modelled.\<close> Forwarding to providers, their wire formats, routing and health, plugins,
  OAuth and cryptography, conversations and their projection, the response spool, analytics,
  configuration and the HTTP surface: they are asynchronous I/O around the transactions
  above, translations of JSON over third-party libraries, or read-only reports. Of the
  modelled files, the listing queries and the provisioning of cloud entitlements are left
  out, and in \<open>src/src/db/archive_staging.rs\<close> the preparation of session bodies. Of generation,
  the image requests answered in the same call, the loops that call providers, the download
  of assets and the entry points that only tests use are left out.
\<close>

end
